(* ===== verification/GoBase.thy ===== *)
theory GoBase
  imports Complex_Main "HOL-Library.Word" "HOL-Library.AList" "HOL-Library.Monad_Syntax"
begin

text \<open>
  The prelude of the development: the fragment of Go's run-time behaviour that every component
  shares (bounds-checked slices, fixed-width integers, durations and clock differences), the
  collections of facts the component proofs draw on, and the contract \<open>invariant_system\<close> under
  which every state machine of the development derives "holds in every reachable state".

  Conventions used throughout:
  \<^item> a computation of type \<open>'a option\<close> whose failure is a Go run-time panic (index out of range,
    close of a closed channel) or a loop that never returns is \<open>None\<close> there;
  \<^item> Go's \<open>int\<close>, \<open>int64\<close> and \<open>time.Duration\<close> are \<open>int\<close>; where the code's arithmetic can leave
    the 64-bit range the wrap-around is written out with \<open>wrap64\<close>; unsigned counters and hashes
    are \<open>'n word\<close>;
  \<^item> an instant (\<open>time.Time\<close>) is a number of nanoseconds.
\<close>

unbundle bit_operations_syntax

named_theorems go_simps
named_theorems inv_intros
named_theorems no_panic

type_synonym u8 = "8 word"
type_synonym u32 = "32 word"
type_synonym u64 = "64 word"
type_synonym bytes = "char list"
type_synonym instant = int
type_synonym duration = int

section \<open>Fixed-width integers and time\<close>

definition wrap64 :: "int \<Rightarrow> int" where
  "wrap64 x = (x + 2 ^ 63) mod 2 ^ 64 - 2 ^ 63"

definition in_int64 :: "int \<Rightarrow> bool" where
  "in_int64 x \<longleftrightarrow> - (2 ^ 63) \<le> x \<and> x < 2 ^ 63"

definition second :: duration where
  "second = 1000000000"

definition maxDuration :: duration where
  "maxDuration = 2 ^ 63 - 1"

definition minDuration :: duration where
  "minDuration = - (2 ^ 63)"

text \<open>\<open>time.Time.Sub\<close> saturates at the bounds of \<open>time.Duration\<close>.\<close>

definition time_Sub :: "instant \<Rightarrow> instant \<Rightarrow> duration" where
  "time_Sub u t = max minDuration (min maxDuration (u - t))"

lemma wrap64_id [go_simps]: "in_int64 x \<Longrightarrow> wrap64 x = x"
  by (simp add: wrap64_def in_int64_def)

lemma wrap64_range: "in_int64 (wrap64 x)"
proof -
  have "0 \<le> (x + 2 ^ 63) mod 2 ^ 64" and "(x + 2 ^ 63) mod 2 ^ 64 < 2 ^ 64"
    by (simp_all add: pos_mod_bound)
  then show ?thesis by (simp add: wrap64_def in_int64_def)
qed

lemma wrap64_mod: "wrap64 x mod 2 ^ 64 = x mod 2 ^ 64"
  unfolding wrap64_def by (metis add_diff_cancel_right' mod_diff_left_eq)

lemma wrap64_eqI: "x mod 2 ^ 64 = y mod 2 ^ 64 \<Longrightarrow> wrap64 x = wrap64 y"
  unfolding wrap64_def by (metis mod_add_left_eq)

lemma wrap64_add: "wrap64 (wrap64 a + b) = wrap64 (a + b)" "wrap64 (a + wrap64 b) = wrap64 (a + b)"
  by (metis wrap64_eqI wrap64_mod mod_add_left_eq, metis wrap64_eqI wrap64_mod mod_add_right_eq)

lemma time_Sub_mono: "u \<le> u' \<Longrightarrow> time_Sub u t \<le> time_Sub u' t"
  by (simp add: time_Sub_def)

lemma time_Sub_exact: "in_int64 (u - t) \<Longrightarrow> time_Sub u t = u - t"
  by (simp add: time_Sub_def in_int64_def maxDuration_def minDuration_def)

lemma time_Sub_self [simp]: "time_Sub t t = 0"
  by (simp add: time_Sub_def maxDuration_def minDuration_def)

text \<open>\<open>bits.Len64\<close>: the number of bits needed to write a value.\<close>

fun bit_len :: "nat \<Rightarrow> nat" where
  "bit_len n = (if n = 0 then 0 else Suc (bit_len (n div 2)))"

declare bit_len.simps [simp del]

definition bits_Len64 :: "u64 \<Rightarrow> nat" where
  "bits_Len64 x = bit_len (unat x)"

lemma bit_len_zero [simp]: "bit_len 0 = 0"
  by (subst bit_len.simps) simp

lemma bit_len_upper: "n < 2 ^ bit_len n"
proof (induction n rule: bit_len.induct)
  case (1 n)
  show ?case
  proof (cases "n = 0")
    case False
    with "1.IH" have "n div 2 < 2 ^ bit_len (n div 2)" by blast
    then have "n < 2 * 2 ^ bit_len (n div 2)" by linarith
    with False show ?thesis by (simp add: bit_len.simps [of n])
  qed simp
qed

lemma bit_len_lower: "0 < n \<Longrightarrow> 2 ^ (bit_len n - 1) \<le> n"
proof (induction n rule: bit_len.induct)
  case (1 n)
  show ?case
  proof (cases "n div 2 = 0")
    case True
    with "1.prems" have "n = 1" by linarith
    then show ?thesis by (simp add: bit_len.simps [of "Suc 0"])
  next
    case False
    with "1.IH" "1.prems" have IH: "2 ^ (bit_len (n div 2) - 1) \<le> n div 2" by simp
    obtain m where m: "bit_len (n div 2) = Suc m"
      using False by (subst (asm) bit_len.simps [of "n div 2"]) (auto simp: bit_len.simps [of "n div 2"])
    with IH have "2 ^ Suc m \<le> n" by simp
    with m "1.prems" show ?thesis by (simp add: bit_len.simps [of n])
  qed
qed

lemma bit_len_le: "n < 2 ^ k \<Longrightarrow> bit_len n \<le> k"
proof (rule ccontr)
  assume n: "n < 2 ^ k" and "\<not> bit_len n \<le> k"
  then have k: "k \<le> bit_len n - 1" and "0 < n"
    by (auto intro!: gr0I)
  have "(2::nat) ^ k \<le> 2 ^ (bit_len n - 1)"
    using k by (rule power_increasing) simp
  also have "\<dots> \<le> n" using \<open>0 < n\<close> by (rule bit_len_lower)
  finally show False using n by simp
qed

text \<open>\<open>hex.EncodeToString\<close>.\<close>

definition hex_digit :: "nat \<Rightarrow> char" where
  "hex_digit d = ''0123456789abcdef'' ! d"

definition hex_EncodeToString :: "bytes \<Rightarrow> string" where
  "hex_EncodeToString b = concat (map (\<lambda>c. [hex_digit (of_char c div 16), hex_digit (of_char c mod 16)]) b)"

text \<open>The number of elements with a property.\<close>

definition tally :: "('a \<Rightarrow> bool) \<Rightarrow> 'a list \<Rightarrow> int" where
  "tally P es = int (length (filter P es))"

lemma tally_simps [simp]: "tally P [] = 0" "tally P (es @ [e]) = tally P es + (if P e then 1 else 0)"
  by (simp_all add: tally_def)

lemma tally_nonneg: "0 \<le> tally P es"
  by (simp add: tally_def)

lemma tally_mono: "(\<And>e. e \<in> set es \<Longrightarrow> P e \<Longrightarrow> Q e) \<Longrightarrow> tally P es \<le> tally Q es"
  by (induction es rule: rev_induct) auto

section \<open>Bounds-checked slices\<close>

text \<open>Reading or writing a slice out of range panics: the result is \<open>None\<close>.\<close>

definition idx_get :: "'a list \<Rightarrow> nat \<Rightarrow> 'a option" where
  "idx_get xs i = (if i < length xs then Some (xs ! i) else None)"

definition idx_set :: "'a list \<Rightarrow> nat \<Rightarrow> 'a \<Rightarrow> 'a list option" where
  "idx_set xs i v = (if i < length xs then Some (xs[i := v]) else None)"

text \<open>\<open>s[lo:hi]\<close> on a slice of that length; Go panics unless \<open>0 \<le> lo \<le> hi \<le> len\<close>.\<close>

definition go_slice :: "'a list \<Rightarrow> int \<Rightarrow> int \<Rightarrow> 'a list option" where
  "go_slice xs lo hi =
     (if 0 \<le> lo \<and> lo \<le> hi \<and> hi \<le> int (length xs)
      then Some (take (nat hi - nat lo) (drop (nat lo) xs)) else None)"

lemma idx_get_Some [no_panic]: "i < length xs \<Longrightarrow> idx_get xs i = Some (xs ! i)"
  by (simp add: idx_get_def)

lemma idx_set_Some [no_panic]: "i < length xs \<Longrightarrow> idx_set xs i v = Some (xs[i := v])"
  by (simp add: idx_set_def)

lemma go_slice_Some [no_panic]:
  "0 \<le> lo \<Longrightarrow> lo \<le> hi \<Longrightarrow> hi \<le> int (length xs) \<Longrightarrow>
   go_slice xs lo hi = Some (take (nat hi - nat lo) (drop (nat lo) xs))"
  by (simp add: go_slice_def)

lemma length_go_slice: "go_slice xs lo hi = Some ys \<Longrightarrow> int (length ys) = hi - lo"
  by (auto simp: go_slice_def split: if_splits)

section \<open>Computations that return\<close>

text \<open>
  \<open>returns m P\<close>: the computation \<open>m\<close> returns (no panic, no endless loop) and its result satisfies \<open>P\<close>. The
  rules below take a composed computation apart along its binds and branches.
\<close>

definition returns :: "'a option \<Rightarrow> ('a \<Rightarrow> bool) \<Rightarrow> bool" where
  "returns m P \<longleftrightarrow> (\<exists>x. m = Some x \<and> P x)"

lemma returns_Some [simp]: "returns (Some x) P \<longleftrightarrow> P x"
  by (simp add: returns_def)

lemma returnsI: "m = Some x \<Longrightarrow> P x \<Longrightarrow> returns m P"
  by (simp add: returns_def)

lemma returnsE: "returns m P \<Longrightarrow> (\<And>x. m = Some x \<Longrightarrow> P x \<Longrightarrow> thesis) \<Longrightarrow> thesis"
  by (auto simp: returns_def)

lemma returns_bind: "returns m Q \<Longrightarrow> (\<And>x. Q x \<Longrightarrow> returns (f x) P) \<Longrightarrow> returns (m \<bind> f) P"
  by (auto simp: returns_def)

lemma returns_mono: "returns m Q \<Longrightarrow> (\<And>x. Q x \<Longrightarrow> P x) \<Longrightarrow> returns m P"
  by (auto simp: returns_def)

lemma returns_if: "(b \<Longrightarrow> returns m P) \<Longrightarrow> (\<not> b \<Longrightarrow> returns n P) \<Longrightarrow> returns (if b then m else n) P"
  by simp

section \<open>State machines with an invariant\<close>

text \<open>
  The contract of a state machine: the start states satisfy the invariant and every step keeps it.
  Each component with a step relation interprets it; what the locale gives back is that the
  invariant holds in every reachable state and along every run.
\<close>

inductive reachable :: "('s \<Rightarrow> bool) \<Rightarrow> ('s \<Rightarrow> 's \<Rightarrow> bool) \<Rightarrow> 's \<Rightarrow> bool"
  for init :: "'s \<Rightarrow> bool" and step :: "'s \<Rightarrow> 's \<Rightarrow> bool" where
  start: "init s \<Longrightarrow> reachable init step s"
| step: "reachable init step s \<Longrightarrow> step s t \<Longrightarrow> reachable init step t"

locale invariant_system =
  fixes init :: "'s \<Rightarrow> bool"
    and step :: "'s \<Rightarrow> 's \<Rightarrow> bool"
    and inv :: "'s \<Rightarrow> bool"
  assumes inv_init: "init s \<Longrightarrow> inv s"
    and inv_step: "inv s \<Longrightarrow> step s t \<Longrightarrow> inv t"
begin

lemma reachable_inv: "reachable init step s \<Longrightarrow> inv s"
  by (induction rule: reachable.induct) (auto intro: inv_init inv_step)

lemma run_inv: "inv s \<Longrightarrow> step\<^sup>*\<^sup>* s t \<Longrightarrow> inv t"
  by (rotate_tac, induction rule: rtranclp_induct) (auto intro: inv_step)

end

end
