(* ===== verification/TinyLFU.thy ===== *)
theory TinyLFU
  imports GoBase
begin

text \<open>
  \<open>cache/tinylfu.go\<close>: the count-min sketch, the doorkeeper Bloom filter and the TinyLFU admission
  policy built on them. The third-party hash \<open>xxhash.Sum64String\<close> is the parameter \<open>xx\<close> of every
  definition that hashes a key; nothing is assumed of it. A slice index out of range would panic,
  so the operations return \<open>None\<close> there; \<open>wf_TinyLFU\<close> is the shape the constructors establish, and
  under it no operation panics.
\<close>

section \<open>Count-min sketch\<close>

record countMinSketch =
  cmsRows :: "u8 list list"
  cmsWidth :: u64
  cmsMask :: u64

definition nextPow2 :: "u64 \<Rightarrow> u64" where
  "nextPow2 v = (if v = 0 then 1 else push_bit (bits_Len64 (v - 1)) 1)"

definition newCountMinSketch :: "int \<Rightarrow> countMinSketch" where
  "newCountMinSketch maxItems =
     (let w0 = nextPow2 (word_of_int maxItems * 10);
          w = (if w0 < 4096 then 4096 else w0)
      in \<lparr>cmsRows = replicate 4 (replicate (unat w) 0), cmsWidth = w, cmsMask = w - 1\<rparr>)"

definition cmsHashes :: "(string \<Rightarrow> u64) \<Rightarrow> countMinSketch \<Rightarrow> string \<Rightarrow> u64 list" where
  "cmsHashes xx s key =
     (let h = xx key;
          h1 = h;
          h2 = (drop_bit 32 h) OR (push_bit 32 h);
          h2 = (if h2 = 0 then 0x9E3779B97F4A7C15 else h2)
      in map (\<lambda>i. (h1 + of_nat i * h2) AND cmsMask s) [0..<4])"

fun inc_rows :: "u8 list list \<Rightarrow> u64 list \<Rightarrow> u8 list list option" where
  "inc_rows [] js = Some []"
| "inc_rows (r # rs) [] = None"
| "inc_rows (r # rs) (j # js) =
     do {
       v \<leftarrow> idx_get r (unat j);
       r' \<leftarrow> (if v < 255 then idx_set r (unat j) (v + 1) else Some r);
       rs' \<leftarrow> inc_rows rs js;
       Some (r' # rs')
     }"

definition cms_increment :: "(string \<Rightarrow> u64) \<Rightarrow> countMinSketch \<Rightarrow> string \<Rightarrow> countMinSketch option" where
  "cms_increment xx s key =
     do {
       rows \<leftarrow> inc_rows (cmsRows s) (cmsHashes xx s key);
       Some (s\<lparr>cmsRows := rows\<rparr>)
     }"

fun est_rows :: "u8 list list \<Rightarrow> u64 list \<Rightarrow> u8 \<Rightarrow> u8 option" where
  "est_rows [] js m = Some m"
| "est_rows (r # rs) [] m = None"
| "est_rows (r # rs) (j # js) m =
     do {
       v \<leftarrow> idx_get r (unat j);
       est_rows rs js (if v < m then v else m)
     }"

definition cms_estimate :: "(string \<Rightarrow> u64) \<Rightarrow> countMinSketch \<Rightarrow> string \<Rightarrow> u8 option" where
  "cms_estimate xx s key = est_rows (cmsRows s) (cmsHashes xx s key) 255"

definition cms_halve :: "countMinSketch \<Rightarrow> countMinSketch" where
  "cms_halve s = s\<lparr>cmsRows := map (map (drop_bit 1)) (cmsRows s)\<rparr>"

definition cms_reset :: "countMinSketch \<Rightarrow> countMinSketch" where
  "cms_reset s = s\<lparr>cmsRows := map (map (\<lambda>_. 0)) (cmsRows s)\<rparr>"

section \<open>Doorkeeper\<close>

record doorkeeper =
  dkBits :: "u64 list"
  dkN :: u64
  dkMask :: u64

definition newDoorkeeper :: "int \<Rightarrow> doorkeeper" where
  "newDoorkeeper maxItems =
     (let t0 = nextPow2 (word_of_int maxItems * 8);
          totalBits = (if t0 < 64 then 64 else t0);
          nWords = totalBits div 64
      in \<lparr>dkBits = replicate (unat nWords) 0, dkN = nWords, dkMask = totalBits - 1\<rparr>)"

definition bit_is_set :: "u64 \<Rightarrow> u64 \<Rightarrow> bool" where
  "bit_is_set x b \<longleftrightarrow> drop_bit (unat b) x AND 1 = 1"

definition dk_add :: "(string \<Rightarrow> u64) \<Rightarrow> doorkeeper \<Rightarrow> string \<Rightarrow> (bool \<times> doorkeeper) option" where
  "dk_add xx d key =
     (let h = xx key;
          h1 = h AND dkMask d;
          h2 = (drop_bit 32 h OR push_bit 32 h) AND dkMask d;
          w1 = unat (h1 div 64); b1 = h1 mod 64;
          w2 = unat (h2 div 64); b2 = h2 mod 64
      in do {
           x1 \<leftarrow> idx_get (dkBits d) w1;
           x2 \<leftarrow> idx_get (dkBits d) w2;
           let present = bit_is_set x1 b1 \<and> bit_is_set x2 b2;
           bits1 \<leftarrow> idx_set (dkBits d) w1 (x1 OR push_bit (unat b1) 1);
           y2 \<leftarrow> idx_get bits1 w2;
           bits2 \<leftarrow> idx_set bits1 w2 (y2 OR push_bit (unat b2) 1);
           Some (present, d\<lparr>dkBits := bits2\<rparr>)
         })"

definition dk_contains :: "(string \<Rightarrow> u64) \<Rightarrow> doorkeeper \<Rightarrow> string \<Rightarrow> bool option" where
  "dk_contains xx d key =
     (let h = xx key;
          h1 = h AND dkMask d;
          h2 = (drop_bit 32 h OR push_bit 32 h) AND dkMask d;
          w1 = unat (h1 div 64); b1 = h1 mod 64;
          w2 = unat (h2 div 64); b2 = h2 mod 64
      in do {
           x1 \<leftarrow> idx_get (dkBits d) w1;
           x2 \<leftarrow> idx_get (dkBits d) w2;
           Some (bit_is_set x1 b1 \<and> bit_is_set x2 b2)
         })"

definition dk_reset :: "doorkeeper \<Rightarrow> doorkeeper" where
  "dk_reset d = d\<lparr>dkBits := map (\<lambda>_. 0) (dkBits d)\<rparr>"

section \<open>TinyLFU\<close>

record TinyLFU =
  lfuSketch :: countMinSketch
  lfuDoor :: doorkeeper
  lfuCounter :: int
  lfuMaxItems :: int

definition newTinyLFU :: "int \<Rightarrow> TinyLFU" where
  "newTinyLFU maxItems =
     (let sw = wrap64 (maxItems * 10);
          sampleWindow = (if sw < 1000 then 1000 else sw)
      in \<lparr>lfuSketch = newCountMinSketch maxItems, lfuDoor = newDoorkeeper maxItems,
          lfuCounter = 0, lfuMaxItems = sampleWindow\<rparr>)"

definition Increment :: "(string \<Rightarrow> u64) \<Rightarrow> TinyLFU \<Rightarrow> string \<Rightarrow> TinyLFU option" where
  "Increment xx t key =
     do {
       (present, door) \<leftarrow> dk_add xx (lfuDoor t) key;
       sketch \<leftarrow> (if present then cms_increment xx (lfuSketch t) key else Some (lfuSketch t));
       let c = lfuCounter t + 1;
       Some (if c \<ge> lfuMaxItems t
             then t\<lparr>lfuSketch := cms_halve sketch, lfuDoor := dk_reset door, lfuCounter := 0\<rparr>
             else t\<lparr>lfuSketch := sketch, lfuDoor := door, lfuCounter := c\<rparr>)
     }"

definition Estimate :: "(string \<Rightarrow> u64) \<Rightarrow> TinyLFU \<Rightarrow> string \<Rightarrow> u8 option" where
  "Estimate xx t key = cms_estimate xx (lfuSketch t) key"

definition Admit :: "(string \<Rightarrow> u64) \<Rightarrow> TinyLFU \<Rightarrow> string \<Rightarrow> string \<Rightarrow> bool option" where
  "Admit xx t newKey victimKey =
     do {
       newFreq \<leftarrow> cms_estimate xx (lfuSketch t) newKey;
       victimFreq \<leftarrow> cms_estimate xx (lfuSketch t) victimKey;
       Some (newFreq \<ge> victimFreq)
     }"

text \<open>A run of accesses, one \<open>Increment\<close> per \<open>Cache.Get\<close>.\<close>

fun Increments :: "(string \<Rightarrow> u64) \<Rightarrow> TinyLFU \<Rightarrow> string list \<Rightarrow> TinyLFU option" where
  "Increments xx t [] = Some t"
| "Increments xx t (k # ks) = do { t' \<leftarrow> Increment xx t k; Increments xx t' ks }"

section \<open>Well-formedness\<close>

definition wf_sketch :: "countMinSketch \<Rightarrow> bool" where
  "wf_sketch s \<longleftrightarrow> length (cmsRows s) = 4 \<and> (\<forall>r\<in>set (cmsRows s). length r = unat (cmsWidth s)) \<and>
     0 < cmsWidth s \<and> cmsMask s = cmsWidth s - 1"

definition wf_door :: "doorkeeper \<Rightarrow> bool" where
  "wf_door d \<longleftrightarrow> length (dkBits d) = unat (dkN d) \<and> unat (dkMask d) < 64 * unat (dkN d)"

definition wf_TinyLFU :: "TinyLFU \<Rightarrow> bool" where
  "wf_TinyLFU t \<longleftrightarrow> wf_sketch (lfuSketch t) \<and> wf_door (lfuDoor t) \<and>
     0 \<le> lfuCounter t \<and> lfuCounter t < lfuMaxItems t"

section \<open>Facts about the sketch\<close>

lemma mask_index:
  fixes m w x :: u64
  assumes "m = w - 1" and "0 < w"
  shows "unat (x AND m) < unat w"
proof -
  have "x AND m \<le> m" by (rule word_and_le1)
  then have "unat (x AND m) \<le> unat m" by (simp add: word_le_nat_alt)
  also have "unat m < unat w"
    using assms by (simp add: unat_minus_one word_gt_0 unat_gt_0)
  finally show ?thesis .
qed

definition rows_ok :: "u8 list list \<Rightarrow> u64 list \<Rightarrow> bool" where
  "rows_ok rows js \<longleftrightarrow> list_all2 (\<lambda>r j. unat j < length r) rows js"

definition inc_row :: "u8 list \<Rightarrow> u64 \<Rightarrow> u8 list" where
  "inc_row r j = (if r ! unat j < 255 then r[unat j := r ! unat j + 1] else r)"

definition cells :: "u8 list list \<Rightarrow> u64 list \<Rightarrow> u8 list" where
  "cells rows js = map2 (\<lambda>r j. r ! unat j) rows js"

lemma length_inc_row [simp]: "length (inc_row r j) = length r"
  by (simp add: inc_row_def)

lemma inc_rows_eq: "rows_ok rows js \<Longrightarrow> inc_rows rows js = Some (map2 inc_row rows js)"
proof (induction rows js rule: inc_rows.induct)
  case (3 r rs j js)
  then show ?case by (auto simp: rows_ok_def inc_row_def no_panic)
qed (auto simp: rows_ok_def)

lemma est_rows_eq: "rows_ok rows js \<Longrightarrow> est_rows rows js m = Some (fold min (cells rows js) m)"
proof (induction rows js m rule: est_rows.induct)
  case (3 r rs j js m)
  then show ?case by (auto simp: rows_ok_def cells_def no_panic min_def)
qed (auto simp: rows_ok_def cells_def)

lemma le_fold_min: "e \<le> fold min xs (m :: 'a :: linorder) \<longleftrightarrow> e \<le> m \<and> (\<forall>x\<in>set xs. e \<le> x)"
  by (induction xs arbitrary: m) auto

lemma fold_min_mono:
  "mono f \<Longrightarrow> fold min (map f xs) (f m) = f (fold min xs (m :: 'a :: linorder))"
  by (induction xs arbitrary: m) (simp_all add: min_of_mono)

lemma length_cmsHashes [simp]: "length (cmsHashes xx s key) = 4"
  by (simp add: cmsHashes_def Let_def)

lemma cmsHashes_cong: "cmsMask s = cmsMask s' \<Longrightarrow> cmsHashes xx s key = cmsHashes xx s' key"
  by (simp add: cmsHashes_def)

lemma cmsHashes_bound: "wf_sketch s \<Longrightarrow> j \<in> set (cmsHashes xx s key) \<Longrightarrow> unat j < unat (cmsWidth s)"
  by (auto simp: cmsHashes_def wf_sketch_def Let_def intro!: mask_index)

lemma wf_rows_ok: "wf_sketch s \<Longrightarrow> rows_ok (cmsRows s) (cmsHashes xx s key)"
proof -
  assume wf: "wf_sketch s"
  then have "length (cmsRows s) = length (cmsHashes xx s key)" by (simp add: wf_sketch_def)
  moreover have "unat j < length r" if "(r, j) \<in> set (zip (cmsRows s) (cmsHashes xx s key))" for r j
    using set_zip_leftD [OF that] cmsHashes_bound [OF wf set_zip_rightD [OF that]] wf
    by (simp add: wf_sketch_def)
  ultimately show ?thesis by (auto simp: rows_ok_def list_all2_iff)
qed

lemma cms_increment_eq:
  "wf_sketch s \<Longrightarrow>
   cms_increment xx s key = Some (s\<lparr>cmsRows := map2 inc_row (cmsRows s) (cmsHashes xx s key)\<rparr>)"
  by (simp add: cms_increment_def inc_rows_eq wf_rows_ok)

lemma cms_estimate_eq:
  "wf_sketch s \<Longrightarrow>
   cms_estimate xx s key = Some (fold min (cells (cmsRows s) (cmsHashes xx s key)) 255)"
  by (simp add: cms_estimate_def est_rows_eq wf_rows_ok)

lemma wf_sketch_increment [inv_intros]:
  "wf_sketch s \<Longrightarrow> cms_increment xx s key = Some s' \<Longrightarrow> wf_sketch s'"
  by (auto simp: cms_increment_eq wf_sketch_def dest!: set_zip_leftD)

lemma wf_sketch_halve [inv_intros]: "wf_sketch s \<Longrightarrow> wf_sketch (cms_halve s)"
  by (auto simp: wf_sketch_def cms_halve_def)

lemma wf_sketch_reset [inv_intros]: "wf_sketch s \<Longrightarrow> wf_sketch (cms_reset s)"
  by (auto simp: wf_sketch_def cms_reset_def)

text \<open>Halving commutes with the estimate: every counter, and so the minimum, is divided by two.\<close>

lemma mono_drop_bit_u8: "mono (drop_bit n :: u8 \<Rightarrow> u8)"
  by (auto simp: mono_def word_le_nat_alt unat_drop_bit_eq)
     (simp add: drop_bit_eq_div div_le_mono)

lemma cells_le_255: "x \<le> (255 :: u8)"
proof -
  have "unat x < 2 ^ LENGTH(8)" by (rule unsigned_less)
  then show ?thesis by (simp add: word_le_nat_alt)
qed

lemma cms_estimate_halve:
  assumes wf: "wf_sketch s" and est: "cms_estimate xx s key = Some e"
  shows "cms_estimate xx (cms_halve s) key = Some (drop_bit 1 e)"
proof -
  let ?js = "cmsHashes xx s key" and ?cs = "cells (cmsRows s) (cmsHashes xx s key)"
  have js: "cmsHashes xx (cms_halve s) key = ?js" by (rule cmsHashes_cong) (simp add: cms_halve_def)
  have ok: "rows_ok (cmsRows s) ?js" using wf by (rule wf_rows_ok)
  have "cells (cmsRows (cms_halve s)) ?js = map (drop_bit 1) ?cs"
    using ok unfolding rows_ok_def cells_def cms_halve_def
    by (induction rule: list_all2_induct) auto
  moreover have "length ?cs = 4" using wf by (simp add: cells_def wf_sketch_def)
  ultimately obtain x xs where cs: "?cs = x # xs"
    and half: "cells (cmsRows (cms_halve s)) ?js = map (drop_bit 1) (x # xs)"
    by (cases ?cs) auto
  have "e = fold min xs x"
    using est wf cs by (simp add: cms_estimate_eq min_absorb1 cells_le_255)
  moreover have "cms_estimate xx (cms_halve s) key = Some (fold min (map (drop_bit 1) xs) (drop_bit 1 x))"
    using wf_sketch_halve [OF wf] half by (simp add: cms_estimate_eq js min_absorb1 cells_le_255)
  ultimately show ?thesis by (simp add: fold_min_mono mono_drop_bit_u8)
qed

text \<open>The sketch never undercounts.\<close>

definition sketch_ge :: "(string \<Rightarrow> u64) \<Rightarrow> countMinSketch \<Rightarrow> string \<Rightarrow> nat \<Rightarrow> bool" where
  "sketch_ge xx s key n \<longleftrightarrow> (\<forall>c\<in>set (cells (cmsRows s) (cmsHashes xx s key)). min 255 n \<le> unat c)"

lemma inc_row_ge: "i < length r \<Longrightarrow> r ! i \<le> inc_row r j ! i"
proof (cases "r ! unat j < 255 \<and> unat j = i")
  case True
  then have "unat (r ! i + 1) = Suc (unat (r ! i))"
    by (auto simp: unat_word_ariths word_less_nat_alt)
  with True show "i < length r \<Longrightarrow> ?thesis" by (simp add: inc_row_def word_le_nat_alt)
next
  case False
  then show "i < length r \<Longrightarrow> ?thesis" by (auto simp: inc_row_def nth_list_update)
qed

lemma inc_row_own: "unat j < length r \<Longrightarrow> min 255 (Suc n) \<le> unat (inc_row r j ! unat j)"
  if "min 255 n \<le> unat (r ! unat j)"
proof (cases "r ! unat j < 255")
  case True
  then have "unat (r ! unat j + 1) = Suc (unat (r ! unat j))"
    by (simp add: unat_word_ariths word_less_nat_alt)
  with True that show "unat j < length r \<Longrightarrow> ?thesis" by (simp add: inc_row_def)
next
  case False
  then have "r ! unat j = 255" using cells_le_255 [of "r ! unat j"] by simp
  then show ?thesis by (simp add: inc_row_def)
qed

lemma sketch_ge_increment:
  assumes wf: "wf_sketch s" and inc: "cms_increment xx s k = Some s'" and ge: "sketch_ge xx s key n"
  shows "sketch_ge xx s' key (if k = key then Suc n else n)"
proof -
  let ?js = "cmsHashes xx s key"
  have s': "cmsRows s' = map2 inc_row (cmsRows s) (cmsHashes xx s k)" and js: "cmsHashes xx s' key = ?js"
    using wf inc by (auto simp: cms_increment_eq intro!: cmsHashes_cong)
  have len: "length (cmsRows s) = 4" using wf by (simp add: wf_sketch_def)
  have ok: "unat (cmsHashes xx s q ! i) < length (cmsRows s ! i)" if "i < 4" for q i
    using wf_rows_ok [OF wf, of xx q] that len by (simp add: rows_ok_def list_all2_conv_all_nth)
  have "min 255 (if k = key then Suc n else n) \<le> unat (inc_row (cmsRows s ! i) (cmsHashes xx s k ! i) ! unat (?js ! i))"
    if i: "i < 4" for i
  proof -
    have old: "min 255 n \<le> unat (cmsRows s ! i ! unat (?js ! i))"
      using ge i len by (auto simp: sketch_ge_def cells_def set_conv_nth)
    show ?thesis
    proof (cases "k = key")
      case True
      then show ?thesis using inc_row_own [OF old ok [OF i]] by simp
    next
      case False
      have "cmsRows s ! i ! unat (?js ! i) \<le> inc_row (cmsRows s ! i) (cmsHashes xx s k ! i) ! unat (?js ! i)"
        using ok [OF i] by (rule inc_row_ge)
      with old False show ?thesis by (auto simp: word_le_nat_alt)
    qed
  qed
  then show ?thesis using len unfolding sketch_ge_def s' js
    by (auto simp: cells_def set_conv_nth)
qed

lemma sketch_ge_estimate:
  "wf_sketch s \<Longrightarrow> sketch_ge xx s key n \<Longrightarrow> \<exists>e. cms_estimate xx s key = Some e \<and> min 255 n \<le> unat e"
proof -
  assume wf: "wf_sketch s" and ge: "sketch_ge xx s key n"
  let ?b = "of_nat (min 255 n) :: u8"
  have b: "unat ?b = min 255 n" by (simp add: unat_of_nat)
  have "?b \<le> fold min (cells (cmsRows s) (cmsHashes xx s key)) 255"
    unfolding le_fold_min
    using ge b by (simp add: cells_le_255 sketch_ge_def) (simp add: word_le_nat_alt)
  then have "min 255 n \<le> unat (fold min (cells (cmsRows s) (cmsHashes xx s key)) 255)"
    using b unfolding word_le_nat_alt by simp
  then show ?thesis using wf by (simp add: cms_estimate_eq)
qed

lemma sketch_ge_0 [simp]: "sketch_ge xx s key 0"
  by (simp add: sketch_ge_def)

section \<open>Facts about the doorkeeper\<close>

lemma bit_is_set_bit: "bit_is_set x b \<longleftrightarrow> bit x (unat b)"
  by (simp add: bit_is_set_def and_one_eq bit_iff_odd_drop_bit odd_iff_mod_2_eq_one)

lemma bit_is_set_or: "bit_is_set (x OR y) b \<longleftrightarrow> bit_is_set x b \<or> bit_is_set y b"
  by (simp add: bit_is_set_bit bit_or_iff)

lemma bit_is_set_own: "bit_is_set (x OR 2 ^ unat (b mod 64)) (b mod 64)"
proof -
  have "unat (b mod 64) < 64" by (simp add: unat_mod)
  then show ?thesis by (simp add: bit_is_set_bit bit_or_iff bit_exp_iff)
qed

lemma door_index:
  assumes "wf_door d" shows "unat ((x AND dkMask d) div 64) < length (dkBits d)"
proof -
  have "unat (x AND dkMask d) \<le> unat (dkMask d)"
    by (rule word_and_le1 [THEN word_le_nat_alt [THEN iffD1]])
  also have "\<dots> < 64 * unat (dkN d)" using assms by (simp add: wf_door_def)
  finally show ?thesis using assms by (simp add: wf_door_def unat_div less_mult_imp_div_less mult.commute)
qed

text \<open>The two words and bit positions a key is hashed to.\<close>

definition door_pos :: "(string \<Rightarrow> u64) \<Rightarrow> doorkeeper \<Rightarrow> string \<Rightarrow> u64 \<times> u64" where
  "door_pos xx d key =
     (xx key AND dkMask d, (drop_bit 32 (xx key) OR push_bit 32 (xx key)) AND dkMask d)"

definition set_pos :: "u64 list \<Rightarrow> u64 \<Rightarrow> u64 list" where
  "set_pos bs h = bs[unat (h div 64) := bs ! unat (h div 64) OR push_bit (unat (h mod 64)) 1]"

definition pos_set :: "u64 list \<Rightarrow> u64 \<Rightarrow> bool" where
  "pos_set bs h \<longleftrightarrow> bit_is_set (bs ! unat (h div 64)) (h mod 64)"

lemma length_set_pos [simp]: "length (set_pos bs h) = length bs"
  by (simp add: set_pos_def)

lemma pos_set_own: "unat (h div 64) < length bs \<Longrightarrow> pos_set (set_pos bs h) h"
  by (simp add: pos_set_def set_pos_def bit_is_set_own)

lemma pos_set_mono:
  "unat (h div 64) < length bs \<Longrightarrow> pos_set bs g \<Longrightarrow> pos_set (set_pos bs h) g"
  by (cases "unat (h div 64) = unat (g div 64)") (simp_all add: pos_set_def set_pos_def bit_is_set_or)

lemma dk_contains_eq:
  "wf_door d \<Longrightarrow> dk_contains xx d key =
     Some (pos_set (dkBits d) (fst (door_pos xx d key)) \<and> pos_set (dkBits d) (snd (door_pos xx d key)))"
  by (simp add: dk_contains_def door_pos_def pos_set_def no_panic door_index Let_def)

lemma dk_add_eq:
  "wf_door d \<Longrightarrow> dk_add xx d key =
     Some (pos_set (dkBits d) (fst (door_pos xx d key)) \<and> pos_set (dkBits d) (snd (door_pos xx d key)),
           d\<lparr>dkBits := set_pos (set_pos (dkBits d) (fst (door_pos xx d key))) (snd (door_pos xx d key))\<rparr>)"
  by (simp add: dk_add_def door_pos_def pos_set_def set_pos_def no_panic door_index Let_def)

lemma wf_door_add [inv_intros]: "wf_door d \<Longrightarrow> dk_add xx d key = Some (p, d') \<Longrightarrow> wf_door d'"
  by (auto simp: dk_add_eq wf_door_def)

lemma wf_door_reset [inv_intros]: "wf_door d \<Longrightarrow> wf_door (dk_reset d)"
  by (simp add: wf_door_def dk_reset_def)

lemma door_pos_bits [simp]: "door_pos xx (d\<lparr>dkBits := bs\<rparr>) key = door_pos xx d key"
  by (simp add: door_pos_def)

lemma door_pos_index:
  "wf_door d \<Longrightarrow> unat (fst (door_pos xx d key) div 64) < length (dkBits d)"
  "wf_door d \<Longrightarrow> unat (snd (door_pos xx d key) div 64) < length (dkBits d)"
  by (simp_all add: door_pos_def door_index)

section \<open>Contracts: an approximate set and a frequency counter\<close>

text \<open>An approximate set may report too many members but never forgets one.\<close>

locale approximate_set =
  fixes add :: "'d \<Rightarrow> 'k \<Rightarrow> (bool \<times> 'd) option"
    and contains :: "'d \<Rightarrow> 'k \<Rightarrow> bool option"
    and d_ok :: "'d \<Rightarrow> bool"
  assumes add_total: "d_ok d \<Longrightarrow> \<exists>p d'. add d k = Some (p, d')"
    and add_ok: "d_ok d \<Longrightarrow> add d k = Some (p, d') \<Longrightarrow> d_ok d'"
    and add_reports: "d_ok d \<Longrightarrow> add d k = Some (p, d') \<Longrightarrow> contains d k = Some p"
    and add_member: "d_ok d \<Longrightarrow> add d k = Some (p, d') \<Longrightarrow> contains d' k = Some True"
    and add_keeps: "d_ok d \<Longrightarrow> add d k = Some (p, d') \<Longrightarrow> contains d q = Some True \<Longrightarrow> contains d' q = Some True"

text \<open>
  A frequency counter with a saturation cap: \<open>atleast s k n\<close> says that the counts kept for \<open>k\<close>
  are at least \<open>n\<close> (up to the cap), which every increment advances and the estimate respects.
\<close>

locale frequency_counter =
  fixes inc :: "'s \<Rightarrow> 'k \<Rightarrow> 's option"
    and est :: "'s \<Rightarrow> 'k \<Rightarrow> 'n::{linorder} option"
    and atleast :: "'s \<Rightarrow> 'k \<Rightarrow> nat \<Rightarrow> bool"
    and s_ok :: "'s \<Rightarrow> bool"
    and bound :: "nat \<Rightarrow> 'n"
  assumes inc_total: "s_ok s \<Longrightarrow> \<exists>s'. inc s k = Some s'"
    and inc_ok: "s_ok s \<Longrightarrow> inc s k = Some s' \<Longrightarrow> s_ok s'"
    and inc_counts: "s_ok s \<Longrightarrow> inc s j = Some s' \<Longrightarrow> atleast s k n \<Longrightarrow> atleast s' k (if j = k then Suc n else n)"
    and atleast_mono: "atleast s k (Suc n) \<Longrightarrow> atleast s k n"
    and est_bound: "s_ok s \<Longrightarrow> atleast s k n \<Longrightarrow> \<exists>e. est s k = Some e \<and> bound n \<le> e"

text \<open>A counter behind a doorkeeper: the first sighting of a key only enters the set.\<close>

locale gated_counter =
  approximate_set add contains d_ok + frequency_counter inc est atleast s_ok bound
  for add :: "'d \<Rightarrow> 'k \<Rightarrow> (bool \<times> 'd) option"
    and contains :: "'d \<Rightarrow> 'k \<Rightarrow> bool option"
    and d_ok :: "'d \<Rightarrow> bool"
    and inc :: "'s \<Rightarrow> 'k \<Rightarrow> 's option"
    and est :: "'s \<Rightarrow> 'k \<Rightarrow> 'n::linorder option"
    and atleast :: "'s \<Rightarrow> 'k \<Rightarrow> nat \<Rightarrow> bool"
    and s_ok :: "'s \<Rightarrow> bool"
    and bound :: "nat \<Rightarrow> 'n"
begin

lemma gate_counts:
  assumes ok: "d_ok d" "s_ok s"
    and add: "add d j = Some (p, d')" and inc: "(if p then inc s j else Some s) = Some s'"
    and seen: "0 < n \<longrightarrow> contains d k = Some True" and cnt: "atleast s k (n - 1)"
    and n': "n' = (if j = k then Suc n else n)"
  shows "0 < n' \<longrightarrow> contains d' k = Some True" and "atleast s' k (n' - 1)"
proof -
  show "0 < n' \<longrightarrow> contains d' k = Some True"
    using add_member [OF ok(1) add] add_keeps [OF ok(1) add] seen n' by auto
  show "atleast s' k (n' - 1)"
  proof (cases "p")
    case True
    then have "atleast s' k (if j = k then Suc (n - 1) else n - 1)"
      using inc_counts [OF ok(2) _ cnt] inc by simp
    moreover have "n' - 1 = (if j = k then n else n - 1)" using n' by simp
    ultimately show ?thesis using cnt by (cases n) (auto split: if_splits intro: atleast_mono)
  next
    case False
    then have "contains d j = Some False" using add_reports [OF ok(1) add] by simp
    then have "n' - 1 = n - 1" using seen n' by (cases "n = 0") auto
    with False inc cnt show ?thesis by simp
  qed
qed

end

interpretation dk: approximate_set "dk_add xx" "dk_contains xx" wf_door for xx
proof (unfold_locales, goal_cases)
  case (1 d k) then show ?case by (simp add: dk_add_eq)
next
  case (2 d k p d') then show ?case by (rule wf_door_add)
next
  case (3 d k p d') then show ?case by (auto simp: dk_add_eq dk_contains_eq)
next
  case (4 d k p d')
  then have "wf_door d'" by (rule wf_door_add)
  with 4 show ?case
    by (auto simp: dk_add_eq dk_contains_eq door_pos_index intro!: pos_set_own pos_set_mono)
next
  case (5 d k p d' q)
  then have "wf_door d'" by (auto intro: wf_door_add)
  with 5 show ?case by (auto simp: dk_add_eq dk_contains_eq door_pos_index intro!: pos_set_mono)
qed

interpretation cms: frequency_counter "cms_increment xx" "cms_estimate xx" "sketch_ge xx" wf_sketch
  "\<lambda>n. of_nat (min 255 n)" for xx
proof (unfold_locales, goal_cases)
  case (1 s k) then show ?case by (simp add: cms_increment_eq)
next
  case (2 s k s') then show ?case by (rule wf_sketch_increment)
next
  case (3 s j s' k n) then show ?case by (rule sketch_ge_increment)
next
  case (4 s k n) then show ?case by (auto simp: sketch_ge_def)
next
  case (5 s k n)
  have "unat (of_nat (min 255 n) :: u8) = min 255 n" by (simp add: unat_of_nat)
  with sketch_ge_estimate [OF 5] show ?case unfolding word_le_nat_alt by simp
qed

interpretation lfu_gate: gated_counter "dk_add xx" "dk_contains xx" wf_door
  "cms_increment xx" "cms_estimate xx" "sketch_ge xx" wf_sketch "\<lambda>n. of_nat (min 255 n)" for xx
  by unfold_locales

section \<open>TinyLFU: no panic, no undercount, decay, admission\<close>

lemma Increment_total [no_panic]:
  assumes "wf_TinyLFU t" shows "\<exists>t'. Increment xx t k = Some t' \<and> wf_TinyLFU t' \<and> lfuMaxItems t' = lfuMaxItems t"
proof -
  have wf: "wf_door (lfuDoor t)" "wf_sketch (lfuSketch t)" and c: "0 \<le> lfuCounter t" "lfuCounter t < lfuMaxItems t"
    using assms by (auto simp: wf_TinyLFU_def)
  obtain p d' where d': "dk_add xx (lfuDoor t) k = Some (p, d')" using dk.add_total [OF wf(1)] by blast
  obtain s' where s': "(if p then cms_increment xx (lfuSketch t) k else Some (lfuSketch t)) = Some s'"
    using cms.inc_total [OF wf(2)] by (cases p) auto
  have "wf_door d'" using wf(1) d' by (rule wf_door_add)
  moreover have "wf_sketch s'" using wf(2) s' by (auto split: if_splits intro: wf_sketch_increment)
  ultimately show ?thesis using d' s' c
    by (simp add: Increment_def wf_TinyLFU_def Let_def wf_door_reset wf_sketch_halve)
qed

lemma Increments_total:
  "wf_TinyLFU t \<Longrightarrow> \<exists>t'. Increments xx t ks = Some t' \<and> wf_TinyLFU t'"
proof (induction ks arbitrary: t)
  case (Cons k ks)
  from Increment_total [OF Cons.prems, of xx k] obtain t' where "Increment xx t k = Some t'" "wf_TinyLFU t'"
    by blast
  with Cons.IH [of t'] show ?case by simp
qed simp

lemma Estimate_total [no_panic]: "wf_TinyLFU t \<Longrightarrow> \<exists>e. Estimate xx t k = Some e"
  by (simp add: Estimate_def wf_TinyLFU_def cms_estimate_eq)

lemma Admit_eq:
  "wf_TinyLFU t \<Longrightarrow> Admit xx t a b = Some (the (Estimate xx t b) \<le> the (Estimate xx t a))"
  by (auto simp: Admit_def Estimate_def wf_TinyLFU_def cms_estimate_eq)

lemma Increments_window:
  assumes "wf_TinyLFU t" and "lfuCounter t + int (length ks) < lfuMaxItems t"
    and "0 < n \<longrightarrow> dk_contains xx (lfuDoor t) k = Some True" and "sketch_ge xx (lfuSketch t) k (n - 1)"
    and "Increments xx t ks = Some t'"
  shows "sketch_ge xx (lfuSketch t') k (n + count_list ks k - 1) \<and> wf_TinyLFU t'"
  using assms
proof (induction ks arbitrary: t n)
  case (Cons j ks)
  have wf: "wf_door (lfuDoor t)" "wf_sketch (lfuSketch t)" using Cons.prems(1) by (auto simp: wf_TinyLFU_def)
  obtain p d' where d': "dk_add xx (lfuDoor t) j = Some (p, d')" using dk.add_total [OF wf(1)] by blast
  obtain s' where s': "(if p then cms_increment xx (lfuSketch t) j else Some (lfuSketch t)) = Some s'"
    using cms.inc_total [OF wf(2)] by (cases p) auto
  let ?t = "t\<lparr>lfuSketch := s', lfuDoor := d', lfuCounter := lfuCounter t + 1\<rparr>"
  let ?n = "if j = k then Suc n else n"
  have t1: "Increment xx t j = Some ?t"
    using d' s' Cons.prems(2) by (simp add: Increment_def)
  have gate: "0 < ?n \<longrightarrow> dk_contains xx d' k = Some True" "sketch_ge xx s' k (?n - 1)"
    using lfu_gate.gate_counts [OF wf d' s' Cons.prems(3,4) refl] by blast+
  have "wf_TinyLFU ?t" using Increment_total [OF Cons.prems(1), of xx j] t1 by simp
  moreover have "Increments xx ?t ks = Some t'" using Cons.prems(5) t1 by simp
  ultimately show ?case
    using Cons.IH [of ?t ?n] gate Cons.prems(2) by (auto split: if_splits)
qed (simp add: wf_TinyLFU_def)

lemma unat_word_pow2:
  assumes "n < 64" shows "unat (2 ^ n :: u64) = 2 ^ n"
proof -
  have "(2 ^ n :: u64) = of_nat (2 ^ n)" by simp
  moreover have "unat (of_nat (2 ^ n) :: u64) = 2 ^ n mod 2 ^ 64" by (simp only: unat_of_nat) simp
  moreover have "(2 :: nat) ^ n < 2 ^ 64" using assms by (intro power_strict_increasing) auto
  ultimately show ?thesis by simp
qed

lemma bits_Len64_le: "bits_Len64 x \<le> 64"
proof -
  have "unat x < 2 ^ LENGTH(64)" by (rule unsigned_less)
  then show ?thesis by (simp add: bits_Len64_def bit_len_le)
qed

lemma nextPow2_zero_or_pow2: "nextPow2 v = 0 \<or> (\<exists>k < 64. nextPow2 v = 2 ^ k)"
proof (cases "v = 0 \<or> bits_Len64 (v - 1) < 64")
  case True
  then show ?thesis by (auto simp: nextPow2_def intro: exI [of _ 0])
next
  case False
  then have "bits_Len64 (v - 1) = 64" using bits_Len64_le [of "v - 1"] by simp
  with False show ?thesis by (simp add: nextPow2_def)
qed

lemma nextPow2_least:
  assumes "v \<le> 2 ^ 63" and "0 < v"
  shows "\<exists>k \<le> 63. nextPow2 v = 2 ^ k \<and> unat v \<le> 2 ^ k \<and> (\<forall>j. unat v \<le> 2 ^ j \<longrightarrow> k \<le> j)"
proof -
  let ?n = "unat v - 1" and ?k = "bit_len (unat v - 1)"
  have v0: "0 < unat v" using assms(2) by (simp add: unat_gt_0 word_gt_0)
  have n: "unat (v - 1) = ?n" using assms(2) by (simp add: unat_minus_one word_gt_0)
  have "unat v \<le> 2 ^ 63" using assms(1) unat_word_pow2 [of 63] by (simp add: word_le_nat_alt)
  then have "?n < 2 ^ 63" using v0 by linarith
  then have "?k \<le> 63" by (rule bit_len_le)
  moreover have "nextPow2 v = 2 ^ ?k" using assms(2) n by (auto simp: nextPow2_def bits_Len64_def)
  moreover have "unat v \<le> 2 ^ ?k" using bit_len_upper [of ?n] v0 by linarith
  moreover have "?k \<le> j" if "unat v \<le> 2 ^ j" for j
    using that v0 by (intro bit_len_le) linarith
  ultimately show ?thesis by blast
qed

lemma wf_newCountMinSketch: "wf_sketch (newCountMinSketch maxItems)"
proof -
  have "0 < w" if "4096 \<le> w" for w :: u64
    using that by (simp add: word_le_nat_alt word_less_nat_alt)
  then show ?thesis by (auto simp: wf_sketch_def newCountMinSketch_def Let_def not_less)
qed

lemma wf_newDoorkeeper: "wf_door (newDoorkeeper maxItems)"
proof -
  let ?t0 = "nextPow2 (word_of_int maxItems * 8)"
  define t where "t = (if ?t0 < 64 then 64 else ?t0)"
  have "\<exists>m. unat t = 64 * m \<and> 0 < m"
  proof (cases "?t0 < 64")
    case True then show ?thesis by (auto simp: t_def intro: exI [of _ 1])
  next
    case False
    then obtain k where k: "k < 64" "?t0 = 2 ^ k" using nextPow2_zero_or_pow2 by force
    then have u: "unat ?t0 = 2 ^ k" by (simp add: unat_word_pow2)
    have "\<not> (2 :: nat) ^ k < 2 ^ 6" using False u by (simp add: word_less_nat_alt)
    then have "6 \<le> k" by (meson not_less power_strict_increasing_iff one_less_numeral_iff semiring_norm(76))
    then have "(2 :: nat) ^ k = 2 ^ 6 * 2 ^ (k - 6)" by (simp only: power_add [symmetric]) simp
    then have "(2 :: nat) ^ k = 64 * 2 ^ (k - 6)" by simp
    with False u show ?thesis by (auto simp: t_def)
  qed
  then obtain m where m: "unat t = 64 * m" "0 < m" by blast
  then have "unat (t div 64) = m" and "unat (t - 1) < 64 * m"
    by (simp_all add: unat_div unat_minus_one unat_gt_0 flip: unat_eq_0)
  then show ?thesis by (simp add: wf_door_def newDoorkeeper_def Let_def t_def [symmetric])
qed

lemma wf_newTinyLFU: "wf_TinyLFU (newTinyLFU maxItems)"
  by (simp add: wf_TinyLFU_def newTinyLFU_def Let_def wf_newCountMinSketch wf_newDoorkeeper)

lemma dk_contains_reset: "wf_door d \<Longrightarrow> dk_contains xx (dk_reset d) key = Some False"
proof -
  assume wf: "wf_door d"
  then have "\<not> pos_set (dkBits (dk_reset d)) (fst (door_pos xx d key))"
    by (simp add: pos_set_def dk_reset_def door_pos_index bit_is_set_def)
  moreover have "door_pos xx (dk_reset d) key = door_pos xx d key" by (simp add: dk_reset_def)
  ultimately show ?thesis using wf_door_reset [OF wf] by (simp add: dk_contains_eq)
qed

section \<open>Properties of the admission policy\<close>

text \<open>
  C40. Within one sample window TinyLFU never undercounts. After any sequence of accesses shorter
  than the window, on a fresh policy of any size and for any hash function, no access has panicked
  and the estimate of a key is at least the number of its accesses minus the one that only set the
  doorkeeper bits, saturating at 255.
\<close>

theorem lfu_never_undercounts:
  assumes "int (length ks) < lfuMaxItems (newTinyLFU n)"
  shows "\<exists>t e. Increments xx (newTinyLFU n) ks = Some t \<and> Estimate xx t k = Some e \<and>
           min 255 (count_list ks k - 1) \<le> unat e"
proof -
  obtain t where t: "Increments xx (newTinyLFU n) ks = Some t"
    using Increments_total [OF wf_newTinyLFU] by blast
  have "sketch_ge xx (lfuSketch t) k (count_list ks k - 1) \<and> wf_TinyLFU t"
    using Increments_window [OF wf_newTinyLFU, of n ks 0 xx k t] assms t
    by (simp add: newTinyLFU_def Let_def)
  then show ?thesis
    using sketch_ge_estimate t by (auto simp: Estimate_def wf_TinyLFU_def)
qed

theorem lfu_never_undercounts_witness:
  "int (length [''a'', ''b'', ''a'', ''a'']) < lfuMaxItems (newTinyLFU 10) \<and>
   (\<exists>t e. Increments (\<lambda>s. of_nat (length s)) (newTinyLFU 10) [''a'', ''b'', ''a'', ''a''] = Some t \<and>
      Estimate (\<lambda>s. of_nat (length s)) t ''a'' = Some e \<and> 2 \<le> unat e)"
proof -
  have h: "int (length [''a'', ''b'', ''a'', ''a'']) < lfuMaxItems (newTinyLFU 10)"
    by (simp add: newTinyLFU_def Let_def)
  show ?thesis
    using h lfu_never_undercounts [OF h, of "\<lambda>s. of_nat (length s)" "''a''"] by (simp add: numeral_2_eq_2)
qed

text \<open>
  Periodic decay. The access that fills the sample window resets the access counter, empties
  the doorkeeper for every key, and leaves every key with half (rounded down) of the estimate it
  would have had without the decay.
\<close>

theorem lfu_decay_halves:
  assumes "wf_TinyLFU t" and "lfuCounter t + 1 = lfuMaxItems t"
  shows "\<exists>t' sk. Increment xx t k = Some t' \<and> lfuCounter t' = 0 \<and>
           (if dk_contains xx (lfuDoor t) k = Some True then cms_increment xx (lfuSketch t) k = Some sk
            else sk = lfuSketch t) \<and>
           (\<forall>q. dk_contains xx (lfuDoor t') q = Some False) \<and>
           (\<forall>q. \<exists>e. cms_estimate xx sk q = Some e \<and> Estimate xx t' q = Some (e div 2))"
proof -
  have wf: "wf_door (lfuDoor t)" "wf_sketch (lfuSketch t)" using assms(1) by (auto simp: wf_TinyLFU_def)
  obtain p d' where d': "dk_add xx (lfuDoor t) k = Some (p, d')" using dk.add_total [OF wf(1)] by blast
  obtain sk where sk: "(if p then cms_increment xx (lfuSketch t) k else Some (lfuSketch t)) = Some sk"
    using cms.inc_total [OF wf(2)] by (cases p) auto
  have wf': "wf_sketch sk" "wf_door d'"
    using wf sk d' by (auto split: if_splits intro: wf_sketch_increment wf_door_add)
  let ?t = "t\<lparr>lfuSketch := cms_halve sk, lfuDoor := dk_reset d', lfuCounter := 0\<rparr>"
  have "Increment xx t k = Some ?t" using d' sk assms(2) by (simp add: Increment_def)
  moreover have "if dk_contains xx (lfuDoor t) k = Some True then cms_increment xx (lfuSketch t) k = Some sk
      else sk = lfuSketch t"
    using dk.add_reports [OF wf(1) d'] sk by (auto split: if_splits)
  moreover have "\<exists>e. cms_estimate xx sk q = Some e \<and> Estimate xx ?t q = Some (e div 2)" for q
    using cms_estimate_eq [OF wf'(1)] cms_estimate_halve [OF wf'(1)]
    by (auto simp: Estimate_def drop_bit_eq_div)
  ultimately show ?thesis using dk_contains_reset [OF wf'(2)] by (intro exI [of _ ?t] exI [of _ sk]) simp
qed

theorem lfu_decay_halves_witness:
  "wf_TinyLFU ((newTinyLFU 10)\<lparr>lfuCounter := 999\<rparr>) \<and>
   (\<exists>t' sk. Increment (\<lambda>s. 7) ((newTinyLFU 10)\<lparr>lfuCounter := 999\<rparr>) ''k'' = Some t' \<and> lfuCounter t' = 0 \<and>
      (\<forall>q. dk_contains (\<lambda>s. 7) (lfuDoor t') q = Some False) \<and>
      (\<forall>q. \<exists>e. cms_estimate (\<lambda>s. 7) sk q = Some e \<and> Estimate (\<lambda>s. 7) t' q = Some (e div 2)))"
proof -
  let ?t = "(newTinyLFU 10)\<lparr>lfuCounter := 999\<rparr>"
  have m: "lfuMaxItems (newTinyLFU 10) = 1000" by (simp add: newTinyLFU_def wrap64_def)
  have h: "wf_TinyLFU ?t" using wf_newTinyLFU [of 10] m by (simp add: wf_TinyLFU_def)
  show ?thesis using h lfu_decay_halves [OF h, of "\<lambda>s. 7" "''k''"] m by (simp add: numeral_eq_Suc) blast
qed

text \<open>
  \<open>nextPow2\<close> is the least power of two that is not below its argument, for every argument up to
  \<open>2^63\<close>; it is 0 exactly when the shift overflows 64 bits (arguments above \<open>2^63\<close>).
\<close>

lemma nextPow2_correct:
  "(v \<le> 2 ^ 63 \<longrightarrow> (\<exists>k \<le> 63. nextPow2 v = 2 ^ k \<and> unat v \<le> 2 ^ k \<and> (\<forall>j. unat v \<le> 2 ^ j \<longrightarrow> k \<le> j))) \<and>
   (2 ^ 63 < v \<longrightarrow> nextPow2 v = 0)"
proof (intro conjI impI)
  assume v: "v \<le> 2 ^ 63"
  show "\<exists>k \<le> 63. nextPow2 v = 2 ^ k \<and> unat v \<le> 2 ^ k \<and> (\<forall>j. unat v \<le> 2 ^ j \<longrightarrow> k \<le> j)"
  proof (cases "v = 0")
    case True
    then show ?thesis by (intro exI [of _ 0]) (simp add: nextPow2_def)
  next
    case False
    then show ?thesis using v nextPow2_least by (simp add: word_gt_0)
  qed
next
  assume v: "2 ^ 63 < v"
  then have "2 ^ 63 < unat v" using unat_word_pow2 [of 63] by (simp add: word_less_nat_alt)
  moreover have nz: "v \<noteq> 0" using v by auto
  then have "unat (v - 1) = unat v - 1" by (simp add: unat_minus_one)
  ultimately have big: "2 ^ 63 \<le> unat (v - 1)" by linarith
  have "\<not> bits_Len64 (v - 1) \<le> 63"
  proof
    assume "bits_Len64 (v - 1) \<le> 63"
    then have "(2 :: nat) ^ bit_len (unat (v - 1)) \<le> 2 ^ 63"
      unfolding bits_Len64_def by (intro power_increasing) auto
    with bit_len_upper [of "unat (v - 1)"] big show False by linarith
  qed
  then have "bits_Len64 (v - 1) = 64" using bits_Len64_le [of "v - 1"] by simp
  with nz show "nextPow2 v = 0" by (simp add: nextPow2_def)
qed

end
