(* ===== verification/GoStrings.thy ===== *)
theory GoStrings
  imports GoBase "HOL-Library.Char_ord" "HOL-Library.List_Lexorder"
begin

text \<open>
  The functions of Go's packages \<open>strings\<close>, \<open>strconv\<close>, \<open>sort\<close> and \<open>path\<close> that the edge server
  calls, on strings as byte sequences (a \<open>char\<close> is a byte). \<open>sort.Strings\<close> is \<open>sort\<close> in the
  bytewise lexicographic order. The Unicode part of \<open>strings.TrimSpace\<close> and \<open>strings.EqualFold\<close>
  is modelled on the UTF-8 bytes; the Unicode lower-casing of non-ASCII text is a parameter of
  \<open>strings_ToLower\<close>.
\<close>

section \<open>Characters and case\<close>

definition is_ascii :: "char \<Rightarrow> bool" where
  "is_ascii c \<longleftrightarrow> (of_char c :: nat) < 128"

definition is_upper :: "char \<Rightarrow> bool" where
  "is_upper c \<longleftrightarrow> 65 \<le> (of_char c :: nat) \<and> (of_char c :: nat) \<le> 90"

definition is_lower :: "char \<Rightarrow> bool" where
  "is_lower c \<longleftrightarrow> 97 \<le> (of_char c :: nat) \<and> (of_char c :: nat) \<le> 122"

definition ascii_lower :: "char \<Rightarrow> char" where
  "ascii_lower c = (if is_upper c then char_of ((of_char c :: nat) + 32) else c)"

definition ascii_upper :: "char \<Rightarrow> char" where
  "ascii_upper c = (if is_lower c then char_of ((of_char c :: nat) - 32) else c)"

definition strings_ToLower :: "(string \<Rightarrow> string) \<Rightarrow> string \<Rightarrow> string" where
  "strings_ToLower uni s = (if list_all is_ascii s then map ascii_lower s else uni s)"

section \<open>Prefixes, suffixes, searching\<close>

definition strings_HasPrefix :: "string \<Rightarrow> string \<Rightarrow> bool" where
  "strings_HasPrefix s p \<longleftrightarrow> take (length p) s = p"

definition strings_TrimPrefix :: "string \<Rightarrow> string \<Rightarrow> string" where
  "strings_TrimPrefix s p = (if strings_HasPrefix s p then drop (length p) s else s)"

definition strings_HasSuffix :: "string \<Rightarrow> string \<Rightarrow> bool" where
  "strings_HasSuffix s p \<longleftrightarrow> length p \<le> length s \<and> drop (length s - length p) s = p"

definition strings_TrimSuffix :: "string \<Rightarrow> string \<Rightarrow> string" where
  "strings_TrimSuffix s p = (if strings_HasSuffix s p then take (length s - length p) s else s)"

fun strings_Contains :: "string \<Rightarrow> string \<Rightarrow> bool" where
  "strings_Contains [] sub = (sub = [])"
| "strings_Contains (c # s) sub = (strings_HasPrefix (c # s) sub \<or> strings_Contains s sub)"

text \<open>\<open>strings.IndexByte\<close>; \<open>None\<close> for -1.\<close>

fun strings_IndexByte :: "string \<Rightarrow> char \<Rightarrow> nat option" where
  "strings_IndexByte [] c = None"
| "strings_IndexByte (x # xs) c = (if x = c then Some 0 else map_option Suc (strings_IndexByte xs c))"

definition strings_LastIndexByte :: "string \<Rightarrow> char \<Rightarrow> nat option" where
  "strings_LastIndexByte s c = map_option (\<lambda>i. length s - Suc i) (strings_IndexByte (rev s) c)"

text \<open>\<open>strings.Cut\<close> at a one-byte separator: before, after, found.\<close>

definition strings_Cut :: "string \<Rightarrow> char \<Rightarrow> string \<times> string \<times> bool" where
  "strings_Cut s c = (case strings_IndexByte s c of
     Some i \<Rightarrow> (take i s, drop (Suc i) s, True)
   | None \<Rightarrow> (s, [], False))"

text \<open>\<open>strings.TrimRight\<close> with a one-byte cutset.\<close>

definition strings_TrimRight :: "string \<Rightarrow> char \<Rightarrow> string" where
  "strings_TrimRight s c = rev (dropWhile (\<lambda>x. x = c) (rev s))"

section \<open>Splitting, joining, trimming\<close>

fun strings_Split :: "string \<Rightarrow> char \<Rightarrow> string list" where
  "strings_Split [] c = [[]]"
| "strings_Split (x # xs) c =
     (if x = c then [] # strings_Split xs c
      else (case strings_Split xs c of [] \<Rightarrow> [[x]] | y # ys \<Rightarrow> (x # y) # ys))"

fun strings_Join :: "string list \<Rightarrow> char \<Rightarrow> string" where
  "strings_Join [] c = []"
| "strings_Join [x] c = x"
| "strings_Join (x # y # ys) c = x @ c # strings_Join (y # ys) c"

text \<open>The UTF-8 encodings of the code points with the Unicode property White\_Space.\<close>

definition space_runes :: "string list" where
  "space_runes =
     [[CHR 0x09], [CHR 0x0A], [CHR 0x0B], [CHR 0x0C], [CHR 0x0D], [CHR 0x20],
      [CHR 0xC2, CHR 0x85], [CHR 0xC2, CHR 0xA0], [CHR 0xE1, CHR 0x9A, CHR 0x80],
      [CHR 0xE2, CHR 0x80, CHR 0x80], [CHR 0xE2, CHR 0x80, CHR 0x81], [CHR 0xE2, CHR 0x80, CHR 0x82],
      [CHR 0xE2, CHR 0x80, CHR 0x83], [CHR 0xE2, CHR 0x80, CHR 0x84], [CHR 0xE2, CHR 0x80, CHR 0x85],
      [CHR 0xE2, CHR 0x80, CHR 0x86], [CHR 0xE2, CHR 0x80, CHR 0x87], [CHR 0xE2, CHR 0x80, CHR 0x88],
      [CHR 0xE2, CHR 0x80, CHR 0x89], [CHR 0xE2, CHR 0x80, CHR 0x8A], [CHR 0xE2, CHR 0x80, CHR 0xA8],
      [CHR 0xE2, CHR 0x80, CHR 0xA9], [CHR 0xE2, CHR 0x80, CHR 0xAF], [CHR 0xE2, CHR 0x81, CHR 0x9F],
      [CHR 0xE3, CHR 0x80, CHR 0x80]]"

fun strip_rune :: "string list \<Rightarrow> string \<Rightarrow> string option" where
  "strip_rune [] s = None"
| "strip_rune (r # rs) s =
     (if r \<noteq> [] \<and> strings_HasPrefix s r then Some (drop (length r) s) else strip_rune rs s)"

lemma strip_rune_shorter: "strip_rune rs s = Some t \<Longrightarrow> length t < length s"
  by (induction rs s rule: strip_rune.induct)
     (auto simp: strings_HasPrefix_def split: if_splits intro!: diff_less)

function trim_runes :: "string list \<Rightarrow> string \<Rightarrow> string" where
  "trim_runes rs s = (case strip_rune rs s of None \<Rightarrow> s | Some t \<Rightarrow> trim_runes rs t)"
  by pat_completeness auto
termination
  by (relation "measure (\<lambda>(rs, s). length s)") (auto dest: strip_rune_shorter)

declare trim_runes.simps [simp del]

definition strings_TrimSpace :: "string \<Rightarrow> string" where
  "strings_TrimSpace s =
     rev (trim_runes (map rev space_runes) (rev (trim_runes space_runes s)))"

text \<open>
  \<open>strings.EqualFold\<close> against an ASCII string \<open>t\<close>: besides the two cases of an ASCII letter, only
  LATIN SMALL LETTER LONG S (C5 BF) folds to \<open>s\<close> and KELVIN SIGN (E2 84 AA) to \<open>k\<close>.
\<close>

function strings_EqualFold :: "string \<Rightarrow> string \<Rightarrow> bool" where
  "strings_EqualFold s [] = (s = [])"
| "strings_EqualFold s (b # t) =
     (if s \<noteq> [] \<and> is_ascii (hd s) then ascii_lower (hd s) = ascii_lower b \<and> strings_EqualFold (tl s) t
      else if ascii_lower b = CHR ''s'' \<and> strings_HasPrefix s [CHR 0xC5, CHR 0xBF]
           then strings_EqualFold (drop 2 s) t
      else if ascii_lower b = CHR ''k'' \<and> strings_HasPrefix s [CHR 0xE2, CHR 0x84, CHR 0xAA]
           then strings_EqualFold (drop 3 s) t
      else False)"
  by pat_completeness auto
termination
  by (relation "measure (\<lambda>(s, t). length t)") auto

section \<open>Decimal numbers\<close>

definition is_digit :: "char \<Rightarrow> bool" where
  "is_digit c \<longleftrightarrow> 48 \<le> (of_char c :: nat) \<and> (of_char c :: nat) \<le> 57"

fun parse_digits :: "string \<Rightarrow> int \<Rightarrow> int option" where
  "parse_digits [] acc = Some acc"
| "parse_digits (c # cs) acc =
     (if is_digit c then parse_digits cs (10 * acc + (int (of_char c) - 48)) else None)"

text \<open>\<open>strconv.Atoi\<close>: an optional sign, decimal digits, the range of \<open>int\<close> (64 bits).\<close>

definition strconv_Atoi :: "string \<Rightarrow> int option" where
  "strconv_Atoi s =
     (let neg = (s \<noteq> [] \<and> hd s = CHR ''-'');
          ds = (if s \<noteq> [] \<and> (hd s = CHR ''-'' \<or> hd s = CHR ''+'') then tl s else s)
      in if ds = [] then None
         else case parse_digits ds 0 of
             None \<Rightarrow> None
           | Some n \<Rightarrow> (let v = (if neg then - n else n) in if in_int64 v then Some v else None))"

definition digit_char :: "nat \<Rightarrow> char" where
  "digit_char d = char_of (48 + d)"

fun nat_digits :: "nat \<Rightarrow> string" where
  "nat_digits n = (if n < 10 then [digit_char n] else nat_digits (n div 10) @ [digit_char (n mod 10)])"

declare nat_digits.simps [simp del]

definition strconv_Itoa :: "int \<Rightarrow> string" where
  "strconv_Itoa i = (if i < 0 then CHR ''-'' # nat_digits (nat (- i)) else nat_digits (nat i))"

section \<open>path.Clean\<close>

fun clean_elems :: "bool \<Rightarrow> string list \<Rightarrow> string list \<Rightarrow> string list" where
  "clean_elems rooted out [] = rev out"
| "clean_elems rooted out (e # es) =
     (if e = [] \<or> e = ''.'' then clean_elems rooted out es
      else if e = ''..'' then
        (case out of
           x # out' \<Rightarrow> if x \<noteq> ''..'' then clean_elems rooted out' es
                      else clean_elems rooted (''..'' # out) es
         | [] \<Rightarrow> if rooted then clean_elems rooted out es else clean_elems rooted [''..''] es)
      else clean_elems rooted (e # out) es)"

definition path_Clean :: "string \<Rightarrow> string" where
  "path_Clean p =
     (let rooted = strings_HasPrefix p ''/'';
          out = clean_elems rooted [] (strings_Split p (CHR ''/''))
      in if rooted then CHR ''/'' # strings_Join out (CHR ''/'')
         else if out = [] then ''.'' else strings_Join out (CHR ''/''))"

section \<open>Facts about strings\<close>

lemma HasPrefix_append [simp]: "strings_HasPrefix (p @ s) p"
  by (simp add: strings_HasPrefix_def)

lemma HasPrefix_iff: "strings_HasPrefix s p \<longleftrightarrow> (\<exists>t. s = p @ t)"
  by (metis HasPrefix_append append_take_drop_id strings_HasPrefix_def)

lemma TrimPrefix_append [simp]: "strings_TrimPrefix (p @ s) p = s"
  by (simp add: strings_TrimPrefix_def)

lemma HasPrefix_Nil [simp]: "strings_HasPrefix s []"
  by (simp add: strings_HasPrefix_def)

lemma HasSuffix_append [simp]: "strings_HasSuffix (s @ p) p"
  by (simp add: strings_HasSuffix_def)

lemma HasSuffix_iff: "strings_HasSuffix s p \<longleftrightarrow> (\<exists>t. s = t @ p)"
  by (metis HasSuffix_append append_take_drop_id strings_HasSuffix_def)

lemma TrimSuffix_append [simp]: "strings_TrimSuffix (s @ p) p = s"
  by (simp add: strings_TrimSuffix_def)

lemma Contains_iff: "strings_Contains s sub \<longleftrightarrow> (\<exists>u v. s = u @ sub @ v)"
proof (induction s)
  case Nil
  then show ?case by auto
next
  case (Cons c s)
  have "(\<exists>u v. c # s = u @ sub @ v) \<longleftrightarrow> (\<exists>v. c # s = sub @ v) \<or> (\<exists>u v. s = u @ sub @ v)"
    by (metis append_Cons append_Nil neq_Nil_conv list.inject)
  with Cons show ?case by (simp add: HasPrefix_iff)
qed

lemma IndexByte_None [simp]: "strings_IndexByte s c = None \<longleftrightarrow> c \<notin> set s"
  by (induction s) auto

lemma IndexByte_append [simp]: "c \<notin> set u \<Longrightarrow> strings_IndexByte (u @ c # v) c = Some (length u)"
  by (induction u) auto

lemma IndexByte_SomeD:
  "strings_IndexByte s c = Some i \<Longrightarrow> s = take i s @ c # drop (Suc i) s \<and> c \<notin> set (take i s) \<and> i < length s"
proof (induction s arbitrary: i)
  case (Cons x xs)
  then show ?case by (cases i) (auto split: if_splits)
qed simp

lemma Cut_found [simp]: "c \<notin> set u \<Longrightarrow> strings_Cut (u @ c # v) c = (u, v, True)"
  by (simp add: strings_Cut_def)

lemma Cut_absent [simp]: "c \<notin> set s \<Longrightarrow> strings_Cut s c = (s, [], False)"
  using IndexByte_None [of s c] by (simp add: strings_Cut_def del: IndexByte_None)

lemma Split_not_Nil [simp]: "strings_Split s c \<noteq> []"
  by (cases s) (auto split: list.splits)

lemma Split_absent: "c \<notin> set s \<Longrightarrow> strings_Split s c = [s]"
  by (induction s) auto

lemma Split_append: "c \<notin> set u \<Longrightarrow> strings_Split (u @ c # v) c = u # strings_Split v c"
  by (induction u) auto

lemma Join_Cons: "xs \<noteq> [] \<Longrightarrow> strings_Join (x # xs) c = x @ c # strings_Join xs c"
  by (cases xs) auto

lemma Join_Split [simp]: "strings_Join (strings_Split s c) c = s"
proof (induction s)
  case (Cons x xs)
  obtain y ys where y: "strings_Split xs c = y # ys"
    by (cases "strings_Split xs c") auto
  with Cons.IH show ?case by (cases ys) auto
qed simp

lemma Split_no_sep: "w \<in> set (strings_Split s c) \<Longrightarrow> c \<notin> set w"
proof (induction s arbitrary: w)
  case (Cons x xs)
  obtain y ys where y: "strings_Split xs c = y # ys"
    by (cases "strings_Split xs c") auto
  with Cons show ?case by (auto split: if_splits)
qed simp

lemma Split_Join: "xs \<noteq> [] \<Longrightarrow> \<forall>w\<in>set xs. c \<notin> set w \<Longrightarrow> strings_Split (strings_Join xs c) c = xs"
proof (induction xs)
  case (Cons x xs)
  then show ?case by (cases xs) (simp_all add: Split_absent Split_append)
qed simp

text \<open>A substring of two equal non-separator bytes lies within one element of the split.\<close>

lemma Split_element: "w \<in> set (strings_Split s c) \<Longrightarrow> \<exists>u v. s = u @ w @ v"
proof (induction s arbitrary: w)
  case (Cons x xs)
  obtain y ys where y: "strings_Split xs c = y # ys"
    by (cases "strings_Split xs c") auto
  show ?case
  proof (cases "x = c")
    case True
    with Cons.prems have "w = [] \<or> w \<in> set (strings_Split xs c)" by auto
    then show ?thesis using Cons.IH by (metis append_Cons append_Nil)
  next
    case False
    with Cons.prems y have w: "w = x # y \<or> w \<in> set ys" by auto
    have "\<exists>v. xs = y @ v"
      using y Join_Split [of xs c] by (cases ys) auto
    then show ?thesis using w Cons.IH [of w] y
      by (metis append_Cons append_Nil list.set_intros(2))
  qed
qed simp

lemma substring_across_sep:
  "x @ c # r = u @ [d, d] @ v \<Longrightarrow> d \<noteq> c \<Longrightarrow>
   strings_Contains x [d, d] \<or> strings_Contains r [d, d]"
proof (induction x arbitrary: u)
  case Nil
  then obtain u' where "u = c # u'" by (cases u) auto
  with Nil.prems show ?case by (auto simp: Contains_iff)
next
  case (Cons a x)
  show ?case
  proof (cases u)
    case Nil
    with Cons.prems obtain x' where "a = d" "x = d # x'" by (cases x) auto
    then show ?thesis by (simp add: strings_HasPrefix_def)
  next
    case (Cons b u')
    with Cons.prems have "x @ c # r = u' @ [d, d] @ v" by simp
    with Cons.IH Cons.prems(2) show ?thesis by auto
  qed
qed

lemma Join_contains_dots:
  "strings_Contains (strings_Join es c) [d, d] \<Longrightarrow> d \<noteq> c \<Longrightarrow> \<exists>e\<in>set es. strings_Contains e [d, d]"
proof (induction es c rule: strings_Join.induct)
  case (3 x y ys c)
  from "3.prems"(1) obtain u v where "x @ c # strings_Join (y # ys) c = u @ [d, d] @ v"
    by (auto simp only: strings_Join.simps Contains_iff)
  then have "strings_Contains x [d, d] \<or> strings_Contains (strings_Join (y # ys) c) [d, d]"
    using "3.prems"(2) by (rule substring_across_sep)
  then show ?case using "3.IH" "3.prems"(2) by auto
qed (auto simp: Contains_iff)

subsection \<open>Trimming\<close>

definition plain_char :: "char \<Rightarrow> bool" where
  "plain_char c \<longleftrightarrow> 33 \<le> (of_char c :: nat) \<and> (of_char c :: nat) \<le> 127"

lemma strip_rune_None:
  "\<forall>r\<in>set rs. r \<noteq> [] \<longrightarrow> hd r \<noteq> c \<Longrightarrow> strip_rune rs (c # s) = None"
  by (induction rs "c # s" rule: strip_rune.induct) (auto simp: HasPrefix_iff neq_Nil_conv)

lemma strip_rune_Nil [simp]: "strip_rune rs [] = None"
  by (induction rs "[] :: string" rule: strip_rune.induct) (auto simp: HasPrefix_iff)

lemma space_runes_not_plain:
  "r \<in> set space_runes \<Longrightarrow> \<not> plain_char (hd r) \<and> \<not> plain_char (last r)"
  by (auto simp: space_runes_def plain_char_def)

lemma trim_runes_plain:
  assumes "s = [] \<or> plain_char (hd s)" and "\<And>r. r \<in> set rs \<Longrightarrow> \<not> plain_char (hd r)"
  shows "trim_runes rs s = s"
proof (cases s)
  case (Cons c t)
  with assms have "strip_rune rs s = None" by (auto intro: strip_rune_None)
  then show ?thesis by (simp add: trim_runes.simps)
qed (simp add: trim_runes.simps)

lemma TrimSpace_plain:
  assumes "s = [] \<or> plain_char (hd s) \<and> plain_char (last s)"
  shows "strings_TrimSpace s = s"
proof -
  have left: "trim_runes space_runes s = s"
    using assms space_runes_not_plain by (intro trim_runes_plain) auto
  have "trim_runes (map rev space_runes) (rev s) = rev s"
    using assms space_runes_not_plain by (intro trim_runes_plain) (auto simp: hd_rev)
  with left show ?thesis by (simp add: strings_TrimSpace_def)
qed

subsection \<open>Decimal numbers round trip\<close>

lemma of_char_digit_nat [simp]: "d < 10 \<Longrightarrow> (of_char (digit_char d) :: nat) = 48 + d"
  by (simp add: digit_char_def)

lemma is_digit_digit_char [simp]: "d < 10 \<Longrightarrow> is_digit (digit_char d)"
  by (simp add: is_digit_def)

lemma parse_digits_append:
  "parse_digits (xs @ ys) acc = (case parse_digits xs acc of None \<Rightarrow> None | Some a \<Rightarrow> parse_digits ys a)"
  by (induction xs arbitrary: acc) auto

lemma parse_nat_digits: "parse_digits (nat_digits n) 0 = Some (int n)"
proof (induction n rule: nat_digits.induct)
  case (1 n)
  show ?case
  proof (cases "n < 10")
    case True
    then show ?thesis by (simp add: nat_digits.simps)
  next
    case False
    with "1.IH" have "parse_digits (nat_digits (n div 10)) 0 = Some (int (n div 10))" by blast
    then show ?thesis using False
      by (simp add: nat_digits.simps [of n] parse_digits_append zdiv_int zmod_int)
  qed
qed

lemma nat_digits_all_digits: "\<forall>c\<in>set (nat_digits n). is_digit c"
proof (induction n rule: nat_digits.induct)
  case (1 n)
  then show ?case by (cases "n < 10") (auto simp: nat_digits.simps [of n])
qed

lemma nat_digits_not_Nil [simp]: "nat_digits n \<noteq> []"
  by (subst nat_digits.simps) simp

lemma digit_not_sign: "is_digit c \<Longrightarrow> c \<noteq> CHR ''-'' \<and> c \<noteq> CHR ''+'' \<and> c \<noteq> CHR '','' \<and> plain_char c"
  by (auto simp: is_digit_def plain_char_def)

lemma hd_nat_digits: "is_digit (hd (nat_digits n))"
  using nat_digits_all_digits [of n] by auto

lemma last_nat_digits: "is_digit (last (nat_digits n))"
  using nat_digits_all_digits [of n] by auto

lemma Atoi_nat_digits [simp]: "in_int64 (int n) \<Longrightarrow> strconv_Atoi (nat_digits n) = Some (int n)"
  using hd_nat_digits [of n] digit_not_sign
  by (auto simp: strconv_Atoi_def parse_nat_digits Let_def)

lemma Atoi_Itoa: "in_int64 i \<Longrightarrow> strconv_Atoi (strconv_Itoa i) = Some i"
proof (cases "i < 0")
  case True
  then show ?thesis if "in_int64 i"
    using that by (simp add: strconv_Itoa_def strconv_Atoi_def parse_nat_digits)
next
  case False
  then show ?thesis if "in_int64 i"
    using that Atoi_nat_digits [of "nat i"] by (simp add: strconv_Itoa_def)
qed

lemma Atoi_range: "strconv_Atoi s = Some v \<Longrightarrow> in_int64 v"
  by (auto simp: strconv_Atoi_def Let_def split: option.splits if_splits)

lemma parse_digits_nonneg: "parse_digits s acc = Some v \<Longrightarrow> 0 \<le> acc \<Longrightarrow> 0 \<le> v"
  by (induction s acc arbitrary: v rule: parse_digits.induct)
     (auto simp: is_digit_def split: if_splits)

end
