(* ===== verification/GoHttp.thy ===== *)
theory GoHttp
  imports GoStrings
begin

text \<open>
  The part of \<open>net/http\<close> the handlers use: header maps with canonical keys, requests, and the
  response writer a handler fills. A header map is an association list: the list order stands for
  the order in which one iteration of the Go map visits it (unspecified in Go, so a theorem about
  every list is a theorem about every order), and keys are looked up with \<open>map_of\<close>.
\<close>

type_synonym header = "(string \<times> string list) list"

section \<open>Header maps\<close>

definition valid_header_byte :: "char \<Rightarrow> bool" where
  "valid_header_byte c \<longleftrightarrow> is_digit c \<or> is_upper c \<or> is_lower c \<or> c \<in> set ''!#$%&*+-.^_`|~'' \<or> c = CHR 0x27"

fun canon_from :: "bool \<Rightarrow> string \<Rightarrow> string" where
  "canon_from up [] = []"
| "canon_from up (c # cs) =
     (let c' = (if up then ascii_upper c else ascii_lower c) in c' # canon_from (c' = CHR ''-'') cs)"

definition CanonicalHeaderKey :: "string \<Rightarrow> string" where
  "CanonicalHeaderKey k = (if list_all valid_header_byte k then canon_from True k else k)"

definition header_values :: "header \<Rightarrow> string \<Rightarrow> string list" where
  "header_values h k = (case map_of h k of None \<Rightarrow> [] | Some vs \<Rightarrow> vs)"

definition header_Get :: "header \<Rightarrow> string \<Rightarrow> string" where
  "header_Get h k = (case header_values h (CanonicalHeaderKey k) of [] \<Rightarrow> [] | v # _ \<Rightarrow> v)"

definition header_assign :: "header \<Rightarrow> string \<Rightarrow> string list \<Rightarrow> header" where
  "header_assign h k vs = AList.update k vs h"

definition header_Set :: "header \<Rightarrow> string \<Rightarrow> string \<Rightarrow> header" where
  "header_Set h k v = header_assign h (CanonicalHeaderKey k) [v]"

definition header_Add :: "header \<Rightarrow> string \<Rightarrow> string \<Rightarrow> header" where
  "header_Add h k v =
     (let c = CanonicalHeaderKey k in header_assign h c (header_values h c @ [v]))"

definition header_Del :: "header \<Rightarrow> string \<Rightarrow> header" where
  "header_Del h k = AList.delete (CanonicalHeaderKey k) h"

lemma header_Get_empty [simp]: "header_Get [] k = []"
  by (simp add: header_Get_def header_values_def)

lemma header_values_simps [simp]:
  "header_values [] k = []"
  "header_values ((k', vs) # h) k = (if k = k' then vs else header_values h k)"
  by (simp_all add: header_values_def)

lemma header_values_assign [simp]:
  "header_values (header_assign h k vs) k' = (if k' = k then vs else header_values h k')"
  by (simp add: header_values_def header_assign_def update_conv)

lemma header_Get_Set:
  "header_Get (header_Set h k v) k' =
     (if CanonicalHeaderKey k' = CanonicalHeaderKey k then v else header_Get h k')"
  by (simp add: header_Get_def header_Set_def)

lemma header_values_Del [simp]:
  "header_values (header_Del h k) k' = (if k' = CanonicalHeaderKey k then [] else header_values h k')"
  by (simp add: header_values_def header_Del_def delete_conv')

lemma header_Get_Del:
  "header_Get (header_Del h k) k' =
     (if CanonicalHeaderKey k' = CanonicalHeaderKey k then [] else header_Get h k')"
  by (simp add: header_Get_def)

lemma header_values_Set [simp]:
  "header_values (header_Set h k v) k' = (if k' = CanonicalHeaderKey k then [v] else header_values h k')"
  by (simp add: header_Set_def)

lemma header_values_Add [simp]:
  "header_values (header_Add h k v) k' =
     (if k' = CanonicalHeaderKey k then header_values h k' @ [v] else header_values h k')"
  by (simp add: header_Add_def Let_def)

section \<open>Requests and response writers\<close>

record request =
  reqMethod :: string
  reqHost :: string
  reqPath :: string
  reqRawQuery :: string
  reqURI :: string
  reqHeader :: header
  reqRemoteAddr :: string

text \<open>
  A response writer: the header map a handler edits, the status line and header snapshot sent by
  the first \<open>WriteHeader\<close> (later calls are ignored), and the body bytes. \<open>Write\<close> sends status 200
  if no status was sent.
\<close>

record respw =
  rwHeader :: header
  rwSent :: "(int \<times> header) option"
  rwBody :: bytes

definition new_respw :: respw where
  "new_respw = \<lparr>rwHeader = [], rwSent = None, rwBody = []\<rparr>"

definition w_WriteHeader :: "respw \<Rightarrow> int \<Rightarrow> respw" where
  "w_WriteHeader w code =
     (case rwSent w of None \<Rightarrow> w\<lparr>rwSent := Some (code, rwHeader w)\<rparr> | Some _ \<Rightarrow> w)"

definition w_Write :: "respw \<Rightarrow> bytes \<Rightarrow> respw" where
  "w_Write w b = (let w' = w_WriteHeader w 200 in w'\<lparr>rwBody := rwBody w' @ b\<rparr>)"

definition w_Set :: "respw \<Rightarrow> string \<Rightarrow> string \<Rightarrow> respw" where
  "w_Set w k v = w\<lparr>rwHeader := header_Set (rwHeader w) k v\<rparr>"

definition w_Add :: "respw \<Rightarrow> string \<Rightarrow> string \<Rightarrow> respw" where
  "w_Add w k v = w\<lparr>rwHeader := header_Add (rwHeader w) k v\<rparr>"

text \<open>\<open>http.Error\<close>: the message is written with a trailing newline.\<close>

definition http_Error :: "respw \<Rightarrow> string \<Rightarrow> int \<Rightarrow> respw" where
  "http_Error w msg code =
     (let w1 = w\<lparr>rwHeader := header_Del (rwHeader w) ''Content-Length''\<rparr>;
          w2 = w_Set w1 ''Content-Type'' ''text/plain; charset=utf-8'';
          w3 = w_Set w2 ''X-Content-Type-Options'' ''nosniff''
      in w_Write (w_WriteHeader w3 code) (msg @ [CHR 0x0A]))"

text \<open>The status a finished handler has answered with (200 when it never wrote).\<close>

definition rw_status :: "respw \<Rightarrow> int" where
  "rw_status w = (case rwSent w of None \<Rightarrow> 200 | Some (c, _) \<Rightarrow> c)"

definition rw_sent_header :: "respw \<Rightarrow> string \<Rightarrow> string" where
  "rw_sent_header w k =
     (case rwSent w of None \<Rightarrow> header_Get (rwHeader w) k | Some (_, h) \<Rightarrow> header_Get h k)"

text \<open>\<open>for k, vals := range h { for _, v := range vals { w.Header().Add(k, v) } }\<close>\<close>

fun add_values :: "respw \<Rightarrow> string \<Rightarrow> string list \<Rightarrow> respw" where
  "add_values w k [] = w"
| "add_values w k (v # vs) = add_values (w_Add w k v) k vs"

fun add_headers :: "respw \<Rightarrow> header \<Rightarrow> respw" where
  "add_headers w [] = w"
| "add_headers w ((k, vs) # h) = add_headers (add_values w k vs) h"

text \<open>\<open>for k, vals := range h { w.Header()[k] = vals }\<close>\<close>

fun assign_headers :: "respw \<Rightarrow> header \<Rightarrow> respw" where
  "assign_headers w [] = w"
| "assign_headers w ((k, vs) # h) =
     assign_headers (w\<lparr>rwHeader := header_assign (rwHeader w) k vs\<rparr>) h"

section \<open>What the writer operations leave\<close>

lemma w_WriteHeader_new [simp]: "rwSent w = None \<Longrightarrow> rwSent (w_WriteHeader w c) = Some (c, rwHeader w)"
  by (simp add: w_WriteHeader_def)

lemma w_WriteHeader_frame [simp]:
  "rwHeader (w_WriteHeader w c) = rwHeader w" "rwBody (w_WriteHeader w c) = rwBody w"
  by (auto simp: w_WriteHeader_def split: option.splits)

lemma w_WriteHeader_old [simp]: "rwSent w = Some x \<Longrightarrow> w_WriteHeader w c = w"
  by (simp add: w_WriteHeader_def)

lemma w_Write_sent [simp]: "rwSent w = Some x \<Longrightarrow> rwSent (w_Write w b) = Some x"
  by (simp add: w_Write_def)

lemma w_Write_body [simp]: "rwBody (w_Write w b) = rwBody w @ b"
  by (simp add: w_Write_def Let_def)

lemma w_Set_frame [simp]: "rwSent (w_Set w k v) = rwSent w" "rwBody (w_Set w k v) = rwBody w"
  by (simp_all add: w_Set_def)

lemma w_Add_frame [simp]: "rwSent (w_Add w k v) = rwSent w" "rwBody (w_Add w k v) = rwBody w"
  by (simp_all add: w_Add_def)

lemma add_values_frame [simp]:
  "rwSent (add_values w k vs) = rwSent w" "rwBody (add_values w k vs) = rwBody w"
  by (induction w k vs rule: add_values.induct) simp_all

lemma add_headers_frame [simp]:
  "rwSent (add_headers w h) = rwSent w" "rwBody (add_headers w h) = rwBody w"
  by (induction w h rule: add_headers.induct) simp_all

lemma assign_headers_frame [simp]:
  "rwSent (assign_headers w h) = rwSent w" "rwBody (assign_headers w h) = rwBody w"
  by (induction w h rule: assign_headers.induct) simp_all

lemma assign_headers_values:
  "distinct (map fst h) \<Longrightarrow>
   header_values (rwHeader (assign_headers w h)) k =
     (if k \<in> fst ` set h then header_values h k else header_values (rwHeader w) k)"
proof (induction w h rule: assign_headers.induct)
  case (2 w k' vs h)
  then show ?case by auto
qed simp

lemma new_respw_fields [simp]:
  "rwSent new_respw = None" "rwBody new_respw = []" "rwHeader new_respw = []"
  by (simp_all add: new_respw_def)

lemma http_Error_status [simp]: "rwSent w = None \<Longrightarrow> rw_status (http_Error w msg code) = code"
  by (simp add: http_Error_def rw_status_def Let_def)

end
