(* ===== verification/HeaderCodec.thy ===== *)
theory HeaderCodec
  imports GoHttp
begin

text \<open>
  \<open>cache/headers.go\<close>: cached headers kept as one flag byte and a payload, the gob encoding of the
  header map, compressed with zstd when that is shorter. The gob codec and the third-party zstd
  codec are the record \<open>hdrCodec\<close> of parameters; \<open>codec_roundtrip\<close> states what their documentation
  promises for a header map, that decoding inverts encoding.
\<close>

record hdrCodec =
  gobEncode :: "header \<Rightarrow> bytes option"
  gobDecode :: "bytes \<Rightarrow> header option"
  zstdEncodeAll :: "bytes \<Rightarrow> bytes"
  zstdDecodeAll :: "bytes \<Rightarrow> bytes option"

type_synonym CompressedHeader = bytes

definition hdrFlagRaw :: char where "hdrFlagRaw = CHR 0x00"
definition hdrFlagZstd :: char where "hdrFlagZstd = CHR 0x01"

definition NewCompressedHeader :: "('a) hdrCodec_scheme \<Rightarrow> header \<Rightarrow> CompressedHeader option" where
  "NewCompressedHeader cd h =
     (if h = [] then None
      else case gobEncode cd h of
          None \<Rightarrow> None
        | Some raw \<Rightarrow>
            (let compressed = zstdEncodeAll cd raw
             in if length compressed + 1 \<ge> length raw + 1 then Some (hdrFlagRaw # raw)
                else Some (hdrFlagZstd # compressed)))"

definition hdr_Decode :: "('a) hdrCodec_scheme \<Rightarrow> CompressedHeader option \<Rightarrow> header" where
  "hdr_Decode cd ch =
     (case ch of
        None \<Rightarrow> []
      | Some [] \<Rightarrow> []
      | Some (flag # payload) \<Rightarrow>
          (case (if flag = hdrFlagRaw then Some payload
                 else if flag = hdrFlagZstd then zstdDecodeAll cd payload
                 else None) of
             None \<Rightarrow> []
           | Some raw \<Rightarrow> (case gobDecode cd raw of None \<Rightarrow> [] | Some m \<Rightarrow> m)))"

definition hdr_Size :: "CompressedHeader option \<Rightarrow> nat" where
  "hdr_Size ch = (case ch of None \<Rightarrow> 0 | Some d \<Rightarrow> length d)"

definition hdr_Get :: "('a) hdrCodec_scheme \<Rightarrow> CompressedHeader option \<Rightarrow> string \<Rightarrow> string" where
  "hdr_Get cd ch key = (case ch of None \<Rightarrow> [] | Some _ \<Rightarrow> header_Get (hdr_Decode cd ch) key)"

text \<open>
  What the codecs promise for a header map: gob decodes to the same map (in some iteration order)
  and zstd gives back what it compressed.
\<close>

definition header_eq :: "header \<Rightarrow> header \<Rightarrow> bool" where
  "header_eq h h' \<longleftrightarrow> map_of h = map_of h' \<and> distinct (map fst h)"

definition codec_roundtrip :: "('a) hdrCodec_scheme \<Rightarrow> header \<Rightarrow> bool" where
  "codec_roundtrip cd h \<longleftrightarrow>
     (\<exists>raw h'. gobEncode cd h = Some raw \<and> gobDecode cd raw = Some h' \<and> header_eq h' h \<and>
        zstdDecodeAll cd (zstdEncodeAll cd raw) = Some raw)"

lemma NewCompressedHeader_decodes:
  assumes "codec_roundtrip cd h" and "h \<noteq> []"
  shows "\<exists>ch. NewCompressedHeader cd h = Some ch \<and> header_eq (hdr_Decode cd (Some ch)) h"
proof -
  have "hdrFlagZstd \<noteq> hdrFlagRaw" by (simp add: hdrFlagRaw_def hdrFlagZstd_def)
  then show ?thesis using assms
    by (auto simp: codec_roundtrip_def NewCompressedHeader_def hdr_Decode_def Let_def)
qed

lemma header_eq_refl: "distinct (map fst h) \<Longrightarrow> header_eq h h"
  by (simp add: header_eq_def)

lemma header_eq_trans: "header_eq h h' \<Longrightarrow> header_eq h' h'' \<Longrightarrow> header_eq h h''"
  by (simp add: header_eq_def)

lemma header_eq_Nil: "header_eq h [] \<Longrightarrow> h = []"
  by (simp add: header_eq_def)

lemma hdr_Decode_None [simp]: "hdr_Decode cd None = []"
  by (simp add: hdr_Decode_def)

lemma NewCompressedHeader_size:
  "gobEncode cd h = Some raw \<Longrightarrow> hdr_Size (NewCompressedHeader cd h) \<le> length raw + 1"
  by (auto simp: NewCompressedHeader_def hdr_Size_def Let_def)

end
