(* ===== verification/LruShard.thy ===== *)
theory LruShard
  imports HeaderCodec
begin

text \<open>
  The in-memory shard of \<open>cache/cache.go\<close>: Go's \<open>container/list\<close> as a heap of elements and an
  order, \<open>cacheShard\<close> with its key index into that list, and the operations that touch one shard.
  The reference for them is an abstract LRU list of key and entry pairs, most recent first;
  \<open>shard_abs\<close> is the abstraction function and \<open>shard_inv\<close> the invariant that ties the key index to
  the list.
\<close>

section \<open>Cached entries\<close>

record Entry =
  eBody :: bytes
  eHeader :: "header option"
  eCompressedHeader :: "CompressedHeader option"
  eStatusCode :: int
  eStoredAt :: instant
  eTTL :: duration
  eETag :: string
  eLastMod :: string
  eVaryKey :: string
  eStaleWhileRevalidate :: duration

definition GetHeader :: "('a) hdrCodec_scheme \<Rightarrow> Entry \<Rightarrow> header" where
  "GetHeader cd e =
     (case eHeader e of
        Some h \<Rightarrow> h
      | None \<Rightarrow> (case eCompressedHeader e of Some ch \<Rightarrow> hdr_Decode cd (Some ch) | None \<Rightarrow> []))"

definition IsExpired :: "instant \<Rightarrow> Entry \<Rightarrow> bool" where
  "IsExpired now e = (if eTTL e \<le> 0 then False else time_Sub now (eStoredAt e) > eTTL e)"

definition IsStaleServable :: "instant \<Rightarrow> Entry \<Rightarrow> bool" where
  "IsStaleServable now e =
     (if eStaleWhileRevalidate e \<le> 0 \<or> eTTL e \<le> 0 then False
      else let age = time_Sub now (eStoredAt e)
           in age > eTTL e \<and> age \<le> wrap64 (eTTL e + eStaleWhileRevalidate e))"

section \<open>container/list\<close>

text \<open>
  An element is named by a number, its address. \<open>clVal\<close> is the heap of allocated elements (an
  element keeps its value after \<open>Remove\<close>), \<open>clOrder\<close> the list from front to back.
\<close>

record 'a clist =
  clOrder :: "nat list"
  clVal :: "nat \<Rightarrow> 'a option"
  clNext :: nat

definition list_New :: "'a clist" where
  "list_New = \<lparr>clOrder = [], clVal = (\<lambda>_. None), clNext = 0\<rparr>"

definition list_Init :: "'a clist \<Rightarrow> 'a clist" where
  "list_Init l = l\<lparr>clOrder := []\<rparr>"

definition list_Len :: "'a clist \<Rightarrow> nat" where
  "list_Len l = length (clOrder l)"

definition list_Back :: "'a clist \<Rightarrow> nat option" where
  "list_Back l = (if clOrder l = [] then None else Some (last (clOrder l)))"

definition list_PushFront :: "'a clist \<Rightarrow> 'a \<Rightarrow> nat \<times> 'a clist" where
  "list_PushFront l v =
     (clNext l, l\<lparr>clOrder := clNext l # clOrder l, clVal := (clVal l)(clNext l := Some v),
                  clNext := Suc (clNext l)\<rparr>)"

definition list_Remove :: "'a clist \<Rightarrow> nat \<Rightarrow> 'a clist" where
  "list_Remove l p = l\<lparr>clOrder := removeAll p (clOrder l)\<rparr>"

definition list_MoveToFront :: "'a clist \<Rightarrow> nat \<Rightarrow> 'a clist" where
  "list_MoveToFront l p =
     (if p \<in> set (clOrder l) then l\<lparr>clOrder := p # removeAll p (clOrder l)\<rparr> else l)"

definition list_SetValue :: "'a clist \<Rightarrow> nat \<Rightarrow> 'a \<Rightarrow> 'a clist" where
  "list_SetValue l p v = l\<lparr>clVal := (clVal l)(p := Some v)\<rparr>"

section \<open>The shard\<close>

record lruItem =
  liKey :: string
  liEntry :: Entry

record cacheShard =
  shItems :: "(string \<times> nat) list"
  shEviction :: "lruItem clist"
  shMaxItems :: int

definition newShard :: "int \<Rightarrow> cacheShard" where
  "newShard maxItems = \<lparr>shItems = [], shEviction = list_New, shMaxItems = maxItems\<rparr>"

text \<open>\<open>shard.eviction.Remove(elem); delete(shard.items, key)\<close>\<close>

definition shard_remove :: "cacheShard \<Rightarrow> nat \<Rightarrow> string \<Rightarrow> cacheShard" where
  "shard_remove s p key =
     s\<lparr>shEviction := list_Remove (shEviction s) p, shItems := AList.delete key (shItems s)\<rparr>"

text \<open>
  The part of \<open>Cache.Get\<close> under the shard lock. A hit and a servable stale entry move to the
  front; an expired entry that may not be served stale is removed. \<open>None\<close>: the index holds a nil
  element, which \<open>shard_inv\<close> excludes.
\<close>

datatype shardGet = ShardMiss | ShardExpired | ShardHit Entry | ShardStale Entry

definition shard_Get :: "instant \<Rightarrow> cacheShard \<Rightarrow> string \<Rightarrow> (shardGet \<times> cacheShard) option" where
  "shard_Get now s key =
     (case map_of (shItems s) key of
        None \<Rightarrow> Some (ShardMiss, s)
      | Some p \<Rightarrow>
          (case clVal (shEviction s) p of
             None \<Rightarrow> None
           | Some it \<Rightarrow>
               (let entry = liEntry it in
                if IsExpired now entry then
                  (if IsStaleServable now entry
                   then Some (ShardStale entry, s\<lparr>shEviction := list_MoveToFront (shEviction s) p\<rparr>)
                   else Some (ShardExpired, shard_remove s p key))
                else Some (ShardHit entry, s\<lparr>shEviction := list_MoveToFront (shEviction s) p\<rparr>))))"

text \<open>
  The eviction loop of \<open>putInShard\<close>: \<open>admit\<close> is \<open>c.lfu.Admit\<close>, \<open>onEvict\<close> what \<open>evictItem\<close> does
  outside the shard (statistics and the spill to disk, on a state \<open>'d\<close>). The result says whether
  the newcomer may be inserted.
\<close>

lemma removeAll_last_shorter: "xs \<noteq> [] \<Longrightarrow> length (removeAll (last xs) xs) < length xs"
  by (induction xs) (auto simp: less_Suc_eq_le split: if_splits)

function evict_loop ::
  "(string \<Rightarrow> string \<Rightarrow> bool option) \<Rightarrow> (lruItem \<Rightarrow> 'd \<Rightarrow> 'd option) \<Rightarrow> string \<Rightarrow> cacheShard \<Rightarrow> 'd \<Rightarrow>
   (bool \<times> cacheShard \<times> 'd) option" where
  "evict_loop admit onEvict key s d =
     (if int (list_Len (shEviction s)) \<ge> shMaxItems s then
        (case list_Back (shEviction s) of
           None \<Rightarrow> Some (True, s, d)
         | Some victim \<Rightarrow>
             (case clVal (shEviction s) victim of
                None \<Rightarrow> None
              | Some it \<Rightarrow>
                  (case admit key (liKey it) of
                     None \<Rightarrow> None
                   | Some False \<Rightarrow> Some (False, s, d)
                   | Some True \<Rightarrow>
                       (case onEvict it d of
                          None \<Rightarrow> None
                        | Some d' \<Rightarrow> evict_loop admit onEvict key (shard_remove s victim (liKey it)) d'))))
      else Some (True, s, d))"
  by pat_completeness auto
termination
  by (relation "measure (\<lambda>(admit, onEvict, key, s, d). length (clOrder (shEviction s)))")
     (auto simp: list_Back_def shard_remove_def list_Remove_def removeAll_last_shorter split: if_splits)

declare evict_loop.simps [simp del]

definition putInShard ::
  "(string \<Rightarrow> string \<Rightarrow> bool option) \<Rightarrow> (lruItem \<Rightarrow> 'd \<Rightarrow> 'd option) \<Rightarrow> cacheShard \<Rightarrow> 'd \<Rightarrow> string \<Rightarrow> Entry \<Rightarrow>
   (cacheShard \<times> 'd) option" where
  "putInShard admit onEvict s d key entry =
     (case map_of (shItems s) key of
        Some p \<Rightarrow>
          (case clVal (shEviction s) p of
             None \<Rightarrow> None
           | Some it \<Rightarrow>
               Some (s\<lparr>shEviction := list_SetValue (list_MoveToFront (shEviction s) p) p (it\<lparr>liEntry := entry\<rparr>)\<rparr>, d))
      | None \<Rightarrow>
          (case evict_loop admit onEvict key s d of
             None \<Rightarrow> None
           | Some (False, s', d') \<Rightarrow> Some (s', d')
           | Some (True, s', d') \<Rightarrow>
               (let (elem, l) = list_PushFront (shEviction s') \<lparr>liKey = key, liEntry = entry\<rparr>
                in Some (s'\<lparr>shEviction := l, shItems := AList.update key elem (shItems s')\<rparr>, d'))))"

text \<open>The shard half of \<open>deleteShard\<close>, and one iteration of \<open>Purge\<close>.\<close>

definition shard_Delete :: "cacheShard \<Rightarrow> string \<Rightarrow> cacheShard" where
  "shard_Delete s key =
     (case map_of (shItems s) key of None \<Rightarrow> s | Some p \<Rightarrow> shard_remove s p key)"

definition shard_Purge :: "cacheShard \<Rightarrow> cacheShard" where
  "shard_Purge s = s\<lparr>shItems := [], shEviction := list_Init (shEviction s)\<rparr>"

section \<open>The abstract LRU list\<close>

text \<open>
  The specification: a list of key and entry pairs, most recently used first. A lookup moves the
  pair to the front, an insertion into a full list asks whether the newcomer may replace the last
  pair and then drops exactly that pair.
\<close>

type_synonym lru = "(string \<times> Entry) list"

definition lru_touch :: "string \<Rightarrow> Entry \<Rightarrow> lru \<Rightarrow> lru" where
  "lru_touch k e xs = (k, e) # AList.delete k xs"

definition lru_get :: "instant \<Rightarrow> string \<Rightarrow> lru \<Rightarrow> shardGet \<times> lru" where
  "lru_get now k xs =
     (case map_of xs k of
        None \<Rightarrow> (ShardMiss, xs)
      | Some e \<Rightarrow>
          if \<not> IsExpired now e then (ShardHit e, lru_touch k e xs)
          else if IsStaleServable now e then (ShardStale e, lru_touch k e xs)
          else (ShardExpired, AList.delete k xs))"

definition lru_put ::
  "(string \<Rightarrow> string \<Rightarrow> bool option) \<Rightarrow> (lruItem \<Rightarrow> 'd \<Rightarrow> 'd option) \<Rightarrow> int \<Rightarrow> string \<Rightarrow> Entry \<Rightarrow> lru \<Rightarrow> 'd \<Rightarrow>
   (lru \<times> 'd) option" where
  "lru_put admit onEvict cap k e xs d =
     (if k \<in> fst ` set xs \<or> int (length xs) < cap then Some (lru_touch k e xs, d)
      else case admit k (fst (last xs)) of
          None \<Rightarrow> None
        | Some False \<Rightarrow> Some (xs, d)
        | Some True \<Rightarrow>
            map_option (\<lambda>d'. ((k, e) # butlast xs, d'))
              (onEvict \<lparr>liKey = fst (last xs), liEntry = snd (last xs)\<rparr> d))"

lemma lru_put_cases:
  assumes "lru_put admit onEvict cap k e xs d = Some (ys, d')"
  obtains (stored) "ys = lru_touch k e xs" "d' = d" "k \<in> fst ` set xs \<or> int (length xs) < cap"
  | (replaced) "ys = (k, e) # butlast xs" "k \<notin> fst ` set xs" "\<not> int (length xs) < cap"
      "admit k (fst (last xs)) = Some True"
      "onEvict \<lparr>liKey = fst (last xs), liEntry = snd (last xs)\<rparr> d = Some d'"
  | (rejected) "ys = xs" "d' = d" "k \<notin> fst ` set xs" "\<not> int (length xs) < cap"
      "admit k (fst (last xs)) = Some False"
  using assms by (simp add: lru_put_def split: if_splits option.splits bool.splits)

section \<open>The shard implements it\<close>

definition shard_cell :: "lruItem clist \<Rightarrow> nat \<Rightarrow> string \<times> Entry" where
  "shard_cell l p = (let it = the (clVal l p) in (liKey it, liEntry it))"

definition shard_abs :: "cacheShard \<Rightarrow> lru" where
  "shard_abs s = map (shard_cell (shEviction s)) (clOrder (shEviction s))"

definition shard_inv :: "cacheShard \<Rightarrow> bool" where
  "shard_inv s \<longleftrightarrow>
     (let l = shEviction s in
       distinct (clOrder l) \<and>
       (\<forall>p \<in> set (clOrder l). clVal l p \<noteq> None \<and> p < clNext l) \<and>
       distinct (map fst (shItems s)) \<and>
       (\<forall>k p. map_of (shItems s) k = Some p \<longleftrightarrow> p \<in> set (clOrder l) \<and> fst (shard_cell l p) = k) \<and>
       1 \<le> shMaxItems s \<and> int (length (clOrder l)) \<le> shMaxItems s)"

lemma shard_invD:
  assumes "shard_inv s"
  shows "distinct (clOrder (shEviction s))"
    and "p \<in> set (clOrder (shEviction s)) \<Longrightarrow> \<exists>it. clVal (shEviction s) p = Some it"
    and "p \<in> set (clOrder (shEviction s)) \<Longrightarrow> p < clNext (shEviction s)"
    and "map_of (shItems s) k = Some p \<longleftrightarrow>
         p \<in> set (clOrder (shEviction s)) \<and> fst (shard_cell (shEviction s) p) = k"
    and "distinct (map fst (shItems s))"
    and "1 \<le> shMaxItems s"
    and "int (length (clOrder (shEviction s))) \<le> shMaxItems s"
  using assms by (auto simp: shard_inv_def Let_def)

lemma shard_cell_inj:
  assumes "shard_inv s" and "p \<in> set (clOrder (shEviction s))" and "q \<in> set (clOrder (shEviction s))"
    and "fst (shard_cell (shEviction s) p) = fst (shard_cell (shEviction s) q)"
  shows "p = q"
  using assms shard_invD(4) by (metis option.inject)

lemma shard_abs_distinct:
  assumes "shard_inv s" shows "distinct (map fst (shard_abs s))"
  using shard_invD(1) [OF assms] shard_cell_inj [OF assms]
  by (auto simp: shard_abs_def distinct_map inj_on_def)

lemma shard_abs_keys: "fst ` set (shard_abs s) = (\<lambda>p. fst (shard_cell (shEviction s) p)) ` set (clOrder (shEviction s))"
  by (auto simp: shard_abs_def image_image)

lemma shard_abs_lookup:
  assumes "shard_inv s"
  shows "map_of (shard_abs s) k = map_option (\<lambda>p. snd (shard_cell (shEviction s) p)) (map_of (shItems s) k)"
proof (cases "map_of (shItems s) k")
  case None
  have "fst (shard_cell (shEviction s) p) \<noteq> k" if "p \<in> set (clOrder (shEviction s))" for p
    using None that shard_invD(4) [OF assms, of k p] by simp
  then have "map_of (shard_abs s) k = None" by (auto simp: map_of_eq_None_iff shard_abs_keys)
  with None show ?thesis by simp
next
  case (Some p)
  with shard_invD(4) [OF assms] have p: "p \<in> set (clOrder (shEviction s))" "fst (shard_cell (shEviction s) p) = k"
    by auto
  then have "(k, snd (shard_cell (shEviction s) p)) \<in> set (shard_abs s)"
    unfolding shard_abs_def set_map by (intro image_eqI [of _ _ p]) auto
  with shard_abs_distinct [OF assms] show ?thesis by (simp add: Some)
qed

lemma shard_items_len:
  assumes "shard_inv s" shows "length (shItems s) = length (shard_abs s)"
proof -
  have "dom (map_of (shItems s)) = fst ` set (shard_abs s)"
    using shard_invD(4) [OF assms] by (force simp: shard_abs_keys dom_def)
  then have "set (map fst (shItems s)) = set (map fst (shard_abs s))"
    by (simp add: dom_map_of_conv_image_fst)
  moreover have "distinct (map fst (shItems s))" "distinct (map fst (shard_abs s))"
    using shard_invD(5) [OF assms] shard_abs_distinct [OF assms] by auto
  ultimately show ?thesis by (metis distinct_card length_map)
qed

lemma AList_delete_filter: "AList.delete k xs = filter (\<lambda>x. fst x \<noteq> k) xs"
  by (simp add: AList.delete_eq case_prod_unfold eq_commute)

lemma shard_cell_upd: "clVal l' = clVal l \<Longrightarrow> shard_cell l' = shard_cell l"
  by (simp add: shard_cell_def fun_eq_iff)

lemma shard_abs_filter:
  assumes "shard_inv s" and "map_of (shItems s) k = Some p"
  shows "map (shard_cell (shEviction s)) (removeAll p (clOrder (shEviction s))) = AList.delete k (shard_abs s)"
proof -
  have p: "p \<in> set (clOrder (shEviction s))" "fst (shard_cell (shEviction s) p) = k"
    using assms shard_invD(4) by auto
  have "q = p \<longleftrightarrow> fst (shard_cell (shEviction s) q) = k" if "q \<in> set (clOrder (shEviction s))" for q
    using that p shard_cell_inj [OF assms(1)] by auto
  then have "removeAll p (clOrder (shEviction s)) =
      filter (\<lambda>q. fst (shard_cell (shEviction s) q) \<noteq> k) (clOrder (shEviction s))"
    unfolding removeAll_filter_not_eq by (intro filter_cong) auto
  then show ?thesis by (simp add: AList_delete_filter shard_abs_def filter_map o_def)
qed

lemma shard_remove_abs:
  assumes "shard_inv s" and "map_of (shItems s) k = Some p"
  shows "shard_inv (shard_remove s p k)" and "shard_abs (shard_remove s p k) = AList.delete k (shard_abs s)"
proof -
  note D = shard_invD [OF assms(1)]
  have p: "p \<in> set (clOrder (shEviction s))" "fst (shard_cell (shEviction s) p) = k"
    using assms(2) D(4) by auto
  have cell: "shard_cell (list_Remove (shEviction s) p) = shard_cell (shEviction s)"
    by (rule shard_cell_upd) (simp add: list_Remove_def)
  show "shard_abs (shard_remove s p k) = AList.delete k (shard_abs s)"
    using shard_abs_filter [OF assms]
    by (simp add: shard_abs_def shard_remove_def cell) (simp add: list_Remove_def)
  have idx: "map_of (AList.delete k (shItems s)) k' = Some q \<longleftrightarrow>
      q \<in> set (removeAll p (clOrder (shEviction s))) \<and> fst (shard_cell (shEviction s) q) = k'" for k' q
    using D(4) [of k' q] p shard_cell_inj [OF assms(1), of p q] by (auto simp: AList.delete_conv')
  have "int (length (removeAll p (clOrder (shEviction s)))) \<le> shMaxItems s"
    using D(7) length_removeAll_less_eq [of p "clOrder (shEviction s)"] by linarith
  then show "shard_inv (shard_remove s p k)"
    unfolding shard_inv_def Let_def
    by (simp add: shard_remove_def cell) (use D idx in \<open>auto simp: list_Remove_def distinct_removeAll AList.distinct_delete\<close>)
qed

lemma shard_move_abs:
  assumes "shard_inv s" and "map_of (shItems s) k = Some p"
  defines "s' \<equiv> s\<lparr>shEviction := list_MoveToFront (shEviction s) p\<rparr>"
  shows "shard_inv s'" and "shard_abs s' = lru_touch k (snd (shard_cell (shEviction s) p)) (shard_abs s)"
proof -
  note D = shard_invD [OF assms(1)]
  have p: "p \<in> set (clOrder (shEviction s))" "fst (shard_cell (shEviction s) p) = k"
    using assms(2) D(4) by auto
  have cell: "shard_cell (list_MoveToFront (shEviction s) p) = shard_cell (shEviction s)"
    by (rule shard_cell_upd) (simp add: list_MoveToFront_def)
  have ord: "clOrder (list_MoveToFront (shEviction s) p) = p # removeAll p (clOrder (shEviction s))"
    using p(1) by (simp add: list_MoveToFront_def)
  show "shard_abs s' = lru_touch k (snd (shard_cell (shEviction s) p)) (shard_abs s)"
    using p(2) shard_abs_filter [OF assms(1,2)]
    by (simp add: lru_touch_def shard_abs_def s'_def cell ord prod_eq_iff)
  have set: "set (clOrder (list_MoveToFront (shEviction s) p)) = set (clOrder (shEviction s))"
    using p(1) by (auto simp: ord)
  have len: "length (clOrder (list_MoveToFront (shEviction s) p)) = length (clOrder (shEviction s))"
    using p(1) D(1) by (simp add: ord distinct_remove1_removeAll [symmetric] length_remove1)
       (metis Suc_pred length_pos_if_in_set)
  have "clVal (list_MoveToFront (shEviction s) p) = clVal (shEviction s)"
    "clNext (list_MoveToFront (shEviction s) p) = clNext (shEviction s)"
    by (simp_all add: list_MoveToFront_def)
  moreover have "distinct (clOrder (list_MoveToFront (shEviction s) p))"
    using D(1) by (simp add: ord distinct_removeAll)
  ultimately show "shard_inv s'"
    using D by (simp add: shard_inv_def Let_def s'_def cell set len)
qed

lemma shard_update_abs:
  fixes e :: Entry
  assumes "shard_inv s" and "map_of (shItems s) k = Some p" and "clVal (shEviction s) p = Some it"
  defines "s' \<equiv> s\<lparr>shEviction := list_SetValue (list_MoveToFront (shEviction s) p) p (it\<lparr>liEntry := e\<rparr>)\<rparr>"
  shows "shard_inv s'" and "shard_abs s' = lru_touch k e (shard_abs s)"
proof -
  let ?m = "s\<lparr>shEviction := list_MoveToFront (shEviction s) p\<rparr>"
  note M = shard_move_abs [OF assms(1,2)]
  note D = shard_invD [OF M(1), simplified]
  have p: "p \<in> set (clOrder (shEviction s))" "liKey it = k"
    using assms(2,3) shard_invD(4) [OF assms(1)] by (auto simp: shard_cell_def)
  have val: "clVal (list_MoveToFront (shEviction s) p) = clVal (shEviction s)" by (simp add: list_MoveToFront_def)
  have ord: "clOrder (list_MoveToFront (shEviction s) p) = p # removeAll p (clOrder (shEviction s))"
    using p(1) by (simp add: list_MoveToFront_def)
  have cell: "shard_cell (shEviction s') q = (if q = p then (k, e) else shard_cell (shEviction s) q)" for q
    using p by (simp add: s'_def list_SetValue_def shard_cell_def val)
  have key: "fst (shard_cell (shEviction s') q) = fst (shard_cell (list_MoveToFront (shEviction s) p) q)" for q
    using p assms(3) by (simp add: cell) (simp add: shard_cell_def val)
  have ord': "clOrder (shEviction s') = p # removeAll p (clOrder (shEviction s))"
    by (simp add: s'_def list_SetValue_def ord)
  have "map (shard_cell (shEviction s')) (removeAll p (clOrder (shEviction s))) =
      map (shard_cell (shEviction s)) (removeAll p (clOrder (shEviction s)))"
    by (simp add: cell)
  then show "shard_abs s' = lru_touch k e (shard_abs s)"
    using shard_abs_filter [OF assms(1,2)]
    by (simp add: shard_abs_def lru_touch_def ord') (simp add: cell)
  show "shard_inv s'"
    using M(1) by (simp add: shard_inv_def Let_def key) (auto simp: s'_def list_SetValue_def)
qed

theorem shard_Get_refines:
  assumes "shard_inv s"
  shows "\<exists>s'. shard_Get now s k = Some (fst (lru_get now k (shard_abs s)), s') \<and>
           shard_inv s' \<and> shard_abs s' = snd (lru_get now k (shard_abs s)) \<and> shMaxItems s' = shMaxItems s"
proof (cases "map_of (shItems s) k")
  case None
  then show ?thesis using assms by (simp add: shard_Get_def lru_get_def shard_abs_lookup)
next
  case (Some p)
  then obtain it where it: "clVal (shEviction s) p = Some it"
    using shard_invD(2,4) [OF assms] by blast
  have cell: "snd (shard_cell (shEviction s) p) = liEntry it" by (simp add: shard_cell_def it)
  show ?thesis
    using shard_move_abs [OF assms Some] shard_remove_abs [OF assms Some]
    by (auto simp: shard_Get_def lru_get_def shard_abs_lookup [OF assms] Some it cell Let_def shard_remove_def)
qed

lemma shard_Delete_refines:
  assumes "shard_inv s"
  shows "shard_inv (shard_Delete s k)" and "shard_abs (shard_Delete s k) = AList.delete k (shard_abs s)"
    and "shMaxItems (shard_Delete s k) = shMaxItems s"
proof -
  have "k \<notin> fst ` set (shard_abs s)" if "map_of (shItems s) k = None"
    using that shard_abs_lookup [OF assms] by (simp add: map_of_eq_None_iff [symmetric])
  then have "AList.delete k (shard_abs s) = shard_abs s" if "map_of (shItems s) k = None"
    using that by (auto simp: AList_delete_filter intro!: filter_True)
  then show "shard_inv (shard_Delete s k)" and "shard_abs (shard_Delete s k) = AList.delete k (shard_abs s)"
    using assms shard_remove_abs [OF assms] by (auto simp: shard_Delete_def split: option.splits)
  show "shMaxItems (shard_Delete s k) = shMaxItems s"
    by (simp add: shard_Delete_def shard_remove_def split: option.splits)
qed

lemma shard_Purge_refines:
  assumes "shard_inv s"
  shows "shard_inv (shard_Purge s)" and "shard_abs (shard_Purge s) = []"
  using shard_invD(6) [OF assms] by (auto simp: shard_inv_def shard_Purge_def list_Init_def shard_abs_def)

lemma newShard_inv: "1 \<le> n \<Longrightarrow> shard_inv (newShard n)"
  by (simp add: shard_inv_def newShard_def list_New_def)

lemma newShard_abs [simp]: "shard_abs (newShard n) = []"
  by (simp add: shard_abs_def newShard_def list_New_def)

lemma shard_push_abs:
  assumes "shard_inv s" and "map_of (shItems s) k = None" and "int (length (shard_abs s)) < shMaxItems s"
    and push: "list_PushFront (shEviction s) \<lparr>liKey = k, liEntry = e\<rparr> = (elem, l)"
  defines "s' \<equiv> s\<lparr>shEviction := l, shItems := AList.update k elem (shItems s)\<rparr>"
  shows "shard_inv s'" and "shard_abs s' = (k, e) # shard_abs s"
proof -
  note D = shard_invD [OF assms(1)]
  have elem: "elem = clNext (shEviction s)" and
    l: "l = (shEviction s)\<lparr>clOrder := elem # clOrder (shEviction s),
                           clVal := (clVal (shEviction s))(elem := Some \<lparr>liKey = k, liEntry = e\<rparr>),
                           clNext := Suc elem\<rparr>"
    using push by (auto simp: list_PushFront_def)
  have fresh: "p \<noteq> elem" if "p \<in> set (clOrder (shEviction s))" for p
    using D(3) [OF that] by (simp add: elem)
  have cell: "shard_cell l p = (if p = elem then (k, e) else shard_cell (shEviction s) p)" for p
    by (simp add: shard_cell_def l)
  have ord: "clOrder l = elem # clOrder (shEviction s)" by (simp add: l)
  have nokey: "fst (shard_cell (shEviction s) p) \<noteq> k" if "p \<in> set (clOrder (shEviction s))" for p
    using that assms(2) D(4) [of k p] by simp
  show "shard_abs s' = (k, e) # shard_abs s"
    using fresh by (auto simp: shard_abs_def s'_def cell ord)
  have "map_of (AList.update k elem (shItems s)) k' = Some p \<longleftrightarrow>
      p \<in> set (elem # clOrder (shEviction s)) \<and> fst (shard_cell l p) = k'" for k' p
    using D(4) [of k' p] nokey fresh by (auto simp: AList.update_conv' cell)
  moreover have "clVal l p \<noteq> None \<and> p < clNext l" if "p \<in> set (elem # clOrder (shEviction s))" for p
    using that D(2,3) [of p] by (auto simp: l elem)
  moreover have "distinct (elem # clOrder (shEviction s))" using D(1) fresh by auto
  ultimately show "shard_inv s'"
    using assms(3) D(5,6) unfolding shard_inv_def Let_def
    by (simp add: s'_def AList.distinct_update shard_abs_def) (simp add: l)
qed

lemma shard_back:
  assumes "shard_inv s" and "shard_abs s \<noteq> []"
  obtains p it where "list_Back (shEviction s) = Some p" and "clVal (shEviction s) p = Some it"
    and "last (shard_abs s) = (liKey it, liEntry it)" and "map_of (shItems s) (liKey it) = Some p"
proof -
  let ?p = "last (clOrder (shEviction s))"
  have ne: "clOrder (shEviction s) \<noteq> []" using assms(2) by (simp add: shard_abs_def)
  then have p: "?p \<in> set (clOrder (shEviction s))" by simp
  then obtain it where it: "clVal (shEviction s) ?p = Some it" using shard_invD(2) [OF assms(1)] by blast
  have "last (shard_abs s) = shard_cell (shEviction s) ?p" using ne by (simp add: shard_abs_def last_map)
  moreover have "shard_cell (shEviction s) ?p = (liKey it, liEntry it)" by (simp add: shard_cell_def it)
  moreover have "map_of (shItems s) (liKey it) = Some ?p"
    using p shard_invD(4) [OF assms(1), of "liKey it" ?p] by (simp add: shard_cell_def it)
  ultimately show thesis using ne it by (intro that [of ?p it]) (auto simp: list_Back_def)
qed

lemma delete_last_butlast:
  assumes "distinct (map fst xs)" and "xs \<noteq> []"
  shows "AList.delete (fst (last xs)) xs = butlast xs"
  using assms by (induction xs rule: rev_induct) (auto simp: AList_delete_filter filter_id_conv image_iff)

lemma shard_abs_len [simp]: "length (clOrder (shEviction s)) = length (shard_abs s)"
  by (simp add: shard_abs_def)

lemma evict_loop_once:
  assumes "shard_inv s" and "\<not> int (length (shard_abs s)) < shMaxItems s"
  shows "\<exists>s1. evict_loop admit onEvict key s d =
           (case admit key (fst (last (shard_abs s))) of
              None \<Rightarrow> None
            | Some False \<Rightarrow> Some (False, s, d)
            | Some True \<Rightarrow> map_option (\<lambda>d'. (True, s1, d'))
                (onEvict \<lparr>liKey = fst (last (shard_abs s)), liEntry = snd (last (shard_abs s))\<rparr> d)) \<and>
         shard_inv s1 \<and> shard_abs s1 = butlast (shard_abs s) \<and> shMaxItems s1 = shMaxItems s"
proof -
  have len: "int (length (shard_abs s)) = shMaxItems s" "1 \<le> shMaxItems s"
    using assms shard_invD(6,7) [OF assms(1)] by auto
  then have ne: "shard_abs s \<noteq> []" by auto
  obtain p it where p: "list_Back (shEviction s) = Some p" "clVal (shEviction s) p = Some it"
    and last: "last (shard_abs s) = (liKey it, liEntry it)" and idx: "map_of (shItems s) (liKey it) = Some p"
    using shard_back [OF assms(1) ne] by blast
  let ?s1 = "shard_remove s p (liKey it)"
  have s1: "shard_inv ?s1" "shard_abs ?s1 = butlast (shard_abs s)"
    using shard_remove_abs [OF assms(1) idx] delete_last_butlast [OF shard_abs_distinct [OF assms(1)] ne] last
    by auto
  have mx: "shMaxItems ?s1 = shMaxItems s" by (simp add: shard_remove_def)
  have "int (length (shard_abs ?s1)) < shMaxItems s" using len ne s1(2) by simp
  then have "evict_loop admit onEvict key ?s1 d' = Some (True, ?s1, d')" for d'
    by (subst evict_loop.simps) (simp add: list_Len_def mx)
  then have "evict_loop admit onEvict key s d =
      (case admit key (liKey it) of
         None \<Rightarrow> None
       | Some False \<Rightarrow> Some (False, s, d)
       | Some True \<Rightarrow> map_option (\<lambda>d'. (True, ?s1, d')) (onEvict it d))"
    using len by (subst evict_loop.simps) (auto simp: list_Len_def p split: option.splits bool.splits)
  moreover have "\<lparr>liKey = fst (last (shard_abs s)), liEntry = snd (last (shard_abs s))\<rparr> = it"
    unfolding last by simp
  ultimately show ?thesis using s1 mx last by (intro exI [of _ ?s1]) (simp only: fst_conv simp_thms)
qed

text \<open>\<open>putInShard\<close> and \<open>lru_put\<close> in step: they panic together, and otherwise end in related states.\<close>

definition put_simulates ::
  "(string \<Rightarrow> string \<Rightarrow> bool option) \<Rightarrow> (lruItem \<Rightarrow> 'd \<Rightarrow> 'd option) \<Rightarrow> cacheShard \<Rightarrow> 'd \<Rightarrow> string \<Rightarrow> Entry \<Rightarrow> bool" where
  "put_simulates admit onEvict s d k e \<longleftrightarrow>
     (\<exists>s'. putInShard admit onEvict s d k e =
             map_option (\<lambda>(xs, d'). (s', d')) (lru_put admit onEvict (shMaxItems s) k e (shard_abs s) d) \<and>
           (\<forall>xs d'. lru_put admit onEvict (shMaxItems s) k e (shard_abs s) d = Some (xs, d') \<longrightarrow>
              shard_inv s' \<and> shard_abs s' = xs \<and> shMaxItems s' = shMaxItems s))"

lemma shard_key_iff:
  assumes "shard_inv s" shows "k \<in> fst ` set (shard_abs s) \<longleftrightarrow> map_of (shItems s) k \<noteq> None"
  using shard_abs_lookup [OF assms, of k] map_of_eq_None_iff [of "shard_abs s" k] by auto

lemma put_simulates_hit:
  assumes "shard_inv s" and "map_of (shItems s) k = Some p"
  shows "put_simulates admit onEvict s d k e"
proof -
  obtain it where it: "clVal (shEviction s) p = Some it"
    using shard_invD(2,4) [OF assms(1)] assms(2) by blast
  show ?thesis
    using shard_update_abs [OF assms it, of e] assms(2) it shard_key_iff [OF assms(1), of k]
    by (auto simp: put_simulates_def putInShard_def lru_put_def)
qed

lemma put_simulates_room:
  assumes "shard_inv s" and "map_of (shItems s) k = None" and "int (length (shard_abs s)) < shMaxItems s"
  shows "put_simulates admit onEvict s d k e"
proof -
  obtain elem l where push: "list_PushFront (shEviction s) \<lparr>liKey = k, liEntry = e\<rparr> = (elem, l)"
    by (cases "list_PushFront (shEviction s) \<lparr>liKey = k, liEntry = e\<rparr>")
  have "evict_loop admit onEvict k s d = Some (True, s, d)"
    using assms(3) by (subst evict_loop.simps) (simp add: list_Len_def)
  moreover have "AList.delete k (shard_abs s) = shard_abs s"
    using shard_key_iff [OF assms(1), of k] assms(2) by (auto simp: AList_delete_filter filter_id_conv image_iff)
  ultimately show ?thesis
    using shard_push_abs [OF assms push] assms(2,3) push
    by (auto simp: put_simulates_def putInShard_def lru_put_def lru_touch_def)
qed

lemma put_simulates_full:
  assumes "shard_inv s" and "map_of (shItems s) k = None" and "\<not> int (length (shard_abs s)) < shMaxItems s"
  shows "put_simulates admit onEvict s d k e"
proof -
  note keys = shard_key_iff [OF assms(1), of k]
  obtain s1 where loop: "evict_loop admit onEvict k s d =
         (case admit k (fst (last (shard_abs s))) of
            None \<Rightarrow> None
          | Some False \<Rightarrow> Some (False, s, d)
          | Some True \<Rightarrow> map_option (\<lambda>d'. (True, s1, d'))
              (onEvict \<lparr>liKey = fst (last (shard_abs s)), liEntry = snd (last (shard_abs s))\<rparr> d))"
    and s1: "shard_inv s1" "shard_abs s1 = butlast (shard_abs s)" "shMaxItems s1 = shMaxItems s"
    using evict_loop_once [OF assms(1,3), of admit onEvict k d] by (elim exE conjE) (rule that)
  obtain elem l where push: "list_PushFront (shEviction s1) \<lparr>liKey = k, liEntry = e\<rparr> = (elem, l)"
    by (cases "list_PushFront (shEviction s1) \<lparr>liKey = k, liEntry = e\<rparr>")
  have "map_of (shard_abs s1) k = None"
    using keys assms(2) s1(2) by (auto simp: map_of_eq_None_iff dest: in_set_butlastD)
  then have "map_of (shItems s1) k = None" by (simp add: shard_abs_lookup [OF s1(1)])
  moreover have "int (length (shard_abs s1)) < shMaxItems s1"
    using shard_invD(6,7) [OF assms(1)] s1 by simp
  ultimately have push':
      "shard_inv (s1\<lparr>shEviction := l, shItems := AList.update k elem (shItems s1)\<rparr>)"
      "shard_abs (s1\<lparr>shEviction := l, shItems := AList.update k elem (shItems s1)\<rparr>) = (k, e) # butlast (shard_abs s)"
    using shard_push_abs [OF s1(1) _ _ push] s1(2) by auto
  have put: "lru_put admit onEvict (shMaxItems s) k e (shard_abs s) d =
      (case admit k (fst (last (shard_abs s))) of
          None \<Rightarrow> None
        | Some False \<Rightarrow> Some (shard_abs s, d)
        | Some True \<Rightarrow>
            map_option (\<lambda>d'. ((k, e) # butlast (shard_abs s), d'))
              (onEvict \<lparr>liKey = fst (last (shard_abs s)), liEntry = snd (last (shard_abs s))\<rparr> d))"
    using keys assms(2,3) by (simp add: lru_put_def)
  consider "admit k (fst (last (shard_abs s))) = None" | "admit k (fst (last (shard_abs s))) = Some False"
    | "admit k (fst (last (shard_abs s))) = Some True" by (metis option.exhaust)
  then show ?thesis
  proof cases
    case 3
    show ?thesis unfolding put_simulates_def putInShard_def put loop 3
      by (rule exI [of _ "s1\<lparr>shEviction := l, shItems := AList.update k elem (shItems s1)\<rparr>"])
         (cases "onEvict \<lparr>liKey = fst (last (shard_abs s)), liEntry = snd (last (shard_abs s))\<rparr> d",
          simp_all add: push push' s1(3) assms(2))
  qed (use assms in \<open>auto simp: put_simulates_def putInShard_def put loop\<close>)
qed

lemma putInShard_refines:
  assumes "shard_inv s" shows "put_simulates admit onEvict s d k e"
proof (cases "map_of (shItems s) k")
  case None
  with assms show ?thesis
    by (cases "int (length (shard_abs s)) < shMaxItems s") (simp_all add: put_simulates_room put_simulates_full)
next
  case (Some p)
  with assms show ?thesis by (rule put_simulates_hit)
qed

section \<open>What the cache relies on\<close>

text \<open>
  The contract between the cache and one of its shards: an LRU list of bounded length behind total
  operations. The lemmas of the locale are what the two-tier cache uses.
\<close>

locale lru_store =
  fixes ok :: "'s \<Rightarrow> bool"
    and view :: "'s \<Rightarrow> lru"
    and cap :: "'s \<Rightarrow> int"
    and get :: "instant \<Rightarrow> 's \<Rightarrow> string \<Rightarrow> (shardGet \<times> 's) option"
    and put :: "(string \<Rightarrow> string \<Rightarrow> bool option) \<Rightarrow> (lruItem \<Rightarrow> 'd \<Rightarrow> 'd option) \<Rightarrow> 's \<Rightarrow> 'd \<Rightarrow> string \<Rightarrow> Entry \<Rightarrow>
      ('s \<times> 'd) option"
    and del :: "'s \<Rightarrow> string \<Rightarrow> 's"
  assumes view_distinct: "ok s \<Longrightarrow> distinct (map fst (view s))"
    and view_bounded: "ok s \<Longrightarrow> int (length (view s)) \<le> cap s \<and> 1 \<le> cap s"
    and get_law: "ok s \<Longrightarrow> \<exists>s'. get now s k = Some (fst (lru_get now k (view s)), s') \<and>
          ok s' \<and> view s' = snd (lru_get now k (view s)) \<and> cap s' = cap s"
    and put_law: "ok s \<Longrightarrow> \<exists>s'. put admit onEvict s d k e =
            map_option (\<lambda>(xs, d'). (s', d')) (lru_put admit onEvict (cap s) k e (view s) d) \<and>
          (\<forall>xs d'. lru_put admit onEvict (cap s) k e (view s) d = Some (xs, d') \<longrightarrow>
             ok s' \<and> view s' = xs \<and> cap s' = cap s)"
    and del_law: "ok s \<Longrightarrow> ok (del s k) \<and> view (del s k) = AList.delete k (view s) \<and> cap (del s k) = cap s"
begin

lemma del_lookup: "ok s \<Longrightarrow> map_of (view (del s k)) k' = (if k' = k then None else map_of (view s) k')"
  using del_law [of s k] by (simp add: AList.delete_conv')

lemma get_lookup_other:
  assumes "ok s" and "get now s k = Some (r, s')" and "k' \<noteq> k"
  shows "map_of (view s') k' = map_of (view s) k'"
  using get_law [OF assms(1), of now k] assms(2,3)
  by (auto simp: lru_get_def lru_touch_def AList.delete_conv' split: option.splits if_splits)

lemma get_served:
  assumes "ok s" and "get now s k = Some (r, s')"
  shows "r = ShardHit e \<Longrightarrow> map_of (view s) k = Some e \<and> \<not> IsExpired now e"
    and "r = ShardStale e \<Longrightarrow> map_of (view s) k = Some e \<and> IsExpired now e \<and> IsStaleServable now e"
    and "r = ShardMiss \<Longrightarrow> map_of (view s) k = None \<and> view s' = view s"
    and "r = ShardExpired \<Longrightarrow> map_of (view s') k = None"
  using get_law [OF assms(1), of now k] assms(2)
  by (auto simp: lru_get_def AList.delete_conv' split: option.splits if_splits)

lemma get_total: "ok s \<Longrightarrow> \<exists>r s'. get now s k = Some (r, s') \<and> ok s' \<and> cap s' = cap s"
  using get_law [of s now k] by blast

lemma put_view:
  assumes "ok s" and "put admit onEvict s d k e = Some (s', d')"
  shows "lru_put admit onEvict (cap s) k e (view s) d = Some (view s', d')" and "ok s'" and "cap s' = cap s"
  using put_law [OF assms(1), of admit onEvict d k e] assms(2)
  by (cases "lru_put admit onEvict (cap s) k e (view s) d"; auto)+

lemma put_total:
  assumes "ok s" and "\<And>a b. admit a b \<noteq> None" and "\<And>it d. onEvict it d \<noteq> None"
  shows "\<exists>s' d'. put admit onEvict s d k e = Some (s', d')"
proof -
  obtain b where "admit k (fst (last (view s))) = Some b" using assms(2) by blast
  then have "lru_put admit onEvict (cap s) k e (view s) d \<noteq> None"
    using assms(3) by (cases b) (simp_all add: lru_put_def del: split_paired_Ex)
  then show ?thesis using put_law [OF assms(1), of admit onEvict d k e] by auto
qed

lemma put_lookup:
  assumes "ok s" and "put admit onEvict s d k e = Some (s', d')"
  shows "map_of (view s') k = Some e \<or> (view s' = view s \<and> d' = d \<and> k \<notin> fst ` set (view s) \<and>
           (\<exists>v. admit k v = Some False))"
  using put_view(1) [OF assms] by (cases rule: lru_put_cases) (auto simp: lru_touch_def)

lemma put_lookup_other:
  assumes "ok s" and "put admit onEvict s d k e = Some (s', d')" and "k' \<noteq> k"
    and "map_of (view s') k' = Some e'"
  shows "map_of (view s) k' = Some e'"
proof -
  have "lru_put admit onEvict (cap s) k e (view s) d = Some (view s', d')"
    using assms(1,2) by (rule put_view)
  then show ?thesis
  proof (cases rule: lru_put_cases)
    case replaced
    with assms(3,4) have "(k', e') \<in> set (view s)" by (auto dest: map_of_SomeD in_set_butlastD)
    with view_distinct [OF assms(1)] show ?thesis by simp
  qed (use assms(3,4) in \<open>auto simp: lru_touch_def AList.delete_conv'\<close>)
qed

lemma put_keys:
  assumes "ok s" and "put admit onEvict s d k e = Some (s', d')"
  shows "fst ` set (view s') \<subseteq> insert k (fst ` set (view s))"
proof
  fix k' assume "k' \<in> fst ` set (view s')"
  then obtain e' where "map_of (view s') k' = Some e'" by (metis map_of_eq_None_iff not_None_eq)
  then have "k' \<noteq> k \<Longrightarrow> map_of (view s) k' = Some e'" using put_lookup_other [OF assms] by blast
  then show "k' \<in> insert k (fst ` set (view s))" by (metis insertCI map_of_eq_None_iff option.distinct(1))
qed

lemma get_keys:
  assumes "ok s" and "get now s k = Some (r, s')"
  shows "fst ` set (view s') \<subseteq> insert k (fst ` set (view s))"
proof
  fix k' assume "k' \<in> fst ` set (view s')"
  then have "map_of (view s') k' \<noteq> None" by (simp add: map_of_eq_None_iff)
  with get_lookup_other [OF assms, of k'] show "k' \<in> insert k (fst ` set (view s))"
    by (metis insertCI map_of_eq_None_iff)
qed

lemma put_effect:
  assumes "ok s" and "put admit onEvict s d k e = Some (s', d')"
  shows "d' = d \<or> (\<exists>it. onEvict it d = Some d' \<and> map_of (view s) (liKey it) = Some (liEntry it) \<and>
           map_of (view s') (liKey it) = None)"
  using put_view(1) [OF assms]
proof (cases rule: lru_put_cases)
  case replaced
  let ?v = "last (view s)"
  have ne: "view s \<noteq> []" using replaced(3) view_bounded [OF assms(1)] by auto
  then have "?v \<in> set (view s)" by simp
  with view_distinct [OF assms(1)] have v: "map_of (view s) (fst ?v) = Some (snd ?v)" by simp
  have "fst ?v \<noteq> k" using replaced(2) \<open>?v \<in> set (view s)\<close> by force
  moreover have "map_of (butlast (view s)) (fst ?v) = None"
    using delete_last_butlast [OF view_distinct [OF assms(1)] ne] by (metis AList.delete_conv' fun_upd_same)
  ultimately have "map_of (view s') (fst ?v) = None" using replaced(1) by simp
  with v replaced(5) show ?thesis by force
qed auto

end

interpretation shard: lru_store shard_inv shard_abs shMaxItems shard_Get putInShard shard_Delete
proof
  show "shard_inv s \<Longrightarrow> int (length (shard_abs s)) \<le> shMaxItems s \<and> 1 \<le> shMaxItems s" for s
    using shard_invD(6,7) [of s] by simp
  show "shard_inv s \<Longrightarrow> \<exists>s'. putInShard admit onEvict s d k e =
      map_option (\<lambda>(xs, d'). (s', d')) (lru_put admit onEvict (shMaxItems s) k e (shard_abs s) d) \<and>
      (\<forall>xs d'. lru_put admit onEvict (shMaxItems s) k e (shard_abs s) d = Some (xs, d') \<longrightarrow>
         shard_inv s' \<and> shard_abs s' = xs \<and> shMaxItems s' = shMaxItems s)"
    for s admit and onEvict :: "lruItem \<Rightarrow> 'd \<Rightarrow> 'd option" and d k e
    using putInShard_refines by (simp add: put_simulates_def)
qed (simp_all add: shard_abs_distinct shard_Get_refines shard_Delete_refines)

section \<open>Properties\<close>

text \<open>
  C17. A shard behaves as an LRU list of bounded length. From any consistent state, lookup, insertion
  and deletion on the doubly linked list with its key index have exactly the effect of the abstract
  operations: a live entry found moves to the front, a dead one is dropped; inserting into a full
  shard drops the least recently used entry or, when admission refuses, changes nothing; and the
  eviction callback runs for exactly the entry dropped.
\<close>

theorem shard_lru_refinement:
  assumes "shard_inv s"
  shows "(\<exists>s'. shard_Get now s k = Some (fst (lru_get now k (shard_abs s)), s') \<and> shard_inv s' \<and>
            shard_abs s' = snd (lru_get now k (shard_abs s))) \<and>
         (\<exists>s'. putInShard admit onEvict s d k e =
              map_option (\<lambda>(xs, d'). (s', d')) (lru_put admit onEvict (shMaxItems s) k e (shard_abs s) d) \<and>
            (\<forall>xs d'. lru_put admit onEvict (shMaxItems s) k e (shard_abs s) d = Some (xs, d') \<longrightarrow>
               shard_inv s' \<and> shard_abs s' = xs)) \<and>
         shard_inv (shard_Delete s k) \<and> shard_abs (shard_Delete s k) = AList.delete k (shard_abs s)"
  using shard.get_law [OF assms, of now k] shard.put_law [OF assms, of admit onEvict d k e] shard.del_law [OF assms, of k]
  by blast

definition demo_shard :: cacheShard where
  "demo_shard = \<lparr>shItems = [(''b'', 1), (''a'', 0)],
     shEviction = \<lparr>clOrder = [1, 0],
       clVal = [0 \<mapsto> \<lparr>liKey = ''a'', liEntry = \<lparr>eBody = ''A'', eHeader = None, eCompressedHeader = None, eStatusCode = 200,
                   eStoredAt = 0, eTTL = 0, eETag = [], eLastMod = [], eVaryKey = [], eStaleWhileRevalidate = 0\<rparr>\<rparr>,
                1 \<mapsto> \<lparr>liKey = ''b'', liEntry = \<lparr>eBody = ''B'', eHeader = None, eCompressedHeader = None, eStatusCode = 200,
                   eStoredAt = 0, eTTL = 0, eETag = [], eLastMod = [], eVaryKey = [], eStaleWhileRevalidate = 0\<rparr>\<rparr>],
       clNext = 2\<rparr>, shMaxItems = 2\<rparr>"

theorem shard_lru_refinement_witness:
  "map fst (shard_abs demo_shard) = [''b'', ''a''] \<and>
   (\<exists>r s'. shard_Get 9 demo_shard ''a'' = Some (r, s') \<and> map fst (shard_abs s') = [''a'', ''b''])"
proof -
  have inv: "shard_inv demo_shard"
    by (auto simp: shard_inv_def demo_shard_def shard_cell_def)
  have abs: "map fst (shard_abs demo_shard) = [''b'', ''a'']"
    by (simp add: shard_abs_def demo_shard_def shard_cell_def)
  have "map fst (snd (lru_get 9 ''a'' (shard_abs demo_shard))) = [''a'', ''b'']"
    by (simp add: lru_get_def shard_abs_def demo_shard_def shard_cell_def IsExpired_def lru_touch_def AList_delete_filter)
  with abs shard_lru_refinement [OF inv, of 9 "''a''"] show ?thesis by metis
qed

end
