(* ===== verification/DiskTier.thy ===== *)
theory DiskTier
  imports LruShard
begin

text \<open>
  The disk tier of \<open>cache/cache.go\<close>: one JSON file per key under the SHA-256 of the key, an
  accounting of the bytes in use and an oldest-first eviction that makes room before a spill.

  The directory is the association list \<open>dkFiles\<close>; every system call may fail, as the record
  \<open>diskFaults\<close> decides for the n-th disk operation (\<open>dkTick\<close> counts them), so a lemma that
  quantifies over the faults covers every sequence of failures, partial writes included. The JSON
  codec and SHA-256 are parameters (\<open>diskEnv\<close>).
\<close>

section \<open>The directory and its failures\<close>

record dfile =
  fiIsDir :: bool
  fiData :: bytes
  fiDirSize :: nat
  fiModTime :: instant

definition fi_Size :: "dfile \<Rightarrow> int" where
  "fi_Size f = (if fiIsDir f then int (fiDirSize f) else int (length (fiData f)))"

datatype writeFault = WriteOk | OpenFails | WriteFails nat

record diskFaults =
  fltReadDir :: "nat \<Rightarrow> bool"
  fltInfo :: "nat \<Rightarrow> string \<Rightarrow> bool"
  fltInfoAgain :: "nat \<Rightarrow> bool"
  fltRemove :: "nat \<Rightarrow> bool"
  fltWrite :: "nat \<Rightarrow> writeFault"
  fltRead :: "nat \<Rightarrow> bool"
  fltStat :: "nat \<Rightarrow> bool"

definition noFaults :: diskFaults where
  "noFaults = \<lparr>fltReadDir = (\<lambda>_. False), fltInfo = (\<lambda>_ _. False), fltInfoAgain = (\<lambda>_. False),
     fltRemove = (\<lambda>_. False), fltWrite = (\<lambda>_. WriteOk), fltRead = (\<lambda>_. False), fltStat = (\<lambda>_. False)\<rparr>"

record diskEntry =
  deBody :: bytes
  deHeader :: "header option"
  deStatusCode :: int
  deStoredAt :: instant
  deTTLNs :: int
  deETag :: string
  deLastMod :: string
  deVaryKey :: string
  deStaleWhileRevalidate :: int

record diskEnv =
  evSha256Hex :: "string \<Rightarrow> string"
  evMarshal :: "diskEntry \<Rightarrow> bytes option"
  evUnmarshal :: "bytes \<Rightarrow> diskEntry option"
  evCodec :: hdrCodec
  evFaults :: diskFaults

record disk =
  dkFiles :: "(string \<times> dfile) list"
  dkTick :: nat
  dkUsed :: int

definition os_ReadDir :: "disk \<Rightarrow> (string \<times> dfile) list" where
  "os_ReadDir dk = sort_key fst (dkFiles dk)"

definition dk_next :: "disk \<Rightarrow> disk" where
  "dk_next dk = dk\<lparr>dkTick := Suc (dkTick dk)\<rparr>"

section \<open>Saving, loading and removing one entry\<close>

definition diskPath :: "diskEnv \<Rightarrow> string \<Rightarrow> string" where
  "diskPath ev key = evSha256Hex ev key @ ''.json''"

text \<open>\<open>os.WriteFile\<close> truncates before it writes: a failed write leaves a prefix of the data.\<close>

definition os_WriteFile :: "diskEnv \<Rightarrow> instant \<Rightarrow> string \<Rightarrow> bytes \<Rightarrow> disk \<Rightarrow> bool \<times> disk" where
  "os_WriteFile ev now name data dk =
     (let put = (\<lambda>d. dk\<lparr>dkFiles := AList.update name
                   \<lparr>fiIsDir = False, fiData = d, fiDirSize = 0, fiModTime = now\<rparr> (dkFiles dk)\<rparr>)
      in if (case map_of (dkFiles dk) name of Some f \<Rightarrow> fiIsDir f | None \<Rightarrow> False) then (False, dk)
         else case fltWrite (evFaults ev) (dkTick dk) of
             WriteOk \<Rightarrow> (True, put data)
           | OpenFails \<Rightarrow> (False, dk)
           | WriteFails n \<Rightarrow> (False, put (take n data)))"

definition toDiskEntry :: "diskEnv \<Rightarrow> Entry \<Rightarrow> diskEntry" where
  "toDiskEntry ev e =
     \<lparr>deBody = eBody e,
      deHeader = (case eHeader e of
                    Some h \<Rightarrow> Some h
                  | None \<Rightarrow> (case eCompressedHeader e of
                              Some ch \<Rightarrow> Some (hdr_Decode (evCodec ev) (Some ch)) | None \<Rightarrow> None)),
      deStatusCode = eStatusCode e, deStoredAt = eStoredAt e, deTTLNs = eTTL e, deETag = eETag e,
      deLastMod = eLastMod e, deVaryKey = eVaryKey e,
      deStaleWhileRevalidate = eStaleWhileRevalidate e\<rparr>"

definition saveToDisk :: "diskEnv \<Rightarrow> instant \<Rightarrow> disk \<Rightarrow> string \<Rightarrow> Entry \<Rightarrow> bool \<times> disk" where
  "saveToDisk ev now dk key e =
     (case evMarshal ev (toDiskEntry ev e) of
        None \<Rightarrow> (False, dk_next dk)
      | Some data \<Rightarrow>
          (let (ok, dk') = os_WriteFile ev now (diskPath ev key) data dk in (ok, dk_next dk')))"

definition loadFromDisk :: "diskEnv \<Rightarrow> bool \<Rightarrow> disk \<Rightarrow> string \<Rightarrow> Entry option \<times> disk" where
  "loadFromDisk ev compressHeaders dk key =
     ((case map_of (dkFiles dk) (diskPath ev key) of
         None \<Rightarrow> None
       | Some f \<Rightarrow>
           if fiIsDir f \<or> fltRead (evFaults ev) (dkTick dk) then None
           else case evUnmarshal ev (fiData f) of
               None \<Rightarrow> None
             | Some de \<Rightarrow>
                 (let e = \<lparr>eBody = deBody de, eHeader = deHeader de, eCompressedHeader = None,
                           eStatusCode = deStatusCode de, eStoredAt = deStoredAt de, eTTL = deTTLNs de,
                           eETag = deETag de, eLastMod = deLastMod de, eVaryKey = deVaryKey de,
                           eStaleWhileRevalidate = deStaleWhileRevalidate de\<rparr>
                  in Some (case eHeader e of
                             Some h \<Rightarrow> (if compressHeaders
                               then e\<lparr>eCompressedHeader := NewCompressedHeader (evCodec ev) h, eHeader := None\<rparr>
                               else e)
                           | None \<Rightarrow> e))),
      dk_next dk)"

definition removeFromDisk :: "diskEnv \<Rightarrow> disk \<Rightarrow> string \<Rightarrow> bool \<times> disk" where
  "removeFromDisk ev dk key =
     (case map_of (dkFiles dk) (diskPath ev key) of
        None \<Rightarrow> (False, dk_next dk)
      | Some f \<Rightarrow>
          if fltStat (evFaults ev) (dkTick dk) then (False, dk_next dk)
          else
            (let dk1 = dk\<lparr>dkUsed := max 0 (dkUsed dk - fi_Size f)\<rparr>
             in if fltRemove (evFaults ev) (dkTick dk) then (False, dk_next dk1)
                else (True, dk_next (dk1\<lparr>dkFiles := AList.delete (diskPath ev key) (dkFiles dk)\<rparr>))))"

section \<open>Making room\<close>

text \<open>The scan of \<open>evictOldestDiskEntry\<close>: the first file with the least modification time.\<close>

fun oldest_scan ::
  "(string \<Rightarrow> bool) \<Rightarrow> (string \<times> dfile) list \<Rightarrow> (string \<times> dfile) option \<Rightarrow> (string \<times> dfile) option" where
  "oldest_scan infoFails [] oldest = oldest"
| "oldest_scan infoFails (e # es) oldest =
     (if fiIsDir (snd e) \<or> infoFails (fst e) then oldest_scan infoFails es oldest
      else oldest_scan infoFails es
        (case oldest of
           None \<Rightarrow> Some e
         | Some o' \<Rightarrow> if fiModTime (snd e) < fiModTime (snd o') then Some e else Some o'))"

definition evictOldestDiskEntry :: "diskEnv \<Rightarrow> disk \<Rightarrow> bool \<times> disk" where
  "evictOldestDiskEntry ev dk =
     (if fltReadDir (evFaults ev) (dkTick dk) \<or> dkFiles dk = [] then (False, dk_next dk)
      else case oldest_scan (fltInfo (evFaults ev) (dkTick dk)) (os_ReadDir dk) None of
          None \<Rightarrow> (False, dk_next dk)
        | Some (name, f) \<Rightarrow>
            (let dk1 = (if fltInfoAgain (evFaults ev) (dkTick dk) then dk
                        else dk\<lparr>dkUsed := max 0 (dkUsed dk - fi_Size f)\<rparr>)
             in (True, dk_next (if fltRemove (evFaults ev) (dkTick dk) then dk1
                                else dk1\<lparr>dkFiles := AList.delete name (dkFiles dk)\<rparr>))))"

text \<open>
  The loop of \<open>spillToDisk\<close>; it may run forever, so it is a partial function. The Boolean says
  whether there is room; \<open>False\<close> is the early return.
\<close>

partial_function (option) make_room :: "diskEnv \<Rightarrow> int \<Rightarrow> int \<Rightarrow> disk \<Rightarrow> (bool \<times> disk) option" where
  "make_room ev diskMaxBytes entrySize dk =
     (if dkUsed dk + entrySize > diskMaxBytes then
        (let (evicted, dk') = evictOldestDiskEntry ev dk
         in if evicted then make_room ev diskMaxBytes entrySize dk' else Some (False, dk'))
      else Some (True, dk))"

definition entrySize :: "Entry \<Rightarrow> int" where
  "entrySize e = int (length (eBody e)) + 512"

definition spillToDisk :: "diskEnv \<Rightarrow> int \<Rightarrow> instant \<Rightarrow> disk \<Rightarrow> string \<Rightarrow> Entry \<Rightarrow> disk option" where
  "spillToDisk ev diskMaxBytes now dk key e =
     (case (if diskMaxBytes > 0 then make_room ev diskMaxBytes (entrySize e) dk else Some (True, dk)) of
        None \<Rightarrow> None
      | Some (False, dk') \<Rightarrow> Some dk'
      | Some (True, dk') \<Rightarrow>
          (let (ok, dk'') = saveToDisk ev now dk' key e
           in Some (if ok then dk''\<lparr>dkUsed := dkUsed dk'' + entrySize e\<rparr> else dk'')))"

definition calculateDiskUsage :: "diskEnv \<Rightarrow> disk \<Rightarrow> int" where
  "calculateDiskUsage ev dk =
     (if fltReadDir (evFaults ev) (dkTick dk) then 0
      else sum_list (map (\<lambda>e. fi_Size (snd e))
             (filter (\<lambda>e. \<not> fltInfo (evFaults ev) (dkTick dk) (fst e)) (os_ReadDir dk))))"

section \<open>Facts about the tier\<close>

definition disk_inv :: "disk \<Rightarrow> bool" where
  "disk_inv dk \<longleftrightarrow> distinct (map fst (dkFiles dk)) \<and> 0 \<le> dkUsed dk"

lemma dk_next_simps [simp]:
  "dkFiles (dk_next dk) = dkFiles dk" "dkUsed (dk_next dk) = dkUsed dk" "dkTick (dk_next dk) = Suc (dkTick dk)"
  "disk_inv (dk_next dk) = disk_inv dk"
  by (simp_all add: dk_next_def disk_inv_def)

lemma oldest_scan_in:
  "oldest_scan bad es o0 = Some r \<Longrightarrow> o0 = Some r \<or> (r \<in> set es \<and> \<not> fiIsDir (snd r))"
  by (induction bad es o0 rule: oldest_scan.induct) (auto split: if_splits option.splits)

lemma oldest_scan_least:
  "oldest_scan bad es o0 = Some r \<Longrightarrow>
   (\<forall>e \<in> set es. fiIsDir (snd e) \<or> bad (fst e) \<or> fiModTime (snd r) \<le> fiModTime (snd e)) \<and>
   (\<forall>x. o0 = Some x \<longrightarrow> fiModTime (snd r) \<le> fiModTime (snd x))"
  by (induction bad es o0 rule: oldest_scan.induct) (fastforce split: if_splits option.splits)+

lemma evictOldest_in:
  assumes "evictOldestDiskEntry ev dk = (True, dk')"
  obtains name f where "(name, f) \<in> set (dkFiles dk)" and "\<not> fiIsDir f"
    and "dkFiles dk' = (if fltRemove (evFaults ev) (dkTick dk) then dkFiles dk else AList.delete name (dkFiles dk))"
    and "dkUsed dk' = (if fltInfoAgain (evFaults ev) (dkTick dk) then dkUsed dk else max 0 (dkUsed dk - fi_Size f))"
    and "\<forall>(n, g) \<in> set (dkFiles dk). fiIsDir g \<or> fltInfo (evFaults ev) (dkTick dk) n \<or> fiModTime f \<le> fiModTime g"
proof -
  obtain name f where scan: "oldest_scan (fltInfo (evFaults ev) (dkTick dk)) (os_ReadDir dk) None = Some (name, f)"
    using assms by (auto simp: evictOldestDiskEntry_def split: if_splits option.splits)
  show thesis
    by (rule that [of name f])
       (use assms scan oldest_scan_in [OF scan] oldest_scan_least [OF scan] in
         \<open>auto simp: evictOldestDiskEntry_def Let_def os_ReadDir_def split: if_splits\<close>)
qed

lemma delete_shorter: "(k, v) \<in> set xs \<Longrightarrow> length (AList.delete k xs) < length xs"
  by (induction xs) (auto simp: less_Suc_eq_le AList.length_delete_le)

lemma evictOldest_inv: "disk_inv dk \<Longrightarrow> evictOldestDiskEntry ev dk = (b, dk') \<Longrightarrow> disk_inv dk'"
  by (auto simp: evictOldestDiskEntry_def disk_inv_def Let_def AList.distinct_delete split: if_splits option.splits)

lemma make_room_result:
  assumes "make_room ev mx sz dk = Some r" and "disk_inv dk"
  shows "disk_inv (snd r)" and "fst r \<Longrightarrow> dkUsed (snd r) + sz \<le> mx"
    and "dkUsed (snd r) \<le> dkUsed dk" and "map_of (dkFiles (snd r)) \<subseteq>\<^sub>m map_of (dkFiles dk)"
proof -
  have used: "dkUsed dk' \<le> dkUsed dk \<and> map_of (dkFiles dk') \<subseteq>\<^sub>m map_of (dkFiles dk)"
    if "evictOldestDiskEntry ev dk = (b, dk')" "disk_inv dk" for ev dk b dk'
  proof (cases b)
    case True
    with that(1) have "evictOldestDiskEntry ev dk = (True, dk')" by simp
    then show ?thesis
      by (rule evictOldest_in)
        (use that(2) in \<open>auto simp: disk_inv_def fi_Size_def map_le_def AList.delete_conv' split: if_splits\<close>)
  qed (use that in \<open>auto simp: evictOldestDiskEntry_def Let_def split: if_splits option.splits\<close>)
  let ?P = "\<lambda>ev mx sz dk r. disk_inv dk \<longrightarrow> disk_inv (snd r) \<and> (fst r \<longrightarrow> dkUsed (snd r) + sz \<le> mx) \<and>
      dkUsed (snd r) \<le> dkUsed dk \<and> map_of (dkFiles (snd r)) \<subseteq>\<^sub>m map_of (dkFiles dk)"
  have "?P ev mx sz dk r"
  proof (rule make_room.raw_induct [of ?P, OF _ assms(1)])
    fix f ev mx sz dk r
    assume IH: "\<And>ev mx sz dk r. f ev mx sz dk = Some r \<Longrightarrow> ?P ev mx sz dk r"
      and r: "(if mx < dkUsed dk + sz then let (evicted, dk') = evictOldestDiskEntry ev dk
               in if evicted then f ev mx sz dk' else Some (False, dk') else Some (True, dk)) = Some r"
    obtain b dk' where e: "evictOldestDiskEntry ev dk = (b, dk')" by (cases "evictOldestDiskEntry ev dk")
    show "?P ev mx sz dk r"
      using r used [OF e] evictOldest_inv [OF _ e] IH [of ev mx sz dk' r]
      by (auto simp: e Let_def split: if_splits intro: map_le_trans)
  qed
  with assms(2) show "disk_inv (snd r)" and "fst r \<Longrightarrow> dkUsed (snd r) + sz \<le> mx"
    and "dkUsed (snd r) \<le> dkUsed dk" and "map_of (dkFiles (snd r)) \<subseteq>\<^sub>m map_of (dkFiles dk)" by auto
qed

lemma make_room_total:
  assumes "\<And>n. \<not> fltRemove (evFaults ev) n"
  shows "\<exists>r. make_room ev mx sz dk = Some r"
proof (induction "length (dkFiles dk)" arbitrary: dk rule: less_induct)
  case less
  obtain b dk' where e: "evictOldestDiskEntry ev dk = (b, dk')" by (cases "evictOldestDiskEntry ev dk")
  have "length (dkFiles dk') < length (dkFiles dk)" if b
  proof -
    from that e have "evictOldestDiskEntry ev dk = (True, dk')" by simp
    then show ?thesis by (rule evictOldest_in) (use assms in \<open>auto intro: delete_shorter\<close>)
  qed
  with less show ?case by (subst make_room.simps) (auto simp: e Let_def)
qed

lemma make_room_keeps_unless_needed: "dkUsed dk + sz \<le> mx \<Longrightarrow> make_room ev mx sz dk = Some (True, dk)"
  by (subst make_room.simps) simp

lemma saveToDisk_inv: "disk_inv dk \<Longrightarrow> saveToDisk ev now dk key e = (ok, dk') \<Longrightarrow> disk_inv dk' \<and> dkUsed dk' = dkUsed dk"
  by (auto simp: saveToDisk_def os_WriteFile_def disk_inv_def Let_def AList.distinct_update
      split: option.splits if_splits writeFault.splits prod.splits)

lemma removeFromDisk_inv: "disk_inv dk \<Longrightarrow> removeFromDisk ev dk key = (ok, dk') \<Longrightarrow> disk_inv dk'"
  by (auto simp: removeFromDisk_def disk_inv_def Let_def AList.distinct_delete split: option.splits if_splits)

lemma loadFromDisk_disk [simp]: "snd (loadFromDisk ev c dk key) = dk_next dk"
  by (simp add: loadFromDisk_def)

lemma spillToDisk_cases:
  assumes "disk_inv dk" and "spillToDisk ev mx now dk key e = Some dk'"
  obtains (gave_up) "0 < mx" and "make_room ev mx (entrySize e) dk = Some (False, dk')"
  | (saved) dk1 ok dk2 where "disk_inv dk1" and "0 < mx \<Longrightarrow> dkUsed dk1 + entrySize e \<le> mx"
      and "map_of (dkFiles dk1) \<subseteq>\<^sub>m map_of (dkFiles dk)" and "dkUsed dk1 \<le> dkUsed dk"
      and "saveToDisk ev now dk1 key e = (ok, dk2)"
      and "dk' = (if ok then dk2\<lparr>dkUsed := dkUsed dk2 + entrySize e\<rparr> else dk2)"
proof -
  let ?room = "if 0 < mx then make_room ev mx (entrySize e) dk else Some (True, dk)"
  obtain b dk1 where r: "?room = Some (b, dk1)" using assms(2) by (auto simp: spillToDisk_def split: option.splits)
  show thesis
  proof (cases b)
    case True
    have "disk_inv dk1 \<and> (0 < mx \<longrightarrow> dkUsed dk1 + entrySize e \<le> mx) \<and> dkUsed dk1 \<le> dkUsed dk \<and>
        map_of (dkFiles dk1) \<subseteq>\<^sub>m map_of (dkFiles dk)"
      using r True assms(1) make_room_result [of ev mx "entrySize e" dk "(True, dk1)"] by (auto split: if_splits)
    then show thesis
      using r True assms(2)
      by (cases "saveToDisk ev now dk1 key e") (auto simp: spillToDisk_def Let_def intro!: saved)
  next
    case False
    with r have "0 < mx" by (auto split: if_splits)
    with r False assms(2) show thesis by (intro gave_up) (auto simp: spillToDisk_def)
  qed
qed

lemma spillToDisk_result:
  assumes "disk_inv dk" and "spillToDisk ev mx now dk key e = Some dk'"
  shows "disk_inv dk'" and "0 < mx \<Longrightarrow> dkUsed dk' \<le> max mx (dkUsed dk)"
    and "k' \<noteq> diskPath ev key \<Longrightarrow> map_of (dkFiles dk') k' = Some f \<Longrightarrow> map_of (dkFiles dk) k' = Some f"
proof -
  have S: "dkUsed d2 = dkUsed d1 \<and> disk_inv d2 \<and> (k' \<noteq> diskPath ev key \<longrightarrow> map_of (dkFiles d2) k' = map_of (dkFiles d1) k')"
    if "disk_inv d1" "saveToDisk ev now d1 key e = (ok, d2)" for d1 d2 ok
    using that saveToDisk_inv [OF that]
    by (auto simp: saveToDisk_def os_WriteFile_def Let_def AList.update_conv'
        split: option.splits if_splits writeFault.splits prod.splits)
  have "disk_inv dk' \<and> (0 < mx \<longrightarrow> dkUsed dk' \<le> max mx (dkUsed dk)) \<and>
      (k' \<noteq> diskPath ev key \<longrightarrow> map_of (dkFiles dk') k' = Some f \<longrightarrow> map_of (dkFiles dk) k' = Some f)"
    using assms
  proof (cases rule: spillToDisk_cases)
    case gave_up
    then show ?thesis using make_room_result [OF gave_up(2) assms(1)] by (auto simp: map_le_def dom_def)
  next
    case (saved dk1 ok dk2)
    note S1 = S [OF saved(1,5)]
    from S1 have "disk_inv dk'" using saved(6) by (auto simp: disk_inv_def entrySize_def)
    with S1 saved show ?thesis by (auto simp: map_le_def dom_def entrySize_def)
  qed
  then show "disk_inv dk'" and "0 < mx \<Longrightarrow> dkUsed dk' \<le> max mx (dkUsed dk)"
    and "k' \<noteq> diskPath ev key \<Longrightarrow> map_of (dkFiles dk') k' = Some f \<Longrightarrow> map_of (dkFiles dk) k' = Some f" by blast+
qed

text \<open>What the JSON codec promises for one entry: it decodes to the same fields and header map.\<close>

definition json_roundtrip :: "diskEnv \<Rightarrow> diskEntry \<Rightarrow> bool" where
  "json_roundtrip ev de \<longleftrightarrow>
     (\<exists>data h'. evMarshal ev de = Some data \<and> evUnmarshal ev data = Some (de\<lparr>deHeader := h'\<rparr>) \<and>
        rel_option header_eq h' (deHeader de))"

lemma oldest_scan_found:
  "(\<exists>e \<in> set es. \<not> fiIsDir (snd e) \<and> \<not> bad (fst e)) \<or> o0 \<noteq> None \<Longrightarrow> oldest_scan bad es o0 \<noteq> None"
  by (induction bad es o0 rule: oldest_scan.induct) (auto split: option.splits)

lemma saveToDisk_ok:
  assumes "json_roundtrip ev (toDiskEntry ev e)" and "\<And>n. fltWrite (evFaults ev) n = WriteOk"
    and "\<And>f. map_of (dkFiles dk) (diskPath ev key) = Some f \<Longrightarrow> \<not> fiIsDir f"
  obtains data h' dk' where "saveToDisk ev now dk key e = (True, dk')"
    and "map_of (dkFiles dk') (diskPath ev key) = Some \<lparr>fiIsDir = False, fiData = data, fiDirSize = 0, fiModTime = now\<rparr>"
    and "evUnmarshal ev data = Some ((toDiskEntry ev e)\<lparr>deHeader := h'\<rparr>)"
    and "rel_option header_eq h' (deHeader (toDiskEntry ev e))"
proof -
  obtain data h' where j: "evMarshal ev (toDiskEntry ev e) = Some data"
      "evUnmarshal ev data = Some ((toDiskEntry ev e)\<lparr>deHeader := h'\<rparr>)"
      "rel_option header_eq h' (deHeader (toDiskEntry ev e))"
    using assms(1) by (auto simp: json_roundtrip_def)
  show thesis
    by (rule that [OF _ _ j(2,3)])
       (use assms(2,3) j(1) in \<open>auto simp: saveToDisk_def os_WriteFile_def Let_def AList.update_conv'
          split: option.splits\<close>)
qed

lemma GetHeader_toDiskEntry:
  "GetHeader (evCodec ev) e = (case deHeader (toDiskEntry ev e) of Some h \<Rightarrow> h | None \<Rightarrow> [])"
  by (simp add: GetHeader_def toDiskEntry_def split: option.splits)

lemma loadFromDisk_ok:
  assumes fil: "map_of (dkFiles dk) (diskPath ev key) = Some f" "\<not> fiIsDir f" "\<And>n. \<not> fltRead (evFaults ev) n"
    and json: "evUnmarshal ev (fiData f) = Some ((toDiskEntry ev e)\<lparr>deHeader := h'\<rparr>)"
      "rel_option header_eq h' (deHeader (toDiskEntry ev e))"
    and codec: "\<And>h. c \<Longrightarrow> h \<noteq> [] \<Longrightarrow> header_eq h (GetHeader (evCodec ev) e) \<Longrightarrow> codec_roundtrip (evCodec ev) h"
  shows "\<exists>hr ch. fst (loadFromDisk ev c dk key) = Some (e\<lparr>eHeader := hr, eCompressedHeader := ch\<rparr>) \<and>
           header_eq (GetHeader (evCodec ev) (e\<lparr>eHeader := hr, eCompressedHeader := ch\<rparr>)) (GetHeader (evCodec ev) e)"
proof (cases h')
  case None
  then have "GetHeader (evCodec ev) e = []" using json(2) by (auto simp: GetHeader_toDiskEntry)
  moreover have "fst (loadFromDisk ev c dk key) = Some (e\<lparr>eHeader := None, eCompressedHeader := None\<rparr>)"
    using fil json None by (simp add: loadFromDisk_def toDiskEntry_def Let_def)
  ultimately show ?thesis
    by (intro exI [of _ None]) (simp add: GetHeader_def header_eq_def)
next
  case (Some h)
  then have h: "header_eq h (GetHeader (evCodec ev) e)"
    using json(2) by (auto simp: GetHeader_toDiskEntry option_rel_Some1)
  have "NewCompressedHeader (evCodec ev) h = None \<and> h = [] \<or>
      (\<exists>ch. NewCompressedHeader (evCodec ev) h = Some ch \<and> header_eq (hdr_Decode (evCodec ev) (Some ch)) h)" if c
    using NewCompressedHeader_decodes [OF codec [OF that _ h]] by (cases "h = []") (auto simp: NewCompressedHeader_def)
  moreover have "fst (loadFromDisk ev c dk key) =
      Some (if c then e\<lparr>eHeader := None, eCompressedHeader := NewCompressedHeader (evCodec ev) h\<rparr>
            else e\<lparr>eHeader := Some h, eCompressedHeader := None\<rparr>)"
    using fil json Some by (simp add: loadFromDisk_def toDiskEntry_def Let_def)
  ultimately show ?thesis using h
    by (cases c) (force simp: GetHeader_def intro: header_eq_trans)+
qed

lemma wedged_scan:
  assumes "\<And>n. \<not> fltReadDir (evFaults ev) n" and "\<And>n s. \<not> fltInfo (evFaults ev) n s"
    and "\<And>n. fltRemove (evFaults ev) n" and "\<exists>x \<in> set (dkFiles dk). \<not> fiIsDir (snd x)"
  shows "\<exists>dk'. evictOldestDiskEntry ev dk = (True, dk') \<and> dkFiles dk' = dkFiles dk \<and> (0 \<le> dkUsed dk \<longrightarrow> 0 \<le> dkUsed dk')"
proof -
  have "oldest_scan (fltInfo (evFaults ev) (dkTick dk)) (os_ReadDir dk) None \<noteq> None"
    using assms(2,4) by (intro oldest_scan_found) (auto simp: os_ReadDir_def)
  then show ?thesis using assms
    by (auto simp: evictOldestDiskEntry_def Let_def)
qed

section \<open>Properties\<close>

text \<open>
  A spill always returns when files can be removed, however the other system calls fail (each
  may fail at any moment, writes may be partial). It keeps the accounting non-negative, never counts
  more than the configured maximum unless more was counted before, and touches no file of another
  key except to delete it.
\<close>

theorem disk_spill_returns:
  assumes "\<And>n. \<not> fltRemove (evFaults ev) n" and "disk_inv dk" and "0 < mx"
  shows "\<exists>dk'. spillToDisk ev mx now dk key e = Some dk' \<and> disk_inv dk' \<and> dkUsed dk' \<le> max mx (dkUsed dk) \<and>
           (\<forall>name f. name \<noteq> diskPath ev key \<longrightarrow> map_of (dkFiles dk') name = Some f \<longrightarrow>
              map_of (dkFiles dk) name = Some f)"
proof -
  obtain b dk1 where "make_room ev mx (entrySize e) dk = Some (b, dk1)"
    using make_room_total [OF assms(1)] by (metis surj_pair)
  then obtain dk' where s: "spillToDisk ev mx now dk key e = Some dk'"
    by (cases b; cases "saveToDisk ev now dk1 key e") (simp_all add: spillToDisk_def Let_def assms(3))
  show ?thesis using s assms(3) spillToDisk_result [OF assms(2) s] by (intro exI [of _ dk'] conjI) auto
qed

definition demo_env :: diskEnv where
  "demo_env = \<lparr>evSha256Hex = (\<lambda>k. k), evMarshal = (\<lambda>de. Some (deBody de)),
     evUnmarshal = (\<lambda>b. Some \<lparr>deBody = b, deHeader = None, deStatusCode = 200, deStoredAt = 0, deTTLNs = 0,
        deETag = [], deLastMod = [], deVaryKey = [], deStaleWhileRevalidate = 0\<rparr>),
     evCodec = \<lparr>gobEncode = (\<lambda>_. None), gobDecode = (\<lambda>_. None), zstdEncodeAll = id, zstdDecodeAll = Some\<rparr>,
     evFaults = noFaults\<rparr>"

definition demo_entry :: Entry where
  "demo_entry = \<lparr>eBody = ''hello'', eHeader = None, eCompressedHeader = None, eStatusCode = 200, eStoredAt = 0,
     eTTL = 0, eETag = [], eLastMod = [], eVaryKey = [], eStaleWhileRevalidate = 0\<rparr>"

definition demo_disk :: disk where
  "demo_disk = \<lparr>dkFiles = [(''old.json'', \<lparr>fiIsDir = False, fiData = ''xyz'', fiDirSize = 0, fiModTime = 5\<rparr>)],
     dkTick = 0, dkUsed = 600\<rparr>"

theorem disk_spill_returns_witness:
  "\<exists>dk'. spillToDisk demo_env 600 9 demo_disk ''a'' demo_entry = Some dk' \<and> disk_inv dk' \<and> dkUsed dk' \<le> 600"
proof -
  have "disk_inv demo_disk" by (simp add: disk_inv_def demo_disk_def)
  moreover have "\<not> fltRemove (evFaults demo_env) n" for n by (simp add: demo_env_def noFaults_def)
  ultimately show ?thesis
    using disk_spill_returns [of demo_env demo_disk 600 9 "''a''" demo_entry] by (auto simp: demo_disk_def)
qed

text \<open>
  C38. What is spilled is what is loaded: when the write succeeds and the entry fits, loading the key
  gives the entry back with its body, status, validators, times and TTLs unchanged and the same
  header map, whether headers were or are now kept compressed.
\<close>

theorem disk_roundtrip:
  assumes "json_roundtrip ev (toDiskEntry ev e)"
    and "\<And>h. c \<Longrightarrow> h \<noteq> [] \<Longrightarrow> header_eq h (GetHeader (evCodec ev) e) \<Longrightarrow> codec_roundtrip (evCodec ev) h"
    and "\<And>n. fltWrite (evFaults ev) n = WriteOk" and "\<And>n. \<not> fltRead (evFaults ev) n"
    and "\<And>f. map_of (dkFiles dk) (diskPath ev key) = Some f \<Longrightarrow> \<not> fiIsDir f"
    and "mx \<le> 0 \<or> dkUsed dk + entrySize e \<le> mx"
  shows "\<exists>dk' hr ch. spillToDisk ev mx now dk key e = Some dk' \<and>
           fst (loadFromDisk ev c dk' key) = Some (e\<lparr>eHeader := hr, eCompressedHeader := ch\<rparr>) \<and>
           header_eq (GetHeader (evCodec ev) (e\<lparr>eHeader := hr, eCompressedHeader := ch\<rparr>)) (GetHeader (evCodec ev) e)"
proof -
  obtain data h' dk1 where s: "saveToDisk ev now dk key e = (True, dk1)"
    and f: "map_of (dkFiles dk1) (diskPath ev key) = Some \<lparr>fiIsDir = False, fiData = data, fiDirSize = 0, fiModTime = now\<rparr>"
    and j: "evUnmarshal ev data = Some ((toDiskEntry ev e)\<lparr>deHeader := h'\<rparr>)"
      "rel_option header_eq h' (deHeader (toDiskEntry ev e))"
    using saveToDisk_ok [OF assms(1,3,5)] by blast
  let ?dk' = "dk1\<lparr>dkUsed := dkUsed dk1 + entrySize e\<rparr>"
  have "spillToDisk ev mx now dk key e = Some ?dk'"
    using assms(6) s by (auto simp: spillToDisk_def make_room_keeps_unless_needed)
  moreover have "\<exists>hr ch. fst (loadFromDisk ev c ?dk' key) = Some (e\<lparr>eHeader := hr, eCompressedHeader := ch\<rparr>) \<and>
      header_eq (GetHeader (evCodec ev) (e\<lparr>eHeader := hr, eCompressedHeader := ch\<rparr>)) (GetHeader (evCodec ev) e)"
    by (rule loadFromDisk_ok [where f = "\<lparr>fiIsDir = False, fiData = data, fiDirSize = 0, fiModTime = now\<rparr>"])
       (use f j assms(2,4) in auto)
  ultimately show ?thesis by blast
qed

theorem disk_roundtrip_witness:
  "\<exists>dk' hr ch. spillToDisk demo_env 2000 9 demo_disk ''a'' demo_entry = Some dk' \<and>
     fst (loadFromDisk demo_env False dk' ''a'') = Some (demo_entry\<lparr>eHeader := hr, eCompressedHeader := ch\<rparr>)"
proof -
  have "json_roundtrip demo_env (toDiskEntry demo_env demo_entry)"
    by (simp add: json_roundtrip_def toDiskEntry_def demo_env_def demo_entry_def)
  then show ?thesis
    using disk_roundtrip [of demo_env demo_entry False demo_disk "''a''" 2000 9]
    by (auto simp: demo_env_def noFaults_def demo_disk_def diskPath_def entrySize_def demo_entry_def)
qed

text \<open>
  The spill does not return when files cannot be removed: with a directory it may read but not
  delete from, and an entry larger than the limit, the loop of \<open>spillToDisk\<close> runs forever while
  the caller holds the shard lock and the disk lock (\<open>evictOldestDiskEntry\<close> ignores the error of
  \<open>os.Remove\<close>).
\<close>

theorem disk_spill_hangs:
  assumes "\<And>n. \<not> fltReadDir (evFaults ev) n" and "\<And>n s. \<not> fltInfo (evFaults ev) n s"
    and "\<And>n. fltRemove (evFaults ev) n" and "\<exists>x \<in> set (dkFiles dk). \<not> fiIsDir (snd x)"
    and "0 < mx" and "0 \<le> dkUsed dk" and "mx < entrySize e"
  shows "spillToDisk ev mx now dk key e = None"
proof -
  let ?P = "\<lambda>ev' mx' sz dk (r :: bool \<times> disk). \<not> (ev' = ev \<and> mx' < sz \<and> 0 \<le> dkUsed dk \<and> (\<exists>x \<in> set (dkFiles dk). \<not> fiIsDir (snd x)))"
  have "?P ev mx (entrySize e) dk r" if r: "make_room ev mx (entrySize e) dk = Some r" for r
  proof (rule make_room.raw_induct [of ?P, OF _ r])
    fix f ev' mx sz dk and r :: "bool \<times> disk"
    assume IH: "\<And>ev mx sz dk r. f ev mx sz dk = Some r \<Longrightarrow> ?P ev mx sz dk r"
      and r: "(if mx < dkUsed dk + sz then let (evicted, dk') = evictOldestDiskEntry ev' dk
               in if evicted then f ev' mx sz dk' else Some (False, dk') else Some (True, dk)) = Some r"
    show "?P ev' mx sz dk r"
    proof
      assume bad: "ev' = ev \<and> mx < sz \<and> 0 \<le> dkUsed dk \<and> (\<exists>x \<in> set (dkFiles dk). \<not> fiIsDir (snd x))"
      then obtain dk' where "evictOldestDiskEntry ev dk = (True, dk')" "dkFiles dk' = dkFiles dk" "0 \<le> dkUsed dk'"
        using wedged_scan [OF assms(1-3), of dk] by auto
      with bad r IH [of ev mx sz dk' r] show False by simp
    qed
  qed
  with assms(4,6,7) have "make_room ev mx (entrySize e) dk = None" by (cases "make_room ev mx (entrySize e) dk") auto
  with assms(5) show ?thesis by (simp add: spillToDisk_def)
qed

theorem disk_spill_hangs_witness:
  "spillToDisk (demo_env\<lparr>evFaults := noFaults\<lparr>fltRemove := \<lambda>_. True\<rparr>\<rparr>) 100 9 demo_disk ''a'' demo_entry = None"
  by (rule disk_spill_hangs) (simp_all add: noFaults_def demo_disk_def entrySize_def demo_entry_def)

end
