(* ===== verification/EdgeCache.thy ===== *)
theory EdgeCache
  imports TinyLFU DiskTier
begin

text \<open>
  The two-tier cache of \<open>cache/cache.go\<close>: power-of-two many LRU shards selected by a hash, TinyLFU
  admission in front of them and the disk tier behind. Each operation is the whole method, applied
  atomically; \<open>None\<close> is a run-time panic or a spill that never returns. \<open>xx\<close> is the third-party
  xxhash, \<open>ev\<close> the environment of the disk tier, \<open>now\<close> the time the method reads.
\<close>

record Stats =
  stHits :: int
  stMisses :: int
  stEvicts :: int
  stStaleHits :: int

record Options =
  opMaxItems :: int
  opMaxEntryBytes :: int
  opMaxKeyLen :: int
  opDiskDir :: string
  opDiskMaxBytes :: int
  opNumShards :: int
  opCompressHeaders :: bool

record Cache =
  chShards :: "cacheShard list"
  chNumShards :: u64
  chShardMask :: u64
  chMaxEntryBytes :: int
  chMaxKeyLen :: int
  chDiskDir :: string
  chDiskMaxBytes :: int
  chDisk :: disk
  chStats :: Stats
  chLfu :: TinyLFU
  chCompressHeaders :: bool

section \<open>Construction\<close>

definition defaultNumShards :: int where "defaultNumShards = 256"

text \<open>\<open>for numShards > maxItems { numShards /= 2 }\<close>; there \<open>maxItems \<ge> 1\<close>, so \<open>numShards > 0\<close>.\<close>

function shrink_shards :: "int \<Rightarrow> int \<Rightarrow> int" where
  "shrink_shards numShards maxItems =
     (if numShards > maxItems \<and> numShards > 0 then shrink_shards (numShards div 2) maxItems else numShards)"
  by pat_completeness auto
termination by (relation "measure (\<lambda>(n, m). nat n)") auto

declare shrink_shards.simps [simp del]

definition shard_count :: "Options \<Rightarrow> int \<Rightarrow> int" where
  "shard_count opts maxItems =
     (let n0 = (if opNumShards opts \<le> 0 then defaultNumShards else opNumShards opts);
          n1 = sint (nextPow2 (word_of_int n0));
          n2 = (if maxItems < 64 then 1 else n1);
          n3 = shrink_shards n2 maxItems
      in if n3 < 1 then 1 else n3)"

text \<open>\<open>mkdirFails\<close>: whether \<open>os.MkdirAll\<close> reports an error; \<open>dk\<close> is what the directory holds.\<close>

definition NewWithOptions :: "diskEnv \<Rightarrow> bool \<Rightarrow> disk \<Rightarrow> Options \<Rightarrow> Cache option" where
  "NewWithOptions ev mkdirFails dk opts =
     (let maxItems = (if opMaxItems opts < 1 then 1 else opMaxItems opts);
          numShards = shard_count opts maxItems;
          perShard = maxItems div numShards;
          remainder = maxItems mod numShards
      in if opDiskDir opts \<noteq> [] \<and> mkdirFails then None
         else Some
           \<lparr>chShards = map (\<lambda>i. newShard (if int i < remainder then perShard + 1 else perShard)) [0..<nat numShards],
            chNumShards = word_of_int numShards,
            chShardMask = word_of_int numShards - 1,
            chMaxEntryBytes = opMaxEntryBytes opts,
            chMaxKeyLen = opMaxKeyLen opts,
            chDiskDir = opDiskDir opts,
            chDiskMaxBytes = opDiskMaxBytes opts,
            chDisk = dk\<lparr>dkUsed := (if opDiskDir opts \<noteq> [] then calculateDiskUsage ev dk else 0)\<rparr>,
            chStats = \<lparr>stHits = 0, stMisses = 0, stEvicts = 0, stStaleHits = 0\<rparr>,
            chLfu = newTinyLFU maxItems,
            chCompressHeaders = opCompressHeaders opts\<rparr>)"

definition New :: "diskEnv \<Rightarrow> bool \<Rightarrow> disk \<Rightarrow> int \<Rightarrow> int \<Rightarrow> string \<Rightarrow> int \<Rightarrow> Cache option" where
  "New ev mkdirFails dk maxItems maxEntryBytes diskDir diskMaxBytes =
     NewWithOptions ev mkdirFails dk
       \<lparr>opMaxItems = maxItems, opMaxEntryBytes = maxEntryBytes, opMaxKeyLen = 0, opDiskDir = diskDir,
        opDiskMaxBytes = diskMaxBytes, opNumShards = 0, opCompressHeaders = False\<rparr>"

section \<open>Operations\<close>

definition getShard :: "(string \<Rightarrow> u64) \<Rightarrow> Cache \<Rightarrow> string \<Rightarrow> nat" where
  "getShard xx c key = unat (xx key AND chShardMask c)"

definition count_hit :: "Stats \<Rightarrow> Stats" where "count_hit st = st\<lparr>stHits := stHits st + 1\<rparr>"
definition count_miss :: "Stats \<Rightarrow> Stats" where "count_miss st = st\<lparr>stMisses := stMisses st + 1\<rparr>"
definition count_stale :: "Stats \<Rightarrow> Stats" where "count_stale st = st\<lparr>stStaleHits := stStaleHits st + 1\<rparr>"
definition count_evict :: "Stats \<Rightarrow> Stats" where "count_evict st = st\<lparr>stEvicts := stEvicts st + 1\<rparr>"

text \<open>What \<open>evictItem\<close> does outside the shard: the statistics and the spill.\<close>

definition evictItem :: "diskEnv \<Rightarrow> Cache \<Rightarrow> instant \<Rightarrow> lruItem \<Rightarrow> disk \<times> Stats \<Rightarrow> (disk \<times> Stats) option" where
  "evictItem ev c now item ds =
     (if chDiskDir c \<noteq> [] then
        do {
          dk \<leftarrow> spillToDisk ev (chDiskMaxBytes c) now (fst ds) (liKey item) (liEntry item);
          Some (dk, count_evict (snd ds))
        }
      else Some (fst ds, count_evict (snd ds)))"

definition cache_putInShard ::
  "(string \<Rightarrow> u64) \<Rightarrow> diskEnv \<Rightarrow> instant \<Rightarrow> Cache \<Rightarrow> nat \<Rightarrow> string \<Rightarrow> Entry \<Rightarrow> Cache option" where
  "cache_putInShard xx ev now c i key entry =
     do {
       shard \<leftarrow> idx_get (chShards c) i;
       (shard', dk, st) \<leftarrow> putInShard (Admit xx (chLfu c)) (evictItem ev c now) shard (chDisk c, chStats c) key entry;
       Some (c\<lparr>chShards := (chShards c)[i := shard'], chDisk := dk, chStats := st\<rparr>)
     }"

text \<open>The disk half of \<open>Get\<close>, after a miss in memory; the shard is not locked here.\<close>

definition get_from_disk ::
  "(string \<Rightarrow> u64) \<Rightarrow> diskEnv \<Rightarrow> instant \<Rightarrow> Cache \<Rightarrow> string \<Rightarrow> (Entry option \<times> Cache) option" where
  "get_from_disk xx ev now c key =
     (let (loaded, dk) = loadFromDisk ev (chCompressHeaders c) (chDisk c) key;
          c = c\<lparr>chDisk := dk\<rparr>
      in case loaded of
           None \<Rightarrow> Some (None, c\<lparr>chStats := count_miss (chStats c)\<rparr>)
         | Some entry \<Rightarrow>
             if IsExpired now entry \<and> \<not> IsStaleServable now entry then
               Some (None, c\<lparr>chDisk := snd (removeFromDisk ev dk key), chStats := count_miss (chStats c)\<rparr>)
             else
               do {
                 c' \<leftarrow> cache_putInShard xx ev now c (getShard xx c key) key entry;
                 Some (Some entry, c'\<lparr>chStats := (if IsExpired now entry then count_stale else count_hit) (chStats c')\<rparr>)
               })"

definition cache_Get ::
  "(string \<Rightarrow> u64) \<Rightarrow> diskEnv \<Rightarrow> instant \<Rightarrow> Cache \<Rightarrow> string \<Rightarrow> (Entry option \<times> Cache) option" where
  "cache_Get xx ev now c key =
     do {
       lfu \<leftarrow> Increment xx (chLfu c) key;
       let c = c\<lparr>chLfu := lfu\<rparr>;
       let i = getShard xx c key;
       shard \<leftarrow> idx_get (chShards c) i;
       (r, shard') \<leftarrow> shard_Get now shard key;
       let c = c\<lparr>chShards := (chShards c)[i := shard']\<rparr>;
       (case r of
          ShardStale entry \<Rightarrow> Some (Some entry, c\<lparr>chStats := count_stale (chStats c)\<rparr>)
        | ShardHit entry \<Rightarrow> Some (Some entry, c\<lparr>chStats := count_hit (chStats c)\<rparr>)
        | ShardExpired \<Rightarrow>
            Some (None, c\<lparr>chDisk := (if chDiskDir c \<noteq> [] then snd (removeFromDisk ev (chDisk c) key) else chDisk c),
                          chStats := count_miss (chStats c)\<rparr>)
        | ShardMiss \<Rightarrow>
            if chDiskDir c \<noteq> [] then get_from_disk xx ev now c key
            else Some (None, c\<lparr>chStats := count_miss (chStats c)\<rparr>))
     }"

text \<open>
  \<open>Put\<close> compresses the headers in place: the entry it was given, which the caller still holds, is
  returned as it is afterwards.
\<close>

definition put_compress :: "diskEnv \<Rightarrow> Cache \<Rightarrow> Entry \<Rightarrow> Entry" where
  "put_compress ev c entry =
     (case eHeader entry of
        Some h \<Rightarrow> (if chCompressHeaders c \<and> eCompressedHeader entry = None
                   then entry\<lparr>eCompressedHeader := NewCompressedHeader (evCodec ev) h, eHeader := None\<rparr>
                   else entry)
      | None \<Rightarrow> entry)"

definition put_refused :: "Cache \<Rightarrow> string \<Rightarrow> Entry \<Rightarrow> bool" where
  "put_refused c key entry \<longleftrightarrow>
     (chMaxEntryBytes c > 0 \<and> int (length (eBody entry)) > chMaxEntryBytes c) \<or>
     (chMaxKeyLen c > 0 \<and> int (length key) > chMaxKeyLen c)"

definition cache_Put ::
  "(string \<Rightarrow> u64) \<Rightarrow> diskEnv \<Rightarrow> instant \<Rightarrow> Cache \<Rightarrow> string \<Rightarrow> Entry \<Rightarrow> (Entry \<times> Cache) option" where
  "cache_Put xx ev now c key entry =
     (if put_refused c key entry then Some (entry, c)
      else do {
        let entry' = put_compress ev c entry;
        c' \<leftarrow> cache_putInShard xx ev now c (getShard xx c key) key entry';
        Some (entry', c')
      })"

definition cache_Delete :: "(string \<Rightarrow> u64) \<Rightarrow> diskEnv \<Rightarrow> Cache \<Rightarrow> string \<Rightarrow> Cache option" where
  "cache_Delete xx ev c key =
     do {
       let i = getShard xx c key;
       shard \<leftarrow> idx_get (chShards c) i;
       Some (c\<lparr>chShards := (chShards c)[i := shard_Delete shard key],
               chDisk := (if chDiskDir c \<noteq> [] then snd (removeFromDisk ev (chDisk c) key) else chDisk c)\<rparr>)
     }"

definition cache_Purge :: "Cache \<Rightarrow> Cache" where
  "cache_Purge c = c\<lparr>chShards := map shard_Purge (chShards c)\<rparr>"

definition GetStats :: "Cache \<Rightarrow> int \<times> int \<times> int \<times> int" where
  "GetStats c = (stHits (chStats c), stMisses (chStats c), stEvicts (chStats c), stStaleHits (chStats c))"

definition cache_Len :: "Cache \<Rightarrow> int" where
  "cache_Len c = sum_list (map (\<lambda>s. int (length (shItems s))) (chShards c))"

text \<open>A client of the cache: any sequence of calls.\<close>

datatype cacheOp = OpGet instant string | OpPut instant string Entry | OpDelete string | OpPurge

fun cache_step :: "(string \<Rightarrow> u64) \<Rightarrow> diskEnv \<Rightarrow> cacheOp \<Rightarrow> Cache \<Rightarrow> Cache option" where
  "cache_step xx ev (OpGet now key) c = map_option snd (cache_Get xx ev now c key)"
| "cache_step xx ev (OpPut now key e) c = map_option snd (cache_Put xx ev now c key e)"
| "cache_step xx ev (OpDelete key) c = cache_Delete xx ev c key"
| "cache_step xx ev OpPurge c = Some (cache_Purge c)"

fun is_get :: "cacheOp \<Rightarrow> bool" where
  "is_get (OpGet now key) = True"
| "is_get op = False"

fun cache_run :: "(string \<Rightarrow> u64) \<Rightarrow> diskEnv \<Rightarrow> cacheOp list \<Rightarrow> Cache \<Rightarrow> Cache option" where
  "cache_run xx ev [] c = Some c"
| "cache_run xx ev (op # ops) c = do { c' \<leftarrow> cache_step xx ev op c; cache_run xx ev ops c' }"

section \<open>The invariant\<close>

definition cache_inv :: "(string \<Rightarrow> u64) \<Rightarrow> Cache \<Rightarrow> bool" where
  "cache_inv xx c \<longleftrightarrow>
     (\<forall>s \<in> set (chShards c). shard_inv s) \<and> unat (chShardMask c) < length (chShards c) \<and>
     wf_TinyLFU (chLfu c) \<and> disk_inv (chDisk c) \<and>
     (\<forall>i < length (chShards c). \<forall>k \<in> fst ` set (shard_abs (chShards c ! i)). getShard xx c k = i)"

text \<open>What no operation changes: the configuration and the capacity of every shard.\<close>

definition cache_cfg :: "Cache \<Rightarrow> (u64 \<times> int \<times> int \<times> string \<times> int \<times> bool) \<times> int list" where
  "cache_cfg c =
     ((chShardMask c, chMaxEntryBytes c, chMaxKeyLen c, chDiskDir c, chDiskMaxBytes c, chCompressHeaders c),
      map shMaxItems (chShards c))"

definition cache_capacity :: "Cache \<Rightarrow> int" where
  "cache_capacity c = sum_list (map shMaxItems (chShards c))"

definition cache_lookup :: "(string \<Rightarrow> u64) \<Rightarrow> Cache \<Rightarrow> string \<Rightarrow> Entry option" where
  "cache_lookup xx c k = map_of (shard_abs (chShards c ! getShard xx c k)) k"

lemma cache_capacity_cfg: "cache_cfg c = cache_cfg c' \<Longrightarrow> cache_capacity c = cache_capacity c'"
  by (simp add: cache_cfg_def cache_capacity_def)

lemma getShard_bound: "cache_inv xx c \<Longrightarrow> getShard xx c k < length (chShards c)"
proof -
  assume "cache_inv xx c"
  moreover have "unat (xx k AND chShardMask c) \<le> unat (chShardMask c)"
    by (metis word_and_le1 word_le_nat_alt)
  ultimately show ?thesis by (simp add: cache_inv_def getShard_def)
qed

lemma getShard_cfg [simp]:
  "getShard xx (c\<lparr>chShards := s\<rparr>) = getShard xx c" "getShard xx (c\<lparr>chDisk := d\<rparr>) = getShard xx c"
  "getShard xx (c\<lparr>chStats := st\<rparr>) = getShard xx c" "getShard xx (c\<lparr>chLfu := l\<rparr>) = getShard xx c"
  by (simp_all add: getShard_def fun_eq_iff)

lemma cache_inv_fields [simp]:
  "cache_inv xx (c\<lparr>chStats := st\<rparr>) = cache_inv xx c"
  "cache_inv xx c \<Longrightarrow> cache_inv xx (c\<lparr>chDisk := d\<rparr>) = disk_inv d"
  "cache_inv xx c \<Longrightarrow> cache_inv xx (c\<lparr>chLfu := l\<rparr>) = wf_TinyLFU l"
  by (simp_all add: cache_inv_def)

lemma cache_cfg_fields [simp]:
  "cache_cfg (c\<lparr>chStats := st\<rparr>) = cache_cfg c" "cache_cfg (c\<lparr>chDisk := d\<rparr>) = cache_cfg c"
  "cache_cfg (c\<lparr>chLfu := l\<rparr>) = cache_cfg c"
  by (simp_all add: cache_cfg_def)

lemma cache_lookup_fields [simp]:
  "cache_lookup xx (c\<lparr>chStats := st\<rparr>) = cache_lookup xx c" "cache_lookup xx (c\<lparr>chDisk := d\<rparr>) = cache_lookup xx c"
  "cache_lookup xx (c\<lparr>chLfu := l\<rparr>) = cache_lookup xx c"
  by (simp_all add: cache_lookup_def fun_eq_iff)

lemma cache_shard_inv: "cache_inv xx c \<Longrightarrow> i < length (chShards c) \<Longrightarrow> shard_inv (chShards c ! i)"
  by (simp add: cache_inv_def)

lemma cache_placed:
  "cache_inv xx c \<Longrightarrow> i < length (chShards c) \<Longrightarrow> k \<in> fst ` set (shard_abs (chShards c ! i)) \<Longrightarrow> getShard xx c k = i"
  unfolding cache_inv_def by blast

text \<open>Replacing the shard of a key by one that holds at most that key in addition.\<close>

lemma cache_shard_update:
  assumes "cache_inv xx c" and "shard_inv s'" and "shMaxItems s' = shMaxItems (chShards c ! getShard xx c key)"
    and "fst ` set (shard_abs s') \<subseteq> insert key (fst ` set (shard_abs (chShards c ! getShard xx c key)))"
  defines "c' \<equiv> c\<lparr>chShards := (chShards c)[getShard xx c key := s']\<rparr>"
  shows "cache_inv xx c'" and "cache_cfg c' = cache_cfg c"
proof -
  let ?i = "getShard xx c key"
  have i: "?i < length (chShards c)" using assms(1) by (rule getShard_bound)
  have placed: "getShard xx c k = j"
    if "j < length (chShards c)" "k \<in> fst ` set (shard_abs ((chShards c)[?i := s'] ! j))" for j k
  proof (cases "j = ?i")
    case True
    then have "k \<in> insert key (fst ` set (shard_abs (chShards c ! ?i)))" using that(2) assms(4) i by auto
    then show ?thesis using cache_placed [OF assms(1) i, of k] True by blast
  next
    case False
    then show ?thesis using that cache_placed [OF assms(1) that(1)] by simp
  qed
  have "\<forall>s \<in> set ((chShards c)[?i := s']). shard_inv s"
    using assms(1,2) set_update_subset_insert [of "chShards c" ?i s'] by (auto simp: cache_inv_def)
  moreover have "unat (chShardMask c) < length (chShards c)" "wf_TinyLFU (chLfu c)" "disk_inv (chDisk c)"
    using assms(1) by (auto simp: cache_inv_def)
  ultimately show "cache_inv xx c'"
    unfolding cache_inv_def c'_def getShard_cfg by (intro conjI allI impI ballI) (auto intro: placed)
  have "map shMaxItems ((chShards c)[?i := s']) = map shMaxItems (chShards c)"
    using i assms(3) by (intro nth_equalityI) (auto simp: nth_list_update)
  then show "cache_cfg c' = cache_cfg c" by (simp add: cache_cfg_def c'_def)
qed

lemma cache_lookup_update:
  assumes "cache_inv xx c"
  shows "cache_lookup xx (c\<lparr>chShards := (chShards c)[getShard xx c key := s']\<rparr>) k =
    (if getShard xx c k = getShard xx c key then map_of (shard_abs s') k else cache_lookup xx c k)"
  using getShard_bound [OF assms] by (auto simp: cache_lookup_def)

lemma cache_Len_bounded:
  assumes "cache_inv xx c" shows "cache_Len c \<le> cache_capacity c" and "0 \<le> cache_Len c"
proof -
  have "int (length (shItems s)) \<le> shMaxItems s" if "s \<in> set (chShards c)" for s
    using that assms shard_items_len [of s] shard.view_bounded [of s] by (auto simp: cache_inv_def)
  then show "cache_Len c \<le> cache_capacity c"
    unfolding cache_Len_def cache_capacity_def by (intro sum_list_mono) auto
  show "0 \<le> cache_Len c" unfolding cache_Len_def by (intro sum_list_nonneg) auto
qed

section \<open>Every operation returns and keeps the invariant\<close>

text \<open>The condition under which a spill returns: removals work, or there is no limit or no disk.\<close>

definition spill_safe :: "diskEnv \<Rightarrow> Cache \<Rightarrow> bool" where
  "spill_safe ev c \<longleftrightarrow> (\<forall>n. \<not> fltRemove (evFaults ev) n) \<or> chDiskMaxBytes c \<le> 0 \<or> chDiskDir c = []"

lemma spill_safe_cfg: "cache_cfg c' = cache_cfg c \<Longrightarrow> spill_safe ev c' = spill_safe ev c"
  by (simp add: spill_safe_def cache_cfg_def)

lemma evictItem_total:
  assumes "spill_safe ev c" shows "evictItem ev c now it ds \<noteq> None"
proof -
  have "make_room ev (chDiskMaxBytes c) (entrySize (liEntry it)) (fst ds) \<noteq> None \<or>
      chDiskMaxBytes c \<le> 0 \<or> chDiskDir c = []"
    using make_room_total [of ev "chDiskMaxBytes c" "entrySize (liEntry it)" "fst ds"] assms
    by (auto simp: spill_safe_def)
  then show ?thesis
    by (auto simp: evictItem_def spillToDisk_def Let_def split: bool.splits prod.splits)
qed

lemma evictItem_inv:
  "disk_inv (fst ds) \<Longrightarrow> evictItem ev c now it ds = Some ds' \<Longrightarrow> disk_inv (fst ds')"
  by (auto simp: evictItem_def split: if_splits bind_splits dest: spillToDisk_result(1))

lemma evictItem_stats: "evictItem ev c now it ds = Some ds' \<Longrightarrow> snd ds' = count_evict (snd ds)"
  by (auto simp: evictItem_def split: if_splits bind_splits)

lemma Admit_total: "cache_inv xx c \<Longrightarrow> Admit xx (chLfu c) a b \<noteq> None"
  by (simp add: cache_inv_def Admit_eq)

lemma cache_putInShard_total:
  assumes "cache_inv xx c" and "spill_safe ev c"
  shows "\<exists>c'. cache_putInShard xx ev now c (getShard xx c key) key e = Some c'"
proof -
  let ?i = "getShard xx c key"
  have i: "?i < length (chShards c)" using assms(1) by (rule getShard_bound)
  obtain s' d' where "putInShard (Admit xx (chLfu c)) (evictItem ev c now) (chShards c ! ?i) (chDisk c, chStats c) key e = Some (s', d')"
    using shard.put_total [OF cache_shard_inv [OF assms(1) i], of "Admit xx (chLfu c)" "evictItem ev c now"]
      Admit_total [OF assms(1)] evictItem_total [OF assms(2)] by metis
  then show ?thesis using i by (cases d') (simp add: cache_putInShard_def no_panic)
qed

lemma cache_putInShard_result:
  assumes "cache_inv xx c" and "cache_putInShard xx ev now c (getShard xx c key) key e = Some c'"
  shows "cache_inv xx c'" and "cache_cfg c' = cache_cfg c" and "chLfu c' = chLfu c"
    and "cache_lookup xx c' key = Some e \<or> cache_lookup xx c key = None \<and> cache_lookup xx c' = cache_lookup xx c"
    and "k \<noteq> key \<Longrightarrow> cache_lookup xx c' k = Some e' \<Longrightarrow> cache_lookup xx c k = Some e'"
    and "\<exists>n. chStats c' = (chStats c)\<lparr>stEvicts := stEvicts (chStats c) + n\<rparr> \<and> 0 \<le> n \<and> n \<le> 1"
proof -
  let ?i = "getShard xx c key"
  have i: "?i < length (chShards c)" using assms(1) by (rule getShard_bound)
  note s = cache_shard_inv [OF assms(1) i]
  obtain s' dk st where put: "putInShard (Admit xx (chLfu c)) (evictItem ev c now) (chShards c ! ?i) (chDisk c, chStats c) key e = Some (s', dk, st)"
    and c': "c' = c\<lparr>chShards := (chShards c)[?i := s'], chDisk := dk, chStats := st\<rparr>"
    using assms(2) i by (auto simp: cache_putInShard_def no_panic split: bind_splits)
  note U = cache_shard_update [OF assms(1) shard.put_view(2,3) [OF s put] shard.put_keys [OF s put]]
  have "disk_inv dk"
    using shard.put_effect [OF s put] evictItem_inv [of "(chDisk c, chStats c)"] assms(1)
    by (auto simp: cache_inv_def)
  with U show "cache_inv xx c'" and "cache_cfg c' = cache_cfg c" and "chLfu c' = chLfu c"
    by (simp_all add: c')
  show "cache_lookup xx c' key = Some e \<or> cache_lookup xx c key = None \<and> cache_lookup xx c' = cache_lookup xx c"
  proof (cases "map_of (shard_abs s') key = Some e")
    case False
    with shard.put_lookup [OF s put] have same: "shard_abs s' = shard_abs (chShards c ! ?i)"
      and "key \<notin> fst ` set (shard_abs (chShards c ! ?i))" by auto
    then have "cache_lookup xx c' k = cache_lookup xx c k" for k
      by (simp add: c' cache_lookup_update [OF assms(1)]) (simp add: cache_lookup_def)
    moreover have "cache_lookup xx c key = None"
      using \<open>key \<notin> _\<close> by (simp add: cache_lookup_def map_of_eq_None_iff)
    ultimately show ?thesis by (simp add: fun_eq_iff)
  qed (simp add: c' cache_lookup_update [OF assms(1)])
  show "cache_lookup xx c k = Some e'" if "k \<noteq> key" "cache_lookup xx c' k = Some e'"
    using that shard.put_lookup_other [OF s put that(1)]
    by (auto simp: c' cache_lookup_update [OF assms(1)] split: if_splits) (simp add: cache_lookup_def)
  show "\<exists>n. chStats c' = (chStats c)\<lparr>stEvicts := stEvicts (chStats c) + n\<rparr> \<and> 0 \<le> n \<and> n \<le> 1"
    using shard.put_effect [OF s put] evictItem_stats [of ev c now _ "(chDisk c, chStats c)"]
    by (auto simp: c' count_evict_def intro: exI [of _ 0] exI [of _ 1])
qed

text \<open>An entry the cache may still serve: fresh, or stale within its revalidation window.\<close>

definition live :: "instant \<Rightarrow> Entry \<Rightarrow> bool" where
  "live now e \<longleftrightarrow> \<not> IsExpired now e \<or> IsStaleServable now e"

definition serve_count :: "instant \<Rightarrow> Entry option \<Rightarrow> Stats \<Rightarrow> Stats" where
  "serve_count now r = (case r of None \<Rightarrow> count_miss | Some e \<Rightarrow> if IsExpired now e then count_stale else count_hit)"

text \<open>The locked part of \<open>Get\<close>: what the shard answers, and the cache it leaves.\<close>

lemma cache_Get_shard:
  assumes "cache_inv xx c"
  obtains r c1 where "cache_Get xx ev now c key =
      (case r of
          ShardStale entry \<Rightarrow> Some (Some entry, c1\<lparr>chStats := count_stale (chStats c)\<rparr>)
        | ShardHit entry \<Rightarrow> Some (Some entry, c1\<lparr>chStats := count_hit (chStats c)\<rparr>)
        | ShardExpired \<Rightarrow>
            Some (None, c1\<lparr>chDisk := (if chDiskDir c \<noteq> [] then snd (removeFromDisk ev (chDisk c) key) else chDisk c),
                          chStats := count_miss (chStats c)\<rparr>)
        | ShardMiss \<Rightarrow>
            if chDiskDir c \<noteq> [] then get_from_disk xx ev now c1 key
            else Some (None, c1\<lparr>chStats := count_miss (chStats c)\<rparr>))"
    and "cache_inv xx c1" "cache_cfg c1 = cache_cfg c" "chStats c1 = chStats c" "chDisk c1 = chDisk c"
    and "\<And>k. k \<noteq> key \<Longrightarrow> cache_lookup xx c1 k = cache_lookup xx c k"
    and "r = fst (lru_get now key (shard_abs (chShards c ! getShard xx c key)))"
    and "cache_lookup xx c1 key = map_of (snd (lru_get now key (shard_abs (chShards c ! getShard xx c key)))) key"
proof -
  let ?i = "getShard xx c key"
  have i: "?i < length (chShards c)" using assms(1) by (rule getShard_bound)
  note s = cache_shard_inv [OF assms(1) i]
  obtain lfu where lfu: "Increment xx (chLfu c) key = Some lfu" "wf_TinyLFU lfu"
    using Increment_total [of "chLfu c" xx key] assms by (auto simp: cache_inv_def)
  obtain r s' where g: "shard_Get now (chShards c ! ?i) key = Some (r, s')" "shard_inv s'"
      "shMaxItems s' = shMaxItems (chShards c ! ?i)"
    using shard.get_total [OF s, of now key] by blast
  define c1 where "c1 = c\<lparr>chShards := (chShards c)[?i := s'], chLfu := lfu\<rparr>"
  have c1_order: "c\<lparr>chLfu := lfu, chShards := (chShards c)[?i := s']\<rparr> = c1" by (simp add: c1_def)
  note U = cache_shard_update [OF assms g(2,3) shard.get_keys [OF s g(1)]]
  have c1: "cache_inv xx c1" "cache_cfg c1 = cache_cfg c" "chStats c1 = chStats c" "chDisk c1 = chDisk c"
    using U lfu(2) by (simp_all add: c1_def)
  have other: "cache_lookup xx c1 k = cache_lookup xx c k" if "k \<noteq> key" for k
    using shard.get_lookup_other [OF s g(1) that]
    by (simp add: c1_def cache_lookup_update [OF assms]) (simp add: cache_lookup_def)
  have own: "cache_lookup xx c1 key = map_of (shard_abs s') key"
    by (simp add: c1_def cache_lookup_update [OF assms])
  have G: "cache_Get xx ev now c key =
      (case r of
          ShardStale entry \<Rightarrow> Some (Some entry, c1\<lparr>chStats := count_stale (chStats c)\<rparr>)
        | ShardHit entry \<Rightarrow> Some (Some entry, c1\<lparr>chStats := count_hit (chStats c)\<rparr>)
        | ShardExpired \<Rightarrow>
            Some (None, c1\<lparr>chDisk := (if chDiskDir c \<noteq> [] then snd (removeFromDisk ev (chDisk c) key) else chDisk c),
                          chStats := count_miss (chStats c)\<rparr>)
        | ShardMiss \<Rightarrow>
            if chDiskDir c \<noteq> [] then get_from_disk xx ev now c1 key
            else Some (None, c1\<lparr>chStats := count_miss (chStats c)\<rparr>))"
    using lfu(1) g(1) i by (simp add: cache_Get_def no_panic c1_order) (simp add: c1_def split: shardGet.split)
  have view: "r = fst (lru_get now key (shard_abs (chShards c ! ?i)))" "shard_abs s' = snd (lru_get now key (shard_abs (chShards c ! ?i)))"
    using shard.get_law [OF s, of now key] g(1) by auto
  show thesis by (rule that [OF G c1 other view(1)]) (simp_all add: own view(2))
qed

text \<open>The four ways through \<open>Get\<close>, seen from the caller.\<close>

lemma cache_Get_cases:
  assumes "cache_inv xx c"
  obtains (memory) e c1 where "cache_lookup xx c key = Some e" "live now e"
      "cache_Get xx ev now c key = Some (Some e, c1\<lparr>chStats := serve_count now (Some e) (chStats c)\<rparr>)"
      "cache_inv xx c1" "cache_cfg c1 = cache_cfg c" "chStats c1 = chStats c" "chDisk c1 = chDisk c"
      "cache_lookup xx c1 = cache_lookup xx c"
  | (expired) e c1 where "cache_lookup xx c key = Some e" "\<not> live now e"
      "cache_Get xx ev now c key = Some (None, c1\<lparr>chDisk := (if chDiskDir c \<noteq> [] then snd (removeFromDisk ev (chDisk c) key) else chDisk c),
         chStats := serve_count now None (chStats c)\<rparr>)"
      "cache_inv xx c1" "cache_cfg c1 = cache_cfg c" "chStats c1 = chStats c" "chDisk c1 = chDisk c"
      "cache_lookup xx c1 = (cache_lookup xx c)(key := None)"
  | (absent) c1 where "cache_lookup xx c key = None" "chDiskDir c = []"
      "cache_Get xx ev now c key = Some (None, c1\<lparr>chStats := serve_count now None (chStats c)\<rparr>)"
      "cache_inv xx c1" "cache_cfg c1 = cache_cfg c" "chStats c1 = chStats c" "chDisk c1 = chDisk c"
      "cache_lookup xx c1 = cache_lookup xx c"
  | (disk) c1 where "cache_lookup xx c key = None" "chDiskDir c \<noteq> []"
      "cache_Get xx ev now c key = get_from_disk xx ev now c1 key"
      "cache_inv xx c1" "cache_cfg c1 = cache_cfg c" "chStats c1 = chStats c" "chDisk c1 = chDisk c"
      "cache_lookup xx c1 = cache_lookup xx c"
proof -
  let ?i = "getShard xx c key"
  obtain r c1 where G: "cache_Get xx ev now c key =
      (case r of
          ShardStale entry \<Rightarrow> Some (Some entry, c1\<lparr>chStats := count_stale (chStats c)\<rparr>)
        | ShardHit entry \<Rightarrow> Some (Some entry, c1\<lparr>chStats := count_hit (chStats c)\<rparr>)
        | ShardExpired \<Rightarrow>
            Some (None, c1\<lparr>chDisk := (if chDiskDir c \<noteq> [] then snd (removeFromDisk ev (chDisk c) key) else chDisk c),
                          chStats := count_miss (chStats c)\<rparr>)
        | ShardMiss \<Rightarrow>
            if chDiskDir c \<noteq> [] then get_from_disk xx ev now c1 key
            else Some (None, c1\<lparr>chStats := count_miss (chStats c)\<rparr>))"
    and c1: "cache_inv xx c1" "cache_cfg c1 = cache_cfg c" "chStats c1 = chStats c" "chDisk c1 = chDisk c"
    and other: "\<And>k. k \<noteq> key \<Longrightarrow> cache_lookup xx c1 k = cache_lookup xx c k"
    and view: "r = fst (lru_get now key (shard_abs (chShards c ! ?i)))"
    and own: "cache_lookup xx c1 key = map_of (snd (lru_get now key (shard_abs (chShards c ! ?i)))) key"
    by (rule cache_Get_shard [OF assms, where ev = ev and now = now and key = key]) blast
  have same: "cache_lookup xx c1 = cache_lookup xx c" if "cache_lookup xx c1 key = cache_lookup xx c key"
    using that other by (metis ext)
  show thesis
  proof (cases "cache_lookup xx c key")
    case None
    then have "r = ShardMiss" "cache_lookup xx c1 key = cache_lookup xx c key"
      using view unfolding own by (simp_all add: lru_get_def cache_lookup_def)
    then show thesis
      using None G c1 same by (cases "chDiskDir c = []") (auto simp: serve_count_def intro: absent disk)
  next
    case (Some e)
    then have e: "map_of (shard_abs (chShards c ! ?i)) key = Some e" by (simp add: cache_lookup_def)
    show thesis
    proof (cases "live now e")
      case True
      then have "r = (if IsExpired now e then ShardStale e else ShardHit e)" "cache_lookup xx c1 key = Some e"
        using view e by (auto simp: lru_get_def own live_def lru_touch_def)
      then show thesis using Some True G c1 same by (intro memory [of e c1]) (auto simp: serve_count_def)
    next
      case False
      then have r: "r = ShardExpired" and "cache_lookup xx c1 key = None"
        using view e by (auto simp: lru_get_def own live_def AList.delete_conv')
      then have "cache_lookup xx c1 = (cache_lookup xx c)(key := None)" using other by (simp add: fun_eq_iff)
      with r show thesis using Some False G c1 by (intro expired [of e c1]) (auto simp: serve_count_def)
    qed
  qed
qed

lemma get_from_disk_cases:
  assumes "cache_inv xx c" and "spill_safe ev c"
  obtains (absent) "fst (loadFromDisk ev (chCompressHeaders c) (chDisk c) key) = None"
      "get_from_disk xx ev now c key =
         Some (None, c\<lparr>chDisk := dk_next (chDisk c), chStats := serve_count now None (chStats c)\<rparr>)"
  | (dead) e where "fst (loadFromDisk ev (chCompressHeaders c) (chDisk c) key) = Some e" "\<not> live now e"
      "get_from_disk xx ev now c key =
         Some (None, c\<lparr>chDisk := snd (removeFromDisk ev (dk_next (chDisk c)) key), chStats := serve_count now None (chStats c)\<rparr>)"
  | (promoted) e c' where "fst (loadFromDisk ev (chCompressHeaders c) (chDisk c) key) = Some e" "live now e"
      "cache_putInShard xx ev now (c\<lparr>chDisk := dk_next (chDisk c)\<rparr>) (getShard xx c key) key e = Some c'"
      "get_from_disk xx ev now c key = Some (Some e, c'\<lparr>chStats := serve_count now (Some e) (chStats c')\<rparr>)"
proof (cases "fst (loadFromDisk ev (chCompressHeaders c) (chDisk c) key)")
  case None
  then show thesis by (intro absent)
    (auto simp: get_from_disk_def Let_def serve_count_def prod_eq_iff split: prod.splits dest: arg_cong [of _ _ snd])
next
  case (Some e)
  then have l: "loadFromDisk ev (chCompressHeaders c) (chDisk c) key = (Some e, dk_next (chDisk c))"
    by (simp add: prod_eq_iff)
  let ?c = "c\<lparr>chDisk := dk_next (chDisk c)\<rparr>"
  have "cache_inv xx ?c" using assms(1) by (simp add: cache_inv_def)
  moreover have "spill_safe ev ?c" using assms(2) by (simp add: spill_safe_def)
  ultimately obtain c' where p: "cache_putInShard xx ev now ?c (getShard xx c key) key e = Some c'"
    using cache_putInShard_total [of xx ?c ev now key e] by auto
  show thesis
  proof (cases "live now e")
    case True
    then show thesis using Some l p
      by (intro promoted) (auto simp: get_from_disk_def Let_def live_def serve_count_def)
  next
    case False
    then show thesis using Some l
      by (intro dead) (auto simp: get_from_disk_def Let_def live_def serve_count_def)
  qed
qed

lemma removeFromDisk_inv': "disk_inv dk \<Longrightarrow> disk_inv (snd (removeFromDisk ev dk key))"
  by (cases "removeFromDisk ev dk key") (simp add: removeFromDisk_inv)

lemma cache_Get_result:
  assumes "cache_inv xx c" and "spill_safe ev c"
  obtains r c' n where "cache_Get xx ev now c key = Some (r, c')" and "cache_inv xx c'" and "cache_cfg c' = cache_cfg c"
    and "\<And>e. r = Some e \<Longrightarrow> live now e"
    and "\<And>e. cache_lookup xx c key = Some e \<Longrightarrow> r = (if live now e then Some e else None)"
    and "\<And>k e. k \<noteq> key \<Longrightarrow> cache_lookup xx c' k = Some e \<Longrightarrow> cache_lookup xx c k = Some e"
    and "chStats c' = serve_count now r ((chStats c)\<lparr>stEvicts := stEvicts (chStats c) + n\<rparr>)" and "0 \<le> n" and "n \<le> 1"
  using assms(1)
proof (cases rule: cache_Get_cases [of xx c key now ev])
  case (memory e c1)
  then show thesis by (intro that [OF memory(3), of 0]) auto
next
  case (expired e c1)
  then show thesis
    by (intro that [OF expired(3), of 0]) (auto simp: removeFromDisk_inv' cache_inv_def split: if_splits)
next
  case (absent c1)
  then show thesis by (intro that [OF absent(3), of 0]) auto
next
  case (disk c1)
  have "spill_safe ev c1" using assms(2) disk(5) spill_safe_cfg by blast
  with disk(4) show thesis
  proof (cases rule: get_from_disk_cases [of xx c1 ev key now])
    case absent
    then show thesis using disk by (intro that [OF disk(3) [THEN trans, OF absent(2)], of 0]) (auto simp: cache_inv_def)
  next
    case (dead e)
    then show thesis using disk
      by (intro that [OF disk(3) [THEN trans, OF dead(3)], of 0]) (auto simp: cache_inv_def intro!: removeFromDisk_inv')
  next
    case (promoted e c')
    let ?c = "c1\<lparr>chDisk := dk_next (chDisk c1)\<rparr>"
    have inv: "cache_inv xx ?c" using disk(4) by (simp add: cache_inv_def)
    note R = cache_putInShard_result [OF inv, of ev now key e c', simplified, OF promoted(3)]
    obtain n where n: "chStats c' = (chStats c1)\<lparr>stEvicts := stEvicts (chStats c1) + n\<rparr>" "0 \<le> n" "n \<le> 1"
      using R(6) by blast
    show thesis
      by (rule that [of "Some e" "c'\<lparr>chStats := serve_count now (Some e) (chStats c')\<rparr>" n])
         (use disk promoted R(1,2,5) n in \<open>auto\<close>)
  qed
qed

lemma cache_Put_result:
  assumes "cache_inv xx c" and "spill_safe ev c"
  obtains e' c' n where "cache_Put xx ev now c key e = Some (e', c')" and "cache_inv xx c'" and "cache_cfg c' = cache_cfg c"
    and "\<And>k e'. k \<noteq> key \<Longrightarrow> cache_lookup xx c' k = Some e' \<Longrightarrow> cache_lookup xx c k = Some e'"
    and "chStats c' = (chStats c)\<lparr>stEvicts := stEvicts (chStats c) + n\<rparr>" and "0 \<le> n" and "n \<le> 1"
proof (cases "put_refused c key e")
  case True
  then show thesis using assms(1) by (intro that [of e c 0]) (simp_all add: cache_Put_def)
next
  case False
  obtain c' where p: "cache_putInShard xx ev now c (getShard xx c key) key (put_compress ev c e) = Some c'"
    using cache_putInShard_total [OF assms] by blast
  note R = cache_putInShard_result [OF assms(1) p]
  obtain n where "chStats c' = (chStats c)\<lparr>stEvicts := stEvicts (chStats c) + n\<rparr>" "0 \<le> n" "n \<le> 1" using R(6) by blast
  with R p False show thesis by (intro that [of "put_compress ev c e" c' n]) (auto simp: cache_Put_def)
qed

lemma cache_Delete_result:
  assumes "cache_inv xx c"
  obtains c' where "cache_Delete xx ev c key = Some c'" and "cache_inv xx c'" and "cache_cfg c' = cache_cfg c"
    and "cache_lookup xx c' = (cache_lookup xx c)(key := None)" and "chStats c' = chStats c"
    and "chDisk c' = (if chDiskDir c \<noteq> [] then snd (removeFromDisk ev (chDisk c) key) else chDisk c)"
proof -
  let ?i = "getShard xx c key"
  have i: "?i < length (chShards c)" using assms by (rule getShard_bound)
  note s = cache_shard_inv [OF assms i]
  let ?s' = "shard_Delete (chShards c ! ?i) key"
  let ?c = "c\<lparr>chShards := (chShards c)[?i := ?s']\<rparr>"
  note L = shard.del_law [OF s, of key]
  have "fst ` set (shard_abs ?s') \<subseteq> insert key (fst ` set (shard_abs (chShards c ! ?i)))"
    using L by (auto simp: AList_delete_filter)
  with L cache_shard_update [OF assms, of ?s' key] have U: "cache_inv xx ?c" "cache_cfg ?c = cache_cfg c" by auto
  have "cache_lookup xx ?c k = ((cache_lookup xx c)(key := None)) k" for k
    by (simp add: cache_lookup_update [OF assms] shard.del_lookup [OF s]) (simp add: cache_lookup_def)
  then have look: "cache_lookup xx ?c = (cache_lookup xx c)(key := None)" by (simp add: fun_eq_iff)
  have "disk_inv (chDisk c)" using assms by (simp add: cache_inv_def)
  then show thesis
    by (intro that [of "?c\<lparr>chDisk := (if chDiskDir c \<noteq> [] then snd (removeFromDisk ev (chDisk c) key) else chDisk c)\<rparr>"])
       (use U look i in \<open>auto simp: cache_Delete_def no_panic removeFromDisk_inv' Let_def\<close>)
qed

lemma cache_Purge_result:
  assumes "cache_inv xx c"
  shows "cache_inv xx (cache_Purge c)" and "cache_cfg (cache_Purge c) = cache_cfg c"
    and "cache_lookup xx (cache_Purge c) = Map.empty" and "cache_Len (cache_Purge c) = 0"
    and "chDisk (cache_Purge c) = chDisk c" and "chStats (cache_Purge c) = chStats c"
proof -
  have s: "shard_inv (shard_Purge s) \<and> shard_abs (shard_Purge s) = []" if "s \<in> set (chShards c)" for s
    using that assms shard_Purge_refines [of s] by (simp add: cache_inv_def)
  have g: "getShard xx (cache_Purge c) = getShard xx c" by (simp add: cache_Purge_def)
  show "cache_inv xx (cache_Purge c)"
    using assms s unfolding cache_inv_def g by (auto simp: cache_Purge_def)
  show "cache_cfg (cache_Purge c) = cache_cfg c" by (simp add: cache_cfg_def cache_Purge_def shard_Purge_def)
  have "cache_lookup xx (cache_Purge c) k = None" for k
    using s getShard_bound [OF assms, of k] unfolding cache_lookup_def g by (simp add: cache_Purge_def)
  then show "cache_lookup xx (cache_Purge c) = Map.empty" by (simp add: fun_eq_iff)
  show "cache_Len (cache_Purge c) = 0" by (simp add: cache_Len_def cache_Purge_def shard_Purge_def o_def)
qed (simp_all add: cache_Purge_def)

lemma cache_step_result:
  assumes "cache_inv xx c" and "spill_safe ev c"
  obtains c' where "cache_step xx ev op c = Some c'" and "cache_inv xx c'" and "cache_cfg c' = cache_cfg c"
    and "stHits (chStats c') + stMisses (chStats c') + stStaleHits (chStats c') =
         stHits (chStats c) + stMisses (chStats c) + stStaleHits (chStats c) + of_bool (is_get op)"
proof (cases op)
  case (OpGet now key)
  obtain r c' n where "cache_Get xx ev now c key = Some (r, c')" "cache_inv xx c'" "cache_cfg c' = cache_cfg c"
      "chStats c' = serve_count now r ((chStats c)\<lparr>stEvicts := stEvicts (chStats c) + n\<rparr>)"
    by (rule cache_Get_result [OF assms, of now key])
  with OpGet show thesis
    by (intro that [of c']) (auto simp: serve_count_def count_hit_def count_miss_def count_stale_def split: option.splits)
next
  case (OpPut now key e)
  obtain e' c' n where "cache_Put xx ev now c key e = Some (e', c')" "cache_inv xx c'" "cache_cfg c' = cache_cfg c"
      "chStats c' = (chStats c)\<lparr>stEvicts := stEvicts (chStats c) + n\<rparr>"
    by (rule cache_Put_result [OF assms, of now key e])
  with OpPut show thesis by (intro that [of c']) auto
next
  case (OpDelete key)
  obtain c' where "cache_Delete xx ev c key = Some c'" "cache_inv xx c'" "cache_cfg c' = cache_cfg c" "chStats c' = chStats c"
    by (rule cache_Delete_result [OF assms(1), of ev key])
  with OpDelete show thesis by (intro that [of c']) auto
next
  case OpPurge
  with cache_Purge_result [OF assms(1)] show thesis by (intro that [of "cache_Purge c"]) auto
qed

lemma cache_run_result:
  assumes "cache_inv xx c" and "spill_safe ev c"
  obtains c' where "cache_run xx ev ops c = Some c'" and "cache_inv xx c'" and "cache_cfg c' = cache_cfg c"
    and "stHits (chStats c') + stMisses (chStats c') + stStaleHits (chStats c') =
         stHits (chStats c) + stMisses (chStats c) + stStaleHits (chStats c) +
         int (length (filter is_get ops))"
  using assms
proof (induction ops arbitrary: c thesis)
  case (Cons op ops)
  obtain c1 where c1: "cache_step xx ev op c = Some c1" "cache_inv xx c1" "cache_cfg c1 = cache_cfg c"
    and n: "stHits (chStats c1) + stMisses (chStats c1) + stStaleHits (chStats c1) =
       stHits (chStats c) + stMisses (chStats c) + stStaleHits (chStats c) + of_bool (is_get op)"
    by (rule cache_step_result [OF Cons.prems(2,3)])
  have "spill_safe ev c1" using Cons.prems(3) c1(3) spill_safe_cfg by blast
  then show ?case
    by (rule Cons.IH [OF _ c1(2), rotated]) (use c1 n in \<open>auto intro!: Cons.prems(1)\<close>)
qed auto

definition admitted :: "(string \<Rightarrow> u64) \<Rightarrow> Cache \<Rightarrow> string \<Rightarrow> bool" where
  "admitted xx c key \<longleftrightarrow>
     (let s = chShards c ! getShard xx c key
      in map_of (shItems s) key \<noteq> None \<or> int (length (shItems s)) < shMaxItems s \<or>
         Admit xx (chLfu c) key (fst (last (shard_abs s))) = Some True)"

lemma admitted_stored:
  assumes "cache_inv xx c" and "cache_putInShard xx ev now c (getShard xx c key) key e = Some c'"
  shows "if admitted xx c key then cache_lookup xx c' key = Some e else cache_lookup xx c' = cache_lookup xx c"
proof -
  let ?i = "getShard xx c key"
  have i: "?i < length (chShards c)" using assms(1) by (rule getShard_bound)
  note s = cache_shard_inv [OF assms(1) i]
  obtain s' dk st where put: "putInShard (Admit xx (chLfu c)) (evictItem ev c now) (chShards c ! ?i) (chDisk c, chStats c) key e = Some (s', dk, st)"
    and c': "c' = c\<lparr>chShards := (chShards c)[?i := s'], chDisk := dk, chStats := st\<rparr>"
    using assms(2) i by (auto simp: cache_putInShard_def no_panic split: bind_splits)
  have look: "cache_lookup xx c' k = (if getShard xx c k = ?i then map_of (shard_abs s') k else cache_lookup xx c k)" for k
    by (simp add: c' cache_lookup_update [OF assms(1)])
  have adm: "admitted xx c key \<longleftrightarrow> key \<in> fst ` set (shard_abs (chShards c ! ?i)) \<or>
      int (length (shard_abs (chShards c ! ?i))) < shMaxItems (chShards c ! ?i) \<or>
      Admit xx (chLfu c) key (fst (last (shard_abs (chShards c ! ?i)))) = Some True"
    using shard_key_iff [OF s, of key] shard_items_len [OF s] by (simp add: admitted_def Let_def)
  from shard.put_view(1) [OF s put] show ?thesis
  proof (cases rule: lru_put_cases)
    case stored
    then show ?thesis using adm by (auto simp: look lru_touch_def)
  next
    case replaced
    then show ?thesis using adm by (auto simp: look)
  next
    case rejected
    have "cache_lookup xx c' k = cache_lookup xx c k" for k
      by (simp add: look rejected(1)) (simp add: cache_lookup_def)
    moreover have "\<not> admitted xx c key" using adm rejected by simp
    ultimately show ?thesis by (simp add: fun_eq_iff)
  qed
qed

text \<open>A miss on an absent key changes only the frequency sketch and the statistics; room means acceptance.\<close>

definition has_room :: "(string \<Rightarrow> u64) \<Rightarrow> Cache \<Rightarrow> string \<Rightarrow> bool" where
  "has_room xx c key \<longleftrightarrow>
     (let s = chShards c ! getShard xx c key in int (length (shItems s)) < shMaxItems s)"

lemma cache_Get_absent:
  assumes "cache_inv xx c" and "cache_lookup xx c key = None" and "chDiskDir c = []"
  shows "\<exists>l. cache_Get xx ev now c key = Some (None, c\<lparr>chLfu := l, chStats := count_miss (chStats c)\<rparr>)"
proof -
  obtain l where l: "Increment xx (chLfu c) key = Some l" using Increment_total assms(1) by (fastforce simp: cache_inv_def)
  let ?s = "chShards c ! getShard xx c key"
  have s: "shard_inv ?s" using cache_shard_inv [OF assms(1) getShard_bound [OF assms(1)]] .
  then have "map_of (shItems ?s) key = None"
    using assms(2) shard_key_iff [OF s, of key] by (auto simp: cache_lookup_def map_of_eq_None_iff)
  then show ?thesis using l assms(3) getShard_bound [OF assms(1), of key]
    by (intro exI [of _ l]) (simp add: cache_Get_def Let_def no_panic shard_Get_def)
qed

lemma cache_Put_room:
  assumes "cache_inv xx c" and "has_room xx c key" and "\<not> put_refused c key e" and "cache_Put xx ev now c key e = Some (e', c')"
  shows "e' = put_compress ev c e \<and> cache_lookup xx c' key = Some e'"
proof -
  from assms(3,4) have e': "e' = put_compress ev c e" and p: "cache_putInShard xx ev now c (getShard xx c key) key e' = Some c'"
    by (auto simp: cache_Put_def Let_def split: bind_splits)
  have "admitted xx c key" using assms(2) by (simp add: admitted_def has_room_def Let_def)
  with admitted_stored [OF assms(1) p] e' show ?thesis by simp
qed

section \<open>The interface the handlers rely on\<close>

text \<open>
  What a handler may assume of a cache: lookups and insertions return and keep it usable; a lookup
  gives exactly the live entry held for the key; an insertion keeps body, status, times and validators
  of the entry, and no operation makes another entry appear under any key.
\<close>

definition same_page :: "Entry \<Rightarrow> Entry \<Rightarrow> bool" where
  "same_page e e' \<longleftrightarrow> e' = e\<lparr>eHeader := eHeader e', eCompressedHeader := eCompressedHeader e'\<rparr>"

locale entry_store =
  fixes ok :: "'c \<Rightarrow> bool"
    and look :: "'c \<Rightarrow> string \<Rightarrow> Entry option"
    and get :: "instant \<Rightarrow> 'c \<Rightarrow> string \<Rightarrow> (Entry option \<times> 'c) option"
    and put :: "instant \<Rightarrow> 'c \<Rightarrow> string \<Rightarrow> Entry \<Rightarrow> (Entry \<times> 'c) option"
  assumes get_law: "ok c \<Longrightarrow> returns (get now c k) (\<lambda>(r, c'). ok c' \<and> (\<forall>e. r = Some e \<longrightarrow> live now e) \<and>
      (\<forall>e. look c k = Some e \<longrightarrow> r = (if live now e then Some e else None)) \<and>
      (\<forall>k' e. k' \<noteq> k \<longrightarrow> look c' k' = Some e \<longrightarrow> look c k' = Some e))"
    and put_law: "ok c \<Longrightarrow> returns (put now c k e) (\<lambda>(e', c'). ok c' \<and> same_page e e' \<and>
      (\<forall>k' e''. look c' k' = Some e'' \<longrightarrow> look c k' = Some e'' \<or> k' = k \<and> e'' = e'))"
begin

lemma put_once:
  assumes "ok c"
  shows "returns (put now c k e) (\<lambda>(e', c'). ok c' \<and> same_page e e' \<and>
      (\<forall>j e''. look c' j = Some e'' \<longrightarrow> look c j = Some e'' \<or> j = k \<and> same_page e e''))"
  by (rule returns_mono [OF put_law [OF assms]]) blast

text \<open>Storing one page under two keys: nothing else appears, and both keys hold that page or what they held.\<close>

lemma put_twice:
  assumes "ok c"
  shows "returns (put now c k e \<bind> (\<lambda>(e1, c1). put now' c1 k' e1)) (\<lambda>(e', c'). ok c' \<and> same_page e e' \<and>
      (\<forall>j e''. look c' j = Some e'' \<longrightarrow> look c j = Some e'' \<or> (j = k \<or> j = k') \<and> same_page e e''))"
proof (rule returns_bind [OF put_law [OF assms]], clarify)
  fix e1 c1
  assume 1: "ok c1" "same_page e e1" "\<forall>j e''. look c1 j = Some e'' \<longrightarrow> look c j = Some e'' \<or> j = k \<and> e'' = e1"
  have page: "same_page e e'" if "same_page e1 e'" for e'
    using that 1(2) unfolding same_page_def by (metis Entry.select_convs Entry.surjective Entry.update_convs(2,3))
  show "returns (put now' c1 k' e1) (\<lambda>(e', c'). ok c' \<and> same_page e e' \<and>
      (\<forall>j e''. look c' j = Some e'' \<longrightarrow> look c j = Some e'' \<or> (j = k \<or> j = k') \<and> same_page e e''))"
    by (rule returns_mono [OF put_law [OF 1(1)]]) (use 1(2,3) page in blast)
qed

end

lemma same_page_refl [simp]: "same_page e e"
  by (simp add: same_page_def)

lemma same_page_fields:
  "same_page e e' \<Longrightarrow> eBody e' = eBody e \<and> eStatusCode e' = eStatusCode e \<and> eStoredAt e' = eStoredAt e \<and> eTTL e' = eTTL e \<and>
     eETag e' = eETag e \<and> eLastMod e' = eLastMod e \<and> eStaleWhileRevalidate e' = eStaleWhileRevalidate e"
  unfolding same_page_def by (metis Entry.ext_inject Entry.surjective Entry.update_convs(2,3))

lemma same_page_compress: "same_page e (put_compress ev c e)"
  by (auto simp: same_page_def put_compress_def split: option.splits)

lemma cache_Put_page:
  assumes "cache_Put xx ev now c key e = Some (e', c')" shows "same_page e e'"
proof (cases "put_refused c key e")
  case True
  then show ?thesis using assms by (simp add: cache_Put_def)
next
  case False
  then have "e' = put_compress ev c e" using assms by (auto simp: cache_Put_def Let_def split: bind_splits)
  then show ?thesis by (simp add: same_page_compress)
qed

lemma cache_Put_entry:
  assumes "cache_inv xx c" and "cache_Put xx ev now c key e = Some (e', c')" and "cache_lookup xx c' key = Some e''"
  shows "cache_lookup xx c key = Some e'' \<or> e'' = e'"
proof (cases "put_refused c key e")
  case True
  then show ?thesis using assms by (simp add: cache_Put_def)
next
  case False
  then have "cache_putInShard xx ev now c (getShard xx c key) key e' = Some c'"
    using assms(2) by (auto simp: cache_Put_def Let_def split: bind_splits)
  from admitted_stored [OF assms(1) this] assms(3) show ?thesis by (auto split: if_splits)
qed

interpretation edge: entry_store "\<lambda>c. cache_inv xx c \<and> spill_safe ev c" "cache_lookup xx" "cache_Get xx ev" "cache_Put xx ev"
  for xx ev
proof
  fix c k e and now :: instant
  assume ok: "cache_inv xx c \<and> spill_safe ev c"
  show "returns (cache_Get xx ev now c k) (\<lambda>(r, c'). (cache_inv xx c' \<and> spill_safe ev c') \<and> (\<forall>e. r = Some e \<longrightarrow> live now e) \<and>
      (\<forall>e. cache_lookup xx c k = Some e \<longrightarrow> r = (if live now e then Some e else None)) \<and>
      (\<forall>k' e. k' \<noteq> k \<longrightarrow> cache_lookup xx c' k' = Some e \<longrightarrow> cache_lookup xx c k' = Some e))"
  proof (rule cache_Get_result [of xx c ev now k])
    fix r c' n
    assume g: "cache_Get xx ev now c k = Some (r, c')" "cache_inv xx c'" "cache_cfg c' = cache_cfg c"
      "\<And>e. r = Some e \<Longrightarrow> live now e"
      "\<And>e. cache_lookup xx c k = Some e \<Longrightarrow> r = (if live now e then Some e else None)"
      "\<And>k' e. k' \<noteq> k \<Longrightarrow> cache_lookup xx c' k' = Some e \<Longrightarrow> cache_lookup xx c k' = Some e"
    from g(2-6) ok spill_safe_cfg [OF g(3)] show ?thesis by (intro returnsI [OF g(1)]) blast
  qed (use ok in auto)
  show "returns (cache_Put xx ev now c k e) (\<lambda>(e', c'). (cache_inv xx c' \<and> spill_safe ev c') \<and> same_page e e' \<and>
      (\<forall>k' e''. cache_lookup xx c' k' = Some e'' \<longrightarrow> cache_lookup xx c k' = Some e'' \<or> k' = k \<and> e'' = e'))"
  proof (rule cache_Put_result [of xx c ev now k e])
    fix e' c' n
    assume p: "cache_Put xx ev now c k e = Some (e', c')" "cache_inv xx c'" "cache_cfg c' = cache_cfg c"
      "\<And>k' e'. k' \<noteq> k \<Longrightarrow> cache_lookup xx c' k' = Some e' \<Longrightarrow> cache_lookup xx c k' = Some e'"
    have page: "same_page e e'" using p(1) by (rule cache_Put_page)
    have "cache_lookup xx c k' = Some e'' \<or> k' = k \<and> e'' = e'" if "cache_lookup xx c' k' = Some e''" for k' e''
      using p(4) [of k' e''] cache_Put_entry [OF conjunct1 [OF ok] p(1), of e''] that by (cases "k' = k") auto
    with page p(2) ok spill_safe_cfg [OF p(3)] show ?thesis by (intro returnsI [OF p(1)]) simp
  qed (use ok in auto)
qed

section \<open>Construction establishes the invariant\<close>

lemma shrink_shards_pow2:
  "1 \<le> m \<Longrightarrow> \<exists>j \<le> k. shrink_shards (2 ^ k) m = 2 ^ j \<and> (2 :: int) ^ j \<le> m"
proof (induction k)
  case 0
  then show ?case by (subst shrink_shards.simps) simp
next
  case (Suc k)
  have "(2 :: int) ^ Suc k div 2 = 2 ^ k" by simp
  with Suc show ?case by (subst shrink_shards.simps) (auto intro: le_SucI)
qed

lemma shrink_shards_nonpos: "n \<le> 0 \<Longrightarrow> shrink_shards n m = n"
  by (subst shrink_shards.simps) simp

lemma sint_nextPow2: "sint (nextPow2 v) \<le> 0 \<or> (\<exists>k \<le> 62. sint (nextPow2 v) = 2 ^ k)"
proof -
  have "sint (2 ^ k :: u64) = 2 ^ k" if "k < 63" for k
  proof -
    have "(2 :: int) ^ k < 2 ^ 63" using that by (intro power_strict_increasing) auto
    moreover have "uint (2 ^ k :: u64) = 2 ^ k" using unat_word_pow2 [of k] that by (simp add: uint_nat)
    then have "sint (2 ^ k :: u64) = signed_take_bit 63 (2 ^ k)" by (simp add: sint_uint)
    moreover have "- (2 ^ 63) \<le> (2 :: int) ^ k" by (rule order_trans [of _ 0]) auto
    ultimately show ?thesis using signed_take_bit_int_eq_self [of 63 "2 ^ k"] by simp
  qed
  moreover have "sint (2 ^ 63 :: u64) \<le> 0" by simp
  moreover have "k = 63 \<or> k \<le> 62 \<and> k < 63" if "k < 64" for k :: nat using that by auto
  ultimately show ?thesis
    using nextPow2_zero_or_pow2 [of v] by (metis order_refl signed_0)
qed

lemma shard_count_pow2:
  assumes "1 \<le> m" shows "\<exists>k \<le> 62. shard_count opts m = 2 ^ k \<and> shard_count opts m \<le> m"
proof -
  let ?n1 = "sint (nextPow2 (word_of_int (if opNumShards opts \<le> 0 then defaultNumShards else opNumShards opts)))"
  let ?n2 = "if m < 64 then 1 else ?n1"
  have "?n2 \<le> 0 \<or> (\<exists>k \<le> 62. ?n2 = 2 ^ k)"
    using sint_nextPow2 by (auto intro: exI [of _ 0])
  then consider "?n2 \<le> 0" | k where "k \<le> 62" "?n2 = 2 ^ k" by blast
  then show ?thesis
  proof cases
    case 1
    then have "shrink_shards ?n2 m = ?n2" by (rule shrink_shards_nonpos)
    then have "shard_count opts m = 1" unfolding shard_count_def Let_def using 1 by simp
    with assms show ?thesis by (intro exI [of _ 0]) simp
  next
    case 2
    from shrink_shards_pow2 [OF assms, of k] obtain j where j: "j \<le> k" "shrink_shards (2 ^ k) m = 2 ^ j" "(2 :: int) ^ j \<le> m"
      by blast
    moreover have "\<not> (2 :: int) ^ j < 1" by (simp add: not_less)
    ultimately have "shard_count opts m = 2 ^ j" unfolding shard_count_def Let_def 2(2) by (simp del: power_less_one_iff)
    with j 2(1) show ?thesis by (intro exI [of _ j]) simp
  qed
qed

lemma sum_spread:
  "(\<Sum>i\<leftarrow>[0..<n]. if int i < r then p + 1 else p) = int n * p + max 0 (min r (int n))" for p r :: int
  by (induction n) (auto simp: algebra_simps)

lemma NewWithOptions_result:
  assumes "distinct (map fst (dkFiles dk))" and "NewWithOptions ev mf dk opts = Some c"
  shows "cache_inv xx c" and "cache_capacity c = max 1 (opMaxItems opts)"
    and "chStats c = \<lparr>stHits = 0, stMisses = 0, stEvicts = 0, stStaleHits = 0\<rparr>"
    and "chDiskDir c = opDiskDir opts" and "chDiskMaxBytes c = opDiskMaxBytes opts" and "cache_lookup xx c = Map.empty"
    and "\<exists>k \<le> 62. length (chShards c) = 2 ^ k"
proof -
  define m where "m = (if opMaxItems opts < 1 then 1 else opMaxItems opts)"
  have "1 \<le> m" by (simp add: m_def)
  then obtain k where k: "k \<le> 62" "shard_count opts m = 2 ^ k" "(2::int) ^ k \<le> m"
    using shard_count_pow2 [of m opts] by auto
  let ?caps = "map (\<lambda>i. if int i < m mod 2 ^ k then m div 2 ^ k + 1 else m div 2 ^ k) [0..<2 ^ k]"
  have c: "chShards c = map newShard ?caps" "chShardMask c = 2 ^ k - 1"
      "chDisk c = dk\<lparr>dkUsed := (if opDiskDir opts \<noteq> [] then calculateDiskUsage ev dk else 0)\<rparr>"
      "chLfu c = newTinyLFU m"
    using assms(2) by (auto simp: NewWithOptions_def Let_def m_def [symmetric] k(2) nat_power_eq split: if_splits)
  show "chStats c = \<lparr>stHits = 0, stMisses = 0, stEvicts = 0, stStaleHits = 0\<rparr>"
    "chDiskDir c = opDiskDir opts" "chDiskMaxBytes c = opDiskMaxBytes opts"
    using assms(2) by (auto simp: NewWithOptions_def Let_def split: if_splits)
  have per: "1 \<le> m div 2 ^ k" using k(3) by (simp add: pos_imp_zdiv_pos_iff int_one_le_iff_zero_less)
  have lt: "(2::int) ^ k < 2 ^ 64" using k(1) by (intro power_strict_increasing) auto
  have "unat (2 ^ k - 1 :: u64) < 2 ^ k"
    using unat_word_pow2 [of k] k(1) by (simp add: unat_sub_if' word_le_nat_alt unat_minus_one)
  moreover have "disk_inv (chDisk c)"
    using assms(1) by (auto simp: c disk_inv_def calculateDiskUsage_def fi_Size_def intro!: sum_list_nonneg)
  ultimately show "cache_inv xx c"
    using per by (auto simp: cache_inv_def c wf_newTinyLFU intro: newShard_inv)
  have "cache_capacity c = sum_list ?caps"
    by (simp add: cache_capacity_def c newShard_def o_def)
  also have "\<dots> = m" by (simp add: sum_spread min_def order_less_imp_le)
  finally show "cache_capacity c = max 1 (opMaxItems opts)" by (auto simp: m_def)
  have "getShard xx c q < 2 ^ k" for q
    using getShard_bound [OF \<open>cache_inv xx c\<close>, of q] by (simp add: c)
  then show "cache_lookup xx c = Map.empty" by (simp add: cache_lookup_def fun_eq_iff c)
  show "\<exists>k \<le> 62. length (chShards c) = 2 ^ k" using k(1) by (auto simp: c)
qed

text \<open>The cache as a state machine: constructed from any options, driven by any call.\<close>

definition cache_init :: "diskEnv \<Rightarrow> Cache \<Rightarrow> bool" where
  "cache_init ev c \<longleftrightarrow>
     (\<exists>mf dk opts. distinct (map fst (dkFiles dk)) \<and> NewWithOptions ev mf dk opts = Some c \<and> spill_safe ev c)"

definition cache_call :: "(string \<Rightarrow> u64) \<Rightarrow> diskEnv \<Rightarrow> Cache \<Rightarrow> Cache \<Rightarrow> bool" where
  "cache_call xx ev c c' \<longleftrightarrow> (\<exists>op. cache_step xx ev op c = Some c')"

interpretation cache_sys: invariant_system "cache_init ev" "cache_call xx ev" "\<lambda>c. cache_inv xx c \<and> spill_safe ev c" for xx ev
proof
  show "cache_init ev c \<Longrightarrow> cache_inv xx c \<and> spill_safe ev c" for c
    using NewWithOptions_result(1) by (auto simp: cache_init_def)
  show "cache_inv xx c' \<and> spill_safe ev c'"
    if inv: "cache_inv xx c \<and> spill_safe ev c" and call: "cache_call xx ev c c'" for c c'
  proof -
    obtain op where op: "cache_step xx ev op c = Some c'" using call by (auto simp: cache_call_def)
    obtain c'' where "cache_step xx ev op c = Some c''" "cache_inv xx c''" "cache_cfg c'' = cache_cfg c"
      using inv by (elim conjE) (rule cache_step_result [of xx c ev op])
    with op inv show ?thesis using spill_safe_cfg [of c'' c ev] by simp
  qed
qed

section \<open>Properties\<close>

definition demo_opts :: Options where
  "demo_opts = \<lparr>opMaxItems = 100, opMaxEntryBytes = 1000, opMaxKeyLen = 0, opDiskDir = ''/var/cache'',
     opDiskMaxBytes = 600, opNumShards = 12, opCompressHeaders = False\<rparr>"

lemma demo_cache:
  obtains c where "NewWithOptions demo_env False demo_disk demo_opts = Some c" and "spill_safe demo_env c"
    and "cache_init demo_env c" and "chDiskDir c = ''/var/cache''" and "\<not> put_refused c ''k'' demo_entry"
    and "cache_inv xx c" and "cache_lookup xx c = Map.empty"
proof -
  obtain c where c: "NewWithOptions demo_env False demo_disk demo_opts = Some c"
    by (simp add: NewWithOptions_def Let_def)
  have d: "distinct (map fst (dkFiles demo_disk))" by (simp add: demo_disk_def)
  have s: "spill_safe demo_env c" by (simp add: spill_safe_def demo_env_def noFaults_def)
  have "\<not> put_refused c ''k'' demo_entry" using c
    by (auto simp: NewWithOptions_def Let_def put_refused_def demo_opts_def demo_entry_def)
  with c d s show thesis using NewWithOptions_result [OF d c]
    by (intro that [of c]) (auto simp: cache_init_def demo_opts_def)
qed

text \<open>
  C1. No sequence of cache calls panics, hangs or corrupts the cache: whatever the options, the
  directory found on disk, the hash and the disk faults (as long as files can be removed), every
  call returns, the index and the LRU lists stay consistent, the number of entries in memory never
  exceeds \<open>MaxItems\<close> (1 when that is not positive), and every \<open>Get\<close> is counted exactly once as a
  hit, a stale hit or a miss.
\<close>

theorem cache_run_safe:
  assumes "distinct (map fst (dkFiles dk))" and "NewWithOptions ev mf dk opts = Some c0" and "spill_safe ev c0"
  shows "\<exists>c. cache_run xx ev ops c0 = Some c \<and> cache_inv xx c \<and> 0 \<le> cache_Len c \<and>
           cache_Len c \<le> max 1 (opMaxItems opts) \<and>
           (case GetStats c of (hits, misses, evicts, stale) \<Rightarrow> hits + misses + stale = int (length (filter is_get ops)))"
proof -
  note N = NewWithOptions_result [OF assms(1,2)]
  obtain c where c: "cache_run xx ev ops c0 = Some c" "cache_inv xx c" "cache_cfg c = cache_cfg c0"
    and n: "stHits (chStats c) + stMisses (chStats c) + stStaleHits (chStats c) =
         stHits (chStats c0) + stMisses (chStats c0) + stStaleHits (chStats c0) + int (length (filter is_get ops))"
    by (rule cache_run_result [OF N(1) assms(3)])
  have "cache_capacity c = max 1 (opMaxItems opts)" using cache_capacity_cfg [OF c(3)] N(2) by simp
  with cache_Len_bounded [OF c(2)] c n N(3) show ?thesis by (auto simp: GetStats_def)
qed

theorem cache_run_safe_witness:
  "\<exists>c0 c. NewWithOptions demo_env False demo_disk demo_opts = Some c0 \<and>
     cache_run (\<lambda>s. of_nat (length s)) demo_env [OpPut 5 ''k'' demo_entry, OpGet 6 ''k'', OpPurge, OpGet 7 ''k''] c0 = Some c \<and>
     cache_Len c \<le> 100"
proof -
  obtain c0 where c0: "NewWithOptions demo_env False demo_disk demo_opts = Some c0" "spill_safe demo_env c0"
    by (rule demo_cache)
  have "distinct (map fst (dkFiles demo_disk))" by (simp add: demo_disk_def)
  from cache_run_safe [OF this c0, of "\<lambda>s. of_nat (length s)" "[OpPut 5 ''k'' demo_entry, OpGet 6 ''k'', OpPurge, OpGet 7 ''k'']"]
  show ?thesis using c0(1) by (auto simp: demo_opts_def)
qed



text \<open>
  C2. Put, then Get. An accepted \<open>Put\<close> (within the size limits, and updating a cached key, finding
  room in its shard, or at least as popular as the entry it would displace) stores the entry, and
  \<open>Get\<close> at any later moment the entry is live returns it. A refused or rejected \<open>Put\<close> changes no
  lookup; in no case does it add or change another key's entry.
\<close>

theorem cache_put_get:
  assumes "reachable (cache_init ev) (cache_call xx ev) c"
  shows "\<exists>e' c'. cache_Put xx ev now c key e = Some (e', c') \<and>
           (if put_refused c key e \<or> \<not> admitted xx c key then cache_lookup xx c' = cache_lookup xx c
            else e' = put_compress ev c e \<and> cache_lookup xx c' key = Some e' \<and>
              (\<forall>now'. \<not> IsExpired now' e' \<or> IsStaleServable now' e' \<longrightarrow>
                 (\<exists>c''. cache_Get xx ev now' c' key = Some (Some e', c'')))) \<and>
           (\<forall>k e''. k \<noteq> key \<longrightarrow> cache_lookup xx c' k = Some e'' \<longrightarrow> cache_lookup xx c k = Some e'')"
proof -
  have inv: "cache_inv xx c" "spill_safe ev c" using cache_sys.reachable_inv [OF assms] by auto
  obtain e' c' where p: "cache_Put xx ev now c key e = Some (e', c')" and c': "cache_inv xx c'" "cache_cfg c' = cache_cfg c"
    and other: "\<And>k e'. k \<noteq> key \<Longrightarrow> cache_lookup xx c' k = Some e' \<Longrightarrow> cache_lookup xx c k = Some e'"
    by (rule cache_Put_result [OF inv, of now key e]) blast
  have get: "\<exists>c''. cache_Get xx ev now' c' key = Some (Some e', c'')"
    if "cache_lookup xx c' key = Some e'" "\<not> IsExpired now' e' \<or> IsStaleServable now' e'" for now'
    using c'(1) by (rule cache_Get_cases [of xx c' key now' ev]) (use that in \<open>auto simp: live_def\<close>)
  show ?thesis
  proof (cases "put_refused c key e")
    case True
    then show ?thesis using p by (auto simp: cache_Put_def)
  next
    case False
    then have "e' = put_compress ev c e" and "cache_putInShard xx ev now c (getShard xx c key) key e' = Some c'"
      using p by (auto simp: cache_Put_def Let_def split: bind_splits)
    then show ?thesis using False p get other admitted_stored [OF inv(1), of ev now key e' c'] by (auto split: if_splits)
  qed
qed

theorem cache_put_get_witness:
  "\<exists>c e' c'. reachable (cache_init demo_env) (cache_call (\<lambda>_. 0) demo_env) c \<and>
     cache_Put (\<lambda>_. 0) demo_env 5 c ''k'' demo_entry = Some (e', c') \<and> cache_lookup (\<lambda>_. 0) c' ''k'' = Some e' \<and>
     (\<exists>c''. cache_Get (\<lambda>_. 0) demo_env 9 c' ''k'' = Some (Some e', c''))"
proof -
  obtain c where c: "cache_init demo_env c" "\<not> put_refused c ''k'' demo_entry" "cache_inv (\<lambda>_. 0) c"
      "cache_lookup (\<lambda>_. 0) c = Map.empty" by (rule demo_cache)
  have r: "reachable (cache_init demo_env) (cache_call (\<lambda>_. 0) demo_env) c" using c(1) by (rule reachable.start)
  let ?s = "chShards c ! getShard (\<lambda>_. 0) c ''k''"
  have "shard_abs s = []" if "s \<in> set (chShards c)" for s
    using c(1) that by (auto simp: cache_init_def NewWithOptions_def Let_def split: if_splits)
  moreover have i: "getShard (\<lambda>_. 0) c ''k'' < length (chShards c)" using c(3) by (rule getShard_bound)
  ultimately have "shard_abs ?s = []" by simp
  then have "admitted (\<lambda>_. 0) c ''k''"
    using shard_items_len [of ?s] cache_shard_inv [OF c(3) i] shard.view_bounded [of ?s] by (simp add: admitted_def Let_def)
  moreover have "\<not> IsExpired 9 (put_compress demo_env c demo_entry)"
    by (simp add: put_compress_def demo_entry_def IsExpired_def)
  ultimately show ?thesis using r c(2) cache_put_get [OF r, of 5 "''k''" demo_entry] by auto
qed

text \<open>
  Delete, then Get: after \<open>Delete\<close> of a key the next \<open>Get\<close> of it is a miss, in both tiers
  (provided the file can be inspected and removed), and every other key is found as before.
\<close>

theorem cache_delete_misses:
  assumes "reachable (cache_init ev) (cache_call xx ev) c"
    and "\<And>n. \<not> fltStat (evFaults ev) n" and "\<And>n. \<not> fltRemove (evFaults ev) n"
  shows "\<exists>c'. cache_Delete xx ev c key = Some c' \<and> cache_lookup xx c' = (cache_lookup xx c)(key := None) \<and>
           (\<forall>now. \<exists>c''. cache_Get xx ev now c' key = Some (None, c''))"
proof -
  have inv: "cache_inv xx c" "spill_safe ev c" using cache_sys.reachable_inv [OF assms(1)] by auto
  obtain c' where d: "cache_Delete xx ev c key = Some c'" "cache_inv xx c'" "cache_cfg c' = cache_cfg c"
      "cache_lookup xx c' = (cache_lookup xx c)(key := None)"
      "chDisk c' = (if chDiskDir c \<noteq> [] then snd (removeFromDisk ev (chDisk c) key) else chDisk c)"
    by (rule cache_Delete_result [OF inv(1), of ev key])
  have dir: "chDiskDir c' = chDiskDir c" using d(3) by (simp add: cache_cfg_def)
  have gone: "map_of (dkFiles (chDisk c')) (diskPath ev key) = None" if "chDiskDir c \<noteq> []"
    using that assms(2,3) by (auto simp: d(5) removeFromDisk_def Let_def AList.delete_conv' split: option.split)
  have "\<exists>c''. cache_Get xx ev now c' key = Some (None, c'')" for now
    using d(2)
  proof (rule cache_Get_cases [of xx c' key now ev])
    fix c1 assume "chDiskDir c' \<noteq> []" and g: "cache_Get xx ev now c' key = get_from_disk xx ev now c1 key"
      and c1: "cache_inv xx c1" "cache_cfg c1 = cache_cfg c'" "chDisk c1 = chDisk c'"
    have "loadFromDisk ev (chCompressHeaders c1) (chDisk c1) key = (None, dk_next (chDisk c1))"
      using gone \<open>chDiskDir c' \<noteq> []\<close> by (simp add: loadFromDisk_def c1(3) dir)
    with g show ?thesis by (simp add: get_from_disk_def)
  qed (use d(4) in auto)
  with d show ?thesis by blast
qed

theorem cache_delete_misses_witness:
  "\<exists>c c'. reachable (cache_init demo_env) (cache_call (\<lambda>_. 0) demo_env) c \<and>
     cache_Delete (\<lambda>_. 0) demo_env c ''old'' = Some c' \<and> (\<exists>c''. cache_Get (\<lambda>_. 0) demo_env 7 c' ''old'' = Some (None, c''))"
proof -
  obtain c where "cache_init demo_env c" by (rule demo_cache)
  then have "reachable (cache_init demo_env) (cache_call (\<lambda>_. 0) demo_env) c" by (rule reachable.start)
  then show ?thesis
    using cache_delete_misses [of demo_env "\<lambda>_. 0" c "''old''"] by (auto simp: demo_env_def noFaults_def)
qed

text \<open>
  Purge empties the memory tier and nothing else: afterwards \<open>Len\<close> is 0, but a live entry that
  was spilled to disk is served again by the next \<open>Get\<close>, so a full purge does not invalidate
  content when the disk tier is on.
\<close>

theorem cache_purge_memory_only:
  assumes "reachable (cache_init ev) (cache_call xx ev) c"
  shows "cache_Len (cache_Purge c) = 0 \<and> cache_lookup xx (cache_Purge c) = Map.empty \<and>
         (\<forall>now key. chDiskDir c = [] \<longrightarrow> (\<exists>c'. cache_Get xx ev now (cache_Purge c) key = Some (None, c'))) \<and>
         (\<forall>now key e. chDiskDir c \<noteq> [] \<longrightarrow> fst (loadFromDisk ev (chCompressHeaders c) (chDisk c) key) = Some e \<longrightarrow>
            \<not> IsExpired now e \<or> IsStaleServable now e \<longrightarrow>
            (\<exists>c'. cache_Get xx ev now (cache_Purge c) key = Some (Some e, c')))"
proof -
  have inv: "cache_inv xx c" "spill_safe ev c" using cache_sys.reachable_inv [OF assms] by auto
  note P = cache_Purge_result [OF inv(1)]
  have dir: "chDiskDir (cache_Purge c) = chDiskDir c" by (simp add: cache_Purge_def)
  have none: "\<exists>c'. cache_Get xx ev now (cache_Purge c) key = Some (None, c')" if "chDiskDir c = []" for now key
    using P(1) by (rule cache_Get_cases [of xx "cache_Purge c" key now ev]) (use that P(3) dir in auto)
  have some: "\<exists>c'. cache_Get xx ev now (cache_Purge c) key = Some (Some e, c')"
    if e: "chDiskDir c \<noteq> []" "fst (loadFromDisk ev (chCompressHeaders c) (chDisk c) key) = Some e" "live now e" for now key e
    using P(1)
  proof (rule cache_Get_cases [of xx "cache_Purge c" key now ev])
    fix c1 assume g: "cache_Get xx ev now (cache_Purge c) key = get_from_disk xx ev now c1 key"
      and c1: "cache_inv xx c1" "cache_cfg c1 = cache_cfg (cache_Purge c)" "chDisk c1 = chDisk (cache_Purge c)"
    have cfg: "cache_cfg c1 = cache_cfg c" using c1(2) P(2) by simp
    have safe: "spill_safe ev c1" using inv(2) spill_safe_cfg [OF cfg] by simp
    have comp: "chCompressHeaders c1 = chCompressHeaders c" using cfg by (simp add: cache_cfg_def)
    show ?thesis
      by (rule get_from_disk_cases [OF c1(1) safe, of key now]) (use e g c1(3) P(5) comp in simp_all)
  qed (use e(1) P(3) dir in auto)
  show ?thesis using P(3,4) none some by (auto simp: live_def)
qed

theorem cache_purge_memory_only_witness:
  "\<exists>c e c'. reachable (cache_init demo_env) (cache_call (\<lambda>_. 0) demo_env) c \<and>
     cache_Get (\<lambda>_. 0) demo_env 7 (cache_Purge c) ''old'' = Some (Some e, c')"
proof -
  obtain c where c: "cache_init demo_env c" "NewWithOptions demo_env False demo_disk demo_opts = Some c" by (rule demo_cache)
  then have r: "reachable (cache_init demo_env) (cache_call (\<lambda>_. 0) demo_env) c" by (intro reachable.start)
  have d: "chDiskDir c \<noteq> []" "dkFiles (chDisk c) = dkFiles demo_disk"
    using c(2) by (auto simp: NewWithOptions_def Let_def demo_opts_def)
  obtain e where e: "fst (loadFromDisk demo_env (chCompressHeaders c) (chDisk c) ''old'') = Some e" "eTTL e = 0"
    using d(2) by (simp add: loadFromDisk_def demo_env_def noFaults_def demo_disk_def diskPath_def Let_def)
  then have "\<not> IsExpired 7 e" by (simp add: IsExpired_def)
  with cache_purge_memory_only [OF r] d(1) e(1) r show ?thesis by blast
qed

text \<open>
  A new cache has power-of-two many shards whose capacities add up to exactly \<open>MaxItems\<close> (1 when
  that is not positive), every shard can hold at least one entry, and every hash selects a shard.
\<close>

theorem cache_capacity_exact:
  assumes "distinct (map fst (dkFiles dk))" and "NewWithOptions ev mf dk opts = Some c"
  shows "(\<exists>k \<le> 62. length (chShards c) = 2 ^ k) \<and>
         sum_list (map shMaxItems (chShards c)) = max 1 (opMaxItems opts) \<and>
         (\<forall>s \<in> set (chShards c). 1 \<le> shMaxItems s) \<and> getShard xx c key < length (chShards c)"
proof -
  note N = NewWithOptions_result [OF assms]
  have "1 \<le> shMaxItems s" if "s \<in> set (chShards c)" for s
    using that N(1) shard.view_bounded [of s] by (auto simp: cache_inv_def)
  moreover have "getShard xx c key < length (chShards c)" using N(1) by (rule getShard_bound)
  ultimately show ?thesis using N(2,7) unfolding cache_capacity_def by blast
qed

theorem cache_capacity_exact_witness:
  "\<exists>c. NewWithOptions demo_env False demo_disk demo_opts = Some c \<and> sum_list (map shMaxItems (chShards c)) = 100"
proof -
  obtain c where c: "NewWithOptions demo_env False demo_disk demo_opts = Some c" by (rule demo_cache)
  have "distinct (map fst (dkFiles demo_disk))" by (simp add: demo_disk_def)
  from cache_capacity_exact [OF this c] c show ?thesis by (auto simp: demo_opts_def)
qed

end
