(* ===== verification/CacheKey.thy ===== *)
theory CacheKey
  imports GoHttp "HOL-Library.Multiset"
begin

text \<open>
  \<open>NormalizeKey\<close> of \<open>cache/cache.go\<close> and its helpers: the cache key built from host, path, query and
  the request headers a \<open>Vary\<close> header names. The pooled string builder is the string written so
  far. \<open>uni\<close> stands for what \<open>strings.ToLower\<close> does to a string with non-ASCII characters.
\<close>

fun isLowerASCII :: "string \<Rightarrow> bool" where
  "isLowerASCII [] = True"
| "isLowerASCII (c # s) = (if is_upper c then False else isLowerASCII s)"

definition sortQuery :: "string \<Rightarrow> string" where
  "sortQuery q = strings_Join (sort (strings_Split q (CHR ''&''))) (CHR ''&'')"

text \<open>The loops that write a separator before every element but the first.\<close>

fun write_parts :: "string \<Rightarrow> bool \<Rightarrow> string list \<Rightarrow> string" where
  "write_parts sb first [] = sb"
| "write_parts sb first (p # ps) = write_parts ((if first then sb else sb @ ''&'') @ p) False ps"

definition writeSortedQuery :: "string \<Rightarrow> string \<Rightarrow> string" where
  "writeSortedQuery sb q =
     (if \<not> strings_Contains q ''&'' then sb @ q
      else write_parts sb True (sort (strings_Split q (CHR ''&''))))"

definition parseVary :: "(string \<Rightarrow> string) \<Rightarrow> string \<Rightarrow> string list" where
  "parseVary uni vary =
     (if vary = ''*'' then []
      else sort (map CanonicalHeaderKey
             (filter (\<lambda>h. h \<noteq> []) (map (\<lambda>h. strings_TrimSpace (strings_ToLower uni h)) (strings_Split vary (CHR '',''))))))"

fun write_vary :: "header \<Rightarrow> string \<Rightarrow> bool \<Rightarrow> string list \<Rightarrow> string" where
  "write_vary reqHeaders sb first [] = sb"
| "write_vary reqHeaders sb first (h # hs) =
     write_vary reqHeaders ((if first then sb else sb @ ''&'') @ h @ ''='' @ header_Get reqHeaders h) False hs"

definition NormalizeKey :: "(string \<Rightarrow> string) \<Rightarrow> string \<Rightarrow> string \<Rightarrow> string \<Rightarrow> string \<Rightarrow> header \<Rightarrow> string" where
  "NormalizeKey uni host path query varyHeader reqHeaders =
     (if query = [] \<and> varyHeader = [] then
        (if isLowerASCII host then host @ path else strings_ToLower uni host @ path)
      else
        (let sb = (if isLowerASCII host then host else map ascii_lower host);
             sb = sb @ path;
             sb = (if query \<noteq> [] then writeSortedQuery (sb @ ''?'') query else sb)
         in if varyHeader = [] then sb
            else let vary = parseVary uni varyHeader
                 in if vary \<noteq> [] then write_vary reqHeaders (sb @ ''|vary:'') True vary else sb))"

section \<open>The key as one formula\<close>

lemma isLowerASCII_iff: "isLowerASCII s \<longleftrightarrow> (\<forall>c \<in> set s. \<not> is_upper c)"
  by (induction s) auto

lemma lower_id: "isLowerASCII s \<Longrightarrow> map ascii_lower s = s"
  by (induction s) (auto simp: ascii_lower_def split: if_splits)

lemma Join_concat: "strings_Join (x # xs) c = x @ concat (map (\<lambda>y. c # y) xs)"
  by (induction xs arbitrary: x) simp_all

lemma write_parts_more: "write_parts sb False ps = sb @ concat (map (\<lambda>y. CHR ''&'' # y) ps)"
  by (induction ps arbitrary: sb) simp_all

lemma write_parts_join: "write_parts sb True ps = sb @ strings_Join ps (CHR ''&'')"
  by (cases ps) (simp_all add: write_parts_more Join_concat)

lemma write_vary_parts: "write_vary rh sb first hs = write_parts sb first (map (\<lambda>h. h @ ''='' @ header_Get rh h) hs)"
  by (induction hs arbitrary: sb first) simp_all

lemma write_vary_join:
  "write_vary rh sb True hs = sb @ strings_Join (map (\<lambda>h. h @ ''='' @ header_Get rh h) hs) (CHR ''&'')"
  by (simp add: write_vary_parts write_parts_join)

lemma Contains_amp: "strings_Contains q ''&'' \<longleftrightarrow> CHR ''&'' \<in> set q"
  by (auto simp: Contains_iff in_set_conv_decomp)

lemma writeSortedQuery_eq: "writeSortedQuery sb q = sb @ sortQuery q"
  by (auto simp: writeSortedQuery_def sortQuery_def write_parts_join Contains_amp Split_absent)

lemma isLowerASCII_or_lowered: "(if isLowerASCII host then host else map ascii_lower host) = map ascii_lower host"
  by (simp add: lower_id)

lemma sort_mset_eq: "mset xs = mset ys \<Longrightarrow> sort xs = sort ys"
  by (metis mset_sort properties_for_sort sorted_sort)

text \<open>The documented meaning of the key: lower-case host, path, sorted query, varied headers.\<close>

definition key_spec :: "(string \<Rightarrow> string) \<Rightarrow> string \<Rightarrow> string \<Rightarrow> string \<Rightarrow> string \<Rightarrow> header \<Rightarrow> string" where
  "key_spec uni host path query varyHeader rh =
     map ascii_lower host @ path @ (if query = [] then [] else CHR ''?'' # sortQuery query) @
     (if varyHeader = [] \<or> parseVary uni varyHeader = [] then []
      else ''|vary:'' @ strings_Join (map (\<lambda>h. h @ ''='' @ header_Get rh h) (parseVary uni varyHeader)) (CHR ''&''))"

lemma NormalizeKey_spec:
  assumes "list_all is_ascii host"
  shows "NormalizeKey uni host path query vary rh = key_spec uni host path query vary rh"
  using assms
  by (auto simp: NormalizeKey_def key_spec_def Let_def writeSortedQuery_eq write_vary_join
      strings_ToLower_def lower_id)

lemma list_all_ascii_append: "list_all is_ascii s \<Longrightarrow> list_all is_ascii t \<Longrightarrow> list_all is_ascii (s @ t)"
  by simp

section \<open>Properties\<close>



text \<open>
  Requests that mean the same resource share a key: neither the case of the host nor the order
  of the query parameters matters.
\<close>

theorem normalize_key_insensitive:
  assumes "list_all is_ascii host" and "list_all is_ascii host'" and "map ascii_lower host = map ascii_lower host'"
    and "mset (strings_Split query (CHR ''&'')) = mset (strings_Split query' (CHR ''&''))"
  shows "NormalizeKey uni host path query vary rh = NormalizeKey uni host' path query' vary rh"
proof -
  have "query = [] \<longleftrightarrow> query' = []"
    using assms(4) Join_Split [of query "CHR ''&''"] Join_Split [of query' "CHR ''&''"]
    by (cases query; cases query') (auto simp: add_mset_eq_single)
  moreover have "sortQuery query = sortQuery query'" by (simp add: sortQuery_def sort_mset_eq [OF assms(4)])
  ultimately show ?thesis using assms(1-3) by (simp add: NormalizeKey_spec key_spec_def)
qed

theorem normalize_key_insensitive_witness:
  "NormalizeKey id ''A'' ''/p'' ''x=1&y=2'' [] [] = NormalizeKey id ''a'' ''/p'' ''y=2&x=1'' [] []"
proof -
  have "map ascii_lower ''A'' = map ascii_lower ''a''" by code_simp
  then show ?thesis by (intro normalize_key_insensitive) (simp_all add: is_ascii_def)
qed

text \<open>
  Variants are kept apart: two requests for the same resource that share a key agree on every
  header named by \<open>Vary\<close>, when neither the header names nor the values contain an ampersand.
\<close>

theorem vary_key_separates:
  assumes "NormalizeKey uni host path query vary rh = NormalizeKey uni host path query vary rh'"
    and "list_all is_ascii host" and "vary \<noteq> []"
    and "\<forall>h \<in> set (parseVary uni vary). CHR ''&'' \<notin> set h \<and> CHR ''&'' \<notin> set (header_Get rh h) \<and> CHR ''&'' \<notin> set (header_Get rh' h)"
  shows "\<forall>h \<in> set (parseVary uni vary). header_Get rh h = header_Get rh' h"
proof (cases "parseVary uni vary = []")
  case False
  let ?f = "\<lambda>rh h. h @ ''='' @ header_Get rh h"
  have "strings_Join (map (?f rh) (parseVary uni vary)) (CHR ''&'') = strings_Join (map (?f rh') (parseVary uni vary)) (CHR ''&'')"
    using assms(1-3) False by (simp add: NormalizeKey_spec key_spec_def)
  moreover have "strings_Split (strings_Join (map (?f r) (parseVary uni vary)) (CHR ''&'')) (CHR ''&'') = map (?f r) (parseVary uni vary)"
    if "r = rh \<or> r = rh'" for r
    using that assms(4) False by (intro Split_Join) auto
  ultimately have "map (?f rh) (parseVary uni vary) = map (?f rh') (parseVary uni vary)" by metis
  then show ?thesis by simp
qed simp

theorem vary_key_separates_witness:
  "map (header_Get [(''Accept'', [''x''])]) (parseVary id ''accept'') =
   map (header_Get [(''Accept'', [''x'']), (''Dnt'', [''1''])]) (parseVary id ''accept'')"
proof -
  have t: "strings_TrimSpace ''accept'' = ''accept''"
    by (rule TrimSpace_plain) (simp add: plain_char_def)
  have p: "parseVary id ''accept'' = [''Accept'']"
    by (simp add: parseVary_def strings_ToLower_def is_ascii_def ascii_lower_def is_upper_def t) code_simp
  have c: "CanonicalHeaderKey ''Accept'' = ''Accept''" by code_simp
  have "\<forall>h \<in> set (parseVary id ''accept''). header_Get [(''Accept'', [''x''])] h = header_Get [(''Accept'', [''x'']), (''Dnt'', [''1''])] h"
    by (rule vary_key_separates [of id "''h''" "''/''" "[]" "''accept''"])
       (simp_all add: NormalizeKey_spec key_spec_def p is_ascii_def header_Get_def c)
  then show ?thesis by simp
qed

text \<open>
  The key does not separate path and query: a question mark inside the (decoded) path and a
  real query give the same key, so \<open>/a%3Fb\<close> and \<open>/a?b\<close> share one cache entry.
\<close>

theorem normalize_key_collision:
  assumes "list_all is_ascii host" and "query \<noteq> []"
  shows "NormalizeKey uni host (path @ CHR ''?'' # sortQuery query) [] [] rh = NormalizeKey uni host path query [] rh"
  using assms by (simp add: NormalizeKey_spec key_spec_def)

theorem normalize_key_collision_witness:
  "NormalizeKey id ''h'' ''/a?b'' [] [] [] = NormalizeKey id ''h'' ''/a'' ''b'' [] []"
  using normalize_key_collision [of "''h''" "''b''" id "''/a''" "[]"]
  by (simp add: is_ascii_def sortQuery_def Split_absent)

end
