(* ===== verification/Predictor.thy ===== *)
theory Predictor
  imports GoBase
begin

text \<open>
  \<open>cache/predictor.go\<close>: the two-bucket counting Bloom filter that remembers uncacheable URLs, with
  FNV-64a as the standard library computes it. Counters are 32-bit words that saturate at 255; each
  compare-and-swap loop is one atomic saturating increment. \<open>NewPredictor\<close> rounds its size up in a
  loop that does not always end, so it is a partial function.
\<close>

record Predictor =
  prBuckets :: "u32 list list"
  prBits :: u32
  prMask :: u32
  prActive :: u32
  prSize :: u32
  prDecay :: duration
  prThreshold :: u32
  prHits :: u64
  prMisses :: u64

partial_function (option) round_bits :: "u32 \<Rightarrow> u32 \<Rightarrow> u32 option" where
  "round_bits bits target = (if bits < target then round_bits (push_bit 1 bits) target else Some bits)"

definition NewPredictor :: "int \<Rightarrow> duration \<Rightarrow> Predictor option" where
  "NewPredictor capacity decay =
     (let capacity = (if capacity \<le> 0 then 1024 else capacity);
          target = word_of_int capacity * 8
      in do {
        bits \<leftarrow> round_bits 1 target;
        let bits = (if bits < 1024 then 1024 else bits);
        Some \<lparr>prBuckets = [replicate (unat bits) 0, replicate (unat bits) 0], prBits = bits, prMask = bits - 1,
              prActive = 0, prSize = word_of_int capacity, prDecay = decay, prThreshold = 2, prHits = 0, prMisses = 0\<rparr>
      })"

definition fnv_byte :: "u64 \<Rightarrow> char \<Rightarrow> u64" where
  "fnv_byte h c = (h XOR of_nat (of_char c)) * 1099511628211"

definition fnv64a :: "string \<Rightarrow> u64" where
  "fnv64a key = foldl fnv_byte 14695981039346656037 key"

definition hashKey :: "Predictor \<Rightarrow> string \<Rightarrow> u32 \<times> u32" where
  "hashKey p key =
     (let sum = fnv64a key;
          h1 = ucast sum AND prMask p;
          h2 = ucast (drop_bit 32 sum) AND prMask p;
          h2 = (if h1 = h2 then (h2 + 1) AND prMask p else h2)
      in (h1, h2))"

definition counterMax :: u32 where "counterMax = 255"

definition sat_inc :: "u32 list \<Rightarrow> u32 \<Rightarrow> u32 list option" where
  "sat_inc bucket h =
     do {
       old \<leftarrow> idx_get bucket (unat h);
       if old \<ge> counterMax then Some bucket else idx_set bucket (unat h) (old + 1)
     }"

definition MarkUncacheable :: "Predictor \<Rightarrow> string \<Rightarrow> Predictor option" where
  "MarkUncacheable p key =
     do {
       let (h1, h2) = hashKey p key;
       bucket \<leftarrow> idx_get (prBuckets p) (unat (prActive p));
       bucket \<leftarrow> sat_inc bucket h1;
       bucket \<leftarrow> sat_inc bucket h2;
       bs \<leftarrow> idx_set (prBuckets p) (unat (prActive p)) bucket;
       Some (p\<lparr>prBuckets := bs\<rparr>)
     }"

definition IsLikelyUncacheable :: "Predictor \<Rightarrow> string \<Rightarrow> (bool \<times> Predictor) option" where
  "IsLikelyUncacheable p key =
     do {
       let (h1, h2) = hashKey p key;
       let idx = prActive p;
       active \<leftarrow> idx_get (prBuckets p) (unat idx);
       shadow \<leftarrow> idx_get (prBuckets p) (unat (idx XOR 1));
       c1a \<leftarrow> idx_get active (unat h1);
       c1b \<leftarrow> idx_get shadow (unat h1);
       c2a \<leftarrow> idx_get active (unat h2);
       c2b \<leftarrow> idx_get shadow (unat h2);
       let c1 = (if c1b > c1a then c1b else c1a);
       let c2 = (if c2b > c2a then c2b else c2a);
       if c1 \<ge> prThreshold p \<and> c2 \<ge> prThreshold p then Some (True, p\<lparr>prHits := prHits p + 1\<rparr>)
       else Some (False, p\<lparr>prMisses := prMisses p + 1\<rparr>)
     }"

definition Rotate :: "Predictor \<Rightarrow> Predictor option" where
  "Rotate p =
     do {
       let cur = prActive p;
       let nxt = cur XOR 1;
       nextBucket \<leftarrow> idx_get (prBuckets p) (unat nxt);
       bs \<leftarrow> idx_set (prBuckets p) (unat nxt) (map (\<lambda>_. 0) nextBucket);
       Some (p\<lparr>prBuckets := bs, prActive := nxt\<rparr>)
     }"

definition predictor_Stats :: "Predictor \<Rightarrow> u64 \<times> u64" where
  "predictor_Stats p = (prHits p, prMisses p)"

text \<open>Any use of the predictor between rotations, and the rotations \<open>StartDecay\<close> triggers.\<close>

datatype predOp = PMark string | PCheck string | PRotate

fun pred_step :: "predOp \<Rightarrow> Predictor \<Rightarrow> Predictor option" where
  "pred_step (PMark k) p = MarkUncacheable p k"
| "pred_step (PCheck k) p = map_option snd (IsLikelyUncacheable p k)"
| "pred_step PRotate p = Rotate p"

fun pred_run :: "predOp list \<Rightarrow> Predictor \<Rightarrow> Predictor option" where
  "pred_run [] p = Some p"
| "pred_run (op # ops) p = do { p' \<leftarrow> pred_step op p; pred_run ops p' }"

section \<open>Shape\<close>

definition wf_Predictor :: "Predictor \<Rightarrow> bool" where
  "wf_Predictor p \<longleftrightarrow> (\<exists>b0 b1. prBuckets p = [b0, b1] \<and> length b0 = unat (prBits p) \<and> length b1 = unat (prBits p)) \<and>
     0 < prBits p \<and> prMask p = prBits p - 1 \<and> (prActive p = 0 \<or> prActive p = 1) \<and> prThreshold p = 2"

lemma mask_index32:
  fixes m w x :: u32
  assumes "m = w - 1" and "0 < w" shows "unat (x AND m) < unat w"
proof -
  have "unat (x AND m) \<le> unat m" by (metis word_and_le1 word_le_nat_alt)
  also have "unat m < unat w" using assms by (simp add: unat_minus_one word_neq_0_conv word_less_nat_alt)
  finally show ?thesis .
qed

lemma hashKey_cong: "prMask p = prMask p' \<Longrightarrow> hashKey p = hashKey p'"
  by (simp add: hashKey_def fun_eq_iff Let_def)

lemma hashKey_bound:
  assumes "wf_Predictor p" shows "unat (fst (hashKey p k)) < unat (prBits p)" "unat (snd (hashKey p k)) < unat (prBits p)"
  using assms mask_index32 [of "prMask p" "prBits p"] by (auto simp: wf_Predictor_def hashKey_def Let_def)

text \<open>The active and the shadow bucket of a well-formed predictor.\<close>

definition active_bucket :: "Predictor \<Rightarrow> u32 list" where
  "active_bucket p = prBuckets p ! unat (prActive p)"

definition shadow_bucket :: "Predictor \<Rightarrow> u32 list" where
  "shadow_bucket p = prBuckets p ! unat (prActive p XOR 1)"

definition bump :: "u32 list \<Rightarrow> u32 \<Rightarrow> u32 list" where
  "bump b h = (if b ! unat h \<ge> counterMax then b else b[unat h := b ! unat h + 1])"

lemma length_bump [simp]: "length (bump b h) = length b"
  by (simp add: bump_def)

lemma sat_inc_eq: "unat h < length b \<Longrightarrow> sat_inc b h = Some (bump b h)"
  by (simp add: sat_inc_def no_panic bump_def)

lemma wf_buckets:
  assumes "wf_Predictor p"
  shows "idx_get (prBuckets p) (unat (prActive p)) = Some (active_bucket p)"
    and "idx_get (prBuckets p) (unat (prActive p XOR 1)) = Some (shadow_bucket p)"
    and "length (active_bucket p) = unat (prBits p)" and "length (shadow_bucket p) = unat (prBits p)"
  using assms by (auto simp: wf_Predictor_def active_bucket_def shadow_bucket_def idx_get_def)

lemma Mark_result:
  assumes "wf_Predictor p"
  obtains p' where "MarkUncacheable p k = Some p'" and "wf_Predictor p'" and "hashKey p' = hashKey p"
    and "active_bucket p' = bump (bump (active_bucket p) (fst (hashKey p k))) (snd (hashKey p k))"
    and "shadow_bucket p' = shadow_bucket p" and "prThreshold p' = 2"
proof -
  obtain h1 h2 where h: "hashKey p k = (h1, h2)" by (cases "hashKey p k")
  have b: "unat h1 < unat (prBits p)" "unat h2 < unat (prBits p)" using hashKey_bound [OF assms, of k] h by auto
  let ?b = "bump (bump (active_bucket p) h1) h2"
  let ?p = "p\<lparr>prBuckets := (prBuckets p)[unat (prActive p) := ?b]\<rparr>"
  obtain b0 b1 where bs: "prBuckets p = [b0, b1]" "length b0 = unat (prBits p)" "length b1 = unat (prBits p)"
    and act: "prActive p = 0 \<or> prActive p = 1" using assms by (auto simp: wf_Predictor_def)
  have "MarkUncacheable p k = Some ?p"
    using b wf_buckets [OF assms] act bs by (auto simp: MarkUncacheable_def h sat_inc_eq idx_set_def)
  moreover have "wf_Predictor ?p"
    using assms act bs wf_buckets(3) [OF assms] by (auto simp: wf_Predictor_def)
  moreover have "hashKey ?p = hashKey p" by (rule hashKey_cong) simp
  moreover have "active_bucket ?p = ?b" "shadow_bucket ?p = shadow_bucket p"
    using act bs by (auto simp: active_bucket_def shadow_bucket_def)
  moreover have "prThreshold ?p = 2" using assms by (simp add: wf_Predictor_def)
  ultimately show thesis using that h by simp
qed

lemma Check_result:
  assumes "wf_Predictor p"
  obtains r p' where "IsLikelyUncacheable p k = Some (r, p')" and "wf_Predictor p'" and "hashKey p' = hashKey p"
    and "active_bucket p' = active_bucket p" and "shadow_bucket p' = shadow_bucket p"
    and "r \<longleftrightarrow> 2 \<le> max (active_bucket p ! unat (fst (hashKey p k))) (shadow_bucket p ! unat (fst (hashKey p k))) \<and>
           2 \<le> max (active_bucket p ! unat (snd (hashKey p k))) (shadow_bucket p ! unat (snd (hashKey p k)))"
proof -
  obtain h1 h2 where h: "hashKey p k = (h1, h2)" by (cases "hashKey p k")
  have b: "unat h1 < unat (prBits p)" "unat h2 < unat (prBits p)" using hashKey_bound [OF assms, of k] h by auto
  have t: "prThreshold p = 2" using assms by (simp add: wf_Predictor_def)
  let ?r = "2 \<le> max (active_bucket p ! unat h1) (shadow_bucket p ! unat h1) \<and>
            2 \<le> max (active_bucket p ! unat h2) (shadow_bucket p ! unat h2)"
  let ?p = "if ?r then p\<lparr>prHits := prHits p + 1\<rparr> else p\<lparr>prMisses := prMisses p + 1\<rparr>"
  have "IsLikelyUncacheable p k = Some (?r, ?p)"
    using b wf_buckets [OF assms] t by (auto simp: IsLikelyUncacheable_def h no_panic Let_def max_def split: if_splits)
  moreover have "wf_Predictor ?p" "active_bucket ?p = active_bucket p" "shadow_bucket ?p = shadow_bucket p"
    using assms by (auto simp: wf_Predictor_def active_bucket_def shadow_bucket_def)
  moreover have "hashKey ?p = hashKey p" by (rule hashKey_cong) simp
  ultimately show thesis using that h by simp
qed

lemma Rotate_result:
  assumes "wf_Predictor p"
  obtains p' where "Rotate p = Some p'" and "wf_Predictor p'" and "hashKey p' = hashKey p"
    and "active_bucket p' = replicate (unat (prBits p)) 0" and "shadow_bucket p' = active_bucket p"
proof -
  obtain b0 b1 where bs: "prBuckets p = [b0, b1]" "length b0 = unat (prBits p)" "length b1 = unat (prBits p)"
    and act: "prActive p = 0 \<or> prActive p = 1" using assms by (auto simp: wf_Predictor_def)
  let ?n = "prActive p XOR 1"
  let ?p = "p\<lparr>prBuckets := (prBuckets p)[unat ?n := replicate (unat (prBits p)) 0], prActive := ?n\<rparr>"
  have "Rotate p = Some ?p"
    using act bs by (auto simp: Rotate_def idx_get_def idx_set_def map_replicate_const)
  moreover have "wf_Predictor ?p" using assms act bs by (auto simp: wf_Predictor_def)
  moreover have "hashKey ?p = hashKey p" by (rule hashKey_cong) simp
  moreover have "active_bucket ?p = replicate (unat (prBits p)) 0" "shadow_bucket ?p = active_bucket p"
    using act bs by (auto simp: active_bucket_def shadow_bucket_def)
  ultimately show thesis using that by simp
qed

section \<open>Counters only grow between rotations\<close>

definition counted :: "u32 list \<Rightarrow> u32 \<times> u32 \<Rightarrow> nat \<Rightarrow> bool" where
  "counted b h n \<longleftrightarrow> n \<le> unat (b ! unat (fst h)) \<and> n \<le> unat (b ! unat (snd h))"

lemma bump_at:
  assumes "i < length b"
  shows "unat (bump b h ! i) = (if i = unat h \<and> unat (b ! i) < 255 then Suc (unat (b ! i)) else unat (b ! i))"
proof -
  have "unat (b ! i + 1) = Suc (unat (b ! i))" if "unat (b ! i) < 255"
    using that by (subst unat_plus_if') auto
  then show ?thesis using assms by (auto simp: bump_def counterMax_def word_le_nat_alt)
qed

lemma counted_bump: "counted b h n \<Longrightarrow> unat (fst h) < length b \<Longrightarrow> unat (snd h) < length b \<Longrightarrow> counted (bump b j) h n"
  by (auto simp: counted_def bump_at)

lemma counted_mark:
  assumes "counted b h n" and "n < 255" and "unat (fst h) < length b" and "unat (snd h) < length b"
  shows "counted (bump (bump b (fst h)) (snd h)) h (Suc n)"
  using assms by (auto simp: counted_def bump_at)

lemma pred_step_total:
  assumes "wf_Predictor p"
  shows "\<exists>p'. pred_step op p = Some p' \<and> wf_Predictor p' \<and> hashKey p' = hashKey p"
proof (cases op)
  case (PMark k)
  then show ?thesis using Mark_result [OF assms, of k] by fastforce
next
  case (PCheck k)
  then show ?thesis using Check_result [OF assms, of k] by fastforce
next
  case PRotate
  then show ?thesis using Rotate_result [OF assms] by fastforce
qed

lemma pred_step_counts:
  assumes "wf_Predictor p" and "pred_step op p = Some p'"
  shows "op \<noteq> PRotate \<Longrightarrow> counted (active_bucket p) (hashKey p k) n \<Longrightarrow> counted (active_bucket p') (hashKey p k) n"
    and "op = PMark k \<Longrightarrow> counted (active_bucket p) (hashKey p k) n \<Longrightarrow> n < 255 \<Longrightarrow> counted (active_bucket p') (hashKey p k) (Suc n)"
    and "op \<noteq> PRotate \<Longrightarrow> shadow_bucket p' = shadow_bucket p"
    and "op = PRotate \<Longrightarrow> shadow_bucket p' = active_bucket p"
proof -
  have len: "unat (fst (hashKey p k)) < length (active_bucket p)" "unat (snd (hashKey p k)) < length (active_bucket p)"
    using hashKey_bound [OF assms(1)] wf_buckets(3) [OF assms(1)] by auto
  have M: "active_bucket p' = bump (bump (active_bucket p) (fst (hashKey p q))) (snd (hashKey p q)) \<and> shadow_bucket p' = shadow_bucket p"
    if "op = PMark q" for q
    using Mark_result [OF assms(1), of q] assms(2) that by (metis option.inject pred_step.simps(1))
  have C: "active_bucket p' = active_bucket p \<and> shadow_bucket p' = shadow_bucket p" if "op = PCheck q" for q
    by (rule Check_result [OF assms(1), of q]) (use assms(2) that in auto)
  show "counted (active_bucket p') (hashKey p k) n" if "op \<noteq> PRotate" "counted (active_bucket p) (hashKey p k) n"
    using that M C len by (cases op) (auto intro!: counted_bump)
  show "counted (active_bucket p') (hashKey p k) (Suc n)"
    if "op = PMark k" "counted (active_bucket p) (hashKey p k) n" "n < 255"
    using that M len counted_mark by simp
  show "shadow_bucket p' = shadow_bucket p" if "op \<noteq> PRotate" using that M C by (cases op) auto
  show "shadow_bucket p' = active_bucket p" if "op = PRotate"
    by (rule Rotate_result [OF assms(1)]) (use assms(2) that in auto)
qed

lemma pred_run_total:
  "wf_Predictor p \<Longrightarrow> \<exists>p'. pred_run ops p = Some p' \<and> wf_Predictor p' \<and> hashKey p' = hashKey p"
proof (induction ops arbitrary: p)
  case (Cons op ops)
  then show ?case using pred_step_total [of p op] by fastforce
qed simp

lemma pred_run_append: "pred_run (xs @ ys) p = do { p' \<leftarrow> pred_run xs p; pred_run ys p' }"
  by (induction xs arbitrary: p) (auto split: bind_splits)

lemma pred_run_counts:
  assumes "wf_Predictor p" and "pred_run ops p = Some p'" and "PRotate \<notin> set ops"
  shows "(counted (active_bucket p) (hashKey p k) n \<longrightarrow> counted (active_bucket p') (hashKey p k) n) \<and>
         shadow_bucket p' = shadow_bucket p"
  using assms
proof (induction ops arbitrary: p)
  case (Cons op ops)
  obtain p1 where p1: "pred_step op p = Some p1" "wf_Predictor p1" "hashKey p1 = hashKey p"
    using pred_step_total [OF Cons.prems(1)] by blast
  with Cons.prems have "pred_run ops p1 = Some p'" by simp
  with Cons.IH [OF p1(2)] pred_step_counts(1,3) [OF Cons.prems(1) p1(1)] Cons.prems(3) p1(3) show ?case by fastforce
qed simp

lemma pred_run_no_marks:
  assumes "wf_Predictor p" and "pred_run ops p = Some p'" and "PRotate \<notin> set ops" and "\<And>q. PMark q \<notin> set ops"
  shows "active_bucket p' = active_bucket p"
  using assms
proof (induction ops arbitrary: p)
  case (Cons op ops)
  obtain k where op: "op = PCheck k" using Cons.prems(3,4) by (cases op) auto
  obtain r p1 where "IsLikelyUncacheable p k = Some (r, p1)" "wf_Predictor p1" "active_bucket p1 = active_bucket p"
    by (rule Check_result [OF Cons.prems(1), of k])
  with Cons op show ?case by simp
qed simp

section \<open>The sizing loop\<close>

lemma unat_pow2_u32:
  assumes "k < 32" shows "unat (2 ^ k :: u32) = 2 ^ k"
proof -
  have "(2 :: nat) ^ k < 2 ^ 32" using assms by (intro power_strict_increasing) auto
  moreover have "(2 ^ k :: u32) = of_nat (2 ^ k)" by simp
  moreover have "unat (of_nat (2 ^ k) :: u32) = 2 ^ k mod 2 ^ 32" by (simp only: unat_of_nat) simp
  ultimately show ?thesis by simp
qed

lemma round_bits_ends:
  assumes "unat target \<le> 2 ^ 31" and "k \<le> 31"
  shows "\<exists>j \<le> 31. round_bits (2 ^ k) target = Some (2 ^ j)"
  using assms(2)
proof (induction "31 - k" arbitrary: k)
  case 0
  then have "\<not> (2 ^ k :: u32) < target" using assms(1) unat_pow2_u32 [of 31] by (simp add: word_less_nat_alt)
  with 0 show ?case by (subst round_bits.simps) auto
next
  case (Suc d)
  have step: "push_bit 1 (2 ^ k :: u32) = 2 ^ Suc k" by (simp add: push_bit_eq_mult)
  have "\<exists>j \<le> 31. round_bits (2 ^ Suc k) target = Some (2 ^ j)" using Suc by (intro Suc.hyps(1)) auto
  then show ?case using Suc.prems by (subst round_bits.simps) (auto simp only: step split: if_splits)
qed

lemma round_bits_hangs:
  assumes "2 ^ 31 < unat target" shows "round_bits (2 ^ k) target = None"
proof (cases "round_bits (2 ^ k) target")
  case (Some r)
  let ?P = "\<lambda>(b :: u32) (t :: u32) (r :: u32). \<not> (2 ^ 31 < unat t \<and> (\<exists>k. b = 2 ^ k))"
  have "?P (2 ^ k) target r"
  proof (rule round_bits.raw_induct [of ?P, OF _ Some])
    fix f b t r
    assume IH: "\<And>b t r. f b t = Some r \<Longrightarrow> ?P b t r"
      and r: "(if b < t then f (push_bit 1 b) t else Some b) = Some r"
    show "?P b t r"
    proof
      assume bad: "2 ^ 31 < unat t \<and> (\<exists>k. b = 2 ^ k)"
      then obtain k where k: "b = 2 ^ k" by blast
      have "unat b \<le> 2 ^ 31"
      proof (cases "k < 32")
        case True
        then have "(2 :: nat) ^ k \<le> 2 ^ 31" by (intro power_increasing) auto
        with True show ?thesis by (simp add: k unat_pow2_u32)
      next
        case False
        then have "b = 0" by (simp add: k exp_eq_zero_iff)
        then show ?thesis by simp
      qed
      then have "b < t" using bad by (simp add: word_less_nat_alt)
      moreover have "push_bit 1 b = 2 ^ Suc k" by (simp add: k push_bit_eq_mult)
      ultimately have "f (2 ^ Suc k) t = Some r" using r by (simp only: if_True)
      from IH [OF this] bad show False by blast
    qed
  qed
  with assms show ?thesis by auto
qed

section \<open>Properties\<close>

text \<open>
  \<open>NewPredictor\<close> returns, with a filter every later operation can use without a panic, exactly
  when eight counters per key fit the 32-bit size: for more than \<open>2 ^ 28\<close> keys (up to the wrap-around
  of the 32-bit product) the rounding loop shifts to zero and never ends.
\<close>

theorem new_predictor_returns_iff:
  fixes capacity :: int
  defines "target \<equiv> word_of_int (if capacity \<le> 0 then 1024 else capacity) * 8 :: u32"
  shows "(unat target \<le> 2 ^ 31 \<longrightarrow>
            (\<exists>p. NewPredictor capacity decay = Some p \<and> wf_Predictor p \<and>
               (\<forall>ops. \<exists>p'. pred_run ops p = Some p' \<and> wf_Predictor p'))) \<and>
         (2 ^ 31 < unat target \<longrightarrow> NewPredictor capacity decay = None)"
proof (intro conjI impI)
  assume "unat target \<le> 2 ^ 31"
  then obtain j where "j \<le> 31" "round_bits 1 target = Some (2 ^ j)" using round_bits_ends [of target 0] by auto
  then obtain p where p: "NewPredictor capacity decay = Some p" and "wf_Predictor p"
    using unat_pow2_u32 [of j] by (auto simp: NewPredictor_def Let_def target_def wf_Predictor_def word_less_nat_alt)
  with pred_run_total show "\<exists>p. NewPredictor capacity decay = Some p \<and> wf_Predictor p \<and>
               (\<forall>ops. \<exists>p'. pred_run ops p = Some p' \<and> wf_Predictor p')" by blast
next
  assume "2 ^ 31 < unat target"
  then show "NewPredictor capacity decay = None"
    using round_bits_hangs [of target 0] by (simp add: NewPredictor_def Let_def target_def)
qed

theorem new_predictor_returns_iff_witness:
  "(\<exists>p. NewPredictor 10000 0 = Some p \<and> wf_Predictor p) \<and> NewPredictor 268435457 0 = None"
proof -
  have "unat (word_of_int 10000 * 8 :: u32) \<le> 2 ^ 31" and "2 ^ 31 < unat (word_of_int 268435457 * 8 :: u32)"
    by simp_all
  then show ?thesis using new_predictor_returns_iff [of 10000 0] new_predictor_returns_iff [of 268435457 0] by auto
qed

text \<open>
  Twice uncacheable is remembered for at least one more interval: when a key is marked twice with
  no rotation in between, it is reported uncacheable until the second rotation after that, whatever
  other marks and checks happen.
\<close>

theorem predictor_remembers:
  assumes "wf_Predictor p" and "PRotate \<notin> set ops1" and "PRotate \<notin> set ops2" and "PRotate \<notin> set ops3"
    and "ops = PMark k # ops1 @ PMark k # ops2 @ rot @ ops3" and "rot = [] \<or> rot = [PRotate]"
  shows "\<exists>p1 p2. pred_run ops p = Some p1 \<and> IsLikelyUncacheable p1 k = Some (True, p2)"
proof -
  let ?h = "hashKey p k"
  obtain a where a: "pred_step (PMark k) p = Some a" "wf_Predictor a" "hashKey a = hashKey p"
    using pred_step_total [OF assms(1)] by blast
  obtain b where b: "pred_run ops1 a = Some b" "wf_Predictor b" "hashKey b = hashKey p"
    using pred_run_total [OF a(2)] a(3) by metis
  obtain c where c: "pred_step (PMark k) b = Some c" "wf_Predictor c" "hashKey c = hashKey p"
    using pred_step_total [OF b(2)] b(3) by metis
  obtain d where d: "pred_run ops2 c = Some d" "wf_Predictor d" "hashKey d = hashKey p"
    using pred_run_total [OF c(2)] c(3) by metis
  obtain e where e: "pred_run rot d = Some e" "wf_Predictor e" "hashKey e = hashKey p"
    using pred_run_total [OF d(2)] d(3) by metis
  obtain f where f: "pred_run ops3 e = Some f" "wf_Predictor f" "hashKey f = hashKey p"
    using pred_run_total [OF e(2)] e(3) by metis
  have "counted (active_bucket a) ?h 1"
    using pred_step_counts(2) [OF assms(1) a(1), of k 0] by (simp add: counted_def)
  then have "counted (active_bucket b) ?h 1" using pred_run_counts [OF a(2) b(1) assms(2), of k 1] a(3) by simp
  then have "counted (active_bucket c) ?h 2"
    using pred_step_counts(2) [OF b(2) c(1), of k 1] b(3) by (simp add: numeral_2_eq_2)
  then have "counted (active_bucket d) ?h 2" using pred_run_counts [OF c(2) d(1) assms(3), of k 2] c(3) by simp
  then have "counted (active_bucket e) ?h 2 \<or> counted (shadow_bucket e) ?h 2"
    using assms(6) e(1) pred_step_counts(4) [OF d(2), of PRotate] by (auto split: bind_splits)
  then have "counted (active_bucket f) ?h 2 \<or> counted (shadow_bucket f) ?h 2"
    using pred_run_counts [OF e(2) f(1) assms(4), of k 2] e(3) by auto
  then have "2 \<le> max (active_bucket f ! unat (fst ?h)) (shadow_bucket f ! unat (fst ?h)) \<and>
      2 \<le> max (active_bucket f ! unat (snd ?h)) (shadow_bucket f ! unat (snd ?h))"
    unfolding counted_def le_max_iff_disj by (auto simp: word_le_nat_alt)
  then obtain p2 where "IsLikelyUncacheable f k = Some (True, p2)"
    using Check_result [OF f(2), of k] f(3) by metis
  moreover have "pred_run ops p = Some f"
    using a(1) b(1) c(1) d(1) e(1) f(1) by (simp add: assms(5) pred_run_append)
  ultimately show ?thesis by blast
qed

definition demo_predictor :: Predictor where
  "demo_predictor = \<lparr>prBuckets = [[0, 0], [0, 0]], prBits = 2, prMask = 1, prActive = 0, prSize = 1, prDecay = 0,
     prThreshold = 2, prHits = 0, prMisses = 0\<rparr>"

theorem predictor_remembers_witness:
  "\<exists>p1 p2. pred_run [PMark ''u'', PCheck ''v'', PMark ''u'', PRotate, PCheck ''w''] demo_predictor = Some p1 \<and>
     IsLikelyUncacheable p1 ''u'' = Some (True, p2)"
  by (rule predictor_remembers [of _ "[PCheck ''v'']" "[]" "[PCheck ''w'']" _ _ "[PRotate]"])
     (simp_all add: wf_Predictor_def demo_predictor_def)

text \<open>
  Everything is forgotten after two rotations: when no mark happens between the first of two
  rotations and a check after the second, the check answers "cacheable" for every key.
\<close>

theorem predictor_forgets:
  assumes "wf_Predictor p" and "PRotate \<notin> set ops1" and "PRotate \<notin> set ops2"
    and "\<And>q. PMark q \<notin> set ops1" and "\<And>q. PMark q \<notin> set ops2"
  shows "\<exists>p1 p2. pred_run (PRotate # ops1 @ PRotate # ops2) p = Some p1 \<and> IsLikelyUncacheable p1 k = Some (False, p2)"
proof -
  obtain a where a: "Rotate p = Some a" "wf_Predictor a" "active_bucket a = replicate (unat (prBits p)) 0"
    by (rule Rotate_result [OF assms(1)])
  obtain b where b: "pred_run ops1 a = Some b" "wf_Predictor b" using pred_run_total [OF a(2)] by blast
  obtain c where c: "Rotate b = Some c" "wf_Predictor c" "active_bucket c = replicate (unat (prBits b)) 0"
      "shadow_bucket c = active_bucket b" by (rule Rotate_result [OF b(2)])
  obtain d where d: "pred_run ops2 c = Some d" "wf_Predictor d" using pred_run_total [OF c(2)] by blast
  have zero: "x = 0" if "x \<in> set (active_bucket d) \<union> set (shadow_bucket d)" for x
    using that pred_run_no_marks [OF a(2) b(1) assms(2,4)] pred_run_no_marks [OF c(2) d(1) assms(3,5)]
      pred_run_counts [OF c(2) d(1) assms(3)] a(3) c(3,4) by auto
  have len: "unat (fst (hashKey d k)) < length (active_bucket d)" "unat (fst (hashKey d k)) < length (shadow_bucket d)"
    using hashKey_bound [OF d(2), of k] wf_buckets [OF d(2)] by auto
  then have "active_bucket d ! unat (fst (hashKey d k)) = 0" "shadow_bucket d ! unat (fst (hashKey d k)) = 0"
    using zero nth_mem by blast+
  then have max: "\<not> 2 \<le> max (active_bucket d ! unat (fst (hashKey d k))) (shadow_bucket d ! unat (fst (hashKey d k)))"
    by simp
  obtain p2 where "IsLikelyUncacheable d k = Some (False, p2)"
    by (rule Check_result [OF d(2), of k]) (use max in simp)
  moreover have "pred_run (PRotate # ops1 @ PRotate # ops2) p = Some d"
    using a(1) b(1) c(1) d(1) by (simp add: pred_run_append)
  ultimately show ?thesis by blast
qed

theorem predictor_forgets_witness:
  "\<exists>p1 p2. pred_run [PRotate, PCheck ''u'', PRotate] (demo_predictor\<lparr>prBuckets := [[9, 9], [9, 9]]\<rparr>) = Some p1 \<and>
     IsLikelyUncacheable p1 ''u'' = Some (False, p2)"
  using predictor_forgets [of "demo_predictor\<lparr>prBuckets := [[9, 9], [9, 9]]\<rparr>" "[PCheck ''u'']" "[]" "''u''"]
  by (simp add: wf_Predictor_def demo_predictor_def)

end
