(* ===== verification/Streaming.thy ===== *)
theory Streaming
  imports LruShard
begin

text \<open>
  \<open>cache/streaming.go\<close>: a cache entry that readers consume while it is still being written. The
  mutex makes every method atomic; the condition variable is the outcome \<open>RBlock\<close> of a read that
  finds nothing new, after which the reader tries again. \<open>None\<close> is a panic.
\<close>

record StreamingEntry =
  seBuf :: bytes
  seDoneClosed :: bool
  seErr :: "string option"
  seHeader :: header
  seStatus :: int
  seComplete :: bool

definition NewStreamingEntry :: "header \<Rightarrow> int \<Rightarrow> StreamingEntry" where
  "NewStreamingEntry h status =
     \<lparr>seBuf = [], seDoneClosed = False, seErr = None, seHeader = h, seStatus = status, seComplete = False\<rparr>"

text \<open>\<open>Write\<close>: the bytes accepted and the new state; \<open>None\<close> in the first component is the error.\<close>

definition se_Write :: "StreamingEntry \<Rightarrow> bytes \<Rightarrow> nat option \<times> StreamingEntry" where
  "se_Write se p =
     (if seComplete se then (None, se) else (Some (length p), se\<lparr>seBuf := seBuf se @ p\<rparr>))"

definition se_Close :: "StreamingEntry \<Rightarrow> string option \<Rightarrow> StreamingEntry option" where
  "se_Close se err =
     (if seComplete se then Some se
      else if seDoneClosed se then None
      else Some (se\<lparr>seComplete := True, seErr := err, seDoneClosed := True\<rparr>))"

definition se_IsComplete :: "StreamingEntry \<Rightarrow> bool" where "se_IsComplete se = seComplete se"
definition se_Err :: "StreamingEntry \<Rightarrow> string option" where "se_Err se = seErr se"
definition se_Len :: "StreamingEntry \<Rightarrow> nat" where "se_Len se = length (seBuf se)"

text \<open>\<open>ToEntry\<close>: the outer \<open>None\<close> is the panic before \<open>Close\<close>, the inner the failed download.\<close>

definition ToEntry ::
  "StreamingEntry \<Rightarrow> instant \<Rightarrow> duration \<Rightarrow> duration \<Rightarrow> string \<Rightarrow> string \<Rightarrow> string \<Rightarrow> Entry option option" where
  "ToEntry se now ttl swr etag lastMod varyKey =
     (if \<not> seComplete se then None
      else if seErr se \<noteq> None then Some None
      else Some (Some \<lparr>eBody = seBuf se, eHeader = Some (seHeader se), eCompressedHeader = None,
                       eStatusCode = seStatus se, eStoredAt = now, eTTL = ttl, eETag = etag,
                       eLastMod = lastMod, eVaryKey = varyKey, eStaleWhileRevalidate = swr\<rparr>))"

record StreamingReader =
  srOffset :: int

definition se_NewReader :: "int \<Rightarrow> StreamingReader" where
  "se_NewReader offset = \<lparr>srOffset = offset\<rparr>"

datatype readOutcome = RData bytes | REof | RFail string | RBlock

text \<open>One turn of the loop in \<open>Read\<close> with a buffer of \<open>cap\<close> bytes; \<open>RBlock\<close> is \<open>cond.Wait\<close>.\<close>

definition sr_Read :: "StreamingEntry \<Rightarrow> nat \<Rightarrow> StreamingReader \<Rightarrow> (readOutcome \<times> StreamingReader) option" where
  "sr_Read se cap sr =
     (if srOffset sr < int (length (seBuf se)) then
        do {
          src \<leftarrow> go_slice (seBuf se) (srOffset sr) (int (length (seBuf se)));
          let dst = take cap src;
          Some (RData dst, sr\<lparr>srOffset := srOffset sr + int (length dst)\<rparr>)
        }
      else if seComplete se then
        (case seErr se of Some e \<Rightarrow> Some (RFail e, sr) | None \<Rightarrow> Some (REof, sr))
      else Some (RBlock, sr))"

text \<open>
  The writer's loop in \<open>fetchAndServeStreaming\<close>: the body in chunks of \<open>chunkSize\<close> bytes, then
  \<open>Close(nil)\<close>. A write after close is ignored there, as in the code.
\<close>

function write_chunks :: "nat \<Rightarrow> StreamingEntry \<Rightarrow> bytes \<Rightarrow> nat \<Rightarrow> StreamingEntry" where
  "write_chunks chunkSize se body off =
     (if off < length body \<and> 0 < chunkSize then
        write_chunks chunkSize (snd (se_Write se (take (min (off + chunkSize) (length body) - off) (drop off body))))
          body (off + chunkSize)
      else se)"
  by pat_completeness auto
termination by (relation "measure (\<lambda>(cs, se, body, off). length body - off)") auto

declare write_chunks.simps [simp del]

section \<open>Readers and a writer interleaved\<close>

text \<open>
  A run of the entry with any number of readers: each has read the bytes \<open>rdOut\<close> so far and has
  perhaps seen the end. One step is one method call of the writer or of one reader.
\<close>

record streamReader =
  rdReader :: StreamingReader
  rdOut :: bytes
  rdEnd :: "readOutcome option"

record streamSys =
  ssEntry :: StreamingEntry
  ssReaders :: "nat \<Rightarrow> streamReader"

definition newReader :: streamReader where
  "newReader = \<lparr>rdReader = se_NewReader 0, rdOut = [], rdEnd = None\<rparr>"

inductive stream_init :: "streamSys \<Rightarrow> bool" where
  "stream_init \<lparr>ssEntry = NewStreamingEntry h st, ssReaders = (\<lambda>_. newReader)\<rparr>"

inductive stream_step :: "streamSys \<Rightarrow> streamSys \<Rightarrow> bool" where
  st_write: "stream_step s (s\<lparr>ssEntry := snd (se_Write (ssEntry s) p)\<rparr>)"
| st_close: "se_Close (ssEntry s) err = Some se' \<Longrightarrow> stream_step s (s\<lparr>ssEntry := se'\<rparr>)"
| st_read: "rdEnd (ssReaders s i) = None \<Longrightarrow> sr_Read (ssEntry s) cap (rdReader (ssReaders s i)) = Some (RData d, sr') \<Longrightarrow>
    stream_step s (s\<lparr>ssReaders := (ssReaders s)(i := (ssReaders s i)\<lparr>rdReader := sr', rdOut := rdOut (ssReaders s i) @ d\<rparr>)\<rparr>)"
| st_ended: "rdEnd (ssReaders s i) = None \<Longrightarrow> sr_Read (ssEntry s) cap (rdReader (ssReaders s i)) = Some (out, sr') \<Longrightarrow>
    out = REof \<or> (\<exists>e. out = RFail e) \<Longrightarrow>
    stream_step s (s\<lparr>ssReaders := (ssReaders s)(i := (ssReaders s i)\<lparr>rdEnd := Some out\<rparr>)\<rparr>)"

inductive_cases stream_stepE: "stream_step s t"

definition reader_ok :: "StreamingEntry \<Rightarrow> streamReader \<Rightarrow> bool" where
  "reader_ok se r \<longleftrightarrow>
     0 \<le> srOffset (rdReader r) \<and> srOffset (rdReader r) \<le> int (length (seBuf se)) \<and>
     rdOut r = take (nat (srOffset (rdReader r))) (seBuf se) \<and>
     (case rdEnd r of
        None \<Rightarrow> True
      | Some REof \<Rightarrow> seComplete se \<and> seErr se = None \<and> rdOut r = seBuf se
      | Some (RFail e) \<Rightarrow> seComplete se \<and> seErr se = Some e \<and> rdOut r = seBuf se
      | _ \<Rightarrow> False)"

definition stream_inv :: "streamSys \<Rightarrow> bool" where
  "stream_inv s \<longleftrightarrow> (seDoneClosed (ssEntry s) \<longleftrightarrow> seComplete (ssEntry s)) \<and> (\<forall>i. reader_ok (ssEntry s) (ssReaders s i))"

lemma reader_ok_end:
  assumes "reader_ok se r" and "rdEnd r = Some out"
  shows "seComplete se \<and> rdOut r = seBuf se \<and> out = (case seErr se of Some e \<Rightarrow> RFail e | None \<Rightarrow> REof)"
proof -
  have "case rdEnd r of None \<Rightarrow> True
      | Some REof \<Rightarrow> seComplete se \<and> seErr se = None \<and> rdOut r = seBuf se
      | Some (RFail e) \<Rightarrow> seComplete se \<and> seErr se = Some e \<and> rdOut r = seBuf se
      | _ \<Rightarrow> False"
    using assms(1) unfolding reader_ok_def by blast
  with assms(2) show ?thesis by (cases out) simp_all
qed

lemma sr_Read_ok:
  assumes "reader_ok se r"
  obtains "srOffset (rdReader r) < int (length (seBuf se))"
      "sr_Read se cap (rdReader r) = Some (RData (take cap (drop (nat (srOffset (rdReader r))) (seBuf se))),
         (rdReader r)\<lparr>srOffset := srOffset (rdReader r) + int (min cap (length (seBuf se) - nat (srOffset (rdReader r))))\<rparr>)"
  | "srOffset (rdReader r) = int (length (seBuf se))" "rdOut r = seBuf se"
      "sr_Read se cap (rdReader r) = Some (if seComplete se then (case seErr se of Some e \<Rightarrow> RFail e | None \<Rightarrow> REof) else RBlock, rdReader r)"
proof (cases "srOffset (rdReader r) < int (length (seBuf se))")
  case True
  then show thesis using assms
    by (intro that(1)) (auto simp: sr_Read_def reader_ok_def go_slice_def Let_def min.commute)
next
  case False
  then show thesis using assms
    by (intro that(2)) (auto simp: sr_Read_def reader_ok_def split: option.splits)
qed

lemma take_extend: "take n xs @ take m (drop n xs) = take (n + min m (length xs - n)) xs"
  by (simp add: take_add min_def)

lemma reader_ok_write:
  assumes "reader_ok se r" and "seComplete se \<Longrightarrow> se' = se" and "\<not> seComplete se \<Longrightarrow> se' = se\<lparr>seBuf := seBuf se @ p\<rparr>"
  shows "reader_ok se' r"
proof (cases "seComplete se")
  case False
  then show ?thesis using assms by (auto simp: reader_ok_def split: option.splits readOutcome.splits)
qed (use assms in auto)

lemma reader_ok_close:
  assumes "reader_ok se r" and "\<not> seComplete se"
  shows "reader_ok (se\<lparr>seComplete := True, seErr := err, seDoneClosed := d\<rparr>) r"
  using assms by (auto simp: reader_ok_def split: option.splits readOutcome.splits)

lemma stream_inv_step:
  assumes inv: "stream_inv s" and step: "stream_step s t" shows "stream_inv t"
  using step
proof (cases rule: stream_step.cases)
  case (st_write p)
  then show ?thesis using inv
    by (auto simp: stream_inv_def se_Write_def intro: reader_ok_write)
next
  case (st_close err se')
  then show ?thesis using inv
    by (auto simp: stream_inv_def se_Close_def intro: reader_ok_close split: if_splits)
next
  case (st_read i cap d sr')
  have ok: "reader_ok (ssEntry s) (ssReaders s i)" using inv by (simp add: stream_inv_def)
  have "reader_ok (ssEntry s) ((ssReaders s i)\<lparr>rdReader := sr', rdOut := rdOut (ssReaders s i) @ d\<rparr>)"
    using ok
  proof (cases rule: sr_Read_ok [of _ _ cap])
    case 1
    then show ?thesis using ok st_read(2,3)
      by (auto simp: reader_ok_def take_extend nat_add_distrib)
  next
    case 2
    then show ?thesis using st_read(3) by (auto split: if_splits option.splits)
  qed
  with inv st_read show ?thesis by (simp add: stream_inv_def)
next
  case (st_ended i cap out sr')
  have ok: "reader_ok (ssEntry s) (ssReaders s i)" using inv by (simp add: stream_inv_def)
  have "reader_ok (ssEntry s) ((ssReaders s i)\<lparr>rdEnd := Some out\<rparr>)"
    using ok
  proof (cases rule: sr_Read_ok [of _ _ cap])
    case 1
    then show ?thesis using st_ended(3,4) by auto
  next
    case 2
    then show ?thesis using ok st_ended(2-4) by (auto simp: reader_ok_def split: if_splits option.splits)
  qed
  with inv st_ended show ?thesis by (simp add: stream_inv_def)
qed

interpretation stream: invariant_system stream_init stream_step stream_inv
proof
  show "stream_inv s" if "stream_init s" for s
    using that by (cases rule: stream_init.cases)
      (simp add: stream_inv_def NewStreamingEntry_def reader_ok_def newReader_def se_NewReader_def)
qed (rule stream_inv_step)

section \<open>Writing and draining\<close>

lemma write_chunks_all:
  assumes "0 < cs" and "\<not> seComplete se" and "off \<le> length body \<or> drop off body = []"
  shows "write_chunks cs se body off = se\<lparr>seBuf := seBuf se @ drop off body\<rparr>"
  using assms
proof (induction cs se body off rule: write_chunks.induct)
  case (1 cs se body off)
  let ?chunk = "take (min (off + cs) (length body) - off) (drop off body)"
  show ?case
  proof (cases "off < length body")
    case True
    have "?chunk @ drop (off + cs) body = drop off body"
    proof (cases "off + cs \<le> length body")
      case True
      then have "min (off + cs) (length body) - off = cs" by simp
      then show ?thesis using append_take_drop_id [of cs "drop off body"] by (simp add: add.commute)
    qed simp
    moreover have "off + cs \<le> length body \<or> drop (off + cs) body = []" by auto
    moreover have "snd (se_Write se ?chunk) = se\<lparr>seBuf := seBuf se @ ?chunk\<rparr>" using 1 by (simp add: se_Write_def)
    ultimately show ?thesis using 1 True by (subst write_chunks.simps) simp
  next
    case False
    then show ?thesis by (subst write_chunks.simps) simp
  qed
qed

text \<open>The loop of \<open>serveStreamingEntry\<close> on a complete entry: read until an error is returned. \<open>None\<close> when
  the loop would not end (an empty buffer) or would wait for the writer.\<close>

function drain :: "nat \<Rightarrow> StreamingEntry \<Rightarrow> streamReader \<Rightarrow> streamReader option" where
  "drain cap se r =
     (case sr_Read se cap (rdReader r) of
        None \<Rightarrow> None
      | Some (RData d, sr') \<Rightarrow>
          if d = [] then None else drain cap se (r\<lparr>rdReader := sr', rdOut := rdOut r @ d\<rparr>)
      | Some (RBlock, sr') \<Rightarrow> None
      | Some (out, sr') \<Rightarrow> Some (r\<lparr>rdReader := sr', rdEnd := Some out\<rparr>))"
  by pat_completeness auto
termination
proof (relation "measure (\<lambda>(cap, se, r). nat (int (length (seBuf se)) - srOffset (rdReader r)))")
  fix cap se r p out d sr'
  assume "sr_Read se cap (rdReader r) = Some p" "(out, sr') = p" "out = RData d" "d \<noteq> []"
  then have "srOffset (rdReader r) < int (length (seBuf se))" "srOffset sr' = srOffset (rdReader r) + int (length d)" "0 < length d"
    by (auto simp: sr_Read_def Let_def split: if_splits option.splits bind_splits)
  then show "((cap, se, r\<lparr>rdReader := sr', rdOut := rdOut r @ d\<rparr>), cap, se, r)
      \<in> measure (\<lambda>(cap, se, r). nat (int (length (seBuf se)) - srOffset (rdReader r)))" by simp
qed auto

declare drain.simps [simp del]

lemma drain_complete:
  assumes "reader_ok se r" and "rdEnd r = None" and "seComplete se" and "0 < cap"
  shows "\<exists>r'. drain cap se r = Some r' \<and> rdOut r' = seBuf se \<and>
           rdEnd r' = Some (case seErr se of Some e \<Rightarrow> RFail e | None \<Rightarrow> REof)"
  using assms
proof (induction cap se r rule: drain.induct)
  case (1 cap se r)
  show ?case
    using "1.prems"(1)
  proof (cases rule: sr_Read_ok [of _ _ cap])
    case 1
    let ?d = "take cap (drop (nat (srOffset (rdReader r))) (seBuf se))"
    let ?sr = "(rdReader r)\<lparr>srOffset := srOffset (rdReader r) + int (min cap (length (seBuf se) - nat (srOffset (rdReader r))))\<rparr>"
    let ?r = "r\<lparr>rdReader := ?sr, rdOut := rdOut r @ ?d\<rparr>"
    have ne: "?d \<noteq> []" using 1(1) "1.prems"(1,4) by (auto simp: reader_ok_def)
    have "reader_ok se ?r"
      using "1.prems"(1,2) 1(1) by (auto simp: reader_ok_def take_extend nat_add_distrib)
    then show ?thesis
      using "1.IH" [OF 1(2) refl refl ne] "1.prems"(2-4) 1(2) ne by (subst drain.simps) simp
  next
    case 2
    then show ?thesis using "1.prems"(3) by (subst drain.simps) (auto split: option.split)
  qed
qed

section \<open>Properties\<close>

text \<open>
  C19. Readers of a streaming entry see exactly what was written. However writes, the close and the
  reads of any number of readers interleave, no call panics, every reader has at all times received
  a prefix of the bytes written, and a reader that is told the end of the stream has received all of
  them and is told of a failure exactly when the download failed.
\<close>

theorem streaming_readers_agree:
  assumes "reachable stream_init stream_step s"
  shows "(\<exists>n. rdOut (ssReaders s i) = take n (seBuf (ssEntry s))) \<and>
         (\<forall>out. rdEnd (ssReaders s i) = Some out \<longrightarrow>
            seComplete (ssEntry s) \<and> rdOut (ssReaders s i) = seBuf (ssEntry s) \<and>
            out = (case seErr (ssEntry s) of Some e \<Rightarrow> RFail e | None \<Rightarrow> REof)) \<and>
         (\<forall>cap. sr_Read (ssEntry s) cap (rdReader (ssReaders s i)) \<noteq> None) \<and>
         (\<forall>err. se_Close (ssEntry s) err \<noteq> None)"
proof -
  have inv: "stream_inv s" using stream.reachable_inv [OF assms] .
  then have ok: "reader_ok (ssEntry s) (ssReaders s i)" by (simp add: stream_inv_def)
  have "sr_Read (ssEntry s) cap (rdReader (ssReaders s i)) \<noteq> None" for cap
    using ok by (cases rule: sr_Read_ok [of _ _ cap]) auto
  moreover have "se_Close (ssEntry s) err \<noteq> None" for err using inv by (auto simp: stream_inv_def se_Close_def)
  moreover have "\<exists>n. rdOut (ssReaders s i) = take n (seBuf (ssEntry s))" using ok by (auto simp: reader_ok_def)
  ultimately show ?thesis using reader_ok_end [OF ok] by blast
qed

theorem streaming_readers_agree_witness:
  "\<exists>s. reachable stream_init stream_step s \<and> seBuf (ssEntry s) = ''ab'' \<and> (\<exists>n. rdOut (ssReaders s 0) = take n ''ab'')"
proof -
  let ?s = "\<lparr>ssEntry = NewStreamingEntry [] 200, ssReaders = (\<lambda>_. newReader)\<rparr>"
  let ?t = "?s\<lparr>ssEntry := snd (se_Write (ssEntry ?s) ''ab'')\<rparr>"
  have "stream_step ?s ?t" by (rule stream_step.st_write)
  moreover have "reachable stream_init stream_step ?s" by (rule reachable.start) (rule stream_init.intros)
  ultimately have "reachable stream_init stream_step ?t" by (rule reachable.step [rotated])
  then have "reachable stream_init stream_step ?t \<and> seBuf (ssEntry ?t) = ''ab'' \<and> (\<exists>n. rdOut (ssReaders ?t 0) = take n ''ab'')"
    using streaming_readers_agree [of ?t 0] by (simp add: se_Write_def NewStreamingEntry_def)
  then show ?thesis by blast
qed

text \<open>
  A completed download reaches everyone whole: after the writer's chunk loop and \<open>Close(nil)\<close>
  the buffer is the origin's body, whatever the chunk size; \<open>ToEntry\<close> then yields an entry with that
  body; and a reader that starts at any moment and reads on gets the rest of the body and \<open>EOF\<close> in
  finitely many reads, whatever its buffer size.
\<close>

theorem streaming_delivers_body:
  assumes "0 < chunkSize" and "0 < cap"
  shows "\<exists>se. se_Close (write_chunks chunkSize (NewStreamingEntry h status) body 0) None = Some se \<and>
           seBuf se = body \<and>
           (\<exists>e. ToEntry se now ttl swr etag lm vk = Some (Some e) \<and> eBody e = body \<and> eStatusCode e = status \<and> eHeader e = Some h) \<and>
           (\<exists>r. drain cap se newReader = Some r \<and> rdOut r = body \<and> rdEnd r = Some REof)"
proof -
  define w where "w = write_chunks chunkSize (NewStreamingEntry h status) body 0"
  have w: "w = (NewStreamingEntry h status)\<lparr>seBuf := body\<rparr>"
    using write_chunks_all [of chunkSize "NewStreamingEntry h status" 0 body] assms(1) by (simp add: NewStreamingEntry_def w_def)
  define se where "se = w\<lparr>seComplete := True, seErr := None, seDoneClosed := True\<rparr>"
  have c: "se_Close w None = Some se" by (simp add: w se_Close_def se_def NewStreamingEntry_def)
  have "reader_ok se newReader" by (simp add: reader_ok_def newReader_def se_NewReader_def)
  then obtain r where "drain cap se newReader = Some r" "rdOut r = body" "rdEnd r = Some REof"
    using drain_complete [of se newReader cap] assms(2) by (auto simp: newReader_def se_def w)
  with c show ?thesis unfolding w_def [symmetric] by (simp add: ToEntry_def se_def w NewStreamingEntry_def)
qed

theorem streaming_delivers_body_witness:
  "\<exists>se r. se_Close (write_chunks 2 (NewStreamingEntry [] 200) ''hello'' 0) None = Some se \<and> seBuf se = ''hello'' \<and>
     drain 3 se newReader = Some r \<and> rdOut r = ''hello''"
  using streaming_delivers_body [of 2 3 "[]" 200 "''hello''" 0 60 0 "[]" "[]" "[]"] by auto

end
