(* ===== verification/Stampede.thy ===== *)
theory Stampede
  imports LruShard
begin

text \<open>
  \<open>cache/stampede.go\<close>: the per-key lock that lets one request fetch while the others wait. The
  methods are split where they give up the mutex: \<open>Acquire\<close> and \<open>AcquireStreaming\<close> enter and then
  wait on a channel, \<open>Release\<close> unlinks the entry and then closes its channel, \<open>SetStreaming\<close> looks
  the entry up and then publishes. Requests are threads whose program counters (\<open>spc\<close>) follow the
  calls \<open>fetchAndServe\<close> and \<open>fetchAndServeStreaming\<close> make; the step relation interleaves them at that
  grain. Lock entries and streaming entries are addresses.
\<close>

record lockEntry =
  leDone :: bool
  leStreamReady :: bool
  leEntry :: "Entry option"
  leStreaming :: "nat option"
  leErr :: bool
  leWaiters :: int

record StampedeLock =
  slLocks :: "string \<rightharpoonup> nat"
  slHeap :: "nat \<rightharpoonup> lockEntry"
  slNext :: nat

definition NewStampedeLock :: StampedeLock where
  "NewStampedeLock = \<lparr>slLocks = Map.empty, slHeap = Map.empty, slNext = 0\<rparr>"

definition new_lockEntry :: lockEntry where
  "new_lockEntry = \<lparr>leDone = False, leStreamReady = False, leEntry = None, leStreaming = None, leErr = False, leWaiters = 0\<rparr>"

section \<open>The critical sections\<close>

text \<open>
  The locked part that \<open>Acquire\<close> and \<open>AcquireStreaming\<close> share: \<open>Inl\<close> the entry to wait on, or \<open>Inr\<close> the
  fresh entry of the request that becomes the fetcher.
\<close>

definition sl_enter :: "StampedeLock \<Rightarrow> string \<Rightarrow> ((nat + nat) \<times> StampedeLock) option" where
  "sl_enter sl key =
     (case slLocks sl key of
        Some i \<Rightarrow>
          (case slHeap sl i of
             None \<Rightarrow> None
           | Some le \<Rightarrow> Some (Inl i, sl\<lparr>slHeap := (slHeap sl)(i \<mapsto> le\<lparr>leWaiters := leWaiters le + 1\<rparr>)\<rparr>))
      | None \<Rightarrow>
          (let i = slNext sl
           in Some (Inr i, sl\<lparr>slLocks := (slLocks sl)(key \<mapsto> i), slHeap := (slHeap sl)(i \<mapsto> new_lockEntry),
                             slNext := Suc i\<rparr>)))"

text \<open>What \<open>Acquire\<close> returns once \<open>done\<close> is closed.\<close>

definition acquire_result :: "lockEntry \<Rightarrow> Entry option" where
  "acquire_result le = (if leErr le then None else leEntry le)"

text \<open>What \<open>AcquireStreaming\<close> returns in each branch of its select.\<close>

definition stream_branch :: "lockEntry \<Rightarrow> Entry option \<times> nat option" where
  "stream_branch le = (None, leStreaming le)"

definition done_branch :: "lockEntry \<Rightarrow> Entry option \<times> nat option" where
  "done_branch le =
     (if leErr le then (None, None) else if leStreaming le \<noteq> None then (None, leStreaming le) else (leEntry le, None))"

text \<open>The locked part of \<open>Release\<close>; the entry whose channel is to be closed, if there is one.\<close>

definition sl_Release :: "StampedeLock \<Rightarrow> string \<Rightarrow> Entry option \<Rightarrow> bool \<Rightarrow> (nat option \<times> StampedeLock) option" where
  "sl_Release sl key entry err =
     (case slLocks sl key of
        None \<Rightarrow> Some (None, sl)
      | Some i \<Rightarrow>
          (case slHeap sl i of
             None \<Rightarrow> None
           | Some le \<Rightarrow> Some (Some i, sl\<lparr>slHeap := (slHeap sl)(i \<mapsto> le\<lparr>leEntry := entry, leErr := err\<rparr>),
                                         slLocks := (slLocks sl)(key := None)\<rparr>)))"

text \<open>\<open>close(le.done)\<close>; closing a closed channel panics.\<close>

definition close_done :: "StampedeLock \<Rightarrow> nat \<Rightarrow> StampedeLock option" where
  "close_done sl i =
     (case slHeap sl i of
        None \<Rightarrow> None
      | Some le \<Rightarrow> if leDone le then None else Some (sl\<lparr>slHeap := (slHeap sl)(i \<mapsto> le\<lparr>leDone := True\<rparr>)\<rparr>))"

text \<open>The unlocked part of \<open>SetStreaming\<close>: publish, then \<open>close(le.streamReady)\<close>.\<close>

definition publish_stream :: "StampedeLock \<Rightarrow> nat \<Rightarrow> nat \<Rightarrow> StampedeLock option" where
  "publish_stream sl i se =
     (case slHeap sl i of
        None \<Rightarrow> None
      | Some le \<Rightarrow>
          if leStreamReady le then None
          else Some (sl\<lparr>slHeap := (slHeap sl)(i \<mapsto> le\<lparr>leStreaming := Some se, leStreamReady := True\<rparr>)\<rparr>))"

definition Waiters :: "StampedeLock \<Rightarrow> string \<Rightarrow> int" where
  "Waiters sl key =
     (case slLocks sl key of
        None \<Rightarrow> 0
      | Some i \<Rightarrow> (case slHeap sl i of None \<Rightarrow> 0 | Some le \<Rightarrow> leWaiters le))"

section \<open>Requests as threads\<close>

datatype spc =
    Idle
  | Fetching string nat
  | Publishing string nat nat
  | Published string nat
  | Closing nat
  | Waiting nat bool
  | Fetched
  | Got nat "Entry option" "nat option"
  | Panicked

record stampSys =
  syLock :: StampedeLock
  syPc :: "nat \<Rightarrow> spc"

definition go_on :: "stampSys \<Rightarrow> nat \<Rightarrow> spc \<Rightarrow> StampedeLock \<Rightarrow> stampSys" where
  "go_on s t pc sl = s\<lparr>syLock := sl, syPc := (syPc s)(t := pc)\<rparr>"

definition or_panic :: "stampSys \<Rightarrow> nat \<Rightarrow> spc \<Rightarrow> StampedeLock option \<Rightarrow> stampSys" where
  "or_panic s t pc r = (case r of None \<Rightarrow> go_on s t Panicked (syLock s) | Some sl \<Rightarrow> go_on s t pc sl)"

text \<open>A request arrives; \<open>streaming\<close> says which of the two acquire methods it calls.\<close>

inductive arrive :: "stampSys \<Rightarrow> stampSys \<Rightarrow> bool" where
  wait: "syPc s t = Idle \<Longrightarrow> sl_enter (syLock s) key = Some (Inl i, sl) \<Longrightarrow> arrive s (go_on s t (Waiting i streaming) sl)"
| fetch: "syPc s t = Idle \<Longrightarrow> sl_enter (syLock s) key = Some (Inr i, sl) \<Longrightarrow> arrive s (go_on s t (Fetching key i) sl)"
| crash: "syPc s t = Idle \<Longrightarrow> sl_enter (syLock s) key = None \<Longrightarrow> arrive s (go_on s t Panicked (syLock s))"

text \<open>The steps of requests that have arrived.\<close>

inductive work :: "nat \<Rightarrow> stampSys \<Rightarrow> stampSys \<Rightarrow> bool" for t :: nat where
  set_lookup: "syPc s t = Fetching key i \<Longrightarrow> slLocks (syLock s) key = Some j \<Longrightarrow>
     work t s (go_on s t (Publishing key j se) (syLock s))"
| set_none: "syPc s t = Fetching key i \<Longrightarrow> slLocks (syLock s) key = None \<Longrightarrow>
     work t s (go_on s t (Published key i) (syLock s))"
| set_publish: "syPc s t = Publishing key i se \<Longrightarrow>
     work t s (or_panic s t (Published key i) (publish_stream (syLock s) i se))"
| release: "syPc s t = Fetching key i \<or> syPc s t = Published key i \<Longrightarrow>
     sl_Release (syLock s) key entry err = Some (Some j, sl) \<Longrightarrow> work t s (go_on s t (Closing j) sl)"
| release_none: "syPc s t = Fetching key i \<or> syPc s t = Published key i \<Longrightarrow>
     sl_Release (syLock s) key entry err = Some (None, sl) \<Longrightarrow> work t s (go_on s t Fetched sl)"
| release_crash: "syPc s t = Fetching key i \<or> syPc s t = Published key i \<Longrightarrow>
     sl_Release (syLock s) key entry err = None \<Longrightarrow> work t s (go_on s t Panicked (syLock s))"
| release_close: "syPc s t = Closing i \<Longrightarrow> work t s (or_panic s t Fetched (close_done (syLock s) i))"
| wake_stream: "syPc s t = Waiting i True \<Longrightarrow> slHeap (syLock s) i = Some le \<Longrightarrow> leStreamReady le \<Longrightarrow>
     work t s (go_on s t (Got i (fst (stream_branch le)) (snd (stream_branch le))) (syLock s))"
| wake_done: "syPc s t = Waiting i True \<Longrightarrow> slHeap (syLock s) i = Some le \<Longrightarrow> leDone le \<Longrightarrow>
     work t s (go_on s t (Got i (fst (done_branch le)) (snd (done_branch le))) (syLock s))"
| wake_plain: "syPc s t = Waiting i False \<Longrightarrow> slHeap (syLock s) i = Some le \<Longrightarrow> leDone le \<Longrightarrow>
     work t s (go_on s t (Got i (acquire_result le) None) (syLock s))"

definition stamp_init :: "stampSys \<Rightarrow> bool" where
  "stamp_init s \<longleftrightarrow> s = \<lparr>syLock = NewStampedeLock, syPc = (\<lambda>_. Idle)\<rparr>"

definition stamp_step :: "stampSys \<Rightarrow> stampSys \<Rightarrow> bool" where
  "stamp_step s s' \<longleftrightarrow> arrive s s' \<or> (\<exists>t. work t s s')"

section \<open>The invariant\<close>

fun holds_key :: "spc \<Rightarrow> (string \<times> nat) option" where
  "holds_key (Fetching k i) = Some (k, i)"
| "holds_key (Publishing k i se) = Some (k, i)"
| "holds_key (Published k i) = Some (k, i)"
| "holds_key pc = None"

fun owns :: "spc \<Rightarrow> nat option" where
  "owns (Closing i) = Some i"
| "owns pc = map_option snd (holds_key pc)"

fun unpublished :: "spc \<Rightarrow> nat option" where
  "unpublished (Fetching k i) = Some i"
| "unpublished (Publishing k i se) = Some i"
| "unpublished pc = None"

text \<open>What a finished waiter holds agrees with what its entry holds.\<close>

definition got_ok :: "lockEntry \<Rightarrow> Entry option \<Rightarrow> nat option \<Rightarrow> bool" where
  "got_ok le e se \<longleftrightarrow>
     (se \<noteq> None \<and> e = None \<and> leStreaming le = se) \<or> (se = None \<and> leDone le \<and> e = acquire_result le)"

definition stamp_inv :: "stampSys \<Rightarrow> bool" where
  "stamp_inv s \<longleftrightarrow>
     (\<forall>k i. slLocks (syLock s) k = Some i \<longleftrightarrow> (\<exists>t. holds_key (syPc s t) = Some (k, i))) \<and>
     (\<forall>t t' i. owns (syPc s t) = Some i \<and> owns (syPc s t') = Some i \<longrightarrow> t = t') \<and>
     (\<forall>t i. owns (syPc s t) = Some i \<longrightarrow> (\<exists>le. slHeap (syLock s) i = Some le \<and> \<not> leDone le)) \<and>
     (\<forall>i le. slHeap (syLock s) i = Some le \<longrightarrow> i < slNext (syLock s) \<and> (leDone le \<or> (\<exists>t. owns (syPc s t) = Some i)) \<and>
        (leStreamReady le \<longleftrightarrow> leStreaming le \<noteq> None)) \<and>
     (\<forall>t i le. unpublished (syPc s t) = Some i \<and> slHeap (syLock s) i = Some le \<longrightarrow> \<not> leStreamReady le) \<and>
     (\<forall>t i b. syPc s t = Waiting i b \<longrightarrow> slHeap (syLock s) i \<noteq> None) \<and>
     (\<forall>t i e se. syPc s t = Got i e se \<longrightarrow> (\<exists>le. slHeap (syLock s) i = Some le \<and> got_ok le e se)) \<and>
     (\<forall>t. syPc s t \<noteq> Panicked)"

lemma stamp_invD:
  assumes "stamp_inv s"
  shows "slLocks (syLock s) k = Some i \<longleftrightarrow> (\<exists>t. holds_key (syPc s t) = Some (k, i))"
    and "owns (syPc s t) = Some i \<Longrightarrow> owns (syPc s t') = Some i \<Longrightarrow> t = t'"
    and "owns (syPc s t) = Some i \<Longrightarrow> \<exists>le. slHeap (syLock s) i = Some le \<and> \<not> leDone le"
    and "slHeap (syLock s) i = Some le \<Longrightarrow> i < slNext (syLock s)"
    and "slHeap (syLock s) i = Some le \<Longrightarrow> leDone le \<or> (\<exists>t. owns (syPc s t) = Some i)"
    and "slHeap (syLock s) i = Some le \<Longrightarrow> leStreamReady le \<longleftrightarrow> leStreaming le \<noteq> None"
    and "unpublished (syPc s t) = Some i \<Longrightarrow> slHeap (syLock s) i = Some le \<Longrightarrow> \<not> leStreamReady le"
    and "syPc s t = Waiting i b \<Longrightarrow> slHeap (syLock s) i \<noteq> None"
    and "syPc s t = Got i e se \<Longrightarrow> \<exists>le. slHeap (syLock s) i = Some le \<and> got_ok le e se"
    and "syPc s t \<noteq> Panicked"
  using assms unfolding stamp_inv_def by (metis (no_types))+

text \<open>What the other threads need of a step of thread \<open>t\<close> to \<open>pc'\<close> and \<open>sl'\<close>.\<close>

definition heap_keeps :: "stampSys \<Rightarrow> nat \<Rightarrow> StampedeLock \<Rightarrow> bool" where
  "heap_keeps s t sl' \<longleftrightarrow>
     (\<forall>j le. slHeap (syLock s) j = Some le \<longrightarrow>
        (\<exists>le'. slHeap sl' j = Some le' \<and>
           (leDone le' = leDone le \<or> (\<forall>u. u \<noteq> t \<longrightarrow> owns (syPc s u) \<noteq> Some j)) \<and>
           (leStreamReady le' = leStreamReady le \<or> (\<forall>u. u \<noteq> t \<longrightarrow> unpublished (syPc s u) \<noteq> Some j)) \<and>
           (\<forall>u e se. u \<noteq> t \<longrightarrow> syPc s u = Got j e se \<longrightarrow> got_ok le e se \<longrightarrow> got_ok le' e se)))"

lemma go_unpublished_owns: "unpublished p = Some j \<Longrightarrow> owns p = Some j"
  by (cases p) auto

lemma go_owner_unique:
  assumes inv: "stamp_inv s" and own: "\<And>j u. owns pc' = Some j \<Longrightarrow> u \<noteq> t \<Longrightarrow> owns (syPc s u) \<noteq> Some j"
    and both: "owns (((syPc s)(t := pc')) u) = Some i" "owns (((syPc s)(t := pc')) u') = Some i"
  shows "u = u'"
proof (cases "u = t \<or> u' = t")
  case True
  then have "owns pc' = Some i" using both by auto
  then show ?thesis using True both own by (auto split: if_splits)
next
  case False
  then have "owns (syPc s u) = Some i" "owns (syPc s u') = Some i" using both by auto
  then show ?thesis using stamp_invD(2) [OF inv] by blast
qed

lemma go_others_keep:
  assumes inv: "stamp_inv s" and keeps: "heap_keeps s t sl'" and other: "u \<noteq> t"
  shows "owns (syPc s u) = Some i \<Longrightarrow> \<exists>le. slHeap sl' i = Some le \<and> \<not> leDone le"
    and "unpublished (syPc s u) = Some i \<Longrightarrow> slHeap sl' i = Some le \<Longrightarrow> \<not> leStreamReady le"
    and "syPc s u = Waiting i b \<Longrightarrow> slHeap sl' i \<noteq> None"
    and "syPc s u = Got i e se \<Longrightarrow> \<exists>le. slHeap sl' i = Some le \<and> got_ok le e se"
proof -
  note D = stamp_invD [OF inv]
  have K: "\<exists>le'. slHeap sl' j = Some le' \<and>
           (leDone le' = leDone le \<or> owns (syPc s u) \<noteq> Some j) \<and>
           (leStreamReady le' = leStreamReady le \<or> unpublished (syPc s u) \<noteq> Some j) \<and>
           (\<forall>e se. syPc s u = Got j e se \<longrightarrow> got_ok le e se \<longrightarrow> got_ok le' e se)"
    if j: "slHeap (syLock s) j = Some le" for j le
  proof -
    obtain le' where le': "slHeap sl' j = Some le'"
      "leDone le' = leDone le \<or> (\<forall>u. u \<noteq> t \<longrightarrow> owns (syPc s u) \<noteq> Some j)"
      "leStreamReady le' = leStreamReady le \<or> (\<forall>u. u \<noteq> t \<longrightarrow> unpublished (syPc s u) \<noteq> Some j)"
      "\<forall>u e se. u \<noteq> t \<longrightarrow> syPc s u = Got j e se \<longrightarrow> got_ok le e se \<longrightarrow> got_ok le' e se"
      using keeps [unfolded heap_keeps_def, rule_format, OF j] by (elim exE conjE)
    have "leDone le' = leDone le \<or> owns (syPc s u) \<noteq> Some j" using le'(2) other by blast
    moreover have "leStreamReady le' = leStreamReady le \<or> unpublished (syPc s u) \<noteq> Some j" using le'(3) other by blast
    ultimately show ?thesis using le'(1,4) other by (intro exI [of _ le']) simp
  qed
  show "\<exists>le. slHeap sl' i = Some le \<and> \<not> leDone le" if "owns (syPc s u) = Some i" using D(3) [OF that] K that by blast
  show "\<not> leStreamReady le" if un: "unpublished (syPc s u) = Some i" and le: "slHeap sl' i = Some le"
  proof -
    obtain l where l: "slHeap (syLock s) i = Some l" using D(3) [OF go_unpublished_owns [OF un]] by blast
    with K [OF l] le D(7) [OF un l] un show ?thesis by auto
  qed
  show "slHeap sl' i \<noteq> None" if "syPc s u = Waiting i b" using D(8) [OF that] K by blast
  show "\<exists>le. slHeap sl' i = Some le \<and> got_ok le e se" if "syPc s u = Got i e se" using D(9) [OF that] K that by blast
qed

lemma stamp_inv_go:
  assumes inv: "stamp_inv s"
    and locks: "\<And>k j. slLocks sl' k = Some j \<longleftrightarrow> holds_key pc' = Some (k, j) \<or> (\<exists>u. u \<noteq> t \<and> holds_key (syPc s u) = Some (k, j))"
    and own: "\<And>j u. owns pc' = Some j \<Longrightarrow> u \<noteq> t \<Longrightarrow> owns (syPc s u) \<noteq> Some j"
    and own_heap: "\<And>j. owns pc' = Some j \<Longrightarrow> \<exists>le. slHeap sl' j = Some le \<and> \<not> leDone le"
    and keeps: "heap_keeps s t sl'"
    and heap: "\<And>j le. slHeap sl' j = Some le \<Longrightarrow> j < slNext sl' \<and> (leStreamReady le \<longleftrightarrow> leStreaming le \<noteq> None) \<and>
        (leDone le \<or> owns pc' = Some j \<or> (\<exists>u. u \<noteq> t \<and> owns (syPc s u) = Some j))"
    and unpub: "\<And>j le. unpublished pc' = Some j \<Longrightarrow> slHeap sl' j = Some le \<Longrightarrow> \<not> leStreamReady le"
    and wait: "\<And>j b. pc' = Waiting j b \<Longrightarrow> slHeap sl' j \<noteq> None"
    and got: "\<And>j e se. pc' = Got j e se \<Longrightarrow> \<exists>le. slHeap sl' j = Some le \<and> got_ok le e se"
    and nopanic: "pc' \<noteq> Panicked"
  shows "stamp_inv (go_on s t pc' sl')"
proof -
  let ?pc = "(syPc s)(t := pc')"
  note others = go_others_keep [OF inv keeps]
  have 1: "\<forall>k i. slLocks sl' k = Some i \<longleftrightarrow> (\<exists>u. holds_key (?pc u) = Some (k, i))"
    using locks by (auto split: if_splits)
  have 2: "u = u'" if "owns (?pc u) = Some i" "owns (?pc u') = Some i" for u u' i by (rule go_owner_unique [OF inv own that])
  have 3: "\<exists>le. slHeap sl' i = Some le \<and> \<not> leDone le" if "owns (?pc u) = Some i" for u i
    using that own_heap others(1) [of u] by (cases "u = t") auto
  have 4: "\<forall>i le. slHeap sl' i = Some le \<longrightarrow> i < slNext sl' \<and> (leDone le \<or> (\<exists>u. owns (?pc u) = Some i)) \<and>
        (leStreamReady le \<longleftrightarrow> leStreaming le \<noteq> None)"
    using heap by fastforce
  have 5: "\<not> leStreamReady le" if "unpublished (?pc u) = Some i" "slHeap sl' i = Some le" for u i le
    using that unpub others(2) [of u] by (cases "u = t") auto
  have 6: "slHeap sl' i \<noteq> None" if "?pc u = Waiting i b" for u i b
    using that wait others(3) [of u] by (cases "u = t") auto
  have 7: "\<exists>le. slHeap sl' i = Some le \<and> got_ok le e se" if "?pc u = Got i e se" for u i e se
    using that got others(4) [of u] by (cases "u = t") auto
  have 8: "\<forall>u. ?pc u \<noteq> Panicked" using nopanic stamp_invD(10) [OF inv] by simp
  have s': "syLock (go_on s t pc' sl') = sl'" "syPc (go_on s t pc' sl') = ?pc" by (simp_all add: go_on_def)
  show ?thesis unfolding stamp_inv_def s'
    by (intro conjI; (rule 1 4 8)?; (intro allI impI)?; (elim conjE)?) (fact 2 3 5 6 7)+
qed

lemma heap_keeps_refl: "heap_keeps s t (syLock s)"
  by (simp add: heap_keeps_def)

text \<open>A step that leaves the lock alone and neither gains nor gives up ownership.\<close>

lemma stamp_inv_local:
  assumes inv: "stamp_inv s" and h: "holds_key pc' = holds_key (syPc s t)" and o: "owns pc' = owns (syPc s t)"
    and u: "unpublished pc' = None \<or> unpublished pc' = unpublished (syPc s t)"
    and w: "\<And>j b. pc' = Waiting j b \<Longrightarrow> slHeap (syLock s) j \<noteq> None"
    and g: "\<And>j e se. pc' = Got j e se \<Longrightarrow> \<exists>le. slHeap (syLock s) j = Some le \<and> got_ok le e se"
    and p: "pc' \<noteq> Panicked"
  shows "stamp_inv (go_on s t pc' (syLock s))"
proof (rule stamp_inv_go [OF inv])
  note D = stamp_invD [OF inv]
  show "slLocks (syLock s) k = Some j \<longleftrightarrow> holds_key pc' = Some (k, j) \<or> (\<exists>u. u \<noteq> t \<and> holds_key (syPc s u) = Some (k, j))" for k j
    unfolding D(1) h by metis
  show "owns (syPc s u) \<noteq> Some j" if "owns pc' = Some j" "u \<noteq> t" for j u
    using that D(2) unfolding o by blast
  show "\<exists>le. slHeap (syLock s) j = Some le \<and> \<not> leDone le" if "owns pc' = Some j" for j
    using that D(3) unfolding o by blast
  show "j < slNext (syLock s) \<and> (leStreamReady le \<longleftrightarrow> leStreaming le \<noteq> None) \<and>
      (leDone le \<or> owns pc' = Some j \<or> (\<exists>u. u \<noteq> t \<and> owns (syPc s u) = Some j))" if "slHeap (syLock s) j = Some le" for j le
    using D(4,5,6) [OF that] unfolding o by metis
  show "\<not> leStreamReady le" if "unpublished pc' = Some j" "slHeap (syLock s) j = Some le" for j le
    using that u D(7) [of t j le] by auto
qed (use w g p heap_keeps_refl in auto)

text \<open>A step of the owner that rewrites its entry, keeping or giving up the key.\<close>

lemma stamp_inv_owner:
  assumes inv: "stamp_inv s" and o: "owns (syPc s t) = Some i" and l: "slHeap (syLock s) i = Some le"
    and sl': "slHeap sl' = (slHeap (syLock s))(i \<mapsto> le')" "slNext sl' = slNext (syLock s)"
    and locks: "\<And>k j. slLocks sl' k = Some j \<longleftrightarrow> holds_key pc' = Some (k, j) \<or> (\<exists>u. u \<noteq> t \<and> holds_key (syPc s u) = Some (k, j))"
    and o': "owns pc' = (if leDone le' then None else Some i)"
    and r: "leStreamReady le' \<longleftrightarrow> leStreaming le' \<noteq> None"
    and u: "unpublished pc' = None"
    and g: "\<And>e se. got_ok le e se \<Longrightarrow> got_ok le' e se"
    and p: "pc' \<noteq> Panicked" "\<And>j b. pc' \<noteq> Waiting j b" "\<And>j e se. pc' \<noteq> Got j e se"
  shows "stamp_inv (go_on s t pc' sl')"
proof (rule stamp_inv_go [OF inv locks])
  note D = stamp_invD [OF inv]
  have solo: "owns (syPc s u) \<noteq> Some i" if "u \<noteq> t" for u using that D(2) o by blast
  show "owns (syPc s u) \<noteq> Some j" if "owns pc' = Some j" "u \<noteq> t" for j u
    using that solo o' by (auto split: if_splits)
  show "\<exists>le. slHeap sl' j = Some le \<and> \<not> leDone le" if "owns pc' = Some j" for j
    using that o' by (auto simp: sl' split: if_splits)
  show "heap_keeps s t sl'"
    unfolding heap_keeps_def
  proof (intro allI impI)
    fix j l' assume j: "slHeap (syLock s) j = Some l'"
    show "\<exists>le'. slHeap sl' j = Some le' \<and>
           (leDone le' = leDone l' \<or> (\<forall>u. u \<noteq> t \<longrightarrow> owns (syPc s u) \<noteq> Some j)) \<and>
           (leStreamReady le' = leStreamReady l' \<or> (\<forall>u. u \<noteq> t \<longrightarrow> unpublished (syPc s u) \<noteq> Some j)) \<and>
           (\<forall>u e se. u \<noteq> t \<longrightarrow> syPc s u = Got j e se \<longrightarrow> got_ok l' e se \<longrightarrow> got_ok le' e se)"
    proof (cases "j = i")
      case True
      have "unpublished (syPc s u) \<noteq> Some i" if "u \<noteq> t" for u using solo [OF that] go_unpublished_owns by blast
      with True show ?thesis using j l g solo by (intro exI [of _ le']) (auto simp: sl')
    next
      case False
      then show ?thesis using j by (simp add: sl')
    qed
  qed
  show "j < slNext sl' \<and> (leStreamReady x \<longleftrightarrow> leStreaming x \<noteq> None) \<and>
      (leDone x \<or> owns pc' = Some j \<or> (\<exists>u. u \<noteq> t \<and> owns (syPc s u) = Some j))" if "slHeap sl' j = Some x" for j x
  proof (cases "j = i")
    case True
    then show ?thesis using that o' r D(4) [OF l] by (auto simp: sl')
  next
    case False
    then have "slHeap (syLock s) j = Some x" using that by (simp add: sl')
    then show ?thesis using D(4,5,6) [of j x] o False by (metis option.inject sl'(2))
  qed
qed (use u p in auto)

text \<open>An arrival: as a waiter, as the fetcher, never with a panic.\<close>

lemma stamp_inv_wait:
  assumes inv: "stamp_inv s" and idle: "syPc s t = Idle" and enter: "sl_enter (syLock s) key = Some (Inl i, sl)"
  shows "stamp_inv (go_on s t (Waiting i b) sl)"
proof -
  note D = stamp_invD [OF inv]
  have i: "slLocks (syLock s) key = Some i" using enter by (auto simp: sl_enter_def Let_def split: option.splits)
  then obtain le where le: "slHeap (syLock s) i = Some le" and
    sl: "sl = (syLock s)\<lparr>slHeap := (slHeap (syLock s))(i \<mapsto> le\<lparr>leWaiters := leWaiters le + 1\<rparr>)\<rparr>"
    using enter by (auto simp: sl_enter_def split: option.splits)
  show ?thesis
  proof (rule stamp_inv_go [OF inv])
    show "slLocks sl k = Some j \<longleftrightarrow> holds_key (Waiting i b) = Some (k, j) \<or> (\<exists>u. u \<noteq> t \<and> holds_key (syPc s u) = Some (k, j))" for k j
      using D(1) [of k j] idle by (auto simp: sl) (metis holds_key.simps(4) option.distinct(1))
    show "heap_keeps s t sl" by (auto simp: heap_keeps_def sl le got_ok_def acquire_result_def)
    show "j < slNext sl \<and> (leStreamReady x \<longleftrightarrow> leStreaming x \<noteq> None) \<and>
        (leDone x \<or> owns (Waiting i b) = Some j \<or> (\<exists>u. u \<noteq> t \<and> owns (syPc s u) = Some j))" if x: "slHeap sl j = Some x" for j x
    proof -
      obtain y where y: "slHeap (syLock s) j = Some y" "leDone y = leDone x" "leStreamReady x = leStreamReady y" "leStreaming x = leStreaming y"
        using x le by (cases "j = i") (auto simp: sl)
      have "u \<noteq> t" if "owns (syPc s u) = Some j" for u using that idle by auto
      then have "leDone x \<or> (\<exists>u. u \<noteq> t \<and> owns (syPc s u) = Some j)" using D(5) [OF y(1)] y(2) by auto
      then show ?thesis using D(4,6) [OF y(1)] y(3,4) by (simp add: sl)
    qed
  qed (auto simp: sl)
qed

lemma stamp_inv_fetch:
  assumes inv: "stamp_inv s" and idle: "syPc s t = Idle" and enter: "sl_enter (syLock s) key = Some (Inr i, sl)"
  shows "stamp_inv (go_on s t (Fetching key i) sl)"
proof -
  note D = stamp_invD [OF inv]
  have free: "slLocks (syLock s) key = None" and i: "i = slNext (syLock s)" and
    sl: "sl = (syLock s)\<lparr>slLocks := (slLocks (syLock s))(key \<mapsto> i), slHeap := (slHeap (syLock s))(i \<mapsto> new_lockEntry), slNext := Suc i\<rparr>"
    using enter by (auto simp: sl_enter_def Let_def split: option.splits)
  have fresh: "slHeap (syLock s) i = None" using D(4) i by (metis less_irrefl not_None_eq)
  have noown: "owns (syPc s u) \<noteq> Some i" for u using D(3) fresh by fastforce
  show ?thesis
  proof (rule stamp_inv_go [OF inv])
    show "slLocks sl k = Some j \<longleftrightarrow> holds_key (Fetching key i) = Some (k, j) \<or> (\<exists>u. u \<noteq> t \<and> holds_key (syPc s u) = Some (k, j))" for k j
    proof (cases "k = key")
      case True
      then have "\<not> (\<exists>u. holds_key (syPc s u) = Some (k, j))" using D(1) [of k j] free by simp
      with True show ?thesis by (auto simp: sl)
    next
      case False
      have "holds_key (syPc s t) = None" using idle by simp
      with False D(1) [of k j] show ?thesis by (auto simp: sl) (metis option.distinct(1))
    qed
    show "heap_keeps s t sl" using fresh by (auto simp: heap_keeps_def sl)
    show "j < slNext sl \<and> (leStreamReady x \<longleftrightarrow> leStreaming x \<noteq> None) \<and>
        (leDone x \<or> owns (Fetching key i) = Some j \<or> (\<exists>u. u \<noteq> t \<and> owns (syPc s u) = Some j))" if "slHeap sl j = Some x" for j x
    proof (cases "j = i")
      case True
      then show ?thesis using that by (auto simp: sl new_lockEntry_def)
    next
      case False
      then have y: "slHeap (syLock s) j = Some x" using that by (simp add: sl)
      have "u \<noteq> t" if "owns (syPc s u) = Some j" for u using that idle by auto
      then have "leDone x \<or> (\<exists>u. u \<noteq> t \<and> owns (syPc s u) = Some j)" using D(5) [OF y] by auto
      then show ?thesis using D(4,6) [OF y] by (simp add: sl i)
    qed
  qed (use noown in \<open>auto simp: sl new_lockEntry_def\<close>)
qed

lemma sl_enter_total:
  assumes inv: "stamp_inv s"
  shows "sl_enter (syLock s) key \<noteq> None"
proof (cases "slLocks (syLock s) key")
  case (Some i)
  then obtain u where u: "holds_key (syPc s u) = Some (key, i)" using stamp_invD(1) [OF inv] by blast
  then have "owns (syPc s u) = Some i" by (cases "syPc s u") auto
  then obtain le where "slHeap (syLock s) i = Some le" using stamp_invD(3) [OF inv] by blast
  with Some show ?thesis by (simp add: sl_enter_def)
qed (simp add: sl_enter_def Let_def)

lemma stamp_inv_arrive: "arrive s s' \<Longrightarrow> stamp_inv s \<Longrightarrow> stamp_inv s'"
  by (induction rule: arrive.induct) (blast intro: stamp_inv_wait stamp_inv_fetch dest: sl_enter_total)+

text \<open>What the invariant gives the thread that holds a key.\<close>

lemma holder_facts:
  assumes inv: "stamp_inv s" and h: "holds_key (syPc s t) = Some (key, i)"
  shows "slLocks (syLock s) key = Some i" and "owns (syPc s t) = Some i"
    and "\<exists>le. slHeap (syLock s) i = Some le \<and> \<not> leDone le"
    and "slLocks (syLock s) k = Some j \<longleftrightarrow> (k, j) = (key, i) \<or> (\<exists>u. u \<noteq> t \<and> holds_key (syPc s u) = Some (k, j))"
    and "u \<noteq> t \<Longrightarrow> holds_key (syPc s u) \<noteq> Some (key, j)"
proof -
  note D = stamp_invD [OF inv]
  have hk: "owns p = Some n" if "holds_key p = Some (q, n)" for p q n using that by (cases p) auto
  show l: "slLocks (syLock s) key = Some i" using D(1) h by blast
  show o: "owns (syPc s t) = Some i" using hk h by blast
  show "\<exists>le. slHeap (syLock s) i = Some le \<and> \<not> leDone le" using D(3) o by blast
  show "slLocks (syLock s) k = Some j \<longleftrightarrow> (k, j) = (key, i) \<or> (\<exists>u. u \<noteq> t \<and> holds_key (syPc s u) = Some (k, j))"
    using D(1) [of k j] h by (metis option.inject)
  show "holds_key (syPc s u) \<noteq> Some (key, j)" if "u \<noteq> t"
  proof
    assume u: "holds_key (syPc s u) = Some (key, j)"
    then have "j = i" using D(1) l by (metis option.inject)
    with u have "owns (syPc s u) = Some i" using hk by blast
    with D(2) o that show False by blast
  qed
qed

lemma stamp_inv_publish:
  assumes inv: "stamp_inv s" and pc: "syPc s t = Publishing key i se"
  shows "stamp_inv (or_panic s t (Published key i) (publish_stream (syLock s) i se))"
proof -
  have h: "holds_key (syPc s t) = Some (key, i)" by (simp add: pc)
  note H = holder_facts [OF inv h]
  obtain le where le: "slHeap (syLock s) i = Some le" "\<not> leDone le" using H(3) by blast
  have nr: "\<not> leStreamReady le" using stamp_invD(7) [OF inv, of t i le] le(1) by (simp add: pc)
  let ?le = "le\<lparr>leStreaming := Some se, leStreamReady := True\<rparr>"
  let ?sl = "(syLock s)\<lparr>slHeap := (slHeap (syLock s))(i \<mapsto> ?le)\<rparr>"
  have old: "leStreaming le = None" using stamp_invD(6) [OF inv le(1)] nr by simp
  have "stamp_inv (go_on s t (Published key i) ?sl)"
  proof (rule stamp_inv_owner [OF inv H(2) le(1), where le' = ?le])
    show "slLocks ?sl k = Some j \<longleftrightarrow> holds_key (Published key i) = Some (k, j) \<or> (\<exists>u. u \<noteq> t \<and> holds_key (syPc s u) = Some (k, j))" for k j
      using H(4) [of k j] by auto
  qed (use le(2) old in \<open>auto simp: got_ok_def\<close>)
  then show ?thesis by (simp add: or_panic_def publish_stream_def le nr)
qed

lemma stamp_inv_release:
  assumes inv: "stamp_inv s" and h: "holds_key (syPc s t) = Some (key, i)"
    and rel: "sl_Release (syLock s) key entry err = Some (Some j, sl)"
  shows "stamp_inv (go_on s t (Closing j) sl)"
proof -
  note H = holder_facts [OF inv h]
  obtain le where le: "slHeap (syLock s) i = Some le" "\<not> leDone le" using H(3) by blast
  let ?le = "le\<lparr>leEntry := entry, leErr := err\<rparr>"
  have j: "j = i" and sl: "sl = (syLock s)\<lparr>slHeap := (slHeap (syLock s))(i \<mapsto> ?le), slLocks := (slLocks (syLock s))(key := None)\<rparr>"
    using rel H(1) le(1) by (auto simp: sl_Release_def)
  show ?thesis unfolding j
  proof (rule stamp_inv_owner [OF inv H(2) le(1)])
    show "slLocks sl k = Some n \<longleftrightarrow> holds_key (Closing i) = Some (k, n) \<or> (\<exists>u. u \<noteq> t \<and> holds_key (syPc s u) = Some (k, n))" for k n
      using H(4) [of k n] H(5) by (auto simp: sl)
    show "leStreamReady ?le \<longleftrightarrow> leStreaming ?le \<noteq> None" using stamp_invD(6) [OF inv le(1)] by simp
  qed (use le(2) in \<open>auto simp: sl got_ok_def\<close>)
qed

lemma stamp_inv_close:
  assumes inv: "stamp_inv s" and pc: "syPc s t = Closing i"
  shows "stamp_inv (or_panic s t Fetched (close_done (syLock s) i))"
proof -
  have o: "owns (syPc s t) = Some i" by (simp add: pc)
  obtain le where le: "slHeap (syLock s) i = Some le" "\<not> leDone le" using stamp_invD(3) [OF inv o] by blast
  let ?sl = "(syLock s)\<lparr>slHeap := (slHeap (syLock s))(i \<mapsto> le\<lparr>leDone := True\<rparr>)\<rparr>"
  have "stamp_inv (go_on s t Fetched ?sl)"
  proof (rule stamp_inv_owner [OF inv o le(1)])
    have "holds_key (syPc s t) = None" by (simp add: pc)
    then show "slLocks ?sl k = Some j \<longleftrightarrow> holds_key Fetched = Some (k, j) \<or> (\<exists>u. u \<noteq> t \<and> holds_key (syPc s u) = Some (k, j))" for k j
      using stamp_invD(1) [OF inv, of k j] by simp (metis option.distinct(1))
    show "leStreamReady (le\<lparr>leDone := True\<rparr>) \<longleftrightarrow> leStreaming (le\<lparr>leDone := True\<rparr>) \<noteq> None"
      using stamp_invD(6) [OF inv le(1)] by simp
  qed (use le(2) in \<open>auto simp: got_ok_def\<close>)
  then show ?thesis by (simp add: or_panic_def close_done_def le)
qed

lemma stamp_inv_work:
  assumes inv: "stamp_inv s" and step: "work t s s'" shows "stamp_inv s'"
  using step
proof (cases rule: work.cases)
  case (set_lookup key i j se)
  then have "j = i" using holder_facts(1) [OF inv, of t key i] by simp
  with set_lookup show ?thesis using inv by (auto intro: stamp_inv_local)
next
  case (set_none key i)
  then show ?thesis using holder_facts(1) [OF inv, of t key i] by simp
next
  case (set_publish key i se)
  then show ?thesis using stamp_inv_publish [OF inv] by simp
next
  case (release key i entry err j sl)
  then have "holds_key (syPc s t) = Some (key, i)" by auto
  with release show ?thesis using stamp_inv_release [OF inv] by simp
next
  case (release_none key i entry err sl)
  then have "holds_key (syPc s t) = Some (key, i)" by auto
  with release_none show ?thesis using holder_facts(1) [OF inv] by (auto simp: sl_Release_def split: option.splits)
next
  case (release_crash key i entry err)
  then have "holds_key (syPc s t) = Some (key, i)" by auto
  with release_crash show ?thesis using holder_facts(1,3) [OF inv] by (fastforce simp: sl_Release_def split: option.splits)
next
  case (release_close i)
  then show ?thesis using stamp_inv_close [OF inv] by simp
next
  case (wake_stream i le)
  then have "leStreaming le \<noteq> None" using stamp_invD(6) [OF inv] by blast
  with wake_stream show ?thesis using inv by (auto intro!: stamp_inv_local simp: got_ok_def stream_branch_def)
next
  case (wake_done i le)
  then show ?thesis using inv
    by (auto intro!: stamp_inv_local simp: got_ok_def done_branch_def acquire_result_def)
next
  case (wake_plain i le)
  then show ?thesis using inv by (auto intro!: stamp_inv_local simp: got_ok_def)
qed

interpretation stamp: invariant_system stamp_init stamp_step stamp_inv
proof
  show "stamp_init s \<Longrightarrow> stamp_inv s" for s
    by (simp add: stamp_init_def stamp_inv_def NewStampedeLock_def)
  show "stamp_inv s \<Longrightarrow> stamp_step s s' \<Longrightarrow> stamp_inv s'" for s s'
    by (auto simp: stamp_step_def intro: stamp_inv_arrive stamp_inv_work)
qed

section \<open>Progress\<close>

fun rank :: "spc \<Rightarrow> nat" where
  "rank (Fetching k i) = 4"
| "rank (Publishing k i se) = 3"
| "rank (Published k i) = 2"
| "rank (Closing i) = 1"
| "rank (Waiting i b) = 1"
| "rank pc = 0"

lemma work_rank:
  assumes "work t s s'"
  shows "rank (syPc s' t) < rank (syPc s t)" and "u \<noteq> t \<Longrightarrow> syPc s' u = syPc s u"
  using assms by (cases rule: work.cases; auto simp: go_on_def or_panic_def split: option.splits)+

lemma owner_can_work:
  assumes inv: "stamp_inv s" and o: "owns (syPc s t) = Some i" shows "\<exists>s'. work t s s'"
proof (cases "holds_key (syPc s t)")
  case None
  then have "syPc s t = Closing i" using o by (cases "syPc s t") auto
  then show ?thesis by (blast intro: work.release_close)
next
  case (Some q)
  then obtain key where h: "holds_key (syPc s t) = Some (key, i)" using o by (cases "syPc s t") auto
  obtain le where "slHeap (syLock s) i = Some le" using holder_facts(3) [OF inv h] by blast
  then obtain sl where rel: "sl_Release (syLock s) key None True = Some (Some i, sl)"
    using holder_facts(1) [OF inv h] by (simp add: sl_Release_def)
  from h consider "syPc s t = Fetching key i" | se where "syPc s t = Publishing key i se" | "syPc s t = Published key i"
    by (cases "syPc s t") auto
  then show ?thesis using rel by cases (blast intro: work.release work.set_publish)+
qed

lemma busy_can_work:
  assumes inv: "stamp_inv s" and b: "0 < rank (syPc s t)" shows "\<exists>u s'. work u s s'"
proof (cases "owns (syPc s t)")
  case (Some i)
  then show ?thesis using owner_can_work [OF inv] by blast
next
  case None
  then obtain i b where w: "syPc s t = Waiting i b" using b by (cases "syPc s t") auto
  obtain le where le: "slHeap (syLock s) i = Some le" using stamp_invD(8) [OF inv w] by blast
  show ?thesis
  proof (cases "leDone le")
    case True
    then show ?thesis using w le work.wake_done [of s t i le] work.wake_plain [of s t i le]
      by (cases b) (simp, blast)+
  next
    case False
    then obtain u where "owns (syPc s u) = Some i" using stamp_invD(5) [OF inv le] by blast
    then show ?thesis using owner_can_work [OF inv] by blast
  qed
qed

definition works :: "stampSys \<Rightarrow> stampSys \<Rightarrow> bool" where
  "works s s' \<longleftrightarrow> (\<exists>t. work t s s')"

lemma works_total_rank:
  assumes "works s s'" and "finite T" and "{t. 0 < rank (syPc s t)} \<subseteq> T"
  shows "(\<Sum>t\<in>T. rank (syPc s' t)) < (\<Sum>t\<in>T. rank (syPc s t))" and "{t. 0 < rank (syPc s' t)} \<subseteq> T"
proof -
  obtain t where w: "work t s s'" using assms(1) by (auto simp: works_def)
  note R = work_rank [OF w]
  have "t \<in> T" using R(1) assms(3) by auto
  have le: "rank (syPc s' u) \<le> rank (syPc s u)" for u using R by (cases "u = t") auto
  show "(\<Sum>t\<in>T. rank (syPc s' t)) < (\<Sum>t\<in>T. rank (syPc s t))"
    using assms(2) \<open>t \<in> T\<close> R(1) le by (intro sum_strict_mono_ex1) auto
  show "{t. 0 < rank (syPc s' t)} \<subseteq> T"
    using assms(3) le by (auto dest: order_less_le_trans)
qed

lemma works_inv: "stamp_inv s \<Longrightarrow> works\<^sup>*\<^sup>* s s' \<Longrightarrow> stamp_inv s'"
  by (rotate_tac, induction rule: rtranclp_induct) (auto simp: works_def intro: stamp_inv_work)

section \<open>Properties\<close>

text \<open>
  C6. One fetcher per key, and no panic: in every interleaving of requests (each calling \<open>Acquire\<close> or
  \<open>AcquireStreaming\<close>, the fetcher then \<open>SetStreaming\<close> at most once and \<open>Release\<close> once), two requests
  that fetch the same key at the same time are the same request, and no channel is closed twice.
\<close>

theorem stampede_one_fetcher:
  assumes "reachable stamp_init stamp_step s"
  shows "(\<forall>t t' key i j. holds_key (syPc s t) = Some (key, i) \<and> holds_key (syPc s t') = Some (key, j) \<longrightarrow> t = t') \<and>
         (\<forall>t. syPc s t \<noteq> Panicked)"
proof -
  have inv: "stamp_inv s" using stamp.reachable_inv [OF assms] .
  have "t = t'" if "holds_key (syPc s t) = Some (key, i)" "holds_key (syPc s t') = Some (key, j)" for t t' key i j
    using holder_facts(5) [OF inv that(1), of t' j] that(2) by blast
  with stamp_invD(10) [OF inv] show ?thesis by blast
qed

definition demo_sys :: stampSys where
  "demo_sys = \<lparr>syLock = NewStampedeLock, syPc = (\<lambda>_. Idle)\<rparr>"

definition demo_sys1 :: stampSys where
  "demo_sys1 = go_on demo_sys 0 (Fetching ''k'' 0) (snd (the (sl_enter NewStampedeLock ''k'')))"

definition demo_sys2 :: stampSys where
  "demo_sys2 = go_on demo_sys1 1 (Waiting 0 True) (snd (the (sl_enter (syLock demo_sys1) ''k'')))"

lemma demo_sys_reachable: "reachable stamp_init stamp_step demo_sys1" "reachable stamp_init stamp_step demo_sys2"
proof -
  have "reachable stamp_init stamp_step demo_sys" by (rule reachable.start) (simp add: stamp_init_def demo_sys_def)
  moreover have "arrive demo_sys demo_sys1" unfolding demo_sys1_def
    by (rule arrive.fetch [where key = "''k''"])
       (simp_all add: demo_sys_def sl_enter_def NewStampedeLock_def Let_def)
  ultimately show 1: "reachable stamp_init stamp_step demo_sys1" by (meson reachable.step stamp_step_def)
  have "arrive demo_sys1 demo_sys2" unfolding demo_sys2_def
    by (rule arrive.wait [where key = "''k''"])
       (simp_all add: demo_sys1_def demo_sys_def sl_enter_def NewStampedeLock_def go_on_def Let_def)
  with 1 show "reachable stamp_init stamp_step demo_sys2" by (meson reachable.step stamp_step_def)
qed

theorem stampede_one_fetcher_witness:
  "{t. \<exists>j. holds_key (syPc demo_sys2 t) = Some (''k'', j)} = {0}"
proof -
  have h: "holds_key (syPc demo_sys2 0) = Some (''k'', 0)"
    by (simp add: demo_sys2_def demo_sys1_def demo_sys_def go_on_def)
  then show ?thesis using stampede_one_fetcher [OF demo_sys_reachable(2)] by blast
qed

text \<open>
  C18. Nobody waits forever: once no further requests arrive, the requests in progress take only
  finitely many steps however they are scheduled, and they can only stop when every one of them,
  fetchers and waiters, has returned.
\<close>

theorem stampede_waiters_released:
  assumes "reachable stamp_init stamp_step s" and "finite {t. 0 < rank (syPc s t)}"
  shows "(\<forall>run. run 0 = s \<longrightarrow> \<not> (\<forall>n. works (run n) (run (Suc n)))) \<and>
         (\<forall>s'. works\<^sup>*\<^sup>* s s' \<longrightarrow> (\<forall>s''. \<not> works s' s'') \<longrightarrow> (\<forall>t. rank (syPc s' t) = 0))"
proof (intro conjI allI impI notI)
  fix run :: "nat \<Rightarrow> stampSys"
  assume "run 0 = s" and w: "\<forall>n. works (run n) (run (Suc n))"
  define T where "T = {t. 0 < rank (syPc s t)}"
  define m where "m = (\<lambda>n. \<Sum>t\<in>T. rank (syPc (run n) t))"
  have fin: "finite T" using assms(2) by (simp add: T_def)
  have sub: "{t. 0 < rank (syPc (run n) t)} \<subseteq> T" for n
  proof (induction n)
    case (Suc n)
    have "works (run n) (run (Suc n))" using w by blast
    then show ?case using fin Suc by (rule works_total_rank(2))
  qed (simp add: \<open>run 0 = s\<close> T_def)
  have dec: "m (Suc n) < m n" for n using works_total_rank(1) [OF _ fin sub] w by (simp add: m_def)
  have "m n + n \<le> m 0" for n
  proof (induction n)
    case (Suc n)
    with dec [of n] show ?case by linarith
  qed simp
  from this [of "Suc (m 0)"] show False by simp
next
  fix s' t
  assume "works\<^sup>*\<^sup>* s s'" and stuck: "\<forall>s''. \<not> works s' s''"
  then have "stamp_inv s'" using works_inv stamp.reachable_inv [OF assms(1)] by blast
  with stuck show "rank (syPc s' t) = 0" using busy_can_work [of s' t] by (cases "rank (syPc s' t)") (auto simp: works_def)
qed

theorem stampede_waiters_released_witness:
  "rank (syPc demo_sys2 1) = 1 \<and>
   {s'. works\<^sup>*\<^sup>* demo_sys2 s' \<and> (\<forall>s''. \<not> works s' s'')} \<subseteq> {s'. rank (syPc s' 1) = 0}"
proof -
  have "{t. 0 < rank (syPc demo_sys2 t)} \<subseteq> {0, 1}"
    by (auto simp: demo_sys2_def demo_sys1_def demo_sys_def go_on_def split: if_splits)
  then have "finite {t. 0 < rank (syPc demo_sys2 t)}" by (rule finite_subset) simp
  moreover have "rank (syPc demo_sys2 1) = 1" by (simp add: demo_sys2_def go_on_def)
  ultimately show ?thesis using stampede_waiters_released [OF demo_sys_reachable(2)] by blast
qed

text \<open>
  Waiters get the fetcher's result: a waiter that returns a streaming entry returns the one the
  fetcher of its flight published; a waiter that returns without one returns the entry passed to
  \<open>Release\<close>, or nothing when \<open>Release\<close> was given an error. Two waiters of a flight that return the same
  kind of result return the same result.
\<close>

theorem stampede_waiters_agree:
  assumes "reachable stamp_init stamp_step s" and "syPc s t = Got i e se" and "syPc s t' = Got i e' se'"
  shows "(se = None \<longrightarrow> (\<exists>le. slHeap (syLock s) i = Some le \<and> leDone le \<and> e = (if leErr le then None else leEntry le))) \<and>
         (se \<noteq> None \<longrightarrow> e = None \<and> (\<exists>le. slHeap (syLock s) i = Some le \<and> leStreaming le = se)) \<and>
         ((se = None) = (se' = None) \<longrightarrow> e = e' \<and> se = se')"
proof -
  have inv: "stamp_inv s" using stamp.reachable_inv [OF assms(1)] .
  obtain le where "slHeap (syLock s) i = Some le" "got_ok le e se" "got_ok le e' se'"
    using stamp_invD(9) [OF inv assms(2)] stamp_invD(9) [OF inv assms(3)] by auto
  then show ?thesis by (auto simp: got_ok_def acquire_result_def)
qed

definition demo_sys3 :: stampSys where
  "demo_sys3 = go_on demo_sys2 0 (Closing 0) (snd (the (sl_Release (syLock demo_sys2) ''k'' None True)))"

definition demo_sys4 :: stampSys where
  "demo_sys4 = or_panic demo_sys3 0 Fetched (close_done (syLock demo_sys3) 0)"

definition demo_sys5 :: stampSys where
  "demo_sys5 = go_on demo_sys4 1 (Got 0 None None) (syLock demo_sys4)"

lemmas demo_sys_defs = demo_sys_def demo_sys1_def demo_sys2_def demo_sys3_def demo_sys4_def go_on_def
  sl_enter_def NewStampedeLock_def Let_def sl_Release_def or_panic_def close_done_def new_lockEntry_def

theorem stampede_waiters_agree_witness:
  "syPc demo_sys5 1 = Got 0 None None \<and> (\<exists>le. slHeap (syLock demo_sys5) 0 = Some le \<and> leDone le \<and> (if leErr le then None else leEntry le) = None)"
proof -
  have "work 0 demo_sys2 demo_sys3" unfolding demo_sys3_def
    by (rule work.release [where key = "''k''" and i = 0 and entry = None and err = True]) (simp_all add: demo_sys_defs)
  moreover have "work 0 demo_sys3 demo_sys4" unfolding demo_sys4_def
    by (rule work.release_close) (simp add: demo_sys_defs)
  moreover have "work 1 demo_sys4 (go_on demo_sys4 1 (Got 0 (fst (done_branch (the (slHeap (syLock demo_sys4) 0))))
      (snd (done_branch (the (slHeap (syLock demo_sys4) 0))))) (syLock demo_sys4))"
    by (rule work.wake_done) (simp_all add: demo_sys_defs)
  then have "work 1 demo_sys4 demo_sys5" by (simp add: demo_sys5_def demo_sys_defs done_branch_def)
  ultimately have "reachable stamp_init stamp_step demo_sys5"
    using demo_sys_reachable(2) by (meson reachable.step stamp_step_def)
  moreover have g: "syPc demo_sys5 1 = Got 0 None None" by (simp add: demo_sys5_def go_on_def)
  ultimately show ?thesis using stampede_waiters_agree [of demo_sys5 1 0 None None 1 None None] by auto
qed

end
