(* ===== verification/ByteRange.thy ===== *)
theory ByteRange
  imports DiskTier
begin

text \<open>
  \<open>handler/range.go\<close>: parsing a \<open>Range\<close> header and answering with a slice of a cached body. \<open>parseRange\<close>
  returns \<open>None\<close> where the code returns \<open>ok=false\<close>; \<open>serveRange\<close> returns \<open>None\<close> where slicing would panic.
\<close>

definition parse_suffix :: "string \<Rightarrow> int \<Rightarrow> (int \<times> int) option" where
  "parse_suffix endStr contentLength =
     (case strconv_Atoi endStr of
        None \<Rightarrow> None
      | Some suffix \<Rightarrow>
          if suffix \<le> 0 then None
          else let start = contentLength - suffix in Some (if start < 0 then 0 else start, contentLength - 1))"

definition parse_span :: "string \<Rightarrow> string \<Rightarrow> int \<Rightarrow> (int \<times> int) option" where
  "parse_span startStr endStr contentLength =
     (case strconv_Atoi startStr of
        None \<Rightarrow> None
      | Some start \<Rightarrow>
          if start < 0 then None
          else if start \<ge> contentLength then None
          else if endStr = [] then Some (start, contentLength - 1)
          else (case strconv_Atoi endStr of
                  None \<Rightarrow> None
                | Some end' \<Rightarrow>
                    if end' < start then None
                    else Some (start, if end' \<ge> contentLength then contentLength - 1 else end')))"

definition parseRange :: "string \<Rightarrow> int \<Rightarrow> (int \<times> int) option" where
  "parseRange rangeHeader contentLength =
     (if contentLength \<le> 0 then None
      else if \<not> strings_HasPrefix rangeHeader ''bytes='' then None
      else let spec = strings_TrimPrefix rangeHeader ''bytes=''
           in if strings_Contains spec '','' then None
              else let spec = strings_TrimSpace spec
                   in if spec = [] then None
                      else case strings_IndexByte spec (CHR ''-'') of
                             None \<Rightarrow> None
                           | Some dashIdx \<Rightarrow>
                               let startStr = strings_TrimSpace (take dashIdx spec);
                                   endStr = strings_TrimSpace (drop (dashIdx + 1) spec)
                               in if startStr = [] then parse_suffix endStr contentLength
                                  else parse_span startStr endStr contentLength)"

definition content_range :: "int \<Rightarrow> int \<Rightarrow> int \<Rightarrow> string" where
  "content_range start end' len =
     ''bytes '' @ strconv_Itoa start @ ''-'' @ strconv_Itoa end' @ ''/'' @ strconv_Itoa len"

definition serveRange :: "('a) hdrCodec_scheme \<Rightarrow> respw \<Rightarrow> Entry \<Rightarrow> int \<Rightarrow> int \<Rightarrow> respw option" where
  "serveRange cd w entry start end' =
     (let len = int (length (eBody entry));
          w1 = add_headers w (GetHeader cd entry);
          w2 = w_Set w1 ''Content-Range'' (content_range start end' len);
          w3 = w_Set w2 ''Content-Length'' (strconv_Itoa (end' - start + 1));
          w4 = w_Set w3 ''X-Cache'' ''HIT'';
          w5 = w_WriteHeader w4 206
      in do {
           part \<leftarrow> go_slice (eBody entry) start (end' + 1);
           Some (w_Write w5 part)
         })"

section \<open>Bounds\<close>

lemma parse_suffix_bounds:
  "parse_suffix e n = Some (a, b) \<Longrightarrow> 0 < n \<Longrightarrow> 0 \<le> a \<and> a \<le> b \<and> b < n"
  by (auto simp: parse_suffix_def Let_def split: option.splits if_splits)

lemma parse_span_bounds:
  "parse_span s e n = Some (a, b) \<Longrightarrow> 0 < n \<Longrightarrow> 0 \<le> a \<and> a \<le> b \<and> b < n"
  by (auto simp: parse_span_def split: option.splits if_splits)

lemma parseRange_bounds:
  "parseRange h n = Some (a, b) \<Longrightarrow> 0 \<le> a \<and> a \<le> b \<and> b < n"
  by (auto simp: parseRange_def Let_def split: option.splits if_splits dest: parse_suffix_bounds parse_span_bounds)

lemma serveRange_returns:
  assumes "0 \<le> a" and "a \<le> b" and "b < int (length (eBody e))" and "rwSent w = None"
  obtains w' where "serveRange cd w e a b = Some w'" "rw_status w' = 206"
    "rwBody w' = rwBody w @ take (nat (b - a + 1)) (drop (nat a) (eBody e))"
    "rw_sent_header w' ''Content-Range'' = content_range a b (int (length (eBody e)))"
    "rw_sent_header w' ''Content-Length'' = strconv_Itoa (b - a + 1)"
proof -
  have n: "nat (b + 1) - nat a = nat (b - a + 1)" using assms by (simp add: nat_diff_distrib)
  have slice: "go_slice (eBody e) a (b + 1) = Some (take (nat (b - a + 1)) (drop (nat a) (eBody e)))"
    using assms by (simp add: no_panic n)
  have keys: "CanonicalHeaderKey ''Content-Range'' = ''Content-Range''" "CanonicalHeaderKey ''Content-Length'' = ''Content-Length''"
    "CanonicalHeaderKey ''X-Cache'' = ''X-Cache''" by code_simp+
  show thesis
    by (rule that [of "the (serveRange cd w e a b)"])
      (use assms(4) in \<open>simp_all add: serveRange_def Let_def slice rw_status_def rw_sent_header_def w_Set_def header_Get_Set keys\<close>)
qed

section \<open>Formatted ranges\<close>

lemma digits_no [simp]:
  "CHR ''-'' \<notin> set (nat_digits n)" "CHR '','' \<notin> set (nat_digits n)" "\<exists>i. nat_digits n = nat_digits i"
  using nat_digits_all_digits digit_not_sign by blast+

lemma TrimSpace_digits [simp]: "strings_TrimSpace (nat_digits n) = nat_digits n"
  using hd_nat_digits [of n] last_nat_digits [of n] digit_not_sign by (intro TrimSpace_plain) blast

lemma TrimSpace_Nil [simp]: "strings_TrimSpace [] = []"
  by (rule TrimSpace_plain) simp

lemma Contains_one: "strings_Contains s [c] \<longleftrightarrow> c \<in> set s"
  by (simp add: Contains_iff in_set_conv_decomp)

lemma parseRange_spec:
  assumes "0 < n" and "CHR ''-'' \<notin> set s" and "CHR '','' \<notin> set s" and "CHR '','' \<notin> set e"
    and "s = [] \<or> (\<exists>i. s = nat_digits i)" and "e = [] \<or> (\<exists>j. e = nat_digits j)"
  shows "parseRange (''bytes='' @ s @ ''-'' @ e) n = (if s = [] then parse_suffix e n else parse_span s e n)"
proof -
  let ?spec = "s @ ''-'' @ e"
  have dash: "plain_char (CHR ''-'')" by (simp add: plain_char_def)
  have "plain_char (hd ?spec)" using assms(5) hd_nat_digits digit_not_sign dash by (cases s) fastforce+
  moreover have "plain_char (last ?spec)" using assms(6) last_nat_digits digit_not_sign dash by (cases e) fastforce+
  ultimately have "strings_TrimSpace ?spec = ?spec" by (intro TrimSpace_plain) simp
  moreover have "\<not> strings_Contains ?spec '',''" using assms(3,4) by (simp add: Contains_one)
  moreover have "strings_IndexByte ?spec (CHR ''-'') = Some (length s)" using assms(2) by simp
  moreover have "strings_TrimSpace s = s" "strings_TrimSpace e = e" using assms(5,6) by auto
  ultimately show ?thesis using assms(1) TrimPrefix_append [of "''bytes=''" ?spec] HasPrefix_append [of "''bytes=''" ?spec]
    by (simp add: parseRange_def Let_def del: strings_Contains.simps TrimPrefix_append HasPrefix_append)
qed

section \<open>Properties\<close>

text \<open>
  Range parsing: any accepted range lies inside the body, whatever the header says; the three
  well-formed spellings (first and last byte, open end, last n bytes) give the bytes they name,
  cut at the end of the body, and a first byte past the end, a reversed range or a list of
  ranges is refused.
\<close>

theorem parse_range_correct:
  assumes "0 < n" and "in_int64 (int i)" and "in_int64 (int j)"
  shows "(parseRange h n = Some (a, b) \<longrightarrow> 0 \<le> a \<and> a \<le> b \<and> b < n) \<and>
         parseRange (''bytes='' @ nat_digits i @ ''-'' @ nat_digits j) n =
           (if int i < n \<and> i \<le> j then Some (int i, min (int j) (n - 1)) else None) \<and>
         parseRange (''bytes='' @ nat_digits i @ ''-'') n = (if int i < n then Some (int i, n - 1) else None) \<and>
         parseRange (''bytes=-'' @ nat_digits j) n = (if 0 < j then Some (max 0 (n - int j), n - 1) else None) \<and>
         parseRange (''bytes='' @ u @ '','' @ v) n = None"
proof (intro conjI impI)
  show "0 \<le> a" "a \<le> b" "b < n" if "parseRange h n = Some (a, b)" using parseRange_bounds [OF that] by simp_all
  show "parseRange (''bytes='' @ nat_digits i @ ''-'' @ nat_digits j) n =
           (if int i < n \<and> i \<le> j then Some (int i, min (int j) (n - 1)) else None)"
    using assms by (subst parseRange_spec) (auto simp: parse_span_def)
  show "parseRange (''bytes='' @ nat_digits i @ ''-'') n = (if int i < n then Some (int i, n - 1) else None)"
    using assms parseRange_spec [of n "nat_digits i" "[]"] by (auto simp: parse_span_def)
  show "parseRange (''bytes=-'' @ nat_digits j) n = (if 0 < j then Some (max 0 (n - int j), n - 1) else None)"
    using assms parseRange_spec [of n "[]" "nat_digits j"] by (auto simp: parse_suffix_def Let_def)
  have "strings_Contains (u @ '','' @ v) '',''" by (simp add: Contains_one)
  then show "parseRange (''bytes='' @ u @ '','' @ v) n = None"
    using TrimPrefix_append [of "''bytes=''" "u @ '','' @ v"]
    by (simp add: parseRange_def Let_def del: strings_Contains.simps TrimPrefix_append)
qed

theorem parse_range_correct_witness:
  "parseRange (''bytes='' @ nat_digits 2 @ ''-'' @ nat_digits 4) 6 = Some (2, 4)"
  using parse_range_correct [of 6 2 4] by (simp add: in_int64_def)

text \<open>
  C23. A served range is the requested slice: for a range \<open>parseRange\<close> accepts for this body, \<open>serveRange\<close>
  does not panic; it answers 206 with exactly those bytes, a \<open>Content-Length\<close> equal to their number
  and a \<open>Content-Range\<close> that names them.
\<close>

theorem serve_range_correct:
  assumes "parseRange h (int (length (eBody e))) = Some (a, b)" and "rwSent w = None" and "rwBody w = []"
  shows "\<exists>w'. serveRange cd w e a b = Some w' \<and> rw_status w' = 206 \<and>
           rwBody w' = take (nat (b - a + 1)) (drop (nat a) (eBody e)) \<and>
           rw_sent_header w' ''Content-Length'' = strconv_Itoa (int (length (rwBody w'))) \<and>
           rw_sent_header w' ''Content-Range'' = content_range a b (int (length (eBody e)))"
proof -
  have ab: "0 \<le> a" "a \<le> b" "b < int (length (eBody e))" using parseRange_bounds [OF assms(1)] by simp_all
  obtain w' where w': "serveRange cd w e a b = Some w'" "rw_status w' = 206"
      "rwBody w' = rwBody w @ take (nat (b - a + 1)) (drop (nat a) (eBody e))"
      "rw_sent_header w' ''Content-Range'' = content_range a b (int (length (eBody e)))"
      "rw_sent_header w' ''Content-Length'' = strconv_Itoa (b - a + 1)"
    by (rule serveRange_returns [OF ab assms(2)])
  have "int (length (rwBody w')) = b - a + 1" using ab w'(3) assms(3) by simp
  with w' assms(3) show ?thesis by (intro exI [of _ w']) simp
qed

theorem serve_range_correct_witness:
  "\<exists>w'. serveRange (evCodec demo_env) new_respw demo_entry 2 4 = Some w' \<and> rwBody w' = ''llo''"
proof -
  have "parseRange (''bytes='' @ nat_digits 2 @ ''-'' @ nat_digits 4) (int (length (eBody demo_entry))) = Some (2, 4)"
    by (subst parseRange_spec) (auto simp: parse_span_def demo_entry_def in_int64_def)
  from serve_range_correct [OF this, of new_respw "evCodec demo_env"] show ?thesis
    by (auto simp: demo_entry_def eval_nat_numeral)
qed

end
