(* ===== verification/Circuit.thy ===== *)
theory Circuit
  imports GoBase
begin

text \<open>
  \<open>proxy/circuit.go\<close>: the circuit breaker in front of an origin. Every method holds the mutex, so each
  is one atomic function of the state and the time it reads. The three states are the constants of
  the source; counters are Go ints.
\<close>

definition StateClosed :: int where "StateClosed = 0"
definition StateOpen :: int where "StateOpen = 1"
definition StateHalfOpen :: int where "StateHalfOpen = 2"

record CircuitBreaker =
  cbState :: int
  cbFailures :: int
  cbSuccesses :: int
  cbFailureThreshold :: int
  cbSuccessThreshold :: int
  cbOpenTimeout :: duration
  cbLastFailure :: instant

definition NewCircuitBreaker :: "int \<Rightarrow> int \<Rightarrow> duration \<Rightarrow> CircuitBreaker" where
  "NewCircuitBreaker ft st to =
     \<lparr>cbState = StateClosed, cbFailures = 0, cbSuccesses = 0, cbFailureThreshold = ft, cbSuccessThreshold = st,
      cbOpenTimeout = to, cbLastFailure = 0\<rparr>"

definition Allow :: "instant \<Rightarrow> CircuitBreaker \<Rightarrow> bool \<times> CircuitBreaker" where
  "Allow now cb =
     (if cbState cb = StateClosed then (True, cb)
      else if cbState cb = StateOpen then
        (if time_Sub now (cbLastFailure cb) > cbOpenTimeout cb
         then (True, cb\<lparr>cbState := StateHalfOpen, cbSuccesses := 0\<rparr>)
         else (False, cb))
      else (True, cb))"

definition RecordSuccess :: "CircuitBreaker \<Rightarrow> CircuitBreaker" where
  "RecordSuccess cb =
     (let cb = cb\<lparr>cbFailures := 0\<rparr>
      in if cbState cb = StateHalfOpen then
           (let cb = cb\<lparr>cbSuccesses := cbSuccesses cb + 1\<rparr>
            in if cbSuccesses cb \<ge> cbSuccessThreshold cb then cb\<lparr>cbState := StateClosed\<rparr> else cb)
         else cb)"

definition RecordFailure :: "instant \<Rightarrow> CircuitBreaker \<Rightarrow> CircuitBreaker" where
  "RecordFailure now cb =
     (let cb = cb\<lparr>cbLastFailure := now, cbFailures := cbFailures cb + 1\<rparr>
      in if cbState cb = StateHalfOpen \<or> cbFailures cb \<ge> cbFailureThreshold cb
         then cb\<lparr>cbState := StateOpen, cbSuccesses := 0\<rparr> else cb)"

definition circuit_State :: "CircuitBreaker \<Rightarrow> string" where
  "circuit_State cb =
     (if cbState cb = StateClosed then ''closed''
      else if cbState cb = StateOpen then ''open''
      else if cbState cb = StateHalfOpen then ''half-open''
      else ''unknown'')"

datatype cbOp = OpAllow instant | OpSuccess | OpFailure instant

fun cb_apply :: "cbOp \<Rightarrow> CircuitBreaker \<Rightarrow> CircuitBreaker" where
  "cb_apply (OpAllow now) cb = snd (Allow now cb)"
| "cb_apply OpSuccess cb = RecordSuccess cb"
| "cb_apply (OpFailure now) cb = RecordFailure now cb"

definition cb_run :: "cbOp list \<Rightarrow> CircuitBreaker \<Rightarrow> CircuitBreaker" where
  "cb_run ops cb = fold cb_apply ops cb"

section \<open>The abstract breaker\<close>

text \<open>
  What the comments promise, on a state that shows only what matters: closed with a count of
  consecutive failures, open since a moment, or half-open with a count of consecutive successes.
\<close>

datatype breaker = Closed int | Open instant | HalfOpen int

definition spec_allow :: "duration \<Rightarrow> instant \<Rightarrow> breaker \<Rightarrow> bool \<times> breaker" where
  "spec_allow to now b =
     (case b of
        Open since \<Rightarrow> if time_Sub now since > to then (True, HalfOpen 0) else (False, b)
      | _ \<Rightarrow> (True, b))"

definition spec_success :: "int \<Rightarrow> breaker \<Rightarrow> breaker" where
  "spec_success st b =
     (case b of
        Closed _ \<Rightarrow> Closed 0
      | Open since \<Rightarrow> Open since
      | HalfOpen n \<Rightarrow> if n + 1 \<ge> st then Closed 0 else HalfOpen (n + 1))"

definition spec_failure :: "int \<Rightarrow> instant \<Rightarrow> breaker \<Rightarrow> breaker" where
  "spec_failure ft now b =
     (case b of
        Closed n \<Rightarrow> if n + 1 \<ge> ft then Open now else Closed (n + 1)
      | Open _ \<Rightarrow> Open now
      | HalfOpen _ \<Rightarrow> Open now)"

definition cb_abs :: "CircuitBreaker \<Rightarrow> breaker" where
  "cb_abs cb =
     (if cbState cb = StateOpen then Open (cbLastFailure cb)
      else if cbState cb = StateHalfOpen then HalfOpen (cbSuccesses cb)
      else Closed (cbFailures cb))"

definition cb_inv :: "CircuitBreaker \<Rightarrow> bool" where
  "cb_inv cb \<longleftrightarrow>
     1 \<le> cbFailureThreshold cb \<and> 1 \<le> cbSuccessThreshold cb \<and> 0 \<le> cbFailures cb \<and> 0 \<le> cbSuccesses cb \<and>
     (cbState cb = StateClosed \<and> cbFailures cb < cbFailureThreshold cb \<or> cbState cb = StateOpen \<or>
      cbState cb = StateHalfOpen \<and> cbSuccesses cb < cbSuccessThreshold cb)"

lemmas cb_defs = StateClosed_def StateOpen_def StateHalfOpen_def cb_abs_def cb_inv_def
  Allow_def RecordSuccess_def RecordFailure_def spec_allow_def spec_success_def spec_failure_def

lemma new_breaker_inv: "1 \<le> ft \<Longrightarrow> 1 \<le> st \<Longrightarrow> cb_inv (NewCircuitBreaker ft st to)"
  by (simp add: NewCircuitBreaker_def cb_defs)

lemma cb_apply_inv: "cb_inv cb \<Longrightarrow> cb_inv (cb_apply op cb)"
  by (cases op) (auto simp: cb_defs Let_def)

lemma cb_apply_cfg:
  "cbFailureThreshold (cb_apply op cb) = cbFailureThreshold cb"
  "cbSuccessThreshold (cb_apply op cb) = cbSuccessThreshold cb"
  "cbOpenTimeout (cb_apply op cb) = cbOpenTimeout cb"
  by (cases op; simp add: Allow_def RecordSuccess_def RecordFailure_def Let_def)+

lemma Allow_refines:
  "cb_inv cb \<Longrightarrow> fst (Allow now cb) = fst (spec_allow (cbOpenTimeout cb) now (cb_abs cb)) \<and>
     cb_abs (snd (Allow now cb)) = snd (spec_allow (cbOpenTimeout cb) now (cb_abs cb))"
  by (auto simp: cb_defs)

lemma RecordSuccess_refines:
  "cb_inv cb \<Longrightarrow> cb_abs (RecordSuccess cb) = spec_success (cbSuccessThreshold cb) (cb_abs cb)"
  by (auto simp: cb_defs Let_def)

lemma RecordFailure_refines:
  "cb_inv cb \<Longrightarrow> cb_abs (RecordFailure now cb) = spec_failure (cbFailureThreshold cb) now (cb_abs cb)"
  by (auto simp: cb_defs Let_def)

interpretation breaker: invariant_system
  "\<lambda>cb. \<exists>ft st to. 1 \<le> ft \<and> 1 \<le> st \<and> cb = NewCircuitBreaker ft st to" "\<lambda>cb cb'. \<exists>op. cb' = cb_apply op cb" cb_inv
  by unfold_locales (auto intro: new_breaker_inv cb_apply_inv)

definition cb_reachable :: "CircuitBreaker \<Rightarrow> bool" where
  "cb_reachable = reachable (\<lambda>cb. \<exists>ft st to. 1 \<le> ft \<and> 1 \<le> st \<and> cb = NewCircuitBreaker ft st to)
     (\<lambda>cb cb'. \<exists>op. cb' = cb_apply op cb)"

lemma cb_reachable_inv: "cb_reachable cb \<Longrightarrow> cb_inv cb"
  unfolding cb_reachable_def by (rule breaker.reachable_inv)

lemma cb_reachable_run: "1 \<le> ft \<Longrightarrow> 1 \<le> st \<Longrightarrow> cb_reachable (cb_run ops (NewCircuitBreaker ft st to))"
proof (induction ops rule: rev_induct)
  case Nil
  then show ?case by (auto simp: cb_reachable_def cb_run_def intro!: reachable.start)
next
  case (snoc op ops)
  then have "cb_reachable (cb_run ops (NewCircuitBreaker ft st to))" by blast
  then show ?case unfolding cb_reachable_def cb_run_def by (auto intro: reachable.step)
qed

lemma cb_run_inv: "cb_inv cb \<Longrightarrow> cb_inv (cb_run ops cb)"
  unfolding cb_run_def by (induction ops arbitrary: cb) (simp_all add: cb_apply_inv)

lemma cb_run_cfg:
  "cbFailureThreshold (cb_run ops cb) = cbFailureThreshold cb"
  "cbSuccessThreshold (cb_run ops cb) = cbSuccessThreshold cb"
  unfolding cb_run_def by (induction ops arbitrary: cb; simp add: cb_apply_cfg del: cb_apply.simps)+

section \<open>Properties\<close>

text \<open>
  C21. The breaker does what its documentation says: in every reachable state its three methods act
  as the abstract breaker does (closed with fewer consecutive failures than the threshold; open
  since the last failure; half-open with fewer successes than required), and its state name is one
  of the three.
\<close>

theorem circuit_refines_breaker:
  assumes "cb_reachable cb"
  shows "fst (Allow now cb) = fst (spec_allow (cbOpenTimeout cb) now (cb_abs cb)) \<and>
         cb_abs (snd (Allow now cb)) = snd (spec_allow (cbOpenTimeout cb) now (cb_abs cb)) \<and>
         cb_abs (RecordSuccess cb) = spec_success (cbSuccessThreshold cb) (cb_abs cb) \<and>
         cb_abs (RecordFailure now cb) = spec_failure (cbFailureThreshold cb) now (cb_abs cb) \<and>
         circuit_State cb = (case cb_abs cb of Closed _ \<Rightarrow> ''closed'' | Open _ \<Rightarrow> ''open'' | HalfOpen _ \<Rightarrow> ''half-open'')"
proof -
  have inv: "cb_inv cb" using assms by (rule cb_reachable_inv)
  then have "circuit_State cb = (case cb_abs cb of Closed _ \<Rightarrow> ''closed'' | Open _ \<Rightarrow> ''open'' | HalfOpen _ \<Rightarrow> ''half-open'')"
    by (auto simp: circuit_State_def cb_defs)
  with Allow_refines [OF inv] RecordSuccess_refines [OF inv] RecordFailure_refines [OF inv] show ?thesis by simp
qed

theorem circuit_refines_breaker_witness:
  "cb_abs (cb_run [OpFailure 7, OpFailure 8] (NewCircuitBreaker 2 3 30)) = Open 8 \<and>
   \<not> fst (Allow 30 (cb_run [OpFailure 7, OpFailure 8] (NewCircuitBreaker 2 3 30)))"
proof -
  let ?cb = "cb_run [OpFailure 7, OpFailure 8] (NewCircuitBreaker 2 3 30)"
  have "cb_reachable ?cb" by (rule cb_reachable_run) simp_all
  moreover have "cb_abs ?cb = Open 8" "cbOpenTimeout ?cb = 30"
    by (simp_all add: cb_run_def NewCircuitBreaker_def cb_defs)
  ultimately show ?thesis
    using circuit_refines_breaker [of ?cb 30] by (simp add: spec_allow_def time_Sub_def minDuration_def maxDuration_def)
qed

lemma few_failures_fold:
  assumes "cb_abs cb = Closed n" and "cb_inv cb" and "n + int (length nows) < cbFailureThreshold cb"
  shows "cb_abs (cb_run (map OpFailure nows) cb) = Closed (n + int (length nows))"
  using assms(3)
proof (induction nows rule: rev_induct)
  case (snoc x xs)
  from snoc cb_run_cfg(1) [of "map OpFailure xs" cb]
    RecordFailure_refines [OF cb_run_inv [OF assms(2)], of x "map OpFailure xs"] show ?case
    by (simp add: cb_run_def spec_failure_def)
qed (simp add: cb_run_def assms(1))

lemma failures_fold:
  assumes "cb_abs cb = Closed n" and "cb_inv cb" and "nows \<noteq> []" and "n + int (length nows) \<ge> cbFailureThreshold cb"
  shows "cb_abs (cb_run (map OpFailure nows) cb) = Open (last nows)"
  using assms
proof (induction nows arbitrary: cb n rule: rev_induct)
  case (snoc now nows)
  let ?cb = "cb_run (map OpFailure nows) cb"
  have inv: "cb_inv ?cb" using snoc.prems(2) by (rule cb_run_inv)
  note few = few_failures_fold [OF snoc.prems(1,2)]
  have "cb_abs ?cb = Closed (n + int (length nows)) \<or> (\<exists>t. cb_abs ?cb = Open t)"
    using few [of nows] snoc by (cases "n + int (length nows) < cbFailureThreshold cb"; cases nows) (auto simp: cb_run_def)
  with RecordFailure_refines [OF inv, of now] snoc.prems(4) cb_run_cfg(1) [of "map OpFailure nows" cb] show ?case
    by (auto simp: cb_run_def spec_failure_def)
qed simp

lemma successes_fold:
  assumes "cb_abs cb = HalfOpen m" and "cb_inv cb" and "m + int n < cbSuccessThreshold cb"
  shows "cb_abs (cb_run (replicate n OpSuccess) cb) = HalfOpen (m + int n)"
  using assms
proof (induction n arbitrary: cb m)
  case (Suc n)
  let ?cb = "RecordSuccess cb"
  have "cb_abs ?cb = HalfOpen (m + 1)" using Suc RecordSuccess_refines [OF Suc.prems(2)] by (simp add: spec_success_def)
  moreover have "cb_inv ?cb" using cb_apply_inv [OF Suc.prems(2), of OpSuccess] by simp
  moreover have "cbSuccessThreshold ?cb = cbSuccessThreshold cb" using cb_apply_cfg(2) [of OpSuccess cb] by simp
  ultimately have "cb_abs (cb_run (replicate n OpSuccess) ?cb) = HalfOpen (m + 1 + int n)" using Suc by simp
  then show ?case by (simp add: cb_run_def algebra_simps)
qed (simp add: cb_run_def)

text \<open>
  Trip, fail fast, recover. From a closed breaker with no failures, the threshold of consecutive
  failures opens it and fewer do not; while it is open every request within the timeout of the last
  failure is refused and changes nothing; the first request after the timeout is let through, and
  the required number of successes then closes it, while any failure reopens it.
\<close>

theorem circuit_trips_and_recovers:
  assumes "cb_reachable cb"
  shows "(cb_abs cb = Closed 0 \<and> nows \<noteq> [] \<and> int (length nows) \<ge> cbFailureThreshold cb \<longrightarrow>
            cb_abs (cb_run (map OpFailure nows) cb) = Open (last nows)) \<and>
         (cb_abs cb = Closed 0 \<and> int (length nows) < cbFailureThreshold cb \<longrightarrow>
            cb_abs (cb_run (map OpFailure nows) cb) = Closed (int (length nows))) \<and>
         (cb_abs cb = Open t \<and> time_Sub now t \<le> cbOpenTimeout cb \<longrightarrow> Allow now cb = (False, cb)) \<and>
         (cb_abs cb = Open t \<and> time_Sub now t > cbOpenTimeout cb \<longrightarrow>
            fst (Allow now cb) \<and>
            cb_abs (cb_run (replicate (nat (cbSuccessThreshold cb)) OpSuccess) (snd (Allow now cb))) = Closed 0 \<and>
            cb_abs (RecordFailure now (snd (Allow now cb))) = Open now)"
proof (intro conjI impI)
  have inv: "cb_inv cb" using assms by (rule cb_reachable_inv)
  show "cb_abs (cb_run (map OpFailure nows) cb) = Open (last nows)"
    if "cb_abs cb = Closed 0 \<and> nows \<noteq> [] \<and> int (length nows) \<ge> cbFailureThreshold cb"
    using that inv by (intro failures_fold [of cb 0]) auto
  show "cb_abs (cb_run (map OpFailure nows) cb) = Closed (int (length nows))"
    if "cb_abs cb = Closed 0 \<and> int (length nows) < cbFailureThreshold cb"
    using that inv few_failures_fold [of cb 0 nows] by simp
  show "Allow now cb = (False, cb)" if "cb_abs cb = Open t \<and> time_Sub now t \<le> cbOpenTimeout cb"
    using that by (auto simp: Allow_def cb_abs_def StateOpen_def StateClosed_def split: if_splits)
  assume o: "cb_abs cb = Open t \<and> time_Sub now t > cbOpenTimeout cb"
  let ?h = "snd (Allow now cb)"
  have h: "cb_abs ?h = HalfOpen 0" and a: "fst (Allow now cb)" using o Allow_refines [OF inv, of now] by (auto simp: spec_allow_def)
  have hinv: "cb_inv ?h" using cb_apply_inv [OF inv, of "OpAllow now"] by simp
  have cfg: "cbSuccessThreshold ?h = cbSuccessThreshold cb" using cb_apply_cfg(2) [of "OpAllow now" cb] by simp
  have st: "1 \<le> cbSuccessThreshold cb" using inv by (simp add: cb_inv_def)
  then obtain n where n: "nat (cbSuccessThreshold cb) = Suc n" by (cases "nat (cbSuccessThreshold cb)") auto
  let ?k = "cb_run (replicate n OpSuccess) ?h"
  have k: "cb_abs ?k = HalfOpen (int n)" using successes_fold [OF h hinv, of n] n cfg by simp
  have "cbSuccessThreshold ?k = cbSuccessThreshold cb" by (simp add: cb_run_cfg cfg)
  then have "cb_abs (RecordSuccess ?k) = Closed 0"
    using RecordSuccess_refines [OF cb_run_inv [OF hinv], of "replicate n OpSuccess"] k n by (simp add: spec_success_def)
  then show "cb_abs (cb_run (replicate (nat (cbSuccessThreshold cb)) OpSuccess) ?h) = Closed 0"
    unfolding n by (simp add: cb_run_def replicate_append_same [symmetric] del: replicate.simps)
  show "fst (Allow now cb)" by (rule a)
  show "cb_abs (RecordFailure now ?h) = Open now" using RecordFailure_refines [OF hinv, of now] h by (simp add: spec_failure_def)
qed

theorem circuit_trips_and_recovers_witness:
  "cb_abs (cb_run (map OpFailure [1, 2, 3, 4, 5]) (NewCircuitBreaker 5 3 (30 * second))) = Open 5"
proof -
  let ?cb = "NewCircuitBreaker 5 3 (30 * second)"
  have "cb_reachable ?cb" using cb_reachable_run [of 5 3 "[]"] by (simp add: cb_run_def)
  from circuit_trips_and_recovers [OF this, of "[1, 2, 3, 4, 5]"] show ?thesis
    by (simp add: cb_abs_def NewCircuitBreaker_def StateOpen_def StateClosed_def StateHalfOpen_def)
qed

end
