(* ===== verification/Origin.thy ===== *)
theory Origin
  imports GoHttp Circuit
begin

text \<open>
  \<open>proxy/origin.go\<close>: fetching from an origin, with one request in flight per key and the circuit
  breaker in front. \<open>Fetch\<close> is split where it gives up a lock or blocks (the breaker's admission, the
  lookup in the flight table, the network exchange, the breaker's record, the close of the
  channel, the removal from the table); \<open>origin_Fetch\<close> composes the sections for one caller, and a step
  relation interleaves them for any number of callers. Flights are addresses in a heap.

  The network is the parameter \<open>netEnv\<close>: which URLs \<open>http.NewRequest\<close> rejects, and what the client
  gets for a request: an error, or a status, a header and a body that delivers some bytes and then
  ends or fails.
\<close>

record Response =
  rsStatusCode :: int
  rsHeader :: header
  rsBody :: bytes

datatype fetchErr = ErrCircuitOpen | ErrContext | ErrCoalesceTimeout | ErrBuildRequest | ErrFetch | ErrReadBody

type_synonym fetchResult = "fetchErr + Response"

record flight =
  flDone :: bool
  flRes :: "fetchResult option"

record Origin =
  orCb :: CircuitBreaker
  orCoalesceTimeout :: duration
  orMaxBodyBytes :: int
  orHostOverride :: string
  orFlights :: "string \<rightharpoonup> nat"
  orHeap :: "nat \<rightharpoonup> flight"
  orNext :: nat

record originOptions =
  ooTimeout :: duration
  ooCoalesceTimeout :: duration
  ooMaxBodyBytes :: int
  ooHostOverride :: string
  ooMaxIdleConnsPerHost :: int

text \<open>The state of a new origin; the transport's pool sizes and timeouts belong to the network.\<close>

definition origin_New :: "originOptions \<Rightarrow> Origin" where
  "origin_New opts =
     \<lparr>orCb = NewCircuitBreaker 5 3 (30 * second), orCoalesceTimeout = ooCoalesceTimeout opts,
      orMaxBodyBytes = ooMaxBodyBytes opts, orHostOverride = ooHostOverride opts,
      orFlights = Map.empty, orHeap = Map.empty, orNext = 0\<rparr>"

definition CircuitState :: "Origin \<Rightarrow> string" where
  "CircuitState og = circuit_State (orCb og)"

section \<open>The network exchange\<close>

text \<open>The request as sent; \<open>oqHost = None\<close> leaves the host of the URL.\<close>

record originReq =
  oqURL :: string
  oqHost :: "string option"
  oqHeader :: header

record netBody =
  nbData :: bytes
  nbFails :: bool

datatype doResult = DoError | DoResponse int header netBody

record netEnv =
  neBadURL :: "string \<Rightarrow> bool"
  neDo :: "originReq \<Rightarrow> doResult"

definition forwardHeaders :: "string list" where
  "forwardHeaders = [''Accept'', ''Accept-Encoding'', ''Accept-Language'', ''Range'']"

definition forward_header :: "header \<Rightarrow> string \<Rightarrow> header \<Rightarrow> header" where
  "forward_header rh h out =
     (let v = header_Get rh h in if v \<noteq> [] then header_Set out h v else out)"

definition build_request :: "Origin \<Rightarrow> string \<Rightarrow> header \<Rightarrow> originReq" where
  "build_request og url rh =
     (let h1 = fold (forward_header rh) forwardHeaders [];
          h2 = forward_header rh ''X-Forwarded-For'' h1;
          h3 = header_Set h2 ''User-Agent'' ''CDN-Edge/1.0'';
          host1 = (if orHostOverride og \<noteq> [] then Some (orHostOverride og) else None);
          h = header_Get rh ''Host'';
          host2 = (if h \<noteq> [] \<and> orHostOverride og = [] then Some h else host1)
      in \<lparr>oqURL = url, oqHost = host2, oqHeader = h3\<rparr>)"

definition max_body :: "Origin \<Rightarrow> int" where
  "max_body og = (if orMaxBodyBytes og \<le> 0 then 100 * 2 ^ 20 else orMaxBodyBytes og)"

text \<open>\<open>io.ReadAll(io.LimitReader(body, max))\<close>: after \<open>max\<close> bytes the reader reports the end by itself.\<close>

definition read_limited :: "int \<Rightarrow> netBody \<Rightarrow> bytes option" where
  "read_limited mx b =
     (if int (length (nbData b)) \<ge> mx then Some (take (nat mx) (nbData b))
      else if nbFails b then None else Some (nbData b))"

text \<open>\<open>doFetch\<close>: the result, and the requests it sent.\<close>

definition doFetch :: "netEnv \<Rightarrow> Origin \<Rightarrow> string \<Rightarrow> header \<Rightarrow> fetchResult \<times> originReq list" where
  "doFetch net og originURL rh =
     (if neBadURL net originURL then (Inl ErrBuildRequest, [])
      else (let req = build_request og originURL rh
            in (case neDo net req of
                  DoError \<Rightarrow> Inl ErrFetch
                | DoResponse status h body \<Rightarrow>
                    (case read_limited (max_body og) body of
                       None \<Rightarrow> Inl ErrReadBody
                     | Some b \<Rightarrow> Inr \<lparr>rsStatusCode = status, rsHeader = h, rsBody = b\<rparr>), [req])))"

section \<open>The sections of Fetch\<close>

definition fl_admit :: "instant \<Rightarrow> Origin \<Rightarrow> bool \<times> Origin" where
  "fl_admit now og = (let (ok, cb) = Allow now (orCb og) in (ok, og\<lparr>orCb := cb\<rparr>))"

text \<open>\<open>Inl\<close> the flight to wait for, or \<open>Inr\<close> the new flight of the caller that will fetch.\<close>

definition fl_enter :: "Origin \<Rightarrow> string \<Rightarrow> (nat + nat) \<times> Origin" where
  "fl_enter og key =
     (case orFlights og key of
        Some f \<Rightarrow> (Inl f, og)
      | None \<Rightarrow>
          (let f = orNext og
           in (Inr f, og\<lparr>orFlights := (orFlights og)(key \<mapsto> f),
                        orHeap := (orHeap og)(f \<mapsto> \<lparr>flDone = False, flRes = None\<rparr>), orNext := Suc f\<rparr>)))"

definition fl_store :: "Origin \<Rightarrow> nat \<Rightarrow> fetchResult \<Rightarrow> Origin option" where
  "fl_store og f r =
     (case orHeap og f of None \<Rightarrow> None | Some fl \<Rightarrow> Some (og\<lparr>orHeap := (orHeap og)(f \<mapsto> fl\<lparr>flRes := Some r\<rparr>)\<rparr>))"

definition fl_record :: "instant \<Rightarrow> fetchResult \<Rightarrow> Origin \<Rightarrow> Origin" where
  "fl_record now r og =
     og\<lparr>orCb := (case r of
                  Inl _ \<Rightarrow> RecordFailure now (orCb og)
                | Inr res \<Rightarrow> if rsStatusCode res \<ge> 500 then RecordFailure now (orCb og) else RecordSuccess (orCb og))\<rparr>"

text \<open>\<open>close(f.done)\<close>; closing a closed channel panics.\<close>

definition fl_close :: "Origin \<Rightarrow> nat \<Rightarrow> Origin option" where
  "fl_close og f =
     (case orHeap og f of
        None \<Rightarrow> None
      | Some fl \<Rightarrow> if flDone fl then None else Some (og\<lparr>orHeap := (orHeap og)(f \<mapsto> fl\<lparr>flDone := True\<rparr>)\<rparr>))"

definition fl_delete :: "Origin \<Rightarrow> string \<Rightarrow> Origin" where
  "fl_delete og key = og\<lparr>orFlights := (orFlights og)(key := None)\<rparr>"

text \<open>
  One call of \<open>Fetch\<close>: the result, the requests sent, the new state. \<open>joined\<close> is what waiting for
  another caller's flight gives (its result, the context's error or the timeout).
\<close>

definition origin_Fetch ::
  "netEnv \<Rightarrow> (nat \<Rightarrow> fetchResult) \<Rightarrow> instant \<Rightarrow> instant \<Rightarrow> Origin \<Rightarrow> string \<Rightarrow> string \<Rightarrow> header \<Rightarrow>
   (fetchResult \<times> originReq list \<times> Origin) option" where
  "origin_Fetch net joined now1 now2 og cacheKey originURL rh =
     (let (ok, o1) = fl_admit now1 og
      in if \<not> ok then Some (Inl ErrCircuitOpen, [], o1)
         else let (who, o2) = fl_enter o1 cacheKey
              in case who of
                   Inl f \<Rightarrow> Some (joined f, [], o2)
                 | Inr f \<Rightarrow>
                     let (r, sent) = doFetch net o2 originURL rh
                     in do {
                          o3 \<leftarrow> fl_store o2 f r;
                          o4 \<leftarrow> fl_close (fl_record now2 r o3) f;
                          Some (r, sent, fl_delete o4 cacheKey)
                        })"

section \<open>Concurrent callers\<close>

datatype opc =
    OIdle
  | OAdmitted string string header
  | OFetching string nat string header
  | ORecording string nat fetchResult
  | OClosing string nat fetchResult
  | ORemoving string nat fetchResult
  | OWaiting nat
  | OReturned "nat option" fetchResult
  | OPanicked

record originSys =
  osOrigin :: Origin
  osPc :: "nat \<Rightarrow> opc"

definition os_go :: "originSys \<Rightarrow> nat \<Rightarrow> opc \<Rightarrow> Origin \<Rightarrow> originSys" where
  "os_go s t pc og = s\<lparr>osOrigin := og, osPc := (osPc s)(t := pc)\<rparr>"

definition os_try :: "originSys \<Rightarrow> nat \<Rightarrow> opc \<Rightarrow> Origin option \<Rightarrow> originSys" where
  "os_try s t pc r = (case r of None \<Rightarrow> os_go s t OPanicked (osOrigin s) | Some og \<Rightarrow> os_go s t pc og)"

inductive origin_init :: "originSys \<Rightarrow> bool" where
  "origin_init \<lparr>osOrigin = origin_New opts, osPc = (\<lambda>_. OIdle)\<rparr>"

inductive origin_step :: "originSys \<Rightarrow> originSys \<Rightarrow> bool" where
  refused: "osPc s t = OIdle \<Longrightarrow> fl_admit now (osOrigin s) = (False, og) \<Longrightarrow>
     origin_step s (os_go s t (OReturned None (Inl ErrCircuitOpen)) og)"
| admitted: "osPc s t = OIdle \<Longrightarrow> fl_admit now (osOrigin s) = (True, og) \<Longrightarrow>
     origin_step s (os_go s t (OAdmitted key url hdr) og)"
| join: "osPc s t = OAdmitted key url hdr \<Longrightarrow> fl_enter (osOrigin s) key = (Inl f, og) \<Longrightarrow>
     origin_step s (os_go s t (OWaiting f) og)"
| lead: "osPc s t = OAdmitted key url hdr \<Longrightarrow> fl_enter (osOrigin s) key = (Inr f, og) \<Longrightarrow>
     origin_step s (os_go s t (OFetching key f url hdr) og)"
| fetch: "osPc s t = OFetching key f url hdr \<Longrightarrow> doFetch net (osOrigin s) url hdr = (r, sent) \<Longrightarrow>
     origin_step s (os_try s t (ORecording key f r) (fl_store (osOrigin s) f r))"
| book: "osPc s t = ORecording key f r \<Longrightarrow>
     origin_step s (os_go s t (OClosing key f r) (fl_record now r (osOrigin s)))"
| close: "osPc s t = OClosing key f r \<Longrightarrow>
     origin_step s (os_try s t (ORemoving key f r) (fl_close (osOrigin s) f))"
| remove: "osPc s t = ORemoving key f r \<Longrightarrow>
     origin_step s (os_go s t (OReturned (Some f) r) (fl_delete (osOrigin s) key))"
| result: "osPc s t = OWaiting f \<Longrightarrow> orHeap (osOrigin s) f = Some fl \<Longrightarrow> flDone fl \<Longrightarrow> flRes fl = Some r \<Longrightarrow>
     origin_step s (os_go s t (OReturned (Some f) r) (osOrigin s))"
| nothing: "osPc s t = OWaiting f \<Longrightarrow> orHeap (osOrigin s) f = Some fl \<Longrightarrow> flDone fl \<Longrightarrow> flRes fl = None \<Longrightarrow>
     origin_step s (os_go s t OPanicked (osOrigin s))"
| cancelled: "osPc s t = OWaiting f \<Longrightarrow>
     origin_step s (os_go s t (OReturned None (Inl ErrContext)) (osOrigin s))"
| timed_out: "osPc s t = OWaiting f \<Longrightarrow>
     origin_step s (os_go s t (OReturned None (Inl ErrCoalesceTimeout)) (osOrigin s))"

inductive_cases origin_stepE: "origin_step s s'"

text \<open>The flight a caller is responsible for, and how far it has brought it.\<close>

fun leads :: "opc \<Rightarrow> (string \<times> nat) option" where
  "leads (OFetching key f url hdr) = Some (key, f)"
| "leads (ORecording key f r) = Some (key, f)"
| "leads (OClosing key f r) = Some (key, f)"
| "leads (ORemoving key f r) = Some (key, f)"
| "leads pc = None"

fun stage_ok :: "opc \<Rightarrow> flight \<Rightarrow> bool" where
  "stage_ok (OFetching key f url hdr) fl = (\<not> flDone fl)"
| "stage_ok (ORecording key f r) fl = (\<not> flDone fl \<and> flRes fl = Some r)"
| "stage_ok (OClosing key f r) fl = (\<not> flDone fl \<and> flRes fl = Some r)"
| "stage_ok (ORemoving key f r) fl = (flDone fl \<and> flRes fl = Some r)"
| "stage_ok pc fl = True"

definition origin_inv :: "originSys \<Rightarrow> bool" where
  "origin_inv s \<longleftrightarrow>
     (let og = osOrigin s; pc = osPc s in
      (\<forall>t key f. leads (pc t) = Some (key, f) \<longrightarrow>
         orFlights og key = Some f \<and> (\<exists>fl. orHeap og f = Some fl \<and> stage_ok (pc t) fl)) \<and>
      (\<forall>t t' key key' f. leads (pc t) = Some (key, f) \<and> leads (pc t') = Some (key', f) \<longrightarrow> t = t') \<and>
      (\<forall>key f. orFlights og key = Some f \<longrightarrow> (\<exists>t. leads (pc t) = Some (key, f))) \<and>
      (\<forall>f fl. orHeap og f = Some fl \<longrightarrow> f < orNext og \<and> (flDone fl \<longrightarrow> flRes fl \<noteq> None) \<and>
         (\<not> flDone fl \<longrightarrow> (\<exists>t key. leads (pc t) = Some (key, f)))) \<and>
      (\<forall>t f. pc t = OWaiting f \<longrightarrow> orHeap og f \<noteq> None) \<and>
      (\<forall>t f r. pc t = OReturned (Some f) r \<longrightarrow> (\<exists>fl. orHeap og f = Some fl \<and> flDone fl \<and> flRes fl = Some r)) \<and>
      (\<forall>t. pc t \<noteq> OPanicked))"


section \<open>The invariant holds in every reachable state\<close>

lemma os_go_fields [simp]:
  "osOrigin (os_go s t pc og) = og" "osPc (os_go s t pc og) = (osPc s)(t := pc)"
  by (simp_all add: os_go_def)

lemma os_try_Some [simp]: "os_try s t pc (Some og) = os_go s t pc og"
  by (simp add: os_try_def)

lemma fl_admit_frame:
  "fl_admit now og = (ok, og') \<Longrightarrow>
   orFlights og' = orFlights og \<and> orHeap og' = orHeap og \<and> orNext og' = orNext og"
  by (auto simp: fl_admit_def split: prod.splits)

lemma fl_record_frame [simp]:
  "orFlights (fl_record now r og) = orFlights og" "orHeap (fl_record now r og) = orHeap og"
  "orNext (fl_record now r og) = orNext og"
  by (simp_all add: fl_record_def)

lemma origin_inv_init: "origin_init s \<Longrightarrow> origin_inv s"
  by (erule origin_init.cases) (simp add: origin_inv_def origin_New_def)

lemma origin_invI:
  assumes "\<And>t key f. leads (osPc s t) = Some (key, f) \<Longrightarrow>
      orFlights (osOrigin s) key = Some f \<and> (\<exists>fl. orHeap (osOrigin s) f = Some fl \<and> stage_ok (osPc s t) fl)"
    and "\<And>t t' key key' f. leads (osPc s t) = Some (key, f) \<Longrightarrow> leads (osPc s t') = Some (key', f) \<Longrightarrow> t = t'"
    and "\<And>key f. orFlights (osOrigin s) key = Some f \<Longrightarrow> \<exists>t. leads (osPc s t) = Some (key, f)"
    and "\<And>f fl. orHeap (osOrigin s) f = Some fl \<Longrightarrow> f < orNext (osOrigin s) \<and> (flDone fl \<longrightarrow> flRes fl \<noteq> None) \<and>
      (\<not> flDone fl \<longrightarrow> (\<exists>t key. leads (osPc s t) = Some (key, f)))"
    and "\<And>t f. osPc s t = OWaiting f \<Longrightarrow> orHeap (osOrigin s) f \<noteq> None"
    and "\<And>t f r. osPc s t = OReturned (Some f) r \<Longrightarrow>
      \<exists>fl. orHeap (osOrigin s) f = Some fl \<and> flDone fl \<and> flRes fl = Some r"
    and "\<And>t. osPc s t \<noteq> OPanicked"
  shows "origin_inv s"
  unfolding origin_inv_def Let_def using assms by (intro conjI allI impI) blast+

lemma origin_invD:
  assumes "origin_inv s"
  shows "leads (osPc s t) = Some (key, f) \<Longrightarrow>
      orFlights (osOrigin s) key = Some f \<and> (\<exists>fl. orHeap (osOrigin s) f = Some fl \<and> stage_ok (osPc s t) fl)"
    and "leads (osPc s t) = Some (key, f) \<Longrightarrow> leads (osPc s t') = Some (key', f) \<Longrightarrow> t = t'"
    and "orFlights (osOrigin s) key = Some f \<Longrightarrow> \<exists>t. leads (osPc s t) = Some (key, f)"
    and "orHeap (osOrigin s) f = Some fl \<Longrightarrow> f < orNext (osOrigin s) \<and> (flDone fl \<longrightarrow> flRes fl \<noteq> None) \<and>
      (\<not> flDone fl \<longrightarrow> (\<exists>t key. leads (osPc s t) = Some (key, f)))"
    and "osPc s t = OWaiting f \<Longrightarrow> orHeap (osOrigin s) f \<noteq> None"
    and "osPc s t = OReturned (Some f) r \<Longrightarrow>
      \<exists>fl. orHeap (osOrigin s) f = Some fl \<and> flDone fl \<and> flRes fl = Some r"
    and "osPc s t \<noteq> OPanicked"
  using assms unfolding origin_inv_def Let_def by blast+

text \<open>A step in which the caller leads no flight, before and after, and the flight table stays.\<close>

lemma origin_inv_bystander:
  assumes inv: "origin_inv s" and lead: "leads (osPc s t) = None" "leads pc = None"
    and same: "orFlights og = orFlights (osOrigin s)" "orHeap og = orHeap (osOrigin s)" "orNext og = orNext (osOrigin s)"
    and pc: "pc \<noteq> OPanicked" "\<And>f. pc = OWaiting f \<Longrightarrow> orHeap og f \<noteq> None"
      "\<And>f r. pc = OReturned (Some f) r \<Longrightarrow> \<exists>fl. orHeap og f = Some fl \<and> flDone fl \<and> flRes fl = Some r"
  shows "origin_inv (os_go s t pc og)"
proof (rule origin_invI, unfold os_go_fields same)
  note D = origin_invD [OF inv]
  have l: "leads (((osPc s)(t := pc)) u) = leads (osPc s u)" for u using lead by simp
  show "orFlights (osOrigin s) key = Some f \<and>
      (\<exists>fl. orHeap (osOrigin s) f = Some fl \<and> stage_ok (((osPc s)(t := pc)) u) fl)"
    if "leads (((osPc s)(t := pc)) u) = Some (key, f)" for u key f
    using D(1) [of u key f] that lead by (auto split: if_splits)
  show "u = u'" if "leads (((osPc s)(t := pc)) u) = Some (key, f)" "leads (((osPc s)(t := pc)) u') = Some (key', f)" for u u' key key' f
    using D(2) that unfolding l by blast
  show "\<exists>u. leads (((osPc s)(t := pc)) u) = Some (key, f)" if "orFlights (osOrigin s) key = Some f" for key f
    using D(3) that unfolding l by blast
  show "f < orNext (osOrigin s) \<and> (flDone fl \<longrightarrow> flRes fl \<noteq> None) \<and>
      (\<not> flDone fl \<longrightarrow> (\<exists>u key. leads (((osPc s)(t := pc)) u) = Some (key, f)))"
    if "orHeap (osOrigin s) f = Some fl" for f fl using D(4) that unfolding l by blast
  show "orHeap (osOrigin s) f \<noteq> None" if "((osPc s)(t := pc)) u = OWaiting f" for u f
    using that D(5) [of u f] pc(2) [of f] same by (auto split: if_splits)
  show "\<exists>fl. orHeap (osOrigin s) f = Some fl \<and> flDone fl \<and> flRes fl = Some r"
    if "((osPc s)(t := pc)) u = OReturned (Some f) r" for u f r
    using that D(6) [of u f r] pc(3) [of f r] same by (auto split: if_splits)
  show "((osPc s)(t := pc)) u \<noteq> OPanicked" for u using D(7) [of u] pc(1) by simp
qed

text \<open>A step in which the caller moves its own flight on.\<close>

lemma origin_inv_leader:
  assumes inv: "origin_inv s" and lead: "leads (osPc s t) = Some (key, f)" "leads pc = Some (key, f)"
    and same: "orFlights og = orFlights (osOrigin s)" "orHeap og = (orHeap (osOrigin s))(f \<mapsto> fl)" "orNext og = orNext (osOrigin s)"
    and stage: "stage_ok pc fl" "flDone fl \<longrightarrow> flRes fl \<noteq> None"
    and undone: "\<And>fl0. orHeap (osOrigin s) f = Some fl0 \<Longrightarrow> \<not> flDone fl0"
  shows "origin_inv (os_go s t pc og)"
proof (rule origin_invI, unfold os_go_fields same)
  note D = origin_invD [OF inv]
  have l: "leads (((osPc s)(t := pc)) u) = leads (osPc s u)" for u using lead by simp
  have other: "u = t" if "leads (osPc s u) = Some (k, f)" for u k using D(2) [OF that lead(1)] .
  have lt: "f < orNext (osOrigin s)" using D(1) [OF lead(1)] D(4) by blast
  show "orFlights (osOrigin s) k = Some g \<and>
      (\<exists>x. ((orHeap (osOrigin s))(f \<mapsto> fl)) g = Some x \<and> stage_ok (((osPc s)(t := pc)) u) x)"
    if "leads (((osPc s)(t := pc)) u) = Some (k, g)" for u k g
  proof (cases "u = t")
    case True
    with that lead have "k = key" "g = f" by auto
    with True D(1) [OF lead(1)] stage(1) show ?thesis by simp
  next
    case False
    with that have u: "leads (osPc s u) = Some (k, g)" by simp
    with other False have "g \<noteq> f" by blast
    with D(1) [OF u] False show ?thesis by simp
  qed
  show "u = u'" if "leads (((osPc s)(t := pc)) u) = Some (k, g)" "leads (((osPc s)(t := pc)) u') = Some (k', g)" for u u' k k' g
    using D(2) that unfolding l by blast
  show "\<exists>u. leads (((osPc s)(t := pc)) u) = Some (k, g)" if "orFlights (osOrigin s) k = Some g" for k g
    using D(3) that unfolding l by blast
  show "g < orNext (osOrigin s) \<and> (flDone x \<longrightarrow> flRes x \<noteq> None) \<and>
      (\<not> flDone x \<longrightarrow> (\<exists>u k. leads (((osPc s)(t := pc)) u) = Some (k, g)))"
    if "((orHeap (osOrigin s))(f \<mapsto> fl)) g = Some x" for g x
    using that D(4) [of g x] stage(2) lt lead(1) unfolding l by (cases "g = f") auto
  show "((orHeap (osOrigin s))(f \<mapsto> fl)) g \<noteq> None" if "((osPc s)(t := pc)) u = OWaiting g" for u g
    using that D(5) [of u g] lead(2) by (auto split: if_splits)
  show "\<exists>x. ((orHeap (osOrigin s))(f \<mapsto> fl)) g = Some x \<and> flDone x \<and> flRes x = Some r"
    if "((osPc s)(t := pc)) u = OReturned (Some g) r" for u g r
  proof -
    have "u \<noteq> t" using that lead(2) by auto
    with that D(6) [of u g r] undone show ?thesis by auto
  qed
  show "((osPc s)(t := pc)) u \<noteq> OPanicked" for u using D(7) [of u] lead(2) by auto
qed

text \<open>A caller opens a flight, and a caller removes its finished flight.\<close>

lemma origin_inv_open:
  assumes inv: "origin_inv s" and pc: "osPc s t = OAdmitted key url hdr" and none: "orFlights (osOrigin s) key = None"
    and og: "og = (osOrigin s)\<lparr>orFlights := (orFlights (osOrigin s))(key \<mapsto> orNext (osOrigin s)),
      orHeap := (orHeap (osOrigin s))(orNext (osOrigin s) \<mapsto> \<lparr>flDone = False, flRes = None\<rparr>),
      orNext := Suc (orNext (osOrigin s))\<rparr>"
  shows "origin_inv (os_go s t (OFetching key (orNext (osOrigin s)) url hdr) og)"
proof (rule origin_invI, unfold os_go_fields)
  note D = origin_invD [OF inv]
  let ?n = "orNext (osOrigin s)" and ?pc = "(osPc s)(t := OFetching key (orNext (osOrigin s)) url hdr)"
  have fresh: "orHeap (osOrigin s) ?n = None" using D(4) [of ?n] by (cases "orHeap (osOrigin s) ?n") auto
  have old: "k \<noteq> key \<and> f \<noteq> ?n \<and> u \<noteq> t" if "leads (osPc s u) = Some (k, f)" for u k f
    using D(1) [OF that] none fresh that pc by auto
  show "orFlights og k = Some f \<and> (\<exists>fl. orHeap og f = Some fl \<and> stage_ok (?pc u) fl)"
    if "leads (?pc u) = Some (k, f)" for u k f
  proof (cases "u = t")
    case True
    with that show ?thesis by (auto simp: og)
  next
    case False
    with that have u: "leads (osPc s u) = Some (k, f)" by simp
    with old [OF u] D(1) [OF u] False show ?thesis by (simp add: og)
  qed
  show "u = u'" if "leads (?pc u) = Some (k, f)" "leads (?pc u') = Some (k', f)" for u u' k k' f
    using that old [of u k f] old [of u' k' f] D(2) [of u k f u' k'] by (auto split: if_splits)
  show "\<exists>u. leads (?pc u) = Some (k, f)" if "orFlights og k = Some f" for k f
  proof (cases "k = key")
    case True
    with that have "leads (?pc t) = Some (k, f)" by (simp add: og)
    then show ?thesis ..
  next
    case False
    with that D(3) [of k f] obtain u where u: "leads (osPc s u) = Some (k, f)" by (auto simp: og)
    then have "leads (?pc u) = Some (k, f)" using old by auto
    then show ?thesis ..
  qed
  show "f < orNext og \<and> (flDone fl \<longrightarrow> flRes fl \<noteq> None) \<and> (\<not> flDone fl \<longrightarrow> (\<exists>u k. leads (?pc u) = Some (k, f)))"
    if "orHeap og f = Some fl" for f fl
  proof (cases "f = ?n")
    case True
    then have "leads (?pc t) = Some (key, f)" by simp
    with True that show ?thesis by (auto simp: og)
  next
    case False
    with that D(4) [of f fl] have *: "f < ?n" "flDone fl \<longrightarrow> flRes fl \<noteq> None"
      "\<not> flDone fl \<Longrightarrow> \<exists>u k. leads (osPc s u) = Some (k, f)" by (auto simp: og)
    have "\<exists>u k. leads (?pc u) = Some (k, f)" if "\<not> flDone fl"
      using *(3) [OF that] old by (metis fun_upd_apply)
    with * show ?thesis by (auto simp: og)
  qed
  show "orHeap og f \<noteq> None" if "?pc u = OWaiting f" for u f
    using that D(5) [of u f] by (auto simp: og split: if_splits)
  show "\<exists>fl. orHeap og f = Some fl \<and> flDone fl \<and> flRes fl = Some r" if "?pc u = OReturned (Some f) r" for u f r
    using that D(6) [of u f r] fresh by (auto simp: og split: if_splits)
  show "?pc u \<noteq> OPanicked" for u using D(7) [of u] by simp
qed

lemma origin_inv_remove:
  assumes inv: "origin_inv s" and pc: "osPc s t = ORemoving key f r"
  shows "origin_inv (os_go s t (OReturned (Some f) r) (fl_delete (osOrigin s) key))"
proof (rule origin_invI, unfold os_go_fields)
  note D = origin_invD [OF inv]
  let ?pc = "(osPc s)(t := OReturned (Some f) r)" and ?og = "fl_delete (osOrigin s) key"
  have lead: "leads (osPc s t) = Some (key, f)" using pc by simp
  have mine: "orFlights (osOrigin s) key = Some f" "\<exists>fl. orHeap (osOrigin s) f = Some fl \<and> flDone fl \<and> flRes fl = Some r"
    using D(1) [OF lead] pc by auto
  have heap: "orHeap ?og = orHeap (osOrigin s)" "orNext ?og = orNext (osOrigin s)" by (simp_all add: fl_delete_def)
  have others: "k \<noteq> key \<and> g \<noteq> f" if "leads (osPc s u) = Some (k, g)" "u \<noteq> t" for u k g
    using D(1) [OF that(1)] mine(1) D(2) [OF that(1), of t] lead that by auto
  have lp: "leads (?pc u) = Some (k, g) \<longleftrightarrow> leads (osPc s u) = Some (k, g) \<and> u \<noteq> t" for u k g by auto
  show "orFlights ?og k = Some g \<and> (\<exists>fl. orHeap ?og g = Some fl \<and> stage_ok (?pc u) fl)"
    if "leads (?pc u) = Some (k, g)" for u k g
    using that D(1) [of u k g] others [of u k g] unfolding lp by (auto simp: fl_delete_def)
  show "u = u'" if "leads (?pc u) = Some (k, g)" "leads (?pc u') = Some (k', g)" for u u' k k' g
    using that D(2) [of u k g u' k'] unfolding lp by blast
  show "\<exists>u. leads (?pc u) = Some (k, g)" if "orFlights ?og k = Some g" for k g
  proof -
    have k: "k \<noteq> key" "orFlights (osOrigin s) k = Some g" using that by (auto simp: fl_delete_def split: if_splits)
    from D(3) [OF k(2)] obtain u where "leads (osPc s u) = Some (k, g)" by blast
    then have "leads (?pc u) = Some (k, g)" unfolding lp using lead k(1) by auto
    then show ?thesis ..
  qed
  show "g < orNext ?og \<and> (flDone fl \<longrightarrow> flRes fl \<noteq> None) \<and> (\<not> flDone fl \<longrightarrow> (\<exists>u k. leads (?pc u) = Some (k, g)))"
    if h: "orHeap ?og g = Some fl" for g fl
  proof -
    from h D(4) [of g fl] have *: "g < orNext (osOrigin s)" "flDone fl \<longrightarrow> flRes fl \<noteq> None"
      "\<not> flDone fl \<Longrightarrow> \<exists>u k. leads (osPc s u) = Some (k, g)" by (auto simp: heap)
    have "\<exists>u k. leads (?pc u) = Some (k, g)" if "\<not> flDone fl"
    proof -
      have "g \<noteq> f" using that h mine(2) by (auto simp: heap)
      with *(3) [OF that] lead show ?thesis unfolding lp by auto
    qed
    with * show ?thesis by (auto simp: heap)
  qed
  show "orHeap ?og g \<noteq> None" if "?pc u = OWaiting g" for u g
    using that D(5) [of u g] by (auto simp: heap split: if_splits)
  show "\<exists>fl. orHeap ?og g = Some fl \<and> flDone fl \<and> flRes fl = Some r'" if "?pc u = OReturned (Some g) r'" for u g r'
    using that D(6) [of u g r'] mine(2) by (auto simp: heap split: if_splits)
  show "?pc u \<noteq> OPanicked" for u using D(7) [of u] by simp
qed

lemma origin_inv_step:
  assumes inv: "origin_inv s" and step: "origin_step s s'"
  shows "origin_inv s'"
  using step
proof (cases rule: origin_step.cases)
  case (refused t now og)
  then show ?thesis using fl_admit_frame [OF refused(3)] by (auto intro!: origin_inv_bystander [OF inv])
next
  case (admitted t now og key url hdr)
  then show ?thesis using fl_admit_frame [OF admitted(3)] by (auto intro!: origin_inv_bystander [OF inv])
next
  case (join t key url hdr f og)
  then have "og = osOrigin s" "orFlights (osOrigin s) key = Some f" by (auto simp: fl_enter_def Let_def split: option.splits)
  with join origin_invD(1,3) [OF inv] show ?thesis by (auto intro!: origin_inv_bystander [OF inv]) (metis option.distinct(1))
next
  case (lead t key url hdr f og)
  then show ?thesis by (auto simp: fl_enter_def Let_def split: option.splits intro!: origin_inv_open [OF inv])
next
  case (fetch t key f url hdr net r sent)
  with origin_invD(1) [OF inv, of t key f] obtain fl where "orHeap (osOrigin s) f = Some fl" "\<not> flDone fl" by auto
  with fetch show ?thesis by (auto simp: fl_store_def intro!: origin_inv_leader [OF inv, of t key f])
next
  case (book t key f r now)
  with origin_invD(1) [OF inv, of t key f] obtain fl where "orHeap (osOrigin s) f = Some fl" "\<not> flDone fl" "flRes fl = Some r" by auto
  with book show ?thesis by (auto simp: fun_upd_idem intro!: origin_inv_leader [OF inv, of t key f])
next
  case (close t key f r)
  with origin_invD(1) [OF inv, of t key f] obtain fl where "orHeap (osOrigin s) f = Some fl" "\<not> flDone fl" "flRes fl = Some r" by auto
  with close show ?thesis by (auto simp: fl_close_def intro!: origin_inv_leader [OF inv, of t key f])
next
  case (remove t key f r)
  then show ?thesis using origin_inv_remove [OF inv] by simp
next
  case (nothing t f fl)
  with origin_invD(4) [OF inv, of f fl] show ?thesis by simp
qed (auto intro!: origin_inv_bystander [OF inv])

interpretation flights: invariant_system origin_init origin_step origin_inv
  by unfold_locales (auto intro: origin_inv_init origin_inv_step)

section \<open>What a request carries and what a fetch returns\<close>

lemma header_values_forward:
  "header_values (forward_header rh h out) k \<noteq> [] \<Longrightarrow> header_values out k \<noteq> [] \<or> k = CanonicalHeaderKey h"
  by (auto simp: forward_header_def Let_def split: if_splits)

lemma header_values_forwards:
  "header_values (fold (forward_header rh) hs out) k \<noteq> [] \<Longrightarrow>
   header_values out k \<noteq> [] \<or> k \<in> CanonicalHeaderKey ` set hs"
proof (induction hs arbitrary: out)
  case (Cons h hs)
  from Cons.prems have "header_values (fold (forward_header rh) hs (forward_header rh h out)) k \<noteq> []" by simp
  from Cons.IH [OF this] header_values_forward [of rh h out k] show ?case by auto
qed simp

lemma canonical_request_keys:
  "CanonicalHeaderKey ''Accept'' = ''Accept''" "CanonicalHeaderKey ''Accept-Encoding'' = ''Accept-Encoding''"
  "CanonicalHeaderKey ''Accept-Language'' = ''Accept-Language''" "CanonicalHeaderKey ''Range'' = ''Range''"
  "CanonicalHeaderKey ''X-Forwarded-For'' = ''X-Forwarded-For''" "CanonicalHeaderKey ''User-Agent'' = ''User-Agent''"
  by code_simp+

lemma build_request_headers:
  "header_values (oqHeader (build_request og url rh)) k \<noteq> [] \<Longrightarrow>
   k \<in> {''Accept'', ''Accept-Encoding'', ''Accept-Language'', ''Range'', ''X-Forwarded-For'', ''User-Agent''}"
  using header_values_forward [of rh "''X-Forwarded-For''" "fold (forward_header rh) forwardHeaders []" k]
    header_values_forwards [of rh forwardHeaders "[]" k]
  by (auto simp: build_request_def Let_def canonical_request_keys forwardHeaders_def split: if_splits)

lemma doFetch_sent: "req \<in> set (snd (doFetch net og url rh)) \<Longrightarrow> req = build_request og url rh"
  by (auto simp: doFetch_def Let_def split: if_splits)

lemma doFetch_fields:
  "orMaxBodyBytes og = orMaxBodyBytes og' \<Longrightarrow> orHostOverride og = orHostOverride og' \<Longrightarrow>
   doFetch net og url rh = doFetch net og' url rh"
proof -
  assume eq: "orMaxBodyBytes og = orMaxBodyBytes og'" "orHostOverride og = orHostOverride og'"
  then have "max_body og = max_body og'" by (simp add: max_body_def)
  moreover from eq have "build_request og url rh = build_request og' url rh" by (simp add: build_request_def)
  ultimately show ?thesis by (simp only: doFetch_def)
qed

lemma origin_Fetch_result:
  assumes "orFlights og key = None"
  shows "\<exists>r sent og'. origin_Fetch net joined now1 now2 og key url rh = Some (r, sent, og') \<and>
     (\<not> fst (Allow now1 (orCb og)) \<longrightarrow> r = Inl ErrCircuitOpen \<and> sent = [] \<and> og' = og) \<and>
     (fst (Allow now1 (orCb og)) \<longrightarrow>
        (r, sent) = doFetch net og url rh \<and> length sent \<le> 1 \<and> orFlights og' = orFlights og \<and>
        orCb og' = (if \<exists>res. r = Inr res \<and> rsStatusCode res < 500 then RecordSuccess (snd (Allow now1 (orCb og)))
                    else RecordFailure now2 (snd (Allow now1 (orCb og)))))"
proof (cases "fst (Allow now1 (orCb og))")
  case False
  then have "Allow now1 (orCb og) = (False, orCb og)" by (auto simp: Allow_def split: if_splits)
  then show ?thesis by (simp add: origin_Fetch_def fl_admit_def)
next
  case True
  then obtain cb where cb: "Allow now1 (orCb og) = (True, cb)" by (cases "Allow now1 (orCb og)") auto
  obtain r sent where f: "doFetch net og url rh = (r, sent)" by (cases "doFetch net og url rh")
  let ?o1 = "og\<lparr>orCb := cb\<rparr>" and ?n = "orNext og"
  let ?o2 = "?o1\<lparr>orFlights := (orFlights og)(key \<mapsto> ?n), orHeap := (orHeap og)(?n \<mapsto> \<lparr>flDone = False, flRes = None\<rparr>),
    orNext := Suc ?n\<rparr>"
  have admit: "fl_admit now1 og = (True, ?o1)" by (simp add: fl_admit_def cb)
  have enter: "fl_enter ?o1 key = (Inr ?n, ?o2)" using assms by (simp add: fl_enter_def Let_def)
  have fetch: "doFetch net ?o2 url rh = (r, sent)" using f doFetch_fields [of ?o2 og] by simp
  obtain o3 where o3: "fl_store ?o2 ?n r = Some o3" "orHeap o3 ?n = Some \<lparr>flDone = False, flRes = Some r\<rparr>"
      "orFlights o3 = (orFlights og)(key \<mapsto> ?n)" "orCb o3 = cb" by (simp add: fl_store_def)
  then obtain o4 where o4: "fl_close (fl_record now2 r o3) ?n = Some o4" "orFlights o4 = (orFlights og)(key \<mapsto> ?n)"
      "orCb o4 = orCb (fl_record now2 r o3)" by (simp add: fl_close_def)
  have call: "origin_Fetch net joined now1 now2 og key url rh = Some (r, sent, fl_delete o4 key)"
    using admit enter fetch o3(1) o4(1) by (simp add: origin_Fetch_def)
  have "length sent \<le> 1" using f by (auto simp: doFetch_def Let_def split: if_splits)
  moreover have "orFlights (fl_delete o4 key) = orFlights og" using assms o4(2) by (auto simp: fl_delete_def)
  moreover have "orCb (fl_delete o4 key) =
      (if \<exists>res. r = Inr res \<and> rsStatusCode res < 500 then RecordSuccess cb else RecordFailure now2 cb)"
    using o4(3) o3(4) by (auto simp: fl_delete_def fl_record_def split: sum.splits)
  ultimately show ?thesis using call f cb by auto
qed

section \<open>Properties\<close>

text \<open>
  C20. Single flight: in every interleaving of any number of callers no panic occurs, at most one
  caller is fetching for a key, a caller that waits waits for a flight that is finished or is
  still being flown by someone, and callers that return from the same flight return the same
  result.
\<close>

theorem origin_single_flight:
  assumes "reachable origin_init origin_step s"
  shows "(\<forall>t. osPc s t \<noteq> OPanicked) \<and>
         (\<forall>t t' key f f'. leads (osPc s t) = Some (key, f) \<and> leads (osPc s t') = Some (key, f') \<longrightarrow> t = t') \<and>
         (\<forall>t f. osPc s t = OWaiting f \<longrightarrow> (\<exists>fl. orHeap (osOrigin s) f = Some fl \<and>
            (flDone fl \<and> flRes fl \<noteq> None \<or> (\<exists>t' key. leads (osPc s t') = Some (key, f))))) \<and>
         (\<forall>t t' f r r'. osPc s t = OReturned (Some f) r \<and> osPc s t' = OReturned (Some f) r' \<longrightarrow> r = r')"
proof -
  have inv: "origin_inv s" using assms by (rule flights.reachable_inv)
  note D = origin_invD [OF inv]
  have "t = t'" if "leads (osPc s t) = Some (key, f)" "leads (osPc s t') = Some (key, f')" for t t' key f f'
  proof -
    have "f = f'" using D(1) [OF that(1)] D(1) [OF that(2)] by simp
    with that D(2) show ?thesis by blast
  qed
  moreover have "\<exists>fl. orHeap (osOrigin s) f = Some fl \<and>
      (flDone fl \<and> flRes fl \<noteq> None \<or> (\<exists>t' key. leads (osPc s t') = Some (key, f)))" if "osPc s t = OWaiting f" for t f
    using D(5) [OF that] D(4) [of f] by blast
  moreover have "r = r'" if "osPc s t = OReturned (Some f) r" "osPc s t' = OReturned (Some f) r'" for t t' f r r'
    using D(6) [OF that(1)] D(6) [OF that(2)] by auto
  ultimately show ?thesis using D(7) by blast
qed

definition demo_origin :: Origin where
  "demo_origin = origin_New \<lparr>ooTimeout = second, ooCoalesceTimeout = second, ooMaxBodyBytes = 4, ooHostOverride = [],
     ooMaxIdleConnsPerHost = 0\<rparr>"

definition demo_osys :: originSys where
  "demo_osys = \<lparr>osOrigin = demo_origin, osPc = (\<lambda>_. OIdle)\<rparr>"

lemmas origin_reach = reachable.step [of origin_init origin_step]

lemma demo_admit: "fl_admit 0 demo_origin = (True, demo_origin)"
  by (simp add: fl_admit_def demo_origin_def origin_New_def Allow_def NewCircuitBreaker_def)

theorem origin_single_flight_witness:
  "\<exists>s :: originSys. osPc s 0 = OFetching ''k'' 0 ''u'' [] \<and> osPc s 2 = OWaiting 0 \<and>
       (\<exists>fl. orHeap (osOrigin s) 0 = Some fl \<and> (flDone fl \<and> flRes fl \<noteq> None \<or> (\<exists>t' key. leads (osPc s t') = Some (key, 0))))"
proof -
  let ?s1 = "os_go demo_osys 0 (OAdmitted ''k'' ''u'' []) demo_origin"
  let ?s2 = "os_go ?s1 2 (OAdmitted ''k'' ''u'' []) demo_origin"
  let ?o = "snd (fl_enter demo_origin ''k'')"
  let ?s3 = "os_go ?s2 0 (OFetching ''k'' 0 ''u'' []) ?o"
  let ?s4 = "os_go ?s3 2 (OWaiting 0) ?o"
  have enter: "fl_enter demo_origin ''k'' = (Inr 0, ?o)" "fl_enter ?o ''k'' = (Inl 0, ?o)"
    by (simp_all add: fl_enter_def demo_origin_def origin_New_def Let_def)
  have r0: "reachable origin_init origin_step demo_osys"
    unfolding demo_osys_def demo_origin_def by (intro reachable.start origin_init.intros)
  have "origin_step demo_osys ?s1"
    using demo_admit by (intro origin_step.admitted [where now = 0]) (simp_all add: demo_osys_def)
  note r1 = origin_reach [OF r0 this]
  have "origin_step ?s1 ?s2" using demo_admit by (intro origin_step.admitted [where now = 0]) (simp_all add: demo_osys_def)
  note r2 = origin_reach [OF r1 this]
  have "origin_step ?s2 ?s3" using enter by (intro origin_step.lead) simp_all
  note r3 = origin_reach [OF r2 this]
  have "origin_step ?s3 ?s4" using enter by (intro origin_step.join) simp_all
  with r3 have "reachable origin_init origin_step ?s4" by (rule origin_reach)
  note waits = origin_single_flight [OF this, THEN conjunct2, THEN conjunct2, THEN conjunct1, rule_format, of 2 0]
  have pc: "osPc ?s4 0 = OFetching ''k'' 0 ''u'' []" "osPc ?s4 2 = OWaiting 0" by simp_all
  from pc(2) have "\<exists>fl. orHeap (osOrigin ?s4) 0 = Some fl \<and>
      (flDone fl \<and> flRes fl \<noteq> None \<or> (\<exists>t' key. leads (osPc ?s4 t') = Some (key, 0)))" by (rule waits)
  with pc show ?thesis by - (rule exI [of _ ?s4], intro conjI)
qed

text \<open>
  A fetch that joins no other returns, and does what it should: when the breaker refuses, nothing
  is sent and the state stays as it was; otherwise the origin is contacted at most once, the
  caller gets that exchange's result, the flight table is as before, and the breaker books exactly one
  outcome: a success exactly when a response with a status below 500 came back.
\<close>

theorem origin_fetch_correct:
  assumes "orFlights og key = None"
  shows "\<exists>r sent og'. origin_Fetch net joined now1 now2 og key url rh = Some (r, sent, og') \<and>
     (\<not> fst (Allow now1 (orCb og)) \<longrightarrow> r = Inl ErrCircuitOpen \<and> sent = [] \<and> og' = og) \<and>
     (fst (Allow now1 (orCb og)) \<longrightarrow>
        (r, sent) = doFetch net og url rh \<and> length sent \<le> 1 \<and> orFlights og' = orFlights og \<and>
        orCb og' = (if \<exists>res. r = Inr res \<and> rsStatusCode res < 500 then RecordSuccess (snd (Allow now1 (orCb og)))
                    else RecordFailure now2 (snd (Allow now1 (orCb og)))))"
  using assms by (rule origin_Fetch_result)

definition demo_net :: netEnv where
  "demo_net = \<lparr>neBadURL = (\<lambda>_. False), neDo = (\<lambda>_. DoResponse 200 [] \<lparr>nbData = ''abcdef'', nbFails = False\<rparr>)\<rparr>"

theorem origin_fetch_correct_witness:
  "\<exists>sent og'. origin_Fetch demo_net (\<lambda>_. Inl ErrContext) 0 0 demo_origin ''k'' ''u'' [] =
     Some (Inr \<lparr>rsStatusCode = 200, rsHeader = [], rsBody = ''abcd''\<rparr>, sent, og')"
proof -
  have none: "orFlights demo_origin ''k'' = None" by (simp add: demo_origin_def origin_New_def)
  have allow: "fst (Allow 0 (orCb demo_origin))"
    by (simp add: demo_origin_def origin_New_def Allow_def NewCircuitBreaker_def)
  have "fst (doFetch demo_net demo_origin ''u'' []) = Inr \<lparr>rsStatusCode = 200, rsHeader = [], rsBody = ''abcd''\<rparr>"
    by (simp add: doFetch_def demo_net_def demo_origin_def origin_New_def read_limited_def max_body_def Let_def)
  with origin_fetch_correct [OF none, of demo_net "\<lambda>_. Inl ErrContext" 0 0 "''u''" "[]"] allow show ?thesis
    by (metis fst_conv)
qed

text \<open>
  What leaves and what comes back. A request to the origin carries no client header outside the
  six listed names (no cookies, no credentials) and the edge's own user agent. A response body that
  is longer than the limit is not an error: it is cut at the limit and returned with the
  origin's status and header, even when the rest of it would have failed to arrive.
\<close>

theorem origin_request_and_body:
  assumes "\<not> neBadURL net url" and "neDo net (build_request og url rh) = DoResponse status h body"
  shows "(\<forall>req \<in> set (snd (doFetch net og url rh)). header_Get (oqHeader req) ''User-Agent'' = ''CDN-Edge/1.0'' \<and>
            (\<forall>k. header_values (oqHeader req) k \<noteq> [] \<longrightarrow>
               k \<in> {''Accept'', ''Accept-Encoding'', ''Accept-Language'', ''Range'', ''X-Forwarded-For'', ''User-Agent''})) \<and>
         (int (length (nbData body)) > max_body og \<longrightarrow>
            fst (doFetch net og url rh) = Inr \<lparr>rsStatusCode = status, rsHeader = h, rsBody = take (nat (max_body og)) (nbData body)\<rparr>)"
proof -
  have agent: "header_Get (oqHeader (build_request og url rh)) ''User-Agent'' = ''CDN-Edge/1.0''"
    by (simp add: build_request_def Let_def header_Get_Set)
  show ?thesis
  proof (intro conjI ballI allI impI)
    fix req
    assume "req \<in> set (snd (doFetch net og url rh))"
    then have req: "req = build_request og url rh" by (rule doFetch_sent)
    show "header_Get (oqHeader req) ''User-Agent'' = ''CDN-Edge/1.0''" unfolding req by (rule agent)
    show "k \<in> {''Accept'', ''Accept-Encoding'', ''Accept-Language'', ''Range'', ''X-Forwarded-For'', ''User-Agent''}"
      if "header_values (oqHeader req) k \<noteq> []" for k using that unfolding req by (rule build_request_headers)
  next
    assume "int (length (nbData body)) > max_body og"
    with assms show "fst (doFetch net og url rh) =
        Inr \<lparr>rsStatusCode = status, rsHeader = h, rsBody = take (nat (max_body og)) (nbData body)\<rparr>"
      by (simp add: doFetch_def Let_def read_limited_def)
  qed
qed

theorem origin_request_and_body_witness:
  "fst (doFetch demo_net demo_origin ''u'' [(''Cookie'', [''id=7''])]) =
     Inr \<lparr>rsStatusCode = 200, rsHeader = [], rsBody = ''abcd''\<rparr>"
  using origin_request_and_body [of demo_net "''u''" demo_origin "[(''Cookie'', [''id=7''])]" 200 "[]" "\<lparr>nbData = ''abcdef'', nbFails = False\<rparr>"]
  by (simp add: demo_net_def demo_origin_def origin_New_def max_body_def)

end
