(* ===== verification/CacheControl.thy ===== *)
theory CacheControl
  imports Origin
begin

text \<open>
  The pure decisions of \<open>handler/handler.go\<close>: reading \<open>Cache-Control\<close> directives, the time a response
  may be kept, which statuses are cacheable, and which request paths are accepted. The loops that
  cut a header at its commas are recursive functions on the rest of the header.
\<close>

section \<open>Directives\<close>

text \<open>The part before the next comma and what follows it, as both loops compute them.\<close>

definition next_part :: "string \<Rightarrow> string \<times> string" where
  "next_part cc =
     (case strings_IndexByte cc (CHR '','') of
        Some i \<Rightarrow> (take i cc, drop (i + 1) cc)
      | None \<Rightarrow> (cc, []))"

lemma next_part_shorter: "cc \<noteq> [] \<Longrightarrow> length (snd (next_part cc)) < length cc"
  by (auto simp: next_part_def split: option.splits dest: IndexByte_SomeD)

function hasCacheDirective :: "string \<Rightarrow> string \<Rightarrow> bool" where
  "hasCacheDirective cc directive =
     (if cc = [] then False
      else let (part, rest) = next_part cc;
               part = strings_TrimSpace part;
               (key, _, _) = strings_Cut part (CHR ''='');
               key = strings_TrimSpace key
           in if strings_EqualFold key directive then True else hasCacheDirective rest directive)"
  by pat_completeness auto
termination
  by (relation "measure (\<lambda>(cc, d). length cc)") (auto, metis next_part_shorter snd_conv)

function getCacheDirectiveValue :: "string \<Rightarrow> string \<Rightarrow> duration" where
  "getCacheDirectiveValue cc directive =
     (if cc = [] then 0
      else let (part, rest) = next_part cc;
               part = strings_TrimSpace part;
               (key, val, ok) = strings_Cut part (CHR ''='')
           in if ok \<and> strings_EqualFold (strings_TrimSpace key) directive then
                (case strconv_Atoi (strings_TrimSpace val) of
                   Some secs \<Rightarrow> wrap64 (secs * second)
                 | None \<Rightarrow> getCacheDirectiveValue rest directive)
              else getCacheDirectiveValue rest directive)"
  by pat_completeness auto
termination
  by (relation "measure (\<lambda>(cc, d). length cc)") (auto, (metis next_part_shorter snd_conv)+)

declare hasCacheDirective.simps [simp del] getCacheDirectiveValue.simps [simp del]

definition determineTTL :: "duration \<Rightarrow> Response \<Rightarrow> duration \<times> duration" where
  "determineTTL defaultTTL resp =
     (let cc = header_Get (rsHeader resp) ''Cache-Control''
      in if hasCacheDirective cc ''no-store'' \<or> hasCacheDirective cc ''private'' then (0, 0)
         else let swr = getCacheDirectiveValue cc ''stale-while-revalidate'';
                  sma = getCacheDirectiveValue cc ''s-maxage''
              in if sma > 0 then (sma, swr)
                 else let ma = getCacheDirectiveValue cc ''max-age''
                      in if ma > 0 then (ma, swr) else (defaultTTL, swr))"

definition isCacheableStatus :: "int \<Rightarrow> bool" where
  "isCacheableStatus code \<longleftrightarrow> code \<in> {200, 203, 204, 206, 300, 301, 308, 404, 410}"

text \<open>\<open>isValidPath\<close>: rejects path traversal attempts.\<close>

definition isValidPath :: "string \<Rightarrow> bool" where
  "isValidPath p =
     (if \<not> strings_HasPrefix p ''/'' then False
      else if strings_Contains p ''..'' then False
      else let cleaned = path_Clean p
           in if strings_Contains cleaned ''..'' then False else True)"

section \<open>What the header means\<close>

text \<open>The meaning of the header as a list: split at commas, each part a name and perhaps a value.\<close>

definition directive_of :: "string \<Rightarrow> string \<times> string \<times> bool" where
  "directive_of part =
     (case strings_Cut (strings_TrimSpace part) (CHR ''='') of (k, v, ok) \<Rightarrow> (strings_TrimSpace k, strings_TrimSpace v, ok))"

definition cc_names :: "string \<Rightarrow> string list" where
  "cc_names cc = map (\<lambda>p. fst (directive_of p)) (strings_Split cc (CHR '',''))"

definition part_value :: "string \<Rightarrow> string \<Rightarrow> int list" where
  "part_value d p =
     (case directive_of p of (k, v, ok) \<Rightarrow>
        if ok \<and> strings_EqualFold k d then (case strconv_Atoi v of Some s \<Rightarrow> [s] | None \<Rightarrow> []) else [])"

definition cc_values :: "string \<Rightarrow> string \<Rightarrow> int list" where
  "cc_values cc d = concat (map (part_value d) (strings_Split cc (CHR '','')))"

definition first_seconds :: "int list \<Rightarrow> duration" where
  "first_seconds vs = (case vs of [] \<Rightarrow> 0 | s # _ \<Rightarrow> wrap64 (s * second))"

lemma Split_next_part:
  "strings_Split cc (CHR '','') =
     fst (next_part cc) # (if CHR '','' \<in> set cc then strings_Split (snd (next_part cc)) (CHR '','') else [])"
proof (cases "CHR '','' \<in> set cc")
  case True
  then obtain i where i: "strings_IndexByte cc (CHR '','') = Some i" by (metis IndexByte_None option.exhaust)
  then have "cc = take i cc @ CHR '','' # drop (Suc i) cc" "CHR '','' \<notin> set (take i cc)" by (auto dest: IndexByte_SomeD)
  then have "strings_Split cc (CHR '','') = take i cc # strings_Split (drop (Suc i) cc) (CHR '','')" by (metis Split_append)
  with True i show ?thesis by (simp add: next_part_def)
next
  case False
  then show ?thesis by (simp add: next_part_def Split_absent IndexByte_None [THEN iffD2])
qed

lemma next_part_last: "CHR '','' \<notin> set cc \<Longrightarrow> snd (next_part cc) = []"
  by (simp add: next_part_def IndexByte_None [THEN iffD2])

lemma TrimSpace_empty [simp]: "strings_TrimSpace [] = []"
  by (rule TrimSpace_plain) simp

lemma directive_of_empty: "directive_of [] = ([], [], False)"
  by (simp add: directive_of_def)

lemma EqualFold_empty: "strings_EqualFold [] d \<longleftrightarrow> d = []"
  by (cases d) (auto simp: strings_HasPrefix_def)

text \<open>Induction along the loops, and one turn of each on the list of parts.\<close>

lemma parts_induct [case_names empty part]:
  assumes "P []" and "\<And>cc. cc \<noteq> [] \<Longrightarrow> P (snd (next_part cc)) \<Longrightarrow> P cc"
  shows "P cc"
proof (induction cc rule: length_induct)
  case (1 cc)
  then show ?case using assms next_part_shorter by (cases "cc = []") auto
qed

lemma hasCacheDirective_step:
  "cc \<noteq> [] \<Longrightarrow> hasCacheDirective cc d \<longleftrightarrow>
     strings_EqualFold (fst (directive_of (fst (next_part cc)))) d \<or> hasCacheDirective (snd (next_part cc)) d"
  by (subst hasCacheDirective.simps) (simp add: directive_of_def Let_def split: prod.splits)

lemma getCacheDirectiveValue_step:
  "cc \<noteq> [] \<Longrightarrow> getCacheDirectiveValue cc d =
     (case part_value d (fst (next_part cc)) of
        s # _ \<Rightarrow> wrap64 (s * second) | [] \<Rightarrow> getCacheDirectiveValue (snd (next_part cc)) d)"
  by (subst getCacheDirectiveValue.simps)
     (auto simp: directive_of_def part_value_def Let_def simp del: strings_EqualFold.simps split: prod.splits option.splits)

lemma hasCacheDirective_names:
  assumes "d \<noteq> []"
  shows "hasCacheDirective cc d \<longleftrightarrow> (\<exists>k \<in> set (cc_names cc). strings_EqualFold k d)"
proof (induction cc rule: parts_induct)
  case empty
  then show ?case by (simp add: hasCacheDirective.simps cc_names_def directive_of_empty EqualFold_empty assms)
next
  case (part cc)
  have "hasCacheDirective (snd (next_part cc)) d = False" if "CHR '','' \<notin> set cc"
    using that by (simp add: next_part_last hasCacheDirective.simps)
  with part show ?case using Split_next_part [of cc] by (auto simp: hasCacheDirective_step cc_names_def)
qed

lemma getCacheDirectiveValue_values: "getCacheDirectiveValue cc d = first_seconds (cc_values cc d)"
proof (induction cc rule: parts_induct)
  case empty
  then show ?case
    by (simp add: getCacheDirectiveValue.simps cc_values_def part_value_def directive_of_empty first_seconds_def)
next
  case (part cc)
  have "getCacheDirectiveValue (snd (next_part cc)) d = 0" if "CHR '','' \<notin> set cc"
    using that by (simp add: next_part_last getCacheDirectiveValue.simps)
  with part show ?case using Split_next_part [of cc]
    by (auto simp: getCacheDirectiveValue_step cc_values_def first_seconds_def split: list.splits)
qed

section \<open>Cleaned paths\<close>

lemma clean_elems_sub: "set (clean_elems True out es) \<subseteq> set out \<union> set es \<or> ''..'' \<in> set out \<union> set es"
proof (induction True out es rule: clean_elems.induct)
  case (2 out e es)
  then show ?case by (cases out) (auto split: if_splits)
qed simp

lemma Clean_no_dots:
  assumes "strings_HasPrefix p ''/''" and "\<not> strings_Contains p ''..''"
  shows "\<not> strings_Contains (path_Clean p) ''..''"
proof
  let ?es = "strings_Split p (CHR ''/'')"
  assume "strings_Contains (path_Clean p) ''..''"
  then have "strings_Contains (strings_Join (clean_elems True [] ?es) (CHR ''/'')) ''..''"
    using assms(1) by (auto simp: path_Clean_def Let_def strings_HasPrefix_def)
  then obtain e where e: "e \<in> set (clean_elems True [] ?es)" "strings_Contains e ''..''"
    using Join_contains_dots by fastforce
  have no: "\<not> strings_Contains w ''..''" if "w \<in> set ?es" for w
    using Split_element [OF that] assms(2) by (metis Contains_iff append_assoc)
  moreover have "strings_Contains ''..'' ''..''" by (simp add: strings_HasPrefix_def)
  ultimately have "''..'' \<notin> set ?es" by blast
  with clean_elems_sub [of "[]" ?es] e no show False by auto
qed

section \<open>Properties\<close>

text \<open>
  C22. Cache-Control is read as a list of directives: a directive counts as present when some part
  between commas has its name, in any case, with or without a value; a value is that of the
  first part whose number parses. So a response marked no-store or private is never kept; otherwise
  a positive s-maxage wins over a positive max-age, and everything else, a max-age of 0 included, gets the
  default time to live.
\<close>

theorem determine_ttl_meaning:
  assumes "cc = header_Get (rsHeader resp) ''Cache-Control''"
  shows "determineTTL dflt resp =
     (if \<exists>k \<in> set (cc_names cc). strings_EqualFold k ''no-store'' \<or> strings_EqualFold k ''private'' then (0, 0)
      else (if first_seconds (cc_values cc ''s-maxage'') > 0 then first_seconds (cc_values cc ''s-maxage'')
            else if first_seconds (cc_values cc ''max-age'') > 0 then first_seconds (cc_values cc ''max-age'')
            else dflt, first_seconds (cc_values cc ''stale-while-revalidate'')))"
proof -
  have "hasCacheDirective cc ''no-store'' \<or> hasCacheDirective cc ''private'' \<longleftrightarrow>
      (\<exists>k \<in> set (cc_names cc). strings_EqualFold k ''no-store'' \<or> strings_EqualFold k ''private'')"
    using hasCacheDirective_names [of "''no-store''" cc] hasCacheDirective_names [of "''private''" cc]
    by (auto simp del: strings_EqualFold.simps)
  then show ?thesis using assms
    by (simp add: determineTTL_def getCacheDirectiveValue_values Let_def del: strings_EqualFold.simps)
qed

theorem determine_ttl_meaning_witness:
  "determineTTL (60 * second) \<lparr>rsStatusCode = 200, rsHeader = [(''Cache-Control'', [''public, max-age=0''])], rsBody = []\<rparr> =
     (60 * second, 0)"
proof -
  have *: "header_Get [(''Cache-Control'', [''public, max-age=0''])] ''Cache-Control'' = ''public, max-age=0''"
    "cc_names ''public, max-age=0'' = [''public'', ''max-age'']"
    "cc_values ''public, max-age=0'' ''s-maxage'' = []" "cc_values ''public, max-age=0'' ''max-age'' = [0]"
    "cc_values ''public, max-age=0'' ''stale-while-revalidate'' = []"
    "strings_EqualFold ''public'' ''no-store'' = False" "strings_EqualFold ''public'' ''private'' = False"
    "strings_EqualFold ''max-age'' ''no-store'' = False" "strings_EqualFold ''max-age'' ''private'' = False"
    by code_simp+
  show ?thesis
    using determine_ttl_meaning [of "''public, max-age=0''"
        "\<lparr>rsStatusCode = 200, rsHeader = [(''Cache-Control'', [''public, max-age=0''])], rsBody = []\<rparr>" "60 * second"]
    by (simp add: * first_seconds_def wrap64_def del: strings_EqualFold.simps)
qed

text \<open>
  Path validation is exactly the test on the raw path: a path is accepted when it starts with a
  slash and nowhere contains two dots in a row. Cleaning an accepted path never brings two dots
  back, so the check on the cleaned path can never fail.
\<close>

theorem valid_path_exact:
  "isValidPath p \<longleftrightarrow> strings_HasPrefix p ''/'' \<and> \<not> strings_Contains p ''..''"
  using Clean_no_dots by (auto simp: isValidPath_def Let_def)

end
