(* ===== verification/CdnHandler.thy ===== *)
theory CdnHandler
  imports EdgeCache CacheKey Predictor Streaming Stampede ByteRange CacheControl
begin

text \<open>
  \<open>handler/handler.go\<close>: the single-tenant handler that serves from the cache or fetches from the
  origin. A request is a function of the handler's state; \<open>None\<close> is a panic (or a cache operation that
  does not return). Two fields of the state are logs: \<open>cdSent\<close>, the requests sent to the origin so
  far, and \<open>cdTasks\<close>, the revalidations started with \<open>go\<close> and not yet run.

  \<open>hEnv\<close> holds what a request meets outside: the hash and disk of the cache, the network, the SHA-256 of
  a body, HTTP date parsing, the clock at each point where the code reads it, and what waiting for
  another request gives (\<open>heWaited\<close> for the stampede lock, \<open>heJoined\<close> for an origin flight).
\<close>

datatype tick = TGet | TGetVary | TExpired | TServable | TAllow | TRecord | TStored | TPut | TPutVary | TServe | TGetStale

record hEnv =
  heXX :: "string \<Rightarrow> u64"
  heDisk :: diskEnv
  heUni :: "string \<Rightarrow> string"
  heNet :: netEnv
  heJoined :: "nat \<Rightarrow> fetchResult"
  heWaited :: "nat \<Rightarrow> Entry option \<times> StreamingEntry option"
  heSha8 :: "bytes \<Rightarrow> string"
  heParseTime :: "string \<Rightarrow> instant option"
  heClock :: "tick \<Rightarrow> instant"

record revalTask =
  tkHost :: string
  tkRequestURI :: string
  tkPath :: string
  tkRawQuery :: string
  tkHeader :: header
  tkPrimaryKey :: string

text \<open>The fields the single-tenant and the multi-tenant handler both have, then those of the former.\<close>

record edgeCore =
  cdCache :: Cache
  cdOrigin :: Origin
  cdDefaultTTL :: duration
  cdPredictor :: "Predictor option"
  cdSent :: "originReq list"

record CDN = edgeCore +
  cdOriginURL :: string
  cdStampede :: StampedeLock
  cdStreams :: "nat \<rightharpoonup> StreamingEntry"
  cdNextStream :: nat
  cdTasks :: "revalTask list"

definition cdn_New :: "Cache \<Rightarrow> Origin \<Rightarrow> string \<Rightarrow> duration \<Rightarrow> (int \<times> duration) option \<Rightarrow> CDN option" where
  "cdn_New c og originURL defaultTTL pred =
     (let h = \<lparr>cdCache = c, cdOrigin = og, cdDefaultTTL = defaultTTL, cdPredictor = None, cdSent = [],
               cdOriginURL = originURL, cdStampede = NewStampedeLock, cdStreams = Map.empty, cdNextStream = 0, cdTasks = []\<rparr>
      in case pred of
           None \<Rightarrow> Some h
         | Some (capacity, decay) \<Rightarrow> do { p \<leftarrow> NewPredictor capacity decay; Some (h\<lparr>cdPredictor := Some p\<rparr>) })"

section \<open>Writing a response\<close>

definition cacheStatusSlice :: "string \<Rightarrow> string list" where
  "cacheStatusSlice status = [status]"

text \<open>\<open>int(d.Seconds())\<close>: whole seconds, towards zero.\<close>

definition whole_seconds :: "duration \<Rightarrow> int" where
  "whole_seconds d = (if d < 0 then - ((- d) div second) else d div second)"

definition serveEntry :: "hEnv \<Rightarrow> respw \<Rightarrow> Entry \<Rightarrow> string \<Rightarrow> respw" where
  "serveEntry ev w entry cacheStatus =
     (let w1 = assign_headers w (GetHeader (evCodec (heDisk ev)) entry);
          w2 = w1\<lparr>rwHeader := header_assign (rwHeader w1) ''X-Cache'' (cacheStatusSlice cacheStatus)\<rparr>;
          w3 = (if eETag entry \<noteq> [] then w2\<lparr>rwHeader := header_assign (rwHeader w2) ''Etag'' [eETag entry]\<rparr> else w2);
          age = whole_seconds (time_Sub (heClock ev TServe) (eStoredAt entry));
          w4 = w3\<lparr>rwHeader := header_assign (rwHeader w3) ''Age'' [strconv_Itoa age]\<rparr>
      in w_Write (w_WriteHeader w4 (eStatusCode entry)) (eBody entry))"

definition serveResponse :: "respw \<Rightarrow> Response \<Rightarrow> string \<Rightarrow> respw" where
  "serveResponse w resp cacheStatus =
     (let w1 = add_headers w (rsHeader resp);
          w2 = w_Set w1 ''X-Cache'' cacheStatus
      in w_Write (w_WriteHeader w2 (rsStatusCode resp)) (rsBody resp))"

text \<open>The reader's loop runs on the entry as it is when the download has ended.\<close>

definition serveStreamingEntry :: "respw \<Rightarrow> StreamingEntry \<Rightarrow> string \<Rightarrow> respw option" where
  "serveStreamingEntry w se cacheStatus =
     (let w1 = add_headers w (seHeader se);
          w2 = w_Set w1 ''X-Cache'' cacheStatus;
          w3 = w_WriteHeader w2 (seStatus se)
      in do {
           r \<leftarrow> drain (32 * 1024) se newReader;
           Some (w_Write w3 (rdOut r))
         })"

section \<open>Calls to the other components\<close>

definition h_Get :: "hEnv \<Rightarrow> tick \<Rightarrow> 'a edgeCore_scheme \<Rightarrow> string \<Rightarrow> (Entry option \<times> 'a edgeCore_scheme) option" where
  "h_Get ev t h key =
     do { (e, c) \<leftarrow> cache_Get (heXX ev) (heDisk ev) (heClock ev t) (cdCache h) key; Some (e, h\<lparr>cdCache := c\<rparr>) }"

definition h_Put :: "hEnv \<Rightarrow> tick \<Rightarrow> 'a edgeCore_scheme \<Rightarrow> string \<Rightarrow> Entry \<Rightarrow> (Entry \<times> 'a edgeCore_scheme) option" where
  "h_Put ev t h key entry =
     do { (e, c) \<leftarrow> cache_Put (heXX ev) (heDisk ev) (heClock ev t) (cdCache h) key entry; Some (e, h\<lparr>cdCache := c\<rparr>) }"

text \<open>Stored under the primary key and, when it differs, the key with the \<open>Vary\<close> headers: one entry, two keys.\<close>

definition h_store :: "hEnv \<Rightarrow> 'a edgeCore_scheme \<Rightarrow> string \<Rightarrow> string \<Rightarrow> Entry \<Rightarrow> (Entry \<times> 'a edgeCore_scheme) option" where
  "h_store ev h primaryKey cacheKey entry =
     do {
       (e1, h1) \<leftarrow> h_Put ev TPut h primaryKey entry;
       if cacheKey \<noteq> primaryKey then h_Put ev TPutVary h1 cacheKey e1 else Some (e1, h1)
     }"

definition h_Fetch :: "hEnv \<Rightarrow> 'a edgeCore_scheme \<Rightarrow> string \<Rightarrow> string \<Rightarrow> header \<Rightarrow> (fetchResult \<times> 'a edgeCore_scheme) option" where
  "h_Fetch ev h key url hdr =
     do {
       (r, sent, og) \<leftarrow> origin_Fetch (heNet ev) (heJoined ev) (heClock ev TAllow) (heClock ev TRecord) (cdOrigin h) key url hdr;
       Some (r, h\<lparr>cdOrigin := og, cdSent := cdSent h @ sent\<rparr>)
     }"

text \<open>\<open>AcquireStreaming\<close>: \<open>Inl\<close> the lock entry waited for, \<open>Inr\<close> when the caller is the fetcher.\<close>

definition h_AcquireStreaming :: "CDN \<Rightarrow> string \<Rightarrow> ((nat + nat) \<times> CDN) option" where
  "h_AcquireStreaming h key = do { (who, sl) \<leftarrow> sl_enter (cdStampede h) key; Some (who, h\<lparr>cdStampede := sl\<rparr>) }"

definition h_SetStreaming :: "CDN \<Rightarrow> string \<Rightarrow> nat \<Rightarrow> CDN option" where
  "h_SetStreaming h key se =
     (case slLocks (cdStampede h) key of
        None \<Rightarrow> Some h
      | Some i \<Rightarrow> do { sl \<leftarrow> publish_stream (cdStampede h) i se; Some (h\<lparr>cdStampede := sl\<rparr>) })"

definition h_Release :: "CDN \<Rightarrow> string \<Rightarrow> Entry option \<Rightarrow> bool \<Rightarrow> CDN option" where
  "h_Release h key entry err =
     do {
       (found, sl) \<leftarrow> sl_Release (cdStampede h) key entry err;
       (case found of
          None \<Rightarrow> Some (h\<lparr>cdStampede := sl\<rparr>)
        | Some i \<Rightarrow> do { sl' \<leftarrow> close_done sl i; Some (h\<lparr>cdStampede := sl'\<rparr>) })
     }"

definition h_Mark :: "'a edgeCore_scheme \<Rightarrow> string \<Rightarrow> 'a edgeCore_scheme option" where
  "h_Mark h key =
     (case cdPredictor h of
        None \<Rightarrow> Some h
      | Some p \<Rightarrow> do { p' \<leftarrow> MarkUncacheable p key; Some (h\<lparr>cdPredictor := Some p'\<rparr>) })"

definition h_IsLikely :: "'a edgeCore_scheme \<Rightarrow> string \<Rightarrow> (bool \<times> 'a edgeCore_scheme) option" where
  "h_IsLikely h key =
     (case cdPredictor h of
        None \<Rightarrow> Some (False, h)
      | Some p \<Rightarrow> do { (b, p') \<leftarrow> IsLikelyUncacheable p key; Some (b, h\<lparr>cdPredictor := Some p'\<rparr>) })"

section \<open>Fetching\<close>

definition entry_etag :: "hEnv \<Rightarrow> Response \<Rightarrow> string" where
  "entry_etag ev resp =
     (let etag = header_Get (rsHeader resp) ''ETag''
      in if etag = [] then [CHR 0x22] @ heSha8 ev (rsBody resp) @ [CHR 0x22] else etag)"

definition new_entry :: "hEnv \<Rightarrow> Response \<Rightarrow> duration \<Rightarrow> duration \<Rightarrow> string \<Rightarrow> Entry" where
  "new_entry ev resp ttl swr cacheKey =
     \<lparr>eBody = rsBody resp, eHeader = Some (rsHeader resp), eCompressedHeader = None, eStatusCode = rsStatusCode resp,
      eStoredAt = heClock ev TStored, eTTL = ttl, eETag = entry_etag ev resp,
      eLastMod = header_Get (rsHeader resp) ''Last-Modified'', eVaryKey = cacheKey, eStaleWhileRevalidate = swr\<rparr>"

definition stale_or_502 :: "hEnv \<Rightarrow> 'a edgeCore_scheme \<Rightarrow> respw \<Rightarrow> string \<Rightarrow> (respw \<times> 'a edgeCore_scheme) option" where
  "stale_or_502 ev h w key =
     do {
       (stale, h) \<leftarrow> h_Get ev TGetStale h key;
       (case stale of
          Some e \<Rightarrow> Some (serveEntry ev w e ''STALE-ERROR'', h)
        | None \<Rightarrow> Some (http_Error w ''Bad Gateway'' 502, h))
     }"

text \<open>The streaming entry of a fetched body: published, filled in chunks, closed.\<close>

definition stream_body :: "CDN \<Rightarrow> string \<Rightarrow> Response \<Rightarrow> (StreamingEntry \<times> CDN) option" where
  "stream_body h primaryKey resp =
     do {
       let a = cdNextStream h;
       let se = NewStreamingEntry (rsHeader resp) (rsStatusCode resp);
       h \<leftarrow> h_SetStreaming (h\<lparr>cdStreams := (cdStreams h)(a \<mapsto> se), cdNextStream := Suc a\<rparr>) primaryKey a;
       let se = write_chunks (32 * 1024) se (rsBody resp) 0;
       se \<leftarrow> se_Close se None;
       Some (se, h\<lparr>cdStreams := (cdStreams h)(a \<mapsto> se)\<rparr>)
     }"

text \<open>The two ways a fetched response ends: kept and served, or passed through.\<close>

definition keep_response ::
  "hEnv \<Rightarrow> CDN \<Rightarrow> respw \<Rightarrow> request \<Rightarrow> string \<Rightarrow> Response \<Rightarrow> duration \<Rightarrow> duration \<Rightarrow> (respw \<times> CDN) option" where
  "keep_response ev h w r primaryKey resp ttl swr =
     do {
       (se, h) \<leftarrow> stream_body h primaryKey resp;
       let cacheKey = NormalizeKey (heUni ev) (reqHost r) (reqPath r) (reqRawQuery r)
             (header_Get (rsHeader resp) ''Vary'') (reqHeader r);
       made \<leftarrow> ToEntry se (heClock ev TStored) ttl swr (entry_etag ev resp)
             (header_Get (rsHeader resp) ''Last-Modified'') cacheKey;
       entry \<leftarrow> made;
       (entry, h) \<leftarrow> h_store ev h primaryKey cacheKey entry;
       h \<leftarrow> h_Release h primaryKey (Some entry) False;
       Some (serveEntry ev w entry ''MISS'', h)
     }"

definition pass_response :: "CDN \<Rightarrow> respw \<Rightarrow> string \<Rightarrow> Response \<Rightarrow> (respw \<times> CDN) option" where
  "pass_response h w primaryKey resp =
     do {
       h \<leftarrow> h_Release h primaryKey None True;
       h \<leftarrow> h_Mark h primaryKey;
       Some (serveResponse w resp ''BYPASS'', h)
     }"

definition fetchAndServeStreaming :: "hEnv \<Rightarrow> CDN \<Rightarrow> respw \<Rightarrow> request \<Rightarrow> string \<Rightarrow> (respw \<times> CDN) option" where
  "fetchAndServeStreaming ev h w r primaryKey =
     do {
       (res, h) \<leftarrow> h_Fetch ev h primaryKey (cdOriginURL h @ reqURI r) (reqHeader r);
       (case res of
          Inl err \<Rightarrow> do { h \<leftarrow> h_Release h primaryKey None True; stale_or_502 ev h w primaryKey }
        | Inr resp \<Rightarrow>
            (let (ttl, swr) = determineTTL (cdDefaultTTL h) resp
             in if ttl > 0 \<and> isCacheableStatus (rsStatusCode resp)
                then keep_response ev h w r primaryKey resp ttl swr
                else pass_response h w primaryKey resp))
     }"

definition fetchAndServe :: "hEnv \<Rightarrow> CDN \<Rightarrow> respw \<Rightarrow> request \<Rightarrow> string \<Rightarrow> (respw \<times> CDN) option" where
  "fetchAndServe ev h w r primaryKey =
     do {
       (who, h) \<leftarrow> h_AcquireStreaming h primaryKey;
       (case who of
          Inl i \<Rightarrow>
            (case heWaited ev i of
               (_, Some se) \<Rightarrow> do { w' \<leftarrow> serveStreamingEntry w se ''HIT''; Some (w', h) }
             | (Some entry, None) \<Rightarrow> Some (serveEntry ev w entry ''HIT'', h)
             | (None, None) \<Rightarrow> stale_or_502 ev h w primaryKey)
        | Inr i \<Rightarrow> fetchAndServeStreaming ev h w r primaryKey)
     }"

section \<open>Revalidation in the background\<close>

definition revalidateAsync :: "hEnv \<Rightarrow> CDN \<Rightarrow> revalTask \<Rightarrow> CDN option" where
  "revalidateAsync ev h tk =
     do {
       (res, h) \<leftarrow> h_Fetch ev h (''revalidate:'' @ tkPrimaryKey tk) (cdOriginURL h @ tkRequestURI tk) (tkHeader tk);
       (case res of
          Inl err \<Rightarrow> Some h
        | Inr resp \<Rightarrow>
            if rsStatusCode resp \<ge> 500 then Some h
            else let (ttl, swr) = determineTTL (cdDefaultTTL h) resp
                 in if ttl \<le> 0 \<or> \<not> isCacheableStatus (rsStatusCode resp) then Some h
                    else do {
                      let cacheKey = NormalizeKey (heUni ev) (tkHost tk) (tkPath tk) (tkRawQuery tk)
                            (header_Get (rsHeader resp) ''Vary'') (tkHeader tk);
                      (_, h) \<leftarrow> h_store ev h (tkPrimaryKey tk) cacheKey (new_entry ev resp ttl swr cacheKey);
                      Some h
                    })
     }"

section \<open>Byte ranges\<close>

definition proxyPassthrough :: "hEnv \<Rightarrow> CDN \<Rightarrow> respw \<Rightarrow> request \<Rightarrow> (respw \<times> CDN) option" where
  "proxyPassthrough ev h w r =
     do {
       (res, h) \<leftarrow> h_Fetch ev h (''passthrough:'' @ reqURI r) (cdOriginURL h @ reqURI r) (reqHeader r);
       (case res of
          Inl err \<Rightarrow> Some (http_Error w ''Bad Gateway'' 502, h)
        | Inr resp \<Rightarrow> Some (serveResponse w resp ''BYPASS'', h))
     }"

text \<open>A fetched full response: kept, then the requested slice served from it.\<close>

definition keep_range ::
  "hEnv \<Rightarrow> CDN \<Rightarrow> respw \<Rightarrow> request \<Rightarrow> string \<Rightarrow> string \<Rightarrow> Response \<Rightarrow> duration \<Rightarrow> duration \<Rightarrow> (respw \<times> CDN) option" where
  "keep_range ev h w r rangeHeader primaryKey resp ttl swr =
     do {
       let cacheKey = NormalizeKey (heUni ev) (reqHost r) (reqPath r) (reqRawQuery r)
             (header_Get (rsHeader resp) ''Vary'') (reqHeader r);
       (entry, h) \<leftarrow> h_store ev h primaryKey cacheKey (new_entry ev resp ttl swr cacheKey);
       (case parseRange rangeHeader (int (length (eBody entry))) of
          None \<Rightarrow> Some (serveEntry ev w entry ''MISS'', h)
        | Some (start, end') \<Rightarrow>
            do { w' \<leftarrow> serveRange (evCodec (heDisk ev)) w entry start end'; Some (w', h) })
     }"

definition fetch_range :: "hEnv \<Rightarrow> CDN \<Rightarrow> respw \<Rightarrow> request \<Rightarrow> string \<Rightarrow> string \<Rightarrow> (respw \<times> CDN) option" where
  "fetch_range ev h w r rangeHeader primaryKey =
     do {
       let cleanHeader = header_Del (reqHeader r) ''Range'';
       (res, h) \<leftarrow> h_Fetch ev h primaryKey (cdOriginURL h @ reqURI r) cleanHeader;
       (case res of
          Inl err \<Rightarrow> Some (http_Error w ''Bad Gateway'' 502, h)
        | Inr resp \<Rightarrow>
            (let (ttl, swr) = determineTTL (cdDefaultTTL h) resp
             in if ttl > 0 \<and> isCacheableStatus (rsStatusCode resp)
                then keep_range ev h w r rangeHeader primaryKey resp ttl swr
                else Some (serveResponse w resp ''BYPASS'', h)))
     }"

definition serveByteRange :: "hEnv \<Rightarrow> CDN \<Rightarrow> respw \<Rightarrow> request \<Rightarrow> string \<Rightarrow> (respw \<times> CDN) option" where
  "serveByteRange ev h w r rangeHeader =
     do {
       let primaryKey = NormalizeKey (heUni ev) (reqHost r) (reqPath r) (reqRawQuery r) [] [];
       (found, h) \<leftarrow> h_Get ev TGet h primaryKey;
       (case found of
          Some entry \<Rightarrow>
            (case parseRange rangeHeader (int (length (eBody entry))) of
               None \<Rightarrow> proxyPassthrough ev h w r
             | Some (start, end') \<Rightarrow>
                 do { w' \<leftarrow> serveRange (evCodec (heDisk ev)) w entry start end'; Some (w', h) })
        | None \<Rightarrow> fetch_range ev h w r rangeHeader primaryKey)
     }"

section \<open>Serving a request\<close>

text \<open>The conditional-request checks on a fresh entry; \<open>Some\<close> the header the 304 carries.\<close>

definition not_modified :: "hEnv \<Rightarrow> request \<Rightarrow> Entry \<Rightarrow> (string \<times> string) option" where
  "not_modified ev r entry =
     (let etag = header_Get (reqHeader r) ''If-None-Match'';
          ims = header_Get (reqHeader r) ''If-Modified-Since''
      in if etag \<noteq> [] \<and> etag = eETag entry then Some (''ETag'', eETag entry)
         else if ims \<noteq> [] \<and> eLastMod entry \<noteq> [] then
           (case (heParseTime ev ims, heParseTime ev (eLastMod entry)) of
              (Some imsTime, Some lastMod) \<Rightarrow>
                if \<not> lastMod > imsTime then Some (''Last-Modified'', eLastMod entry) else None
            | _ \<Rightarrow> None)
         else None)"

text \<open>The cached entry for a request: the primary key's, or the variant its \<open>Vary\<close> selects.\<close>

datatype lookup = LBypass | LEntry "Entry option"

definition h_lookup :: "hEnv \<Rightarrow> CDN \<Rightarrow> request \<Rightarrow> string \<Rightarrow> (lookup \<times> CDN) option" where
  "h_lookup ev h r primaryKey =
     do {
       (found, h) \<leftarrow> h_Get ev TGet h primaryKey;
       (case found of
          None \<Rightarrow> Some (LEntry None, h)
        | Some entry \<Rightarrow>
            (let vary = header_Get (GetHeader (evCodec (heDisk ev)) entry) ''Vary''
             in if vary = [] then Some (LEntry (Some entry), h)
                else if vary = ''*'' then Some (LBypass, h)
                else let varyKey = NormalizeKey (heUni ev) (reqHost r) (reqPath r) (reqRawQuery r) vary (reqHeader r)
                     in if varyKey \<noteq> primaryKey
                        then do { (e, h) \<leftarrow> h_Get ev TGetVary h varyKey; Some (LEntry e, h) }
                        else Some (LEntry (Some entry), h)))
     }"

definition serve_cached :: "hEnv \<Rightarrow> CDN \<Rightarrow> respw \<Rightarrow> request \<Rightarrow> string \<Rightarrow> Entry \<Rightarrow> respw \<times> CDN" where
  "serve_cached ev h w r primaryKey entry =
     (if IsExpired (heClock ev TExpired) entry \<and> IsStaleServable (heClock ev TServable) entry then
        (serveEntry ev w entry ''STALE'',
         h\<lparr>cdTasks := cdTasks h @ [\<lparr>tkHost = reqHost r, tkRequestURI = reqURI r, tkPath = reqPath r,
             tkRawQuery = reqRawQuery r, tkHeader = reqHeader r, tkPrimaryKey = primaryKey\<rparr>]\<rparr>)
      else case not_modified ev r entry of
             Some (k, v) \<Rightarrow> (w_WriteHeader (w_Set (w_Set w k v) ''X-Cache'' ''HIT'') 304, h)
           | None \<Rightarrow> (serveEntry ev w entry ''HIT'', h))"

definition ServeHTTP :: "hEnv \<Rightarrow> CDN \<Rightarrow> respw \<Rightarrow> request \<Rightarrow> (respw \<times> CDN) option" where
  "ServeHTTP ev h w r =
     (if reqMethod r \<noteq> ''GET'' \<and> reqMethod r \<noteq> ''HEAD'' then
        Some (http_Error (w_Set w ''Allow'' ''GET, HEAD'') ''Method Not Allowed'' 405, h)
      else if \<not> isValidPath (reqPath r) then Some (http_Error w ''Bad Request'' 400, h)
      else if reqHost r = [] then Some (http_Error w ''Bad Request: missing Host header'' 400, h)
      else
        let rangeHeader = header_Get (reqHeader r) ''Range''
        in if rangeHeader \<noteq> [] then serveByteRange ev h w r rangeHeader
           else
             do {
               let primaryKey = NormalizeKey (heUni ev) (reqHost r) (reqPath r) (reqRawQuery r) [] [];
               (likely, h) \<leftarrow> h_IsLikely h primaryKey;
               if likely then fetchAndServe ev h w r primaryKey
               else if hasCacheDirective (header_Get (reqHeader r) ''Cache-Control'') ''no-cache''
               then fetchAndServe ev h w r primaryKey
               else do {
                 (found, h) \<leftarrow> h_lookup ev h r primaryKey;
                 (case found of
                    LBypass \<Rightarrow> fetchAndServe ev h w r primaryKey
                  | LEntry (Some entry) \<Rightarrow> Some (serve_cached ev h w r primaryKey entry)
                  | LEntry None \<Rightarrow> fetchAndServe ev h w r primaryKey)
               }
             })"

section \<open>The invariant between requests\<close>

text \<open>
  \<open>cdn_core\<close> is what every step of a request keeps: a usable cache and predictor and no flight left
  open. Between requests, in addition, no stampede lock is held.
\<close>

definition cdn_core :: "(string \<Rightarrow> u64) \<Rightarrow> diskEnv \<Rightarrow> 'a edgeCore_scheme \<Rightarrow> bool" where
  "cdn_core xx dk h \<longleftrightarrow>
     cache_inv xx (cdCache h) \<and> spill_safe dk (cdCache h) \<and> orFlights (cdOrigin h) = Map.empty \<and>
     (\<forall>p. cdPredictor h = Some p \<longrightarrow> wf_Predictor p)"

definition cdn_inv :: "(string \<Rightarrow> u64) \<Rightarrow> diskEnv \<Rightarrow> CDN \<Rightarrow> bool" where
  "cdn_inv xx dk h \<longleftrightarrow> cdn_core xx dk h \<and> slLocks (cdStampede h) = Map.empty"

text \<open>The lock of one key is held; \<open>fresh\<close> says nothing was published yet.\<close>

definition holds_lock :: "bool \<Rightarrow> string \<Rightarrow> CDN \<Rightarrow> bool" where
  "holds_lock fresh key h \<longleftrightarrow>
     (\<exists>i le. slLocks (cdStampede h) = [key \<mapsto> i] \<and> slHeap (cdStampede h) i = Some le \<and> \<not> leDone le \<and>
        (fresh \<longrightarrow> \<not> leStreamReady le))"

lemma cdn_core_frame [simp]:
  "cdn_core xx dk (h\<lparr>cdStampede := sl\<rparr>) = cdn_core xx dk h"
  "cdn_core xx dk (h\<lparr>cdStreams := st\<rparr>) = cdn_core xx dk h"
  "cdn_core xx dk (h\<lparr>cdNextStream := n\<rparr>) = cdn_core xx dk h"
  "cdn_core xx dk (h\<lparr>cdTasks := ts\<rparr>) = cdn_core xx dk h"
  "cdn_core xx dk (h\<lparr>cdSent := rs\<rparr>) = cdn_core xx dk h"
  by (simp_all add: cdn_core_def)

lemma holds_lock_weaken: "holds_lock f key h \<Longrightarrow> holds_lock False key h"
  by (auto simp: holds_lock_def)

section \<open>What the calls to other components leave\<close>

lemma h_Get_returns:
  assumes "cdn_core (heXX ev) (heDisk ev) h"
  shows "returns (h_Get ev t h k) (\<lambda>(r, h'). h' = h\<lparr>cdCache := cdCache h'\<rparr> \<and> cdn_core (heXX ev) (heDisk ev) h' \<and>
      (\<forall>e. r = Some e \<longrightarrow> live (heClock ev t) e) \<and>
      (\<forall>e. cache_lookup (heXX ev) (cdCache h) k = Some e \<longrightarrow> r = (if live (heClock ev t) e then Some e else None)) \<and>
      (\<forall>k' e. k' \<noteq> k \<longrightarrow> cache_lookup (heXX ev) (cdCache h') k' = Some e \<longrightarrow> cache_lookup (heXX ev) (cdCache h) k' = Some e) \<and>
      (cache_lookup (heXX ev) (cdCache h) k = None \<and> chDiskDir (cdCache h) = [] \<longrightarrow> r = None))"
proof -
  have ok: "cache_inv (heXX ev) (cdCache h) \<and> spill_safe (heDisk ev) (cdCache h)" using assms by (simp add: cdn_core_def)
  have law: "returns (h_Get ev t h k) (\<lambda>(r, h'). h' = h\<lparr>cdCache := cdCache h'\<rparr> \<and> cdn_core (heXX ev) (heDisk ev) h' \<and>
      (\<forall>e. r = Some e \<longrightarrow> live (heClock ev t) e) \<and>
      (\<forall>e. cache_lookup (heXX ev) (cdCache h) k = Some e \<longrightarrow> r = (if live (heClock ev t) e then Some e else None)) \<and>
      (\<forall>k' e. k' \<noteq> k \<longrightarrow> cache_lookup (heXX ev) (cdCache h') k' = Some e \<longrightarrow> cache_lookup (heXX ev) (cdCache h) k' = Some e))"
    (is "returns _ ?law") unfolding h_Get_def by (rule returns_bind [OF edge.get_law [OF ok]]) (use assms in \<open>auto simp: cdn_core_def\<close>)
  have absent: "cache_lookup (heXX ev) (cdCache h) k = None \<and> chDiskDir (cdCache h) = [] \<longrightarrow> fst x = None" if "h_Get ev t h k = Some x" for x
    using cache_Get_absent [of "heXX ev" "cdCache h" k "heDisk ev" "heClock ev t"] ok that by (auto simp: h_Get_def)
  from law show ?thesis
  proof (rule returnsE)
    fix x assume x: "h_Get ev t h k = Some x" and "?law x"
    with absent [OF x] show ?thesis by (intro returnsI [OF x]) (cases x, simp only: prod.case fst_conv, blast)
  qed
qed

lemma h_store_returns:
  assumes "cdn_core (heXX ev) (heDisk ev) h"
  shows "returns (h_store ev h k k' e) (\<lambda>(e', h'). h' = h\<lparr>cdCache := cdCache h'\<rparr> \<and> cdn_core (heXX ev) (heDisk ev) h' \<and> same_page e e' \<and>
      (\<forall>j e''. cache_lookup (heXX ev) (cdCache h') j = Some e'' \<longrightarrow>
         cache_lookup (heXX ev) (cdCache h) j = Some e'' \<or> (j = k \<or> j = k') \<and> same_page e e'') \<and>
      (k' = k \<and> has_room (heXX ev) (cdCache h) k \<and> \<not> put_refused (cdCache h) k e \<longrightarrow>
         e' = put_compress (heDisk ev) (cdCache h) e \<and> cache_lookup (heXX ev) (cdCache h') k = Some e'))"
proof -
  have ok: "cache_inv (heXX ev) (cdCache h) \<and> spill_safe (heDisk ev) (cdCache h)" using assms by (simp add: cdn_core_def)
  show ?thesis
  proof (cases "k' = k")
    case True
    have call: "h_store ev h k k' e = h_Put ev TPut h k e" by (simp add: h_store_def True split: prod.splits)
    from edge.put_once [OF ok, of "heClock ev TPut" k e] obtain e' c' where
      p: "cache_Put (heXX ev) (heDisk ev) (heClock ev TPut) (cdCache h) k e = Some (e', c')"
      "cache_inv (heXX ev) c' \<and> spill_safe (heDisk ev) c'" "same_page e e'"
      "\<forall>j e''. cache_lookup (heXX ev) c' j = Some e'' \<longrightarrow> cache_lookup (heXX ev) (cdCache h) j = Some e'' \<or> j = k \<and> same_page e e''"
      by (auto elim!: returnsE)
    have room: "e' = put_compress (heDisk ev) (cdCache h) e \<and> cache_lookup (heXX ev) c' k = Some e'"
      if "has_room (heXX ev) (cdCache h) k" "\<not> put_refused (cdCache h) k e"
      using ok that p(1) by (intro cache_Put_room) auto
    show ?thesis unfolding call h_Put_def p(1) using p(2-4) assms True room by (simp add: cdn_core_def)
  next
    case False
    have "h_store ev h k k' e = (cache_Put (heXX ev) (heDisk ev) (heClock ev TPut) (cdCache h) k e \<bind>
        (\<lambda>(e1, c1). cache_Put (heXX ev) (heDisk ev) (heClock ev TPutVary) c1 k' e1)) \<bind> (\<lambda>(e2, c2). Some (e2, h\<lparr>cdCache := c2\<rparr>))"
      using False by (auto simp: h_store_def h_Put_def split: bind_splits)
    then show ?thesis
      by (simp only:) (rule returns_bind [OF edge.put_twice [OF ok]], use assms False in \<open>auto simp: cdn_core_def\<close>)
  qed
qed

lemma h_Fetch_returns:
  assumes "cdn_core (heXX ev) (heDisk ev) h"
  shows "returns (h_Fetch ev h k url hdr) (\<lambda>(r, h'). \<exists>sent. h' = h\<lparr>cdOrigin := cdOrigin h', cdSent := cdSent h @ sent\<rparr> \<and>
      cdn_core (heXX ev) (heDisk ev) h' \<and> length sent \<le> 1 \<and>
      (if fst (Allow (heClock ev TAllow) (orCb (cdOrigin h))) then (r, sent) = doFetch (heNet ev) (cdOrigin h) url hdr
       else r = Inl ErrCircuitOpen \<and> sent = []))"
proof -
  have none: "orFlights (cdOrigin h) k = None" using assms by (simp add: cdn_core_def)
  obtain r sent og where f: "origin_Fetch (heNet ev) (heJoined ev) (heClock ev TAllow) (heClock ev TRecord) (cdOrigin h) k url hdr = Some (r, sent, og)"
    and refuse: "\<not> fst (Allow (heClock ev TAllow) (orCb (cdOrigin h))) \<longrightarrow> r = Inl ErrCircuitOpen \<and> sent = [] \<and> og = cdOrigin h"
    and go: "fst (Allow (heClock ev TAllow) (orCb (cdOrigin h))) \<longrightarrow>
        (r, sent) = doFetch (heNet ev) (cdOrigin h) url hdr \<and> length sent \<le> 1 \<and> orFlights og = orFlights (cdOrigin h)"
    using origin_Fetch_result [OF none, of "heNet ev" "heJoined ev" "heClock ev TAllow" "heClock ev TRecord" url hdr] by auto
  have og: "orFlights og = Map.empty" "length sent \<le> 1" using refuse go assms by (auto simp: cdn_core_def)
  let ?h = "h\<lparr>cdOrigin := og, cdSent := cdSent h @ sent\<rparr>"
  have call: "h_Fetch ev h k url hdr = Some (r, ?h)" by (simp add: h_Fetch_def f)
  have core: "cdn_core (heXX ev) (heDisk ev) ?h" using og assms by (simp add: cdn_core_def)
  show ?thesis by (rule returnsI [OF call]) (use og refuse go core in \<open>simp only: prod.case, intro exI [of _ sent], simp\<close>)
qed

lemma h_Mark_returns:
  assumes "cdn_core xx dk h"
  shows "returns (h_Mark h k) (\<lambda>h'. h' = h\<lparr>cdPredictor := cdPredictor h'\<rparr> \<and> cdn_core xx dk h')"
proof (cases "cdPredictor h")
  case None
  with assms None show ?thesis by (auto simp: h_Mark_def)
next
  case (Some p)
  then have "wf_Predictor p" using assms by (simp add: cdn_core_def)
  from Mark_result [OF this, of k] obtain p' where "MarkUncacheable p k = Some p'" "wf_Predictor p'" by blast
  with assms Some show ?thesis by (auto simp: h_Mark_def cdn_core_def)
qed

lemma h_IsLikely_returns:
  assumes "cdn_core xx dk h"
  shows "returns (h_IsLikely h k) (\<lambda>(b, h'). h' = h\<lparr>cdPredictor := cdPredictor h'\<rparr> \<and> cdn_core xx dk h' \<and> (cdPredictor h = None \<longrightarrow> \<not> b))"
proof (cases "cdPredictor h")
  case None
  with assms None show ?thesis by (auto simp: h_IsLikely_def)
next
  case (Some p)
  then have "wf_Predictor p" using assms by (simp add: cdn_core_def)
  from Check_result [OF this, of k] obtain b p' where "IsLikelyUncacheable p k = Some (b, p')" "wf_Predictor p'" by blast
  with assms Some show ?thesis by (auto simp: h_IsLikely_def cdn_core_def)
qed

section \<open>The lock protocol of one request\<close>

lemma h_Acquire_returns:
  assumes "slLocks (cdStampede h) = Map.empty"
  shows "returns (h_AcquireStreaming h k) (\<lambda>(who, h'). isl who = False \<and> h' = h\<lparr>cdStampede := cdStampede h'\<rparr> \<and> holds_lock True k h')"
  using assms by (auto simp: h_AcquireStreaming_def sl_enter_def Let_def holds_lock_def new_lockEntry_def)

lemma h_Release_returns:
  assumes "holds_lock f k h"
  shows "returns (h_Release h k e err) (\<lambda>h'. h' = h\<lparr>cdStampede := cdStampede h'\<rparr> \<and> slLocks (cdStampede h') = Map.empty)"
  using assms by (auto simp: holds_lock_def h_Release_def sl_Release_def close_done_def)

text \<open>The streaming entry ends complete, with the whole body, however long it is.\<close>

lemma stream_body_returns:
  assumes "holds_lock True k h"
  shows "returns (stream_body h k resp) (\<lambda>(se, h'). h' = h\<lparr>cdStampede := cdStampede h', cdStreams := cdStreams h', cdNextStream := cdNextStream h'\<rparr> \<and>
      holds_lock False k h' \<and> seComplete se \<and> seErr se = None \<and> seBuf se = rsBody resp \<and> seHeader se = rsHeader resp \<and>
      seStatus se = rsStatusCode resp)"
proof -
  obtain i le where l: "slLocks (cdStampede h) = [k \<mapsto> i]" "slHeap (cdStampede h) i = Some le" "\<not> leDone le" "\<not> leStreamReady le"
    using assms by (auto simp: holds_lock_def)
  have "write_chunks (32 * 1024) (NewStreamingEntry (rsHeader resp) (rsStatusCode resp)) (rsBody resp) 0 =
      (NewStreamingEntry (rsHeader resp) (rsStatusCode resp))\<lparr>seBuf := rsBody resp\<rparr>"
    using write_chunks_all [of "32 * 1024" "NewStreamingEntry (rsHeader resp) (rsStatusCode resp)" 0 "rsBody resp"]
    by (simp add: NewStreamingEntry_def)
  with l show ?thesis
    by (auto simp: stream_body_def Let_def h_SetStreaming_def publish_stream_def se_Close_def NewStreamingEntry_def holds_lock_def)
qed

section \<open>What a response carries\<close>

definition answered :: "respw \<Rightarrow> int \<Rightarrow> bytes \<Rightarrow> string \<Rightarrow> bool" where
  "answered w status body xcache \<longleftrightarrow>
     rwSent w \<noteq> None \<and> rw_status w = status \<and> rwBody w = body \<and> rw_sent_header w ''X-Cache'' = xcache"

lemma canonical_answer_keys:
  "CanonicalHeaderKey ''X-Cache'' = ''X-Cache''" "CanonicalHeaderKey ''ETag'' = ''Etag''"
  "CanonicalHeaderKey ''Last-Modified'' = ''Last-Modified''"
  by code_simp+

lemma serveEntry_answers:
  assumes "rwSent w = None" and "rwBody w = []"
  shows "answered (serveEntry ev w e s) (eStatusCode e) (eBody e) s"
  using assms
  by (auto simp: serveEntry_def answered_def Let_def rw_status_def rw_sent_header_def header_Get_def canonical_answer_keys
      cacheStatusSlice_def)

lemma serveResponse_answers:
  assumes "rwSent w = None" and "rwBody w = []"
  shows "answered (serveResponse w resp s) (rsStatusCode resp) (rsBody resp) s"
  using assms
  by (auto simp: serveResponse_def answered_def Let_def rw_status_def rw_sent_header_def header_Get_def w_Set_def canonical_answer_keys)

lemma http_Error_sent [simp]: "rwSent w = None \<Longrightarrow> rwSent (http_Error w msg code) = Some (code, rwHeader (http_Error w msg code))"
  by (simp add: http_Error_def Let_def w_Write_def)

lemma answered_sent: "answered w st b x \<Longrightarrow> rwSent w \<noteq> None"
  by (simp add: answered_def)

section \<open>Fetching returns and releases the lock\<close>

definition fetched :: "hEnv \<Rightarrow> 'a edgeCore_scheme \<Rightarrow> string \<Rightarrow> header \<Rightarrow> fetchResult" where
  "fetched ev h url hdr =
     (if fst (Allow (heClock ev TAllow) (orCb (cdOrigin h))) then fst (doFetch (heNet ev) (cdOrigin h) url hdr) else Inl ErrCircuitOpen)"

definition keepable :: "'a edgeCore_scheme \<Rightarrow> Response \<Rightarrow> bool" where
  "keepable h resp \<longleftrightarrow> fst (determineTTL (cdDefaultTTL h) resp) > 0 \<and> isCacheableStatus (rsStatusCode resp)"

definition variant_key :: "hEnv \<Rightarrow> request \<Rightarrow> Response \<Rightarrow> string" where
  "variant_key ev r resp =
     NormalizeKey (heUni ev) (reqHost r) (reqPath r) (reqRawQuery r) (header_Get (rsHeader resp) ''Vary'') (reqHeader r)"

definition page_for :: "hEnv \<Rightarrow> 'a edgeCore_scheme \<Rightarrow> request \<Rightarrow> Response \<Rightarrow> Entry" where
  "page_for ev h r resp =
     new_entry ev resp (fst (determineTTL (cdDefaultTTL h) resp)) (snd (determineTTL (cdDefaultTTL h) resp)) (variant_key ev r resp)"

definition kept_page :: "hEnv \<Rightarrow> 'a edgeCore_scheme \<Rightarrow> Response \<Rightarrow> Entry \<Rightarrow> bool" where
  "kept_page ev h resp e \<longleftrightarrow>
     (\<exists>key. same_page (new_entry ev resp (fst (determineTTL (cdDefaultTTL h) resp)) (snd (determineTTL (cdDefaultTTL h) resp)) key) e)"

lemma kept_page_fields: "kept_page ev h resp e \<Longrightarrow> eBody e = rsBody resp \<and> eStatusCode e = rsStatusCode resp"
  by (auto simp: kept_page_def new_entry_def dest!: same_page_fields)

text \<open>The answer of a fetch: what the origin said, or on failure a live entry of the key or 502.\<close>

definition fetch_answer :: "hEnv \<Rightarrow> 'a edgeCore_scheme \<Rightarrow> request \<Rightarrow> string \<Rightarrow> fetchResult \<Rightarrow> respw \<Rightarrow> 'a edgeCore_scheme \<Rightarrow> bool" where
  "fetch_answer ev h r key res w' h' \<longleftrightarrow>
     (case res of
        Inr resp \<Rightarrow>
          answered w' (rsStatusCode resp) (rsBody resp) (if keepable h resp then ''MISS'' else ''BYPASS'') \<and>
          (if keepable h resp then cdPredictor h' = cdPredictor h else cdCache h' = cdCache h) \<and>
          (\<forall>j e. cache_lookup (heXX ev) (cdCache h') j = Some e \<longrightarrow>
             cache_lookup (heXX ev) (cdCache h) j = Some e \<or> keepable h resp \<and> kept_page ev h resp e) \<and>
          (keepable h resp \<and> key = variant_key ev r resp \<and> has_room (heXX ev) (cdCache h) key \<and>
             \<not> put_refused (cdCache h) key (page_for ev h r resp) \<longrightarrow>
             cache_lookup (heXX ev) (cdCache h') key = Some (put_compress (heDisk ev) (cdCache h) (page_for ev h r resp)))
      | Inl _ \<Rightarrow>
          (rw_status w' = 502 \<and> (\<forall>e. cache_lookup (heXX ev) (cdCache h) key = Some e \<longrightarrow> \<not> live (heClock ev TGetStale) e) \<or>
           (\<exists>e. live (heClock ev TGetStale) e \<and> answered w' (eStatusCode e) (eBody e) ''STALE-ERROR'')) \<and>
          (cache_lookup (heXX ev) (cdCache h) key = None \<and> chDiskDir (cdCache h) = [] \<longrightarrow> rw_status w' = 502))"

text \<open>What a step leaves alone, and the requests it sent.\<close>

definition same_frame :: "CDN \<Rightarrow> originReq list \<Rightarrow> CDN \<Rightarrow> bool" where
  "same_frame h sent h' \<longleftrightarrow> cdSent h' = cdSent h @ sent \<and> cdDefaultTTL h' = cdDefaultTTL h \<and> cdOriginURL h' = cdOriginURL h"

lemma same_frame_then: "same_frame h [] h1 \<Longrightarrow> same_frame h1 s h2 \<Longrightarrow> same_frame h s h2"
  by (simp add: same_frame_def)

lemma same_frame_eq:
  "h' = h\<lparr>cdStampede := sl\<rparr> \<Longrightarrow> same_frame h [] h'"
  "h' = h\<lparr>cdCache := c\<rparr> \<Longrightarrow> same_frame h [] h'"
  "h' = h\<lparr>cdStampede := sl, cdStreams := st, cdNextStream := n\<rparr> \<Longrightarrow> same_frame h [] h'"
  "h' = h\<lparr>cdPredictor := p\<rparr> \<Longrightarrow> same_frame h [] h'"
  "h' = h\<lparr>cdOrigin := og, cdSent := cdSent h @ sent\<rparr> \<Longrightarrow> same_frame h sent h'"
  by (simp_all add: same_frame_def)

text \<open>The state after a request: the invariant, one answer, at most one request to the origin.\<close>

definition served :: "(string \<Rightarrow> u64) \<Rightarrow> diskEnv \<Rightarrow> CDN \<Rightarrow> respw \<times> CDN \<Rightarrow> bool" where
  "served xx dk h = (\<lambda>(w', h'). cdn_inv xx dk h' \<and> rwSent w' \<noteq> None \<and> (\<exists>sent. same_frame h sent h' \<and> length sent \<le> 1))"

lemma stale_or_502_returns:
  assumes core: "cdn_core (heXX ev) (heDisk ev) h" and w: "rwSent w = None" "rwBody w = []"
  shows "returns (stale_or_502 ev h w k) (\<lambda>(w', h'). h' = h\<lparr>cdCache := cdCache h'\<rparr> \<and> cdn_core (heXX ev) (heDisk ev) h' \<and>
      rwSent w' \<noteq> None \<and> fetch_answer ev h r k (Inl err) w' h')"
  unfolding stale_or_502_def
proof (rule returns_bind [OF h_Get_returns [OF core]], clarify)
  fix f :: "Entry option" and h'
  assume h': "h' = h\<lparr>cdCache := cdCache h'\<rparr>" "cdn_core (heXX ev) (heDisk ev) h'"
    and live: "\<forall>e. f = Some e \<longrightarrow> live (heClock ev TGetStale) e"
    and look: "\<forall>e. cache_lookup (heXX ev) (cdCache h) k = Some e \<longrightarrow> f = (if live (heClock ev TGetStale) e then Some e else None)"
    and absent: "cache_lookup (heXX ev) (cdCache h) k = None \<and> chDiskDir (cdCache h) = [] \<longrightarrow> f = None"
  show "returns (case f of None \<Rightarrow> Some (http_Error w ''Bad Gateway'' 502, h') | Some e \<Rightarrow> Some (serveEntry ev w e ''STALE-ERROR'', h'))
      (\<lambda>(w', h'). h' = h\<lparr>cdCache := cdCache h'\<rparr> \<and> cdn_core (heXX ev) (heDisk ev) h' \<and> rwSent w' \<noteq> None \<and> fetch_answer ev h r k (Inl err) w' h')"
  proof (cases f)
    case None
    with h' look w show ?thesis by (auto simp: fetch_answer_def)
  next
    case (Some e)
    with h' live absent serveEntry_answers [OF w, of ev e "''STALE-ERROR''"] answered_sent show ?thesis by (auto simp: fetch_answer_def)
  qed
qed

text \<open>What the handler has achieved once it has released the key: the answer, the invariant, nothing else touched.\<close>

definition settled :: "hEnv \<Rightarrow> CDN \<Rightarrow> request \<Rightarrow> string \<Rightarrow> fetchResult \<Rightarrow> respw \<times> CDN \<Rightarrow> bool" where
  "settled ev h r k res = (\<lambda>(w', h'). same_frame h [] h' \<and> cdn_inv (heXX ev) (heDisk ev) h' \<and> rwSent w' \<noteq> None \<and> fetch_answer ev h r k res w' h')"

lemma fetch_answer_sent: "fetch_answer ev h r k (Inr resp) w' h' \<Longrightarrow> rwSent w' \<noteq> None"
  by (simp add: fetch_answer_def answered_def)

lemma fetch_answer_from:
  assumes "fetch_answer ev h1 r k res w' h'" and "cdCache h1 = cdCache h" and "cdDefaultTTL h1 = cdDefaultTTL h" and "cdPredictor h1 = cdPredictor h"
  shows "fetch_answer ev h r k res w' h'"
  using assms by (cases res) (auto simp: fetch_answer_def keepable_def kept_page_def page_for_def)

lemma settled_from:
  assumes "settled ev h1 r k res p" "same_frame h [] h1" "cdCache h1 = cdCache h" "cdPredictor h1 = cdPredictor h"
  shows "settled ev h r k res p"
  using assms fetch_answer_from [of ev h1 r k res _ _ h] same_frame_then [OF assms(2)]
  by (auto simp: settled_def same_frame_def [of h "[]" h1])

text \<open>Storing the entry, releasing the key with it and answering.\<close>

lemma store_release_returns:
  fixes h :: CDN
  assumes core: "cdn_core (heXX ev) (heDisk ev) h" and lock: "holds_lock False k h" and w: "rwSent w = None" "rwBody w = []"
    and keep: "keepable h resp" and ttl: "determineTTL (cdDefaultTTL h) resp = (ttl, swr)"
    and key: "key = NormalizeKey (heUni ev) (reqHost r) (reqPath r) (reqRawQuery r) (header_Get (rsHeader resp) ''Vary'') (reqHeader r)"
  shows "returns (h_store ev h k key (new_entry ev resp ttl swr key) \<bind> (\<lambda>(entry, h). h_Release h k (Some entry) False \<bind>
      (\<lambda>h. Some (serveEntry ev w entry ''MISS'', h)))) (settled ev h r k (Inr resp))"
proof (rule returns_bind [OF h_store_returns [OF core]], clarify)
  let ?e = "new_entry ev resp ttl swr key"
  fix e' :: Entry and h2 :: CDN
  assume h2: "h2 = h\<lparr>cdCache := cdCache h2\<rparr>" and core2: "cdn_core (heXX ev) (heDisk ev) h2" and page: "same_page ?e e'"
    and look: "\<forall>j e''. cache_lookup (heXX ev) (cdCache h2) j = Some e'' \<longrightarrow>
       cache_lookup (heXX ev) (cdCache h) j = Some e'' \<or> (j = k \<or> j = key) \<and> same_page ?e e''"
    and room: "key = k \<and> has_room (heXX ev) (cdCache h) k \<and> \<not> put_refused (cdCache h) k ?e \<longrightarrow>
       e' = put_compress (heDisk ev) (cdCache h) ?e \<and> cache_lookup (heXX ev) (cdCache h2) k = Some e'"
  have lock2: "holds_lock False k h2" using lock by (subst h2) (simp add: holds_lock_def)
  have ans: "answered (serveEntry ev w e' ''MISS'') (rsStatusCode resp) (rsBody resp) ''MISS''"
    using serveEntry_answers [OF w, of ev e' "''MISS''"] same_page_fields [OF page] by (simp add: new_entry_def)
  have kept: "kept_page ev h resp e''" if "same_page ?e e''" for e'' using that ttl by (auto simp: kept_page_def)
  show "returns (h_Release h2 k (Some e') False \<bind> (\<lambda>h. Some (serveEntry ev w e' ''MISS'', h))) (settled ev h r k (Inr resp))"
  proof (rule returns_bind [OF h_Release_returns [OF lock2]], clarify)
    fix h3 :: CDN
    assume h3: "h3 = h2\<lparr>cdStampede := cdStampede h3\<rparr>" and free: "slLocks (cdStampede h3) = Map.empty"
    have "cdn_inv (heXX ev) (heDisk ev) h3" using core2 free h3 by (metis cdn_core_frame(1) cdn_inv_def)
    moreover have "cdCache h3 = cdCache h2" by (subst h3) simp
    moreover have "cdPredictor h3 = cdPredictor h" by (subst h3, simp, subst h2, simp)
    moreover have "same_frame h [] h3" by (rule same_frame_then [OF same_frame_eq(2) [OF h2] same_frame_eq(1) [OF h3]])
    ultimately show "returns (Some (serveEntry ev w e' ''MISS'', h3)) (settled ev h r k (Inr resp))"
      using keep ans look kept room ttl key answered_sent [OF ans] by (auto simp: settled_def fetch_answer_def variant_key_def page_for_def)
  qed
qed

lemma keep_response_returns:
  assumes core: "cdn_core (heXX ev) (heDisk ev) h" and lock: "holds_lock True k h" and w: "rwSent w = None" "rwBody w = []"
    and keep: "keepable h resp" and ttl: "determineTTL (cdDefaultTTL h) resp = (ttl, swr)"
  shows "returns (keep_response ev h w r k resp ttl swr) (settled ev h r k (Inr resp))"
  unfolding keep_response_def
proof (rule returns_bind [OF stream_body_returns [OF lock]], clarify)
  fix se :: StreamingEntry and h1 :: CDN
  let ?key = "NormalizeKey (heUni ev) (reqHost r) (reqPath r) (reqRawQuery r) (header_Get (rsHeader resp) ''Vary'') (reqHeader r)"
  assume h1: "h1 = h\<lparr>cdStampede := cdStampede h1, cdStreams := cdStreams h1, cdNextStream := cdNextStream h1\<rparr>"
    and lock1: "holds_lock False k h1" and se: "seComplete se" "seErr se = None" "seBuf se = rsBody resp"
      "seHeader se = rsHeader resp" "seStatus se = rsStatusCode resp"
  have core1: "cdn_core (heXX ev) (heDisk ev) h1" using core by (subst h1) simp
  have same: "cdCache h1 = cdCache h" "cdPredictor h1 = cdPredictor h" "cdDefaultTTL h1 = cdDefaultTTL h" by (subst h1, simp)+
  have made: "ToEntry se (heClock ev TStored) ttl swr (entry_etag ev resp) (header_Get (rsHeader resp) ''Last-Modified'') ?key =
      Some (Some (new_entry ev resp ttl swr ?key))"
    using se by (simp add: ToEntry_def new_entry_def)
  have "returns (h_store ev h1 k ?key (new_entry ev resp ttl swr ?key) \<bind> (\<lambda>(entry, h). h_Release h k (Some entry) False \<bind>
      (\<lambda>h. Some (serveEntry ev w entry ''MISS'', h)))) (settled ev h r k (Inr resp))"
    by (rule returns_mono [OF store_release_returns [OF core1 lock1 w _ _ refl]])
       (use keep ttl same settled_from [OF _ same_frame_eq(3) [OF h1] same(1,2)] in \<open>simp_all add: keepable_def\<close>)
  with made show "returns (let cacheKey = ?key in do {
       made \<leftarrow> ToEntry se (heClock ev TStored) ttl swr (entry_etag ev resp) (header_Get (rsHeader resp) ''Last-Modified'') cacheKey;
       entry \<leftarrow> made;
       (entry, h) \<leftarrow> h_store ev h1 k cacheKey entry;
       h \<leftarrow> h_Release h k (Some entry) False;
       Some (serveEntry ev w entry ''MISS'', h)
     }) (settled ev h r k (Inr resp))"
    by (simp add: Let_def)
qed

lemma pass_response_returns:
  assumes core: "cdn_core (heXX ev) (heDisk ev) h" and lock: "holds_lock True k h" and w: "rwSent w = None" "rwBody w = []"
    and keep: "\<not> keepable h resp"
  shows "returns (pass_response h w k resp) (settled ev h r k (Inr resp))"
  unfolding pass_response_def
proof (rule returns_bind [OF h_Release_returns [OF lock]], clarify)
  fix h1 :: CDN
  assume h1: "h1 = h\<lparr>cdStampede := cdStampede h1\<rparr>" and free: "slLocks (cdStampede h1) = Map.empty"
  have core1: "cdn_core (heXX ev) (heDisk ev) h1" using core by (subst h1) simp
  show "returns (h_Mark h1 k \<bind> (\<lambda>h. Some (serveResponse w resp ''BYPASS'', h))) (settled ev h r k (Inr resp))"
  proof (rule returns_bind [OF h_Mark_returns [OF core1]], clarify)
    fix h2 :: CDN
    assume h2: "h2 = h1\<lparr>cdPredictor := cdPredictor h2\<rparr>" and core2: "cdn_core (heXX ev) (heDisk ev) h2"
    have "cdStampede h2 = cdStampede h1" "cdCache h2 = cdCache h1" by (subst h2, simp)+
    moreover have "cdCache h1 = cdCache h" by (subst h1) simp
    moreover have "same_frame h [] h2" by (rule same_frame_then [OF same_frame_eq(1) [OF h1] same_frame_eq(4) [OF h2]])
    ultimately show "returns (Some (serveResponse w resp ''BYPASS'', h2)) (settled ev h r k (Inr resp))"
      using core2 free keep serveResponse_answers [OF w, of resp "''BYPASS''"] answered_sent by (auto simp: settled_def cdn_inv_def fetch_answer_def)
  qed
qed

text \<open>A failed fetch: the key is released, then a stale entry or 502.\<close>

lemma failed_fetch_returns:
  fixes h :: CDN
  assumes core: "cdn_core (heXX ev) (heDisk ev) h" and lock: "holds_lock True k h" and w: "rwSent w = None" "rwBody w = []"
  shows "returns (h_Release h k None True \<bind> (\<lambda>h. stale_or_502 ev h w k)) (settled ev h r k (Inl err))"
proof (rule returns_bind [OF h_Release_returns [OF lock]], clarify)
  fix h2 :: CDN
  assume h2: "h2 = h\<lparr>cdStampede := cdStampede h2\<rparr>" and free: "slLocks (cdStampede h2) = Map.empty"
  have core2: "cdn_core (heXX ev) (heDisk ev) h2" using core by (subst h2) simp
  have c2: "cdCache h2 = cdCache h" "cdDefaultTTL h2 = cdDefaultTTL h" "cdPredictor h2 = cdPredictor h" by (subst h2, simp)+
  show "returns (stale_or_502 ev h2 w k) (settled ev h r k (Inl err))"
  proof (rule returns_mono [OF stale_or_502_returns [OF core2 w, where err = err]], unfold split_paired_all prod.case, elim conjE)
    fix w' and h' :: CDN
    assume h': "h' = h2\<lparr>cdCache := cdCache h'\<rparr>" and "cdn_core (heXX ev) (heDisk ev) h'" "fetch_answer ev h2 r k (Inl err) w' h'"
      "rwSent w' \<noteq> None"
    moreover have "cdStampede h' = cdStampede h2" by (subst h') simp
    moreover have "same_frame h [] h'" by (rule same_frame_then [OF same_frame_eq(1) [OF h2] same_frame_eq(2) [OF h']])
    ultimately show "settled ev h r k (Inl err) (w', h')"
      using free fetch_answer_from [OF _ c2] by (simp add: settled_def cdn_inv_def)
  qed
qed

text \<open>The rest of the handler, once the origin has answered or failed.\<close>

lemma after_fetch_returns:
  fixes h :: CDN
  assumes core: "cdn_core (heXX ev) (heDisk ev) h" and lock: "holds_lock True k h" and w: "rwSent w = None" "rwBody w = []"
  shows "returns (case res of
          Inl err \<Rightarrow> h_Release h k None True \<bind> (\<lambda>h. stale_or_502 ev h w k)
        | Inr resp \<Rightarrow> (let (ttl, swr) = determineTTL (cdDefaultTTL h) resp
             in if ttl > 0 \<and> isCacheableStatus (rsStatusCode resp) then keep_response ev h w r k resp ttl swr
                else pass_response h w k resp)) (settled ev h r k res)"
proof (cases res)
  case (Inr resp)
  obtain ttl swr where ttl: "determineTTL (cdDefaultTTL h) resp = (ttl, swr)" by (cases "determineTTL (cdDefaultTTL h) resp")
  have "returns (if keepable h resp then keep_response ev h w r k resp ttl swr else pass_response h w k resp) (settled ev h r k (Inr resp))"
    using keep_response_returns [OF core lock w _ ttl, of r] pass_response_returns [OF core lock w, of resp] by simp
  then show ?thesis unfolding Inr by (simp add: ttl keepable_def)
qed (simp add: failed_fetch_returns [OF core lock w])

lemma fetchAndServeStreaming_returns:
  assumes core: "cdn_core (heXX ev) (heDisk ev) h" and lock: "holds_lock True k h" and w: "rwSent w = None" "rwBody w = []"
  shows "returns (fetchAndServeStreaming ev h w r k) (\<lambda>p. served (heXX ev) (heDisk ev) h p \<and>
      fetch_answer ev h r k (fetched ev h (cdOriginURL h @ reqURI r) (reqHeader r)) (fst p) (snd p))"
  unfolding fetchAndServeStreaming_def
proof (rule returns_bind [OF h_Fetch_returns [OF core]], clarify)
  fix res :: fetchResult and h1 :: CDN and sent
  assume h1: "h1 = h\<lparr>cdOrigin := cdOrigin h1, cdSent := cdSent h @ sent\<rparr>" and core1: "cdn_core (heXX ev) (heDisk ev) h1"
    and sent: "length sent \<le> 1"
    and got: "if fst (Allow (heClock ev TAllow) (orCb (cdOrigin h)))
       then (res, sent) = doFetch (heNet ev) (cdOrigin h) (cdOriginURL h @ reqURI r) (reqHeader r) else res = Inl ErrCircuitOpen \<and> sent = []"
  have res: "fetched ev h (cdOriginURL h @ reqURI r) (reqHeader r) = res"
    using got by (auto simp: fetched_def split: if_splits dest: arg_cong [of _ _ fst])
  have same: "cdStampede h1 = cdStampede h" "cdCache h1 = cdCache h" "cdDefaultTTL h1 = cdDefaultTTL h" "cdPredictor h1 = cdPredictor h"
    by (subst h1, simp)+
  then have lock1: "holds_lock True k h1" using lock by (simp add: holds_lock_def)
  have "settled ev h1 r k res p \<Longrightarrow> served (heXX ev) (heDisk ev) h p \<and> fetch_answer ev h r k res (fst p) (snd p)" for p
    using same_frame_eq(5) [OF h1] sent fetch_answer_from [OF _ same(2,3,4)] by (auto simp: settled_def served_def same_frame_def)
  from returns_mono [OF after_fetch_returns [OF core1 lock1 w, where res = res and r = r], OF this]
  show "returns (case res of
          Inl err \<Rightarrow> h_Release h1 k None True \<bind> (\<lambda>h. stale_or_502 ev h w k)
        | Inr resp \<Rightarrow> (let (ttl, swr) = determineTTL (cdDefaultTTL h1) resp
             in if ttl > 0 \<and> isCacheableStatus (rsStatusCode resp) then keep_response ev h1 w r k resp ttl swr
                else pass_response h1 w k resp))
      (\<lambda>p. served (heXX ev) (heDisk ev) h p \<and>
         fetch_answer ev h r k (fetched ev h (cdOriginURL h @ reqURI r) (reqHeader r)) (fst p) (snd p))"
    unfolding res .
qed

end
