(* ===== verification/CdnServe.thy ===== *)
theory CdnServe
  imports CdnHandler
begin

text \<open>
  Correctness of the single-tenant handler of \<open>CdnHandler\<close>: every part of \<open>ServeHTTP\<close> returns and
  restores the invariant, the handler as a state machine (requests, background revalidations,
  predictor rotations, cache calls of the admin endpoints), and the properties of hits, misses,
  rejected requests and revalidations.
\<close>

section \<open>Every request is served\<close>

lemma fetchAndServe_returns:
  assumes inv: "cdn_inv (heXX ev) (heDisk ev) h" and w: "rwSent w = None" "rwBody w = []"
  shows "returns (fetchAndServe ev h w r k) (\<lambda>p. served (heXX ev) (heDisk ev) h p \<and>
      fetch_answer ev h r k (fetched ev h (cdOriginURL h @ reqURI r) (reqHeader r)) (fst p) (snd p))"
  unfolding fetchAndServe_def
proof (rule returns_bind [OF h_Acquire_returns], use inv in \<open>simp add: cdn_inv_def\<close>, clarify)
  fix who :: "nat + nat" and h1 :: CDN
  assume who: "isl who = False" and h1: "h1 = h\<lparr>cdStampede := cdStampede h1\<rparr>" and lock: "holds_lock True k h1"
  have core: "cdn_core (heXX ev) (heDisk ev) h1" using inv by (subst h1) (simp add: cdn_inv_def)
  have same: "cdCache h1 = cdCache h" "cdDefaultTTL h1 = cdDefaultTTL h" "cdOrigin h1 = cdOrigin h" "cdOriginURL h1 = cdOriginURL h" "cdPredictor h1 = cdPredictor h"
    by (subst h1, simp)+
  have frame: "same_frame h [] h1" by (rule same_frame_eq(1) [OF h1])
  obtain i where i: "who = Inr i" using who by (cases who) auto
  have "fetched ev h1 url hdr = fetched ev h url hdr" for url hdr by (simp add: fetched_def same)
  then show "returns (case who of
          Inl i \<Rightarrow> (case heWaited ev i of
               (_, Some se) \<Rightarrow> do { w' \<leftarrow> serveStreamingEntry w se ''HIT''; Some (w', h1) }
             | (Some entry, None) \<Rightarrow> Some (serveEntry ev w entry ''HIT'', h1)
             | (None, None) \<Rightarrow> stale_or_502 ev h1 w k)
        | Inr i \<Rightarrow> fetchAndServeStreaming ev h1 w r k)
      (\<lambda>p. served (heXX ev) (heDisk ev) h p \<and> fetch_answer ev h r k (fetched ev h (cdOriginURL h @ reqURI r) (reqHeader r)) (fst p) (snd p))"
    unfolding i sum.case
    by (intro returns_mono [OF fetchAndServeStreaming_returns [OF core lock w]])
       (use frame fetch_answer_from [OF _ same(1,2,5)] in \<open>auto simp: served_def same same_frame_def\<close>)
qed

lemma served_same:
  assumes "same_frame h [] h1" and "served xx dk h1 p" shows "served xx dk h p"
  using assms by (auto simp: served_def same_frame_def)

lemma proxyPassthrough_returns:
  assumes inv: "cdn_inv (heXX ev) (heDisk ev) h" and w: "rwSent w = None" "rwBody w = []"
  shows "returns (proxyPassthrough ev h w r) (served (heXX ev) (heDisk ev) h)"
  unfolding proxyPassthrough_def
proof (rule returns_bind [OF h_Fetch_returns], use inv in \<open>simp add: cdn_inv_def\<close>, clarify)
  fix res :: fetchResult and h1 :: CDN and sent
  assume h1: "h1 = h\<lparr>cdOrigin := cdOrigin h1, cdSent := cdSent h @ sent\<rparr>" and core: "cdn_core (heXX ev) (heDisk ev) h1" and "length sent \<le> 1"
  moreover have "cdStampede h1 = cdStampede h" by (subst h1) simp
  moreover have "same_frame h sent h1" by (rule same_frame_eq(5) [OF h1])
  moreover have "\<exists>a b. rwSent (serveResponse w resp ''BYPASS'') = Some (a, b)" for resp
    using serveResponse_answers [OF w, of resp "''BYPASS''"] answered_sent by fastforce
  ultimately show "returns (case res of Inl err \<Rightarrow> Some (http_Error w ''Bad Gateway'' 502, h1)
      | Inr resp \<Rightarrow> Some (serveResponse w resp ''BYPASS'', h1)) (served (heXX ev) (heDisk ev) h)"
    using inv w by (cases res) (auto simp: served_def cdn_inv_def)
qed

lemma serveRange_sent:
  assumes "parseRange rng (int (length (eBody e))) = Some (a, b)" and "rwSent w = None"
  shows "returns (serveRange cd w e a b) (\<lambda>w'. rwSent w' \<noteq> None)"
proof -
  have ab: "0 \<le> a" "a \<le> b" "b < int (length (eBody e))" using parseRange_bounds [OF assms(1)] by simp_all
  then show ?thesis by (simp add: serveRange_def Let_def no_panic assms(2) w_Write_def)
qed

lemma range_of_entry:
  assumes "cdn_inv xx dk h'" and "same_frame h sent h'" and "length sent \<le> 1" and "rwSent w = None"
    and "returns none (served xx dk h)"
  shows "returns (case parseRange rng (int (length (eBody e))) of None \<Rightarrow> none
      | Some (a, b) \<Rightarrow> serveRange cd w e a b \<bind> (\<lambda>w'. Some (w', h'))) (served xx dk h)"
proof (cases "parseRange rng (int (length (eBody e)))")
  case (Some ab)
  obtain a b where "ab = (a, b)" by (cases ab)
  with Some serveRange_sent [of rng e a b w cd] assms show ?thesis
    by (auto intro!: returns_bind simp: served_def)
qed (use assms(5) in simp)

lemma keep_range_returns:
  assumes inv: "cdn_inv (heXX ev) (heDisk ev) h1" and frame: "same_frame h sent h1" "length sent \<le> 1" and w: "rwSent w = None" "rwBody w = []"
  shows "returns (keep_range ev h1 w r rng k resp ttl swr) (served (heXX ev) (heDisk ev) h)"
  unfolding keep_range_def Let_def
proof (rule returns_bind [OF h_store_returns], use inv in \<open>simp add: cdn_inv_def\<close>, clarify)
  fix e' :: Entry and h2 :: CDN
  assume h2: "h2 = h1\<lparr>cdCache := cdCache h2\<rparr>" and core2: "cdn_core (heXX ev) (heDisk ev) h2"
  have "cdStampede h2 = cdStampede h1" by (subst h2) simp
  with core2 inv have inv2: "cdn_inv (heXX ev) (heDisk ev) h2" by (simp add: cdn_inv_def)
  have frame2: "same_frame h sent h2" using frame(1) same_frame_eq(2) [OF h2] by (simp add: same_frame_def)
  have "served (heXX ev) (heDisk ev) h (serveEntry ev w e' ''MISS'', h2)"
    using inv2 frame2 frame(2) answered_sent [OF serveEntry_answers [OF w]] by (auto simp: served_def)
  then show "returns (case parseRange rng (int (length (eBody e'))) of
        None \<Rightarrow> Some (serveEntry ev w e' ''MISS'', h2)
      | Some (start, end') \<Rightarrow> serveRange (evCodec (heDisk ev)) w e' start end' \<bind> (\<lambda>w'. Some (w', h2)))
    (served (heXX ev) (heDisk ev) h)"
    by (intro range_of_entry [OF inv2 frame2 frame(2) w(1)]) simp
qed

lemma fetch_range_returns:
  assumes inv: "cdn_inv (heXX ev) (heDisk ev) h" and w: "rwSent w = None" "rwBody w = []"
  shows "returns (fetch_range ev h w r rng k) (served (heXX ev) (heDisk ev) h)"
  unfolding fetch_range_def Let_def
proof (rule returns_bind [OF h_Fetch_returns], use inv in \<open>simp add: cdn_inv_def\<close>, clarify)
  fix res :: fetchResult and h1 :: CDN and sent
  assume h1: "h1 = h\<lparr>cdOrigin := cdOrigin h1, cdSent := cdSent h @ sent\<rparr>" and core: "cdn_core (heXX ev) (heDisk ev) h1" and sent: "length sent \<le> 1"
  have "cdStampede h1 = cdStampede h" by (subst h1) simp
  with core inv have inv1: "cdn_inv (heXX ev) (heDisk ev) h1" by (simp add: cdn_inv_def)
  have frame: "same_frame h sent h1" by (rule same_frame_eq(5) [OF h1])
  have resp: "served (heXX ev) (heDisk ev) h (serveResponse w resp ''BYPASS'', h1)" for resp
    using inv1 frame sent answered_sent [OF serveResponse_answers [OF w]] by (auto simp: served_def)
  have err: "served (heXX ev) (heDisk ev) h (http_Error w ''Bad Gateway'' 502, h1)" using inv1 frame sent w by (auto simp: served_def)
  show "returns (case res of Inl err \<Rightarrow> Some (http_Error w ''Bad Gateway'' 502, h1)
      | Inr resp \<Rightarrow> (case determineTTL (cdDefaultTTL h1) resp of (ttl, swr) \<Rightarrow>
             if ttl > 0 \<and> isCacheableStatus (rsStatusCode resp) then keep_range ev h1 w r rng k resp ttl swr
             else Some (serveResponse w resp ''BYPASS'', h1))) (served (heXX ev) (heDisk ev) h)"
    using err resp keep_range_returns [OF inv1 frame sent w] by (simp split: sum.split prod.split)
qed

lemma serveByteRange_returns:
  assumes inv: "cdn_inv (heXX ev) (heDisk ev) h" and w: "rwSent w = None" "rwBody w = []"
  shows "returns (serveByteRange ev h w r rng) (served (heXX ev) (heDisk ev) h)"
  unfolding serveByteRange_def Let_def
proof (rule returns_bind [OF h_Get_returns], use inv in \<open>simp add: cdn_inv_def\<close>, clarify)
  fix found :: "Entry option" and h1 :: CDN
  let ?key = "NormalizeKey (heUni ev) (reqHost r) (reqPath r) (reqRawQuery r) [] []"
  assume h1: "h1 = h\<lparr>cdCache := cdCache h1\<rparr>" and core: "cdn_core (heXX ev) (heDisk ev) h1"
  have "cdStampede h1 = cdStampede h" by (subst h1) simp
  with core inv have inv1: "cdn_inv (heXX ev) (heDisk ev) h1" by (simp add: cdn_inv_def)
  have frame: "same_frame h [] h1" by (rule same_frame_eq(2) [OF h1])
  have "returns (proxyPassthrough ev h1 w r) (served (heXX ev) (heDisk ev) h)"
    by (rule returns_mono [OF proxyPassthrough_returns [OF inv1 w] served_same [OF frame]])
  moreover have "returns (fetch_range ev h1 w r rng ?key) (served (heXX ev) (heDisk ev) h)"
    by (rule returns_mono [OF fetch_range_returns [OF inv1 w] served_same [OF frame]])
  moreover note range_of_entry [OF inv1 frame _ w(1), where none = "proxyPassthrough ev h1 w r" and rng = rng and cd = "evCodec (heDisk ev)"]
  ultimately show "returns (case found of
          None \<Rightarrow> fetch_range ev h1 w r rng ?key
        | Some entry \<Rightarrow>
            (case parseRange rng (int (length (eBody entry))) of
               None \<Rightarrow> proxyPassthrough ev h1 w r
             | Some (start, end') \<Rightarrow> serveRange (evCodec (heDisk ev)) w entry start end' \<bind> (\<lambda>w'. Some (w', h1))))
      (served (heXX ev) (heDisk ev) h)"
    by (cases found) (simp_all only: option.case list.size le0)
qed

lemma h_lookup_returns:
  assumes core: "cdn_core (heXX ev) (heDisk ev) h"
  shows "returns (h_lookup ev h r k) (\<lambda>(found, h'). h' = h\<lparr>cdCache := cdCache h'\<rparr> \<and> cdn_core (heXX ev) (heDisk ev) h' \<and>
      (\<forall>e. found = LEntry (Some e) \<longrightarrow> live (heClock ev TGet) e \<or> live (heClock ev TGetVary) e) \<and>
      (\<forall>e. cache_lookup (heXX ev) (cdCache h) k = Some e \<and> live (heClock ev TGet) e \<and>
         header_Get (GetHeader (evCodec (heDisk ev)) e) ''Vary'' = [] \<longrightarrow> found = LEntry (Some e)))"
  unfolding h_lookup_def
proof (rule returns_bind [OF h_Get_returns [OF core]], clarify)
  fix f :: "Entry option" and h1 :: CDN
  assume h1: "h1 = h\<lparr>cdCache := cdCache h1\<rparr>" and core1: "cdn_core (heXX ev) (heDisk ev) h1"
    and live: "\<forall>e. f = Some e \<longrightarrow> live (heClock ev TGet) e"
    and look: "\<forall>e. cache_lookup (heXX ev) (cdCache h) k = Some e \<longrightarrow> f = (if live (heClock ev TGet) e then Some e else None)"
  let ?P = "\<lambda>(found, h'). h' = h\<lparr>cdCache := cdCache h'\<rparr> \<and> cdn_core (heXX ev) (heDisk ev) h' \<and>
      (\<forall>e. found = LEntry (Some e) \<longrightarrow> live (heClock ev TGet) e \<or> live (heClock ev TGetVary) e) \<and>
      (\<forall>e. cache_lookup (heXX ev) (cdCache h) k = Some e \<and> live (heClock ev TGet) e \<and>
         header_Get (GetHeader (evCodec (heDisk ev)) e) ''Vary'' = [] \<longrightarrow> found = LEntry (Some e))"
  show "returns (case f of None \<Rightarrow> Some (LEntry None, h1)
        | Some entry \<Rightarrow>
            (let vary = header_Get (GetHeader (evCodec (heDisk ev)) entry) ''Vary''
             in if vary = [] then Some (LEntry (Some entry), h1)
                else if vary = ''*'' then Some (LBypass, h1)
                else let varyKey = NormalizeKey (heUni ev) (reqHost r) (reqPath r) (reqRawQuery r) vary (reqHeader r)
                     in if varyKey \<noteq> k then do { (e, h) \<leftarrow> h_Get ev TGetVary h1 varyKey; Some (LEntry e, h) }
                        else Some (LEntry (Some entry), h1))) ?P"
  proof (cases f)
    case None
    with h1 core1 look show ?thesis by (auto split: if_splits)
  next
    case (Some entry)
    let ?vary = "header_Get (GetHeader (evCodec (heDisk ev)) entry) ''Vary''"
    have here: "?P (LEntry (Some entry), h1)" using Some h1 core1 live look by (auto split: if_splits)
    have other: "\<forall>e. cache_lookup (heXX ev) (cdCache h) k = Some e \<and> live (heClock ev TGet) e \<longrightarrow> e = entry"
      using look Some by (metis option.inject)
    have vary: "returns (h_Get ev TGetVary h1 key \<bind> (\<lambda>(e, h). Some (LEntry e, h))) ?P" if "?vary \<noteq> []" for key
    proof (rule returns_bind [OF h_Get_returns [OF core1]], clarify)
      fix e :: "Entry option" and h2 :: CDN
      assume h2: "h2 = h1\<lparr>cdCache := cdCache h2\<rparr>" "cdn_core (heXX ev) (heDisk ev) h2" "\<forall>e'. e = Some e' \<longrightarrow> live (heClock ev TGetVary) e'"
      have "h2 = h\<lparr>cdCache := cdCache h2\<rparr>" by (subst h2(1), subst h1) (subst h2(1), simp)
      then show "returns (Some (LEntry e, h2)) ?P" using h2(2,3) other that by auto
    qed
    have bypass: "?P (LBypass, h1)" if "?vary \<noteq> []" using h1 core1 other that by auto
    show ?thesis unfolding Some option.case Let_def
      by (intro returns_if; (unfold returns_Some)?; (rule here | rule bypass | rule vary); assumption)
  qed
qed

lemma cached_served:
  assumes inv: "cdn_inv xx dk h" and w: "rwSent w = None" "rwBody w = []"
  shows "served xx dk h (serve_cached ev h w r k e)"
proof -
  have "rwSent (serveEntry ev w e s) \<noteq> None" for s using answered_sent [OF serveEntry_answers [OF w]] by blast
  moreover have "cdn_inv xx dk (h\<lparr>cdTasks := ts\<rparr>)" for ts using inv by (simp add: cdn_inv_def)
  moreover have "same_frame h [] h" "same_frame h [] (h\<lparr>cdTasks := ts\<rparr>)" for ts by (simp_all add: same_frame_def)
  ultimately show ?thesis
    using inv w by (auto simp: serve_cached_def served_def intro!: exI [of _ "[]"] split: option.split)
qed

lemma cdn_inv_frame:
  assumes "cdn_inv xx dk h" and "cdn_core xx dk h'" and "cdStampede h' = cdStampede h" shows "cdn_inv xx dk h'"
  using assms by (simp add: cdn_inv_def)

text \<open>The part of \<open>ServeHTTP\<close> behind the checks of the request, once the predictor was asked.\<close>

definition serve_plain :: "hEnv \<Rightarrow> CDN \<Rightarrow> respw \<Rightarrow> request \<Rightarrow> string \<Rightarrow> (respw \<times> CDN) option" where
  "serve_plain ev h w r k =
     h_lookup ev h r k \<bind> (\<lambda>(found, h). case found of
        LBypass \<Rightarrow> fetchAndServe ev h w r k
      | LEntry (Some entry) \<Rightarrow> Some (serve_cached ev h w r k entry)
      | LEntry None \<Rightarrow> fetchAndServe ev h w r k)"

lemma serve_plain_returns:
  assumes inv: "cdn_inv (heXX ev) (heDisk ev) h" and w: "rwSent w = None" "rwBody w = []"
  shows "returns (serve_plain ev h w r k) (served (heXX ev) (heDisk ev) h)"
  unfolding serve_plain_def
proof (rule returns_bind [OF h_lookup_returns], use inv in \<open>simp add: cdn_inv_def\<close>, unfold split_paired_all prod.case, elim conjE)
  fix found :: lookup and h1 :: CDN
  assume h1: "h1 = h\<lparr>cdCache := cdCache h1\<rparr>" and core: "cdn_core (heXX ev) (heDisk ev) h1"
  have "cdStampede h1 = cdStampede h" by (subst h1) simp
  note inv1 = cdn_inv_frame [OF inv core this]
  have frame: "same_frame h [] h1" by (rule same_frame_eq(2) [OF h1])
  have fetch: "returns (fetchAndServe ev h1 w r k) (served (heXX ev) (heDisk ev) h)"
    by (rule returns_mono [OF fetchAndServe_returns [OF inv1 w]]) (use served_same [OF frame] in blast)
  show "returns (case found of LBypass \<Rightarrow> fetchAndServe ev h1 w r k
      | LEntry (Some entry) \<Rightarrow> Some (serve_cached ev h1 w r k entry)
      | LEntry None \<Rightarrow> fetchAndServe ev h1 w r k) (served (heXX ev) (heDisk ev) h)"
    using fetch served_same [OF frame cached_served [OF inv1 w]] by (simp split: lookup.split option.split)
qed

definition primaryKey_of :: "hEnv \<Rightarrow> request \<Rightarrow> string" where
  "primaryKey_of ev r = NormalizeKey (heUni ev) (reqHost r) (reqPath r) (reqRawQuery r) [] []"

definition accepted :: "request \<Rightarrow> bool" where
  "accepted r \<longleftrightarrow> (reqMethod r = ''GET'' \<or> reqMethod r = ''HEAD'') \<and> isValidPath (reqPath r) \<and> reqHost r \<noteq> []"

text \<open>A request that may be answered from the cache: no byte range, no \<open>no-cache\<close>.\<close>

definition plain :: "request \<Rightarrow> bool" where
  "plain r \<longleftrightarrow> accepted r \<and> header_Get (reqHeader r) ''Range'' = [] \<and>
     \<not> hasCacheDirective (header_Get (reqHeader r) ''Cache-Control'') ''no-cache''"

lemma ServeHTTP_accepted:
  assumes "accepted r"
  shows "ServeHTTP ev h w r =
     (if header_Get (reqHeader r) ''Range'' \<noteq> [] then serveByteRange ev h w r (header_Get (reqHeader r) ''Range'')
      else h_IsLikely h (primaryKey_of ev r) \<bind> (\<lambda>(likely, h).
        if likely \<or> hasCacheDirective (header_Get (reqHeader r) ''Cache-Control'') ''no-cache''
        then fetchAndServe ev h w r (primaryKey_of ev r) else serve_plain ev h w r (primaryKey_of ev r)))"
  using assms by (cases "h_IsLikely h (primaryKey_of ev r)") (auto simp: ServeHTTP_def accepted_def primaryKey_of_def serve_plain_def Let_def)

lemma ServeHTTP_rejected:
  assumes "\<not> accepted r" and w: "rwSent w = None"
  shows "\<exists>w'. ServeHTTP ev h w r = Some (w', h) \<and>
      rw_status w' = (if reqMethod r = ''GET'' \<or> reqMethod r = ''HEAD'' then 400 else 405) \<and> rwSent w' \<noteq> None"
  using assms by (auto simp: ServeHTTP_def accepted_def)

lemma ServeHTTP_returns:
  assumes inv: "cdn_inv (heXX ev) (heDisk ev) h" and w: "rwSent w = None" "rwBody w = []"
  shows "returns (ServeHTTP ev h w r) (served (heXX ev) (heDisk ev) h)"
proof (cases "accepted r")
  case True
  have core: "cdn_core (heXX ev) (heDisk ev) h" using inv by (simp add: cdn_inv_def)
  have "returns (h_IsLikely h k \<bind> (\<lambda>(likely, h). if likely \<or> b then fetchAndServe ev h w r k else serve_plain ev h w r k))
      (served (heXX ev) (heDisk ev) h)" for b k
  proof (rule returns_bind [OF h_IsLikely_returns [OF core]], unfold split_paired_all prod.case, elim conjE)
    fix likely :: bool and h1 :: CDN
    assume h1: "h1 = h\<lparr>cdPredictor := cdPredictor h1\<rparr>" and core1: "cdn_core (heXX ev) (heDisk ev) h1"
    have "cdStampede h1 = cdStampede h" by (subst h1) simp
    note inv1 = cdn_inv_frame [OF inv core1 this]
    have frame: "same_frame h [] h1" by (rule same_frame_eq(4) [OF h1])
    show "returns (if likely \<or> b then fetchAndServe ev h1 w r k else serve_plain ev h1 w r k) (served (heXX ev) (heDisk ev) h)"
      by (intro returns_if returns_mono [OF fetchAndServe_returns [OF inv1 w]] returns_mono [OF serve_plain_returns [OF inv1 w]])
         (use served_same [OF frame] in blast)+
  qed
  then show ?thesis using serveByteRange_returns [OF inv w] by (simp add: ServeHTTP_accepted [OF True])
next
  case False
  from ServeHTTP_rejected [OF False w(1), of ev h] inv show ?thesis
    by (auto simp: served_def same_frame_def intro!: exI [of _ "[]"])
qed

text \<open>What a revalidation leaves: a new page of the origin's answer when that may be kept, else the cache as it was.\<close>

definition revalidated :: "hEnv \<Rightarrow> CDN \<Rightarrow> fetchResult \<Rightarrow> CDN \<Rightarrow> bool" where
  "revalidated ev h res h' \<longleftrightarrow> cdn_inv (heXX ev) (heDisk ev) h' \<and> cdTasks h' = cdTasks h \<and>
      (\<exists>sent. same_frame h sent h' \<and> length sent \<le> 1) \<and>
      (case res of
         Inr resp \<Rightarrow> if keepable h resp \<and> rsStatusCode resp < 500
            then \<forall>j e. cache_lookup (heXX ev) (cdCache h') j = Some e \<longrightarrow> cache_lookup (heXX ev) (cdCache h) j = Some e \<or> kept_page ev h resp e
            else cdCache h' = cdCache h
       | Inl _ \<Rightarrow> cdCache h' = cdCache h)"

lemma revalidate_store_returns:
  fixes h1 :: CDN
  assumes un: "revalidated ev h (Inl err) h1" and r: "determineTTL (cdDefaultTTL h) resp = (ttl, swr)" "keepable h resp" "rsStatusCode resp < 500"
  shows "returns (h_store ev h1 k j (new_entry ev resp ttl swr j) \<bind> (\<lambda>(_, h). Some h)) (revalidated ev h (Inr resp))"
proof -
  have inv1: "cdn_inv (heXX ev) (heDisk ev) h1" and same: "cdCache h1 = cdCache h" "cdTasks h1 = cdTasks h" using un by (auto simp: revalidated_def)
  from inv1 have core1: "cdn_core (heXX ev) (heDisk ev) h1" by (simp add: cdn_inv_def)
  show ?thesis
  proof (rule returns_bind [OF h_store_returns [OF core1]], unfold split_paired_all prod.case, elim conjE)
    fix e' :: Entry and h2 :: CDN
    assume h2: "h2 = h1\<lparr>cdCache := cdCache h2\<rparr>" and core2: "cdn_core (heXX ev) (heDisk ev) h2"
      and look: "\<forall>i e''. cache_lookup (heXX ev) (cdCache h2) i = Some e'' \<longrightarrow>
         cache_lookup (heXX ev) (cdCache h1) i = Some e'' \<or> (i = k \<or> i = j) \<and> same_page (new_entry ev resp ttl swr j) e''"
    have f: "cdStampede h2 = cdStampede h1" "cdTasks h2 = cdTasks h1" by (subst h2, simp)+
    have "\<exists>sent. same_frame h sent h2 \<and> length sent \<le> 1" using un same_frame_eq(2) [OF h2] by (auto simp: revalidated_def same_frame_def)
    then show "returns (Some h2) (revalidated ev h (Inr resp))"
      using cdn_inv_frame [OF inv1 core2 f(1)] f(2) look same r by (auto simp: revalidated_def kept_page_def)
  qed
qed

lemma revalidateAsync_returns:
  assumes inv: "cdn_inv (heXX ev) (heDisk ev) h"
  shows "returns (revalidateAsync ev h tk) (revalidated ev h (fetched ev h (cdOriginURL h @ tkRequestURI tk) (tkHeader tk)))"
  unfolding revalidateAsync_def
proof (rule returns_bind [OF h_Fetch_returns], use inv in \<open>simp add: cdn_inv_def\<close>, unfold split_paired_all prod.case, elim exE conjE)
  fix res :: fetchResult and h1 :: CDN and sent
  assume h1: "h1 = h\<lparr>cdOrigin := cdOrigin h1, cdSent := cdSent h @ sent\<rparr>" and core1: "cdn_core (heXX ev) (heDisk ev) h1"
    and sent: "length sent \<le> 1"
    and got: "if fst (Allow (heClock ev TAllow) (orCb (cdOrigin h)))
       then (res, sent) = doFetch (heNet ev) (cdOrigin h) (cdOriginURL h @ tkRequestURI tk) (tkHeader tk) else res = Inl ErrCircuitOpen \<and> sent = []"
  have res: "fetched ev h (cdOriginURL h @ tkRequestURI tk) (tkHeader tk) = res"
    using got by (auto simp: fetched_def split: if_splits dest: arg_cong [of _ _ fst])
  have same: "cdStampede h1 = cdStampede h" "cdCache h1 = cdCache h" "cdDefaultTTL h1 = cdDefaultTTL h" "cdTasks h1 = cdTasks h"
    by (subst h1, simp)+
  have un: "revalidated ev h (Inl err) h1" for err
    using cdn_inv_frame [OF inv core1 same(1)] same_frame_eq(5) [OF h1] sent same by (auto simp: revalidated_def)
  then have unchanged: "revalidated ev h (Inr resp) h1" if "\<not> (keepable h resp \<and> rsStatusCode resp < 500)" for resp
    using that by (simp add: revalidated_def)
  show "returns (case res of Inl err \<Rightarrow> Some h1
        | Inr resp \<Rightarrow>
            if rsStatusCode resp \<ge> 500 then Some h1
            else let (ttl, swr) = determineTTL (cdDefaultTTL h1) resp
                 in if ttl \<le> 0 \<or> \<not> isCacheableStatus (rsStatusCode resp) then Some h1
                    else do {
                      let cacheKey = NormalizeKey (heUni ev) (tkHost tk) (tkPath tk) (tkRawQuery tk)
                            (header_Get (rsHeader resp) ''Vary'') (tkHeader tk);
                      (_, h) \<leftarrow> h_store ev h1 (tkPrimaryKey tk) cacheKey (new_entry ev resp ttl swr cacheKey);
                      Some h
                    }) (revalidated ev h (fetched ev h (cdOriginURL h @ tkRequestURI tk) (tkHeader tk)))"
  proof (cases res)
    case (Inr resp)
    obtain ttl swr where ttl: "determineTTL (cdDefaultTTL h) resp = (ttl, swr)" by fastforce
    then have keep: "keepable h resp \<longleftrightarrow> 0 < ttl \<and> isCacheableStatus (rsStatusCode resp)" by (simp add: keepable_def)
    show ?thesis
      using revalidate_store_returns [OF un ttl] unchanged [of resp] by (auto simp: res Inr same ttl keep Let_def not_le)
  qed (simp add: res un)
qed

section \<open>The handler as a state machine\<close>

text \<open>
  The handler as \<open>main\<close> builds it, then any sequence of: requests, background revalidations that were
  started and not yet run, rotations of the predictor, and cache calls of the admin endpoints.
\<close>

definition cdn_init :: "diskEnv \<Rightarrow> CDN \<Rightarrow> bool" where
  "cdn_init dk h \<longleftrightarrow> (\<exists>c opts url ttl pred. cache_init dk c \<and> cdn_New c (origin_New opts) url ttl pred = Some h)"

inductive cdn_step :: "(string \<Rightarrow> u64) \<Rightarrow> diskEnv \<Rightarrow> CDN \<Rightarrow> CDN \<Rightarrow> bool" for xx dk where
  req: "heXX ev = xx \<Longrightarrow> heDisk ev = dk \<Longrightarrow> ServeHTTP ev h new_respw r = Some (w', h') \<Longrightarrow> cdn_step xx dk h h'"
| reval: "heXX ev = xx \<Longrightarrow> heDisk ev = dk \<Longrightarrow> tk \<in> set (cdTasks h) \<Longrightarrow>
     revalidateAsync ev (h\<lparr>cdTasks := remove1 tk (cdTasks h)\<rparr>) tk = Some h' \<Longrightarrow> cdn_step xx dk h h'"
| rotate: "cdPredictor h = Some p \<Longrightarrow> Rotate p = Some p' \<Longrightarrow> cdn_step xx dk h (h\<lparr>cdPredictor := Some p'\<rparr>)"
| admin: "cache_call xx dk (cdCache h) c \<Longrightarrow> cdn_step xx dk h (h\<lparr>cdCache := c\<rparr>)"

lemma NewPredictor_wf: "NewPredictor capacity decay = Some p \<Longrightarrow> wf_Predictor p"
  by (auto simp: NewPredictor_def wf_Predictor_def Let_def word_gt_0 split: bind_splits if_splits)

lemma cdn_New_inv:
  assumes "cache_init dk c" and "cdn_New c (origin_New opts) url ttl pred = Some h"
  shows "cdn_inv xx dk h"
proof -
  have "cache_inv xx c \<and> spill_safe dk c" using assms(1) by (rule cache_sys.inv_init)
  then show ?thesis using assms(2) NewPredictor_wf
    by (auto simp: cdn_New_def Let_def cdn_inv_def cdn_core_def origin_New_def NewStampedeLock_def split: option.splits bind_splits)
qed

interpretation cdn: invariant_system "cdn_init dk" "cdn_step xx dk" "cdn_inv xx dk" for xx dk
proof
  show "cdn_init dk h \<Longrightarrow> cdn_inv xx dk h" for h using cdn_New_inv by (auto simp: cdn_init_def)
  show "cdn_inv xx dk h'" if inv: "cdn_inv xx dk h" and step: "cdn_step xx dk h h'" for h h'
    using step
  proof cases
    case (req ev r w')
    with ServeHTTP_returns [of ev h new_respw r] inv show ?thesis by (auto simp: served_def)
  next
    case (reval ev tk)
    have "cdn_inv xx dk (h\<lparr>cdTasks := remove1 tk (cdTasks h)\<rparr>)" using inv by (simp add: cdn_inv_def)
    with revalidateAsync_returns [of ev "h\<lparr>cdTasks := remove1 tk (cdTasks h)\<rparr>" tk] reval show ?thesis by (simp add: revalidated_def)
  next
    case (rotate p p')
    then have "wf_Predictor p" using inv by (simp add: cdn_inv_def cdn_core_def)
    from Rotate_result [OF this] rotate inv show ?thesis by (auto simp: cdn_inv_def cdn_core_def)
  next
    case (admin c)
    with inv cache_sys.inv_step [of xx "cdCache h" dk c] show ?thesis by (simp add: cdn_inv_def cdn_core_def)
  qed
qed

section \<open>Answers from the cache\<close>

lemma IsLikely_again:
  assumes "cdn_core xx dk h" and "h_IsLikely h k = Some (False, h1)" and "cdPredictor h2 = cdPredictor h1"
  shows "\<exists>h3. h_IsLikely h2 k = Some (False, h3)"
proof (cases "cdPredictor h")
  case None
  with assms(2,3) show ?thesis by (auto simp: h_IsLikely_def)
next
  case (Some p)
  then have wf: "wf_Predictor p" using assms(1) by (simp add: cdn_core_def)
  let ?likely = "\<lambda>q. 2 \<le> max (active_bucket q ! unat (fst (hashKey q k))) (shadow_bucket q ! unat (fst (hashKey q k))) \<and>
           2 \<le> max (active_bucket q ! unat (snd (hashKey q k))) (shadow_bucket q ! unat (snd (hashKey q k)))"
  obtain b p1 where p1: "IsLikelyUncacheable p k = Some (b, p1)" "wf_Predictor p1" "?likely p1 = ?likely p" "b = ?likely p"
    by (rule Check_result [OF wf, of k]) simp
  obtain b' p2 where p2: "IsLikelyUncacheable p1 k = Some (b', p2)" "b' = ?likely p1"
    by (rule Check_result [OF p1(2), of k]) simp
  have "\<not> b" "cdPredictor h1 = Some p1" using assms(2) Some p1(1) by (auto simp: h_IsLikely_def)
  with p1(3,4) p2 assms(3) show ?thesis by (simp add: h_IsLikely_def)
qed

lemma ServeHTTP_plain:
  assumes "plain r" and "h_IsLikely h (primaryKey_of ev r) = Some (False, h1)"
  shows "ServeHTTP ev h w r = serve_plain ev h1 w r (primaryKey_of ev r)"
  using assms by (simp add: ServeHTTP_accepted plain_def)

text \<open>How a cached entry is answered: stale, not modified, or in full.\<close>

definition cached_answer :: "hEnv \<Rightarrow> request \<Rightarrow> Entry \<Rightarrow> respw \<Rightarrow> bool" where
  "cached_answer ev r e w' \<longleftrightarrow>
     (if IsExpired (heClock ev TExpired) e \<and> IsStaleServable (heClock ev TServable) e
      then answered w' (eStatusCode e) (eBody e) ''STALE''
      else if not_modified ev r e \<noteq> None then answered w' 304 [] ''HIT''
      else answered w' (eStatusCode e) (eBody e) ''HIT'')"

lemma not_modified_answers:
  assumes "rwSent w = None" and "rwBody w = []"
  shows "answered (w_WriteHeader (w_Set (w_Set w k v) ''X-Cache'' ''HIT'') 304) 304 [] ''HIT''"
  using assms by (simp add: answered_def rw_status_def rw_sent_header_def w_Set_def header_Get_Set)

lemma serve_cached_answers:
  assumes "rwSent w = None" and "rwBody w = []"
  shows "cached_answer ev r e (fst (serve_cached ev h w r k e))"
  using serveEntry_answers [OF assms] not_modified_answers [OF assms]
  by (auto simp: cached_answer_def serve_cached_def split: option.split)

lemma cached_answer_stale:
  "cached_answer ev r e w' \<Longrightarrow> rw_sent_header w' ''X-Cache'' = ''STALE'' \<longleftrightarrow>
     IsExpired (heClock ev TExpired) e \<and> IsStaleServable (heClock ev TServable) e"
  by (auto simp: cached_answer_def answered_def split: if_splits)

lemma serve_cached_frame:
  assumes "serve_cached ev h w r k e = (w', h')"
  shows "cdSent h' = cdSent h \<and> cdOrigin h' = cdOrigin h \<and> length (cdTasks h') = length (cdTasks h) +
      (if IsExpired (heClock ev TExpired) e \<and> IsStaleServable (heClock ev TServable) e then 1 else 0)"
  using assms by (auto simp: serve_cached_def split: option.splits if_splits)

lemma serve_hit:
  assumes inv: "cdn_inv (heXX ev) (heDisk ev) h" and plain: "plain r"
    and likely: "h_IsLikely h (primaryKey_of ev r) = Some (False, h1)"
    and held: "cache_lookup (heXX ev) (cdCache h) (primaryKey_of ev r) = Some e" "live (heClock ev TGet) e"
      "header_Get (GetHeader (evCodec (heDisk ev)) e) ''Vary'' = []"
  shows "\<exists>w' h'. ServeHTTP ev h new_respw r = Some (w', h') \<and> cdSent h' = cdSent h \<and> cdOrigin h' = cdOrigin h \<and>
      cached_answer ev r e w' \<and>
      length (cdTasks h') = length (cdTasks h) + (if rw_sent_header w' ''X-Cache'' = ''STALE'' then 1 else 0)"
proof -
  have core0: "cdn_core (heXX ev) (heDisk ev) h" using inv by (simp add: cdn_inv_def)
  note I = h_IsLikely_returns [OF core0, of "primaryKey_of ev r", unfolded likely returns_Some prod.case]
  note h1 = I [THEN conjunct1] and core = I [THEN conjunct2, THEN conjunct1]
  have f1: "cdCache h1 = cdCache h" "cdSent h1 = cdSent h" "cdOrigin h1 = cdOrigin h" "cdTasks h1 = cdTasks h" by (subst h1, simp)+
  have held1: "cache_lookup (heXX ev) (cdCache h1) (primaryKey_of ev r) = Some e" using held(1) f1(1) by simp
  obtain found h2 where look: "h_lookup ev h1 r (primaryKey_of ev r) = Some (found, h2)" and h2: "h2 = h1\<lparr>cdCache := cdCache h2\<rparr>"
    and found: "found = LEntry (Some e)"
    by (rule returnsE [OF h_lookup_returns [OF core, of r "primaryKey_of ev r"]], unfold split_paired_all prod.case, elim conjE)
       (use held1 held(2,3) in blast)
  have f2: "cdSent h2 = cdSent h" "cdOrigin h2 = cdOrigin h" "cdTasks h2 = cdTasks h" by (subst h2, simp add: f1)+
  have "ServeHTTP ev h new_respw r = Some (serve_cached ev h2 new_respw r (primaryKey_of ev r) e)"
    unfolding ServeHTTP_plain [OF plain likely] serve_plain_def look by (simp add: found)
  moreover obtain w' h' where sc: "serve_cached ev h2 new_respw r (primaryKey_of ev r) e = (w', h')"
    by (cases "serve_cached ev h2 new_respw r (primaryKey_of ev r) e")
  moreover have ans: "cached_answer ev r e w'"
    using serve_cached_answers [of new_respw ev r e h2 "primaryKey_of ev r"] sc by simp
  ultimately show ?thesis using serve_cached_frame [OF sc] cached_answer_stale [OF ans] f2 by simp
qed

section \<open>Answers from the origin\<close>

text \<open>A miss on a cache without a disk tier changes only the frequency sketch and the statistics.\<close>

definition same_entries :: "Cache \<Rightarrow> Cache \<Rightarrow> bool" where
  "same_entries c c' \<longleftrightarrow> (\<exists>l st. c' = c\<lparr>chLfu := l, chStats := st\<rparr>)"

lemma same_entries_facts:
  assumes "same_entries c c'"
  shows "cache_lookup xx c' = cache_lookup xx c" and "has_room xx c' k = has_room xx c k"
    and "put_refused c' k e = put_refused c k e" and "put_compress dk c' e = put_compress dk c e"
    and "chDiskDir c' = chDiskDir c"
  using assms by (auto simp: same_entries_def cache_lookup_def has_room_def getShard_def put_refused_def put_compress_def fun_eq_iff
      split: option.splits)

lemma serve_miss:
  assumes inv: "cdn_inv (heXX ev) (heDisk ev) h" and plain: "plain r"
    and likely: "h_IsLikely h (primaryKey_of ev r) = Some (False, h1)"
    and absent: "cache_lookup (heXX ev) (cdCache h) (primaryKey_of ev r) = None" "chDiskDir (cdCache h) = []"
  obtains w' h' h2 where "ServeHTTP ev h new_respw r = Some (w', h')" and "served (heXX ev) (heDisk ev) h (w', h')"
    and "same_entries (cdCache h) (cdCache h2)" and "cdDefaultTTL h2 = cdDefaultTTL h" and "cdPredictor h2 = cdPredictor h1"
    and "fetch_answer ev h2 r (primaryKey_of ev r) (fetched ev h (cdOriginURL h @ reqURI r) (reqHeader r)) w' h'"
proof -
  let ?k = "primaryKey_of ev r"
  have core0: "cdn_core (heXX ev) (heDisk ev) h" using inv by (simp add: cdn_inv_def)
  note I = h_IsLikely_returns [OF core0, of ?k, unfolded likely returns_Some prod.case]
  note h1 = I [THEN conjunct1] and core1 = I [THEN conjunct2, THEN conjunct1]
  have f1: "cdCache h1 = cdCache h" "cdOrigin h1 = cdOrigin h" "cdOriginURL h1 = cdOriginURL h" "cdDefaultTTL h1 = cdDefaultTTL h"
    "cdStampede h1 = cdStampede h" "cdSent h1 = cdSent h" by (subst h1, simp)+
  obtain l where "cache_Get (heXX ev) (heDisk ev) (heClock ev TGet) (cdCache h) ?k =
      Some (None, (cdCache h)\<lparr>chLfu := l, chStats := count_miss (chStats (cdCache h))\<rparr>)"
    using cache_Get_absent [of "heXX ev" "cdCache h" ?k "heDisk ev" "heClock ev TGet"] absent core0 by (auto simp: cdn_core_def)
  moreover define h2 where "h2 = h1\<lparr>cdCache := (cdCache h)\<lparr>chLfu := l, chStats := count_miss (chStats (cdCache h))\<rparr>\<rparr>"
  ultimately have look: "h_Get ev TGet h1 ?k = Some (None, h2)" by (simp add: h_Get_def f1)
  have core2: "cdn_core (heXX ev) (heDisk ev) h2"
    using h_Get_returns [OF core1, of TGet ?k, unfolded look returns_Some prod.case] by blast
  have inv2: "cdn_inv (heXX ev) (heDisk ev) h2" using inv core2 by (simp add: cdn_inv_def h2_def f1)
  have call: "ServeHTTP ev h new_respw r = fetchAndServe ev h2 new_respw r ?k"
    unfolding ServeHTTP_plain [OF plain likely] serve_plain_def h_lookup_def look by simp
  obtain w' h' where s: "ServeHTTP ev h new_respw r = Some (w', h')" "served (heXX ev) (heDisk ev) h2 (w', h')"
      "fetch_answer ev h2 r ?k (fetched ev h2 (cdOriginURL h2 @ reqURI r) (reqHeader r)) w' h'"
    unfolding call using fetchAndServe_returns [OF inv2, of new_respw r ?k] by (auto elim!: returnsE)
  have "fetched ev h2 (cdOriginURL h2 @ reqURI r) (reqHeader r) = fetched ev h (cdOriginURL h @ reqURI r) (reqHeader r)"
    by (simp add: fetched_def h2_def f1)
  moreover have "served (heXX ev) (heDisk ev) h (w', h')"
    by (rule served_same [OF _ s(2)]) (simp add: same_frame_def h2_def f1)
  moreover have "same_entries (cdCache h) (cdCache h2)" "cdDefaultTTL h2 = cdDefaultTTL h" "cdPredictor h2 = cdPredictor h1"
    by (auto simp: same_entries_def h2_def f1)
  ultimately show thesis using that s by metis
qed

lemma put_compress_header:
  assumes "eHeader e = Some hd'" and "eCompressedHeader e = None" and "chCompressHeaders c \<Longrightarrow> codec_roundtrip (evCodec dk) hd'"
  shows "header_Get (GetHeader (evCodec dk) (put_compress dk c e)) k = header_Get hd' k"
proof (cases "chCompressHeaders c \<and> hd' \<noteq> []")
  case True
  from NewCompressedHeader_decodes [of "evCodec dk" hd'] True assms(3) obtain ch where
    "NewCompressedHeader (evCodec dk) hd' = Some ch" "header_eq (hdr_Decode (evCodec dk) (Some ch)) hd'" by blast
  with True assms(1,2) show ?thesis by (simp add: put_compress_def GetHeader_def header_eq_def header_Get_def header_values_def)
next
  case False
  with assms(1,2) show ?thesis by (auto simp: put_compress_def GetHeader_def NewCompressedHeader_def)
qed

lemma NormalizeKey_no_vary: "NormalizeKey uni h p q [] hdr = NormalizeKey uni h p q [] []"
  by (simp add: NormalizeKey_def)

lemma miss_stored:
  assumes inv: "cdn_inv (heXX ev) (heDisk ev) h" and plain: "plain r"
    and likely: "h_IsLikely h (primaryKey_of ev r) = Some (False, h1)"
    and absent: "cache_lookup (heXX ev) (cdCache h) (primaryKey_of ev r) = None" "chDiskDir (cdCache h) = []"
    and got: "fetched ev h (cdOriginURL h @ reqURI r) (reqHeader r) = Inr resp" "keepable h resp"
      "header_Get (rsHeader resp) ''Vary'' = []" "chCompressHeaders (cdCache h) \<Longrightarrow> codec_roundtrip (evCodec (heDisk ev)) (rsHeader resp)"
    and room: "has_room (heXX ev) (cdCache h) (primaryKey_of ev r)" "\<not> put_refused (cdCache h) (primaryKey_of ev r) (page_for ev h r resp)"
  obtains w' h' e where "ServeHTTP ev h new_respw r = Some (w', h')" and "served (heXX ev) (heDisk ev) h (w', h')"
    and "answered w' (rsStatusCode resp) (rsBody resp) ''MISS''"
    and "cache_lookup (heXX ev) (cdCache h') (primaryKey_of ev r) = Some e" and "same_page (page_for ev h r resp) e"
    and "header_Get (GetHeader (evCodec (heDisk ev)) e) ''Vary'' = []" and "cdPredictor h' = cdPredictor h1"
proof -
  obtain w' h' h2 where s: "ServeHTTP ev h new_respw r = Some (w', h')" "served (heXX ev) (heDisk ev) h (w', h')"
    and h2: "same_entries (cdCache h) (cdCache h2)" "cdDefaultTTL h2 = cdDefaultTTL h" "cdPredictor h2 = cdPredictor h1"
    and ans: "fetch_answer ev h2 r (primaryKey_of ev r) (Inr resp) w' h'"
    using serve_miss [OF inv plain likely absent] unfolding got(1) by blast
  note same = same_entries_facts [OF h2(1)]
  have k: "keepable h2 resp" "page_for ev h2 r resp = page_for ev h r resp" using got(2) h2(2) by (simp_all add: keepable_def page_for_def)
  have key: "variant_key ev r resp = primaryKey_of ev r"
    unfolding variant_key_def primaryKey_of_def got(3) by (rule NormalizeKey_no_vary)
  let ?e = "put_compress (heDisk ev) (cdCache h) (page_for ev h r resp)"
  have "cache_lookup (heXX ev) (cdCache h') (primaryKey_of ev r) = Some ?e"
    and "answered w' (rsStatusCode resp) (rsBody resp) ''MISS''" and "cdPredictor h' = cdPredictor h1"
    using ans k key room h2(3) by (simp_all add: fetch_answer_def same)
  moreover have "header_Get (GetHeader (evCodec (heDisk ev)) ?e) ''Vary'' = header_Get (rsHeader resp) ''Vary''"
    by (rule put_compress_header) (use got(4) in \<open>simp_all add: page_for_def new_entry_def\<close>)
  ultimately show thesis using that [OF s] same_page_compress got(3) by simp
qed

lemma new_cache_has_room:
  assumes "distinct (map fst (dkFiles dk))" and "NewWithOptions ev mf dk opts = Some c"
  shows "has_room xx c k"
proof -
  have inv: "cache_inv xx c" by (rule NewWithOptions_result(1) [OF assms])
  let ?s = "chShards c ! getShard xx c k"
  have s: "?s \<in> set (chShards c)" using getShard_bound [OF inv] by simp
  then have "1 \<le> shMaxItems ?s" using inv shard.view_bounded [of ?s] by (auto simp: cache_inv_def)
  moreover have "shItems ?s = []" using s assms(2) by (auto simp: NewWithOptions_def Let_def newShard_def split: if_splits)
  ultimately show ?thesis by (simp add: has_room_def Let_def)
qed

lemma cdn_reachable_req:
  assumes "reachable (cdn_init (heDisk ev)) (cdn_step (heXX ev) (heDisk ev)) h" and "ServeHTTP ev h new_respw r = Some (w', h')"
  shows "reachable (cdn_init (heDisk ev)) (cdn_step (heXX ev) (heDisk ev)) h'"
  using assms(1) by (rule reachable.step) (rule cdn_step.req [OF refl refl assms(2)])

section \<open>Properties\<close>

text \<open>A small deployment the witnesses run on: no disk tier, an origin that answers every request.\<close>

definition demo_hev :: "instant \<Rightarrow> hEnv" where
  "demo_hev now = \<lparr>heXX = (\<lambda>s. of_nat (length s)), heDisk = demo_env, heUni = id, heNet = demo_net, heJoined = (\<lambda>_. Inl ErrContext),
     heWaited = (\<lambda>_. (None, None)), heSha8 = (\<lambda>_. ''00''), heParseTime = (\<lambda>_. None), heClock = (\<lambda>_. now)\<rparr>"

definition demo_req :: request where
  "demo_req = \<lparr>reqMethod = ''GET'', reqHost = ''a.org'', reqPath = ''/x'', reqRawQuery = [], reqURI = ''/x'', reqHeader = [],
     reqRemoteAddr = ''192.0.2.1:5000''\<rparr>"

definition demo_resp :: Response where
  "demo_resp = \<lparr>rsStatusCode = 200, rsHeader = [], rsBody = ''abcd''\<rparr>"

lemma demo_plain: "plain demo_req" "primaryKey_of (demo_hev t) demo_req = ''a.org/x''"
proof -
  have "isValidPath ''/x''" by code_simp
  moreover have "\<not> hasCacheDirective [] ''no-cache''" by code_simp
  ultimately show "plain demo_req" by (simp add: plain_def accepted_def demo_req_def header_Get_def header_values_def)
  have "isLowerASCII ''a.org''" by code_simp
  then show "primaryKey_of (demo_hev t) demo_req = ''a.org/x''"
    by (simp add: primaryKey_of_def NormalizeKey_def demo_req_def del: isLowerASCII.simps)
qed

lemma demo_keep: "determineTTL (60 * second) demo_resp = (60 * second, 0)"
  by (simp add: determineTTL_def demo_resp_def header_Get_def header_values_def Let_def) code_simp

lemma demo_cdn:
  obtains h where "reachable (cdn_init demo_env) (cdn_step xx demo_env) h" and "h_IsLikely h k = Some (False, h)"
    and "cache_lookup xx (cdCache h) = Map.empty" and "chDiskDir (cdCache h) = []" and "has_room xx (cdCache h) k"
    and "\<not> put_refused (cdCache h) k (page_for (demo_hev t) h demo_req demo_resp)" and "\<not> chCompressHeaders (cdCache h)"
    and "\<forall>url hdr. fetched (demo_hev t) h url hdr = Inr demo_resp" and "cdDefaultTTL h = 60 * second"
    and "cdPredictor h = None"
proof -
  let ?opts = "demo_opts\<lparr>opDiskDir := []\<rparr>"
  obtain c where c: "NewWithOptions demo_env False demo_disk ?opts = Some c" by (simp add: NewWithOptions_def Let_def)
  have d: "distinct (map fst (dkFiles demo_disk))" by (simp add: demo_disk_def)
  have safe: "spill_safe demo_env c" by (simp add: spill_safe_def demo_env_def noFaults_def)
  have "cache_init demo_env c" using c d safe unfolding cache_init_def by blast
  moreover obtain h where h: "cdn_New c demo_origin ''http://o'' (60 * second) None = Some h"
    by (simp add: cdn_New_def Let_def)
  ultimately have "cdn_init demo_env h" unfolding cdn_init_def demo_origin_def by blast
  then have "reachable (cdn_init demo_env) (cdn_step xx demo_env) h" by (rule reachable.start)
  moreover have f: "cdCache h = c" "cdDefaultTTL h = 60 * second" "cdOrigin h = demo_origin" "cdPredictor h = None"
    using h by (auto simp: cdn_New_def Let_def)
  moreover have "\<not> chCompressHeaders c" "chMaxEntryBytes c = 1000" "chMaxKeyLen c = 0" "chDiskDir c = []"
    using c by (auto simp: NewWithOptions_def Let_def demo_opts_def)
  moreover have "\<forall>url hdr. fetched (demo_hev t) h url hdr = Inr demo_resp"
    by (simp add: fetched_def f demo_hev_def doFetch_def demo_net_def demo_origin_def origin_New_def read_limited_def max_body_def Let_def
        Allow_def NewCircuitBreaker_def demo_resp_def)
  ultimately show thesis using NewWithOptions_result(6) [OF d c] new_cache_has_room [OF d c]
    by (intro that [of h]) (simp_all add: h_IsLikely_def put_refused_def page_for_def new_entry_def demo_resp_def)
qed

lemma demo_keepable: "cdDefaultTTL h = 60 * second \<Longrightarrow> keepable h demo_resp"
  using demo_keep by (simp add: keepable_def second_def demo_resp_def isCacheableStatus_def)

text \<open>The state after the first request of the small deployment.\<close>

lemma demo_filled:
  obtains h e where "reachable (cdn_init demo_env) (cdn_step (heXX (demo_hev 5)) demo_env) h"
    and "h_IsLikely h ''a.org/x'' = Some (False, h)" and "cache_lookup (heXX (demo_hev 5)) (cdCache h) ''a.org/x'' = Some e"
    and "header_Get (GetHeader (evCodec demo_env) e) ''Vary'' = []"
    and "eBody e = ''abcd''" and "eStatusCode e = 200" and "eStoredAt e = 5" and "eTTL e = 60 * second"
proof -
  let ?xx = "heXX (demo_hev 5)"
  have dk: "heDisk (demo_hev t) = demo_env" for t by (simp add: demo_hev_def)
  obtain h where h: "reachable (cdn_init demo_env) (cdn_step ?xx demo_env) h" "h_IsLikely h ''a.org/x'' = Some (False, h)"
    "cache_lookup ?xx (cdCache h) = Map.empty" "chDiskDir (cdCache h) = []" "has_room ?xx (cdCache h) ''a.org/x''"
    "\<not> put_refused (cdCache h) ''a.org/x'' (page_for (demo_hev 5) h demo_req demo_resp)" "\<not> chCompressHeaders (cdCache h)"
    "\<forall>url hdr. fetched (demo_hev 5) h url hdr = Inr demo_resp" "cdDefaultTTL h = 60 * second"
    "cdPredictor h = None" by (rule demo_cdn)
  obtain w' h' e where s: "ServeHTTP (demo_hev 5) h new_respw demo_req = Some (w', h')"
    "cache_lookup ?xx (cdCache h') ''a.org/x'' = Some e" "same_page (page_for (demo_hev 5) h demo_req demo_resp) e"
    "header_Get (GetHeader (evCodec demo_env) e) ''Vary'' = []" "cdPredictor h' = cdPredictor h"
    by (rule miss_stored [of "demo_hev 5" h demo_req h demo_resp, unfolded demo_plain(2) dk])
       (use demo_plain(1) h cdn.reachable_inv [OF h(1)] demo_keepable [OF h(9)] in
         \<open>simp_all add: demo_resp_def header_Get_def header_values_def\<close>)
  have "reachable (cdn_init demo_env) (cdn_step ?xx demo_env) h'"
    using cdn_reachable_req [of "demo_hev 5", unfolded dk, OF h(1) s(1)] .
  moreover have "eBody e = ''abcd''" "eStatusCode e = 200" "eStoredAt e = 5" "eTTL e = 60 * second"
    using same_page_fields [OF s(3)] demo_keep h(9) by (simp_all add: page_for_def new_entry_def demo_resp_def demo_hev_def)
  moreover have "h_IsLikely h' ''a.org/x'' = Some (False, h')"
    using h(10) s(5) by (simp add: h_IsLikely_def)
  ultimately show thesis using s that by simp
qed



text \<open>
  A request that is not \<open>GET\<close> or \<open>HEAD\<close> gets 405, one with an invalid path or without a host
  gets 400, and neither touches any state: no cache lookup, no predictor, no origin.
\<close>

theorem cdn_rejects:
  assumes "\<not> ((reqMethod r = ''GET'' \<or> reqMethod r = ''HEAD'') \<and> isValidPath (reqPath r) \<and> reqHost r \<noteq> [])"
  shows "\<exists>w'. ServeHTTP ev h new_respw r = Some (w', h) \<and>
           rw_status w' = (if reqMethod r = ''GET'' \<or> reqMethod r = ''HEAD'' then 400 else 405)"
  using ServeHTTP_rejected [of r new_respw ev h] assms by (auto simp: accepted_def)

theorem cdn_rejects_witness:
  "\<exists>(w' :: respw) (h :: CDN). ServeHTTP (demo_hev 5) h new_respw (demo_req\<lparr>reqMethod := ''POST''\<rparr>) = Some (w', h) \<and> rw_status w' = 405"
proof -
  obtain h where "reachable (cdn_init demo_env) (cdn_step (heXX (demo_hev 5)) demo_env) h" by (rule demo_cdn)
  show ?thesis using cdn_rejects [of "demo_req\<lparr>reqMethod := ''POST''\<rparr>" "demo_hev 5" h] by auto
qed







text \<open>
  Background revalidation. A started revalidation runs to its end in any later state, sends at
  most one request, and changes the cache only to store a fresh response: a failed fetch, a 5xx
  answer or one that may not be kept leaves the cache, and so the stale entry, as it is.
\<close>

theorem cdn_revalidate:
  assumes "reachable (cdn_init (heDisk ev)) (cdn_step (heXX ev) (heDisk ev)) h"
  shows "\<exists>h' sent. revalidateAsync ev h tk = Some h' \<and> cdSent h' = cdSent h @ sent \<and> length sent \<le> 1 \<and>
      (case fetched ev h (cdOriginURL h @ tkRequestURI tk) (tkHeader tk) of
         Inr resp \<Rightarrow> if keepable h resp \<and> rsStatusCode resp < 500
            then \<forall>j e. cache_lookup (heXX ev) (cdCache h') j = Some e \<longrightarrow> cache_lookup (heXX ev) (cdCache h) j = Some e \<or> kept_page ev h resp e
            else cdCache h' = cdCache h
       | Inl _ \<Rightarrow> cdCache h' = cdCache h)"
  by (rule returnsE [OF revalidateAsync_returns [OF cdn.reachable_inv [OF assms], of tk]]) (auto simp: revalidated_def same_frame_def)

theorem cdn_revalidate_witness:
  "\<exists>h h'. reachable (cdn_init demo_env) (cdn_step (heXX (demo_hev 5)) demo_env) h \<and>
     revalidateAsync ((demo_hev 5)\<lparr>heNet := demo_net\<lparr>neDo := \<lambda>_. DoError\<rparr>\<rparr>) h
       \<lparr>tkHost = ''a.org'', tkRequestURI = ''/x'', tkPath = ''/x'', tkRawQuery = [], tkHeader = [], tkPrimaryKey = ''a.org/x''\<rparr> = Some h' \<and>
     cdCache h' = cdCache h"
proof -
  let ?ev = "(demo_hev 5)\<lparr>heNet := demo_net\<lparr>neDo := \<lambda>_. DoError\<rparr>\<rparr>"
  obtain h where h: "reachable (cdn_init demo_env) (cdn_step (heXX (demo_hev 5)) demo_env) h" by (rule demo_cdn)
  have "fetched ?ev h url hdr \<noteq> Inr resp" for url hdr resp
    by (auto simp: fetched_def demo_hev_def doFetch_def demo_net_def Let_def split: if_splits)
  moreover have "heDisk ?ev = demo_env" "heXX ?ev = heXX (demo_hev 5)" by (simp_all add: demo_hev_def)
  ultimately show ?thesis
    using cdn_revalidate [of ?ev h] h by (fastforce split: sum.splits)
qed

end
