(* ===== verification/TenantData.thy ===== *)
theory TenantData
  imports GoBase Complex_Main
begin

text \<open>
  \<open>tenant/tenant.go\<close>: the data model the control plane and the edge servers share. Instants are
  nanoseconds, a JSON number of type \<open>float64\<close> is the rational it denotes. The two maps of an edge
  configuration are keyed by hostname and by domain id; a missing key reads as nil, the empty list
  for rules.
\<close>

record Tenant =
  tnID :: string
  tnName :: string
  tnCreatedAt :: instant
  tnUpdatedAt :: instant
  tnActive :: bool
  tnAPIKey :: string

record Domain =
  dmID :: string
  dmTenantID :: string
  dmHostname :: string
  dmOriginURL :: string
  dmOriginHost :: string
  dmOriginTimeout :: int
  dmDefaultTTLSec :: int
  dmMaxCacheEntryBytes :: int
  dmRespectOriginHeaders :: bool
  dmCORSOrigins :: string
  dmCORSMaxAge :: int
  dmTLSMode :: string
  dmTLSCert :: string
  dmTLSKey :: string
  dmTLSAcmeDNS :: bool
  dmRateLimitRPS :: rat
  dmRateLimitBurst :: int
  dmActive :: bool
  dmCreatedAt :: instant
  dmUpdatedAt :: instant

record CacheRule =
  crID :: string
  crDomainID :: string
  crPathGlob :: string
  crTTLSec :: int
  crBypass :: bool

record EdgeConfig =
  ecVersion :: int
  ecTimestamp :: instant
  ecDomains :: "string \<rightharpoonup> Domain"
  ecRules :: "string \<Rightarrow> CacheRule list"

record EdgeNode =
  enID :: string
  enName :: string
  enAddr :: string
  enRegion :: string
  enLastSeen :: instant
  enActive :: bool

text \<open>A domain the witnesses of several theories use.\<close>

definition demo_domain :: Domain where
  "demo_domain = \<lparr>dmID = ''d1'', dmTenantID = ''t1'', dmHostname = ''a.org'', dmOriginURL = ''http://o/'', dmOriginHost = [],
     dmOriginTimeout = 0, dmDefaultTTLSec = 60, dmMaxCacheEntryBytes = 0, dmRespectOriginHeaders = True, dmCORSOrigins = [],
     dmCORSMaxAge = 0, dmTLSMode = ''none'', dmTLSCert = [], dmTLSKey = [], dmTLSAcmeDNS = False, dmRateLimitRPS = 0,
     dmRateLimitBurst = 0, dmActive = True, dmCreatedAt = 0, dmUpdatedAt = 0\<rparr>"

end
