(* ===== verification/MultiTenant.thy ===== *)
theory MultiTenant
  imports CdnServe TenantData
begin

text \<open>
  \<open>handler/multitenant.go\<close>: the handler that routes by host name to per-domain origins and cache
  rules, the configuration push and the configuration poller. The environment \<open>hEnv\<close>, the writer and
  the calls to cache, origin and predictor are those of \<open>CdnHandler\<close>; JSON decoding of a configuration
  is a parameter. The pointers inside a configuration are not nil.
\<close>

record MultiTenantCDN = edgeCore +
  mtConfig :: "EdgeConfig option"

definition NewMultiTenant :: "Cache \<Rightarrow> Origin \<Rightarrow> duration \<Rightarrow> MultiTenantCDN" where
  "NewMultiTenant c og defaultTTL =
     \<lparr>cdCache = c, cdOrigin = og, cdDefaultTTL = defaultTTL, cdPredictor = None, cdSent = [], mtConfig = None\<rparr>"

definition EnablePredictor :: "MultiTenantCDN \<Rightarrow> Predictor option \<Rightarrow> MultiTenantCDN" where
  "EnablePredictor h p = h\<lparr>cdPredictor := p\<rparr>"

definition UpdateConfig :: "MultiTenantCDN \<Rightarrow> EdgeConfig \<Rightarrow> MultiTenantCDN" where
  "UpdateConfig h cfg = h\<lparr>mtConfig := Some cfg\<rparr>"

definition GetConfig :: "MultiTenantCDN \<Rightarrow> EdgeConfig option" where
  "GetConfig h = mtConfig h"

text \<open>The request of a push: its method and what reading its body gives.\<close>

definition HandleConfigPush ::
  "(bytes \<Rightarrow> EdgeConfig option) \<Rightarrow> MultiTenantCDN \<Rightarrow> respw \<Rightarrow> string \<Rightarrow> netBody \<Rightarrow> respw \<times> MultiTenantCDN" where
  "HandleConfigPush json h w meth body =
     (if meth \<noteq> ''POST'' then (http_Error w ''Method Not Allowed'' 405, h)
      else case read_limited (10 * 2 ^ 20) body of
             None \<Rightarrow> (http_Error w ''read error'' 400, h)
           | Some b \<Rightarrow>
               (case json b of
                  None \<Rightarrow> (http_Error w ''invalid JSON'' 400, h)
                | Some cfg \<Rightarrow>
                    (w_Write (w_Set w ''Content-Type'' ''application/json'')
                       (''{\"status\":\"ok\",\"version\":'' @ strconv_Itoa (ecVersion cfg) @ ''}''),
                     UpdateConfig h cfg)))"

section \<open>Routing\<close>

definition lookupDomain :: "MultiTenantCDN \<Rightarrow> string \<Rightarrow> Domain option" where
  "lookupDomain h hostname = (case mtConfig h of None \<Rightarrow> None | Some cfg \<Rightarrow> ecDomains cfg hostname)"

definition lookupRules :: "MultiTenantCDN \<Rightarrow> string \<Rightarrow> CacheRule list" where
  "lookupRules h domainID = (case mtConfig h of None \<Rightarrow> [] | Some cfg \<Rightarrow> ecRules cfg domainID)"

definition matchGlob :: "string \<Rightarrow> string \<Rightarrow> bool" where
  "matchGlob urlPath pattern =
     (if pattern = [] then False
      else if pattern = ''*'' \<or> pattern = ''/*'' then True
      else if strings_HasSuffix pattern ''/*'' then
        (let prefix = strings_TrimSuffix pattern ''/*''
         in strings_HasPrefix urlPath (prefix @ ''/'') \<or> urlPath = prefix)
      else if strings_HasSuffix pattern ''*'' then
        (let prefix = strings_TrimSuffix pattern ''*'' in strings_HasPrefix urlPath prefix)
      else urlPath = pattern)"

definition stripPort :: "string \<Rightarrow> string" where
  "stripPort host =
     (case strings_LastIndexByte host (CHR '':'') of
        Some i \<Rightarrow> if i > 0 then take i host else host
      | None \<Rightarrow> host)"

definition mtIsValidPath :: "string \<Rightarrow> bool" where
  "mtIsValidPath p =
     (if \<not> strings_HasPrefix p ''/'' then False
      else if strings_Contains p ''..'' then False
      else let cleaned = path_Clean p
           in if strings_Contains cleaned ''..'' then False else True)"

section \<open>How long a response is kept\<close>

fun rule_ttl :: "CacheRule list \<Rightarrow> string \<Rightarrow> duration option" where
  "rule_ttl [] urlPath = None"
| "rule_ttl (rule # rules) urlPath =
     (if matchGlob urlPath (crPathGlob rule) \<and> crTTLSec rule > 0 then Some (wrap64 (crTTLSec rule * second))
      else rule_ttl rules urlPath)"

definition mtDetermineTTL :: "duration \<Rightarrow> Response \<Rightarrow> Domain \<Rightarrow> CacheRule list \<Rightarrow> string \<Rightarrow> duration \<times> duration" where
  "mtDetermineTTL defaultTTL resp domain rules urlPath =
     (let cc = header_Get (rsHeader resp) ''Cache-Control''
      in if hasCacheDirective cc ''no-store'' \<or> hasCacheDirective cc ''private'' then (0, 0)
         else
           let swr = getCacheDirectiveValue cc ''stale-while-revalidate'';
               sma = getCacheDirectiveValue cc ''s-maxage'';
               ma = getCacheDirectiveValue cc ''max-age''
           in if dmRespectOriginHeaders domain \<and> sma > 0 then (sma, swr)
              else if dmRespectOriginHeaders domain \<and> ma > 0 then (ma, swr)
              else case rule_ttl rules urlPath of
                     Some ttl \<Rightarrow> (ttl, swr)
                   | None \<Rightarrow> if dmDefaultTTLSec domain > 0 then (wrap64 (dmDefaultTTLSec domain * second), swr)
                             else (defaultTTL, swr))"

section \<open>Fetching\<close>

definition mt_originURL :: "Domain \<Rightarrow> request \<Rightarrow> string" where
  "mt_originURL domain r = strings_TrimRight (dmOriginURL domain) (CHR ''/'') @ reqURI r"

definition mt_header :: "Domain \<Rightarrow> header \<Rightarrow> header" where
  "mt_header domain h = (if dmOriginHost domain \<noteq> [] then header_Set h ''Host'' (dmOriginHost domain) else h)"

definition mt_varyKey :: "hEnv \<Rightarrow> request \<Rightarrow> string \<Rightarrow> string" where
  "mt_varyKey ev r vary = NormalizeKey (heUni ev) (stripPort (reqHost r)) (reqPath r) (reqRawQuery r) vary (reqHeader r)"

definition mtProxyPassthrough :: "hEnv \<Rightarrow> MultiTenantCDN \<Rightarrow> respw \<Rightarrow> request \<Rightarrow> Domain \<Rightarrow> (respw \<times> MultiTenantCDN) option" where
  "mtProxyPassthrough ev h w r domain =
     do {
       (res, h) \<leftarrow> h_Fetch ev h (''passthrough:'' @ reqURI r) (mt_originURL domain r) (reqHeader r);
       (case res of
          Inl err \<Rightarrow> Some (http_Error w ''Bad Gateway'' 502, h)
        | Inr resp \<Rightarrow> Some (serveResponse w resp ''BYPASS'', h))
     }"

definition mtFetchAndServe ::
  "hEnv \<Rightarrow> MultiTenantCDN \<Rightarrow> respw \<Rightarrow> request \<Rightarrow> Domain \<Rightarrow> string \<Rightarrow> CacheRule list \<Rightarrow> (respw \<times> MultiTenantCDN) option" where
  "mtFetchAndServe ev h w r domain primaryKey rules =
     do {
       (res, h) \<leftarrow> h_Fetch ev h primaryKey (mt_originURL domain r) (mt_header domain (reqHeader r));
       (case res of
          Inl err \<Rightarrow> stale_or_502 ev h w primaryKey
        | Inr resp \<Rightarrow>
            (let (ttl, swr) = mtDetermineTTL (cdDefaultTTL h) resp domain rules (reqPath r)
             in if ttl > 0 \<and> isCacheableStatus (rsStatusCode resp) then
                  do {
                    let cacheKey = mt_varyKey ev r (header_Get (rsHeader resp) ''Vary'');
                    (entry, h) \<leftarrow> h_store ev h primaryKey cacheKey (new_entry ev resp ttl swr cacheKey);
                    Some (serveEntry ev w entry ''MISS'', h)
                  }
                else do { h \<leftarrow> h_Mark h primaryKey; Some (serveResponse w resp ''BYPASS'', h) }))
     }"

text \<open>The branch of \<open>mtServeByteRange\<close> for a key that is not cached.\<close>

definition mt_fetch_range ::
  "hEnv \<Rightarrow> MultiTenantCDN \<Rightarrow> respw \<Rightarrow> request \<Rightarrow> Domain \<Rightarrow> string \<Rightarrow> string \<Rightarrow> (respw \<times> MultiTenantCDN) option" where
  "mt_fetch_range ev h w r domain rangeHeader primaryKey =
     do {
       let cleanHeader = mt_header domain (header_Del (reqHeader r) ''Range'');
       (res, h) \<leftarrow> h_Fetch ev h primaryKey (mt_originURL domain r) cleanHeader;
       (case res of
          Inl err \<Rightarrow> Some (http_Error w ''Bad Gateway'' 502, h)
        | Inr resp \<Rightarrow>
            (let (ttl, swr) = mtDetermineTTL (cdDefaultTTL h) resp domain (lookupRules h (dmID domain)) (reqPath r)
             in if ttl > 0 \<and> isCacheableStatus (rsStatusCode resp) then
                  do {
                    let cacheKey = mt_varyKey ev r (header_Get (rsHeader resp) ''Vary'');
                    (entry, h) \<leftarrow> h_store ev h primaryKey cacheKey (new_entry ev resp ttl swr cacheKey);
                    (case parseRange rangeHeader (int (length (eBody entry))) of
                       None \<Rightarrow> Some (serveEntry ev w entry ''MISS'', h)
                     | Some (start, end') \<Rightarrow>
                         do { w' \<leftarrow> serveRange (evCodec (heDisk ev)) w entry start end'; Some (w', h) })
                  }
                else Some (serveResponse w resp ''BYPASS'', h)))
     }"

definition mtServeByteRange ::
  "hEnv \<Rightarrow> MultiTenantCDN \<Rightarrow> respw \<Rightarrow> request \<Rightarrow> Domain \<Rightarrow> string \<Rightarrow> (respw \<times> MultiTenantCDN) option" where
  "mtServeByteRange ev h w r domain rangeHeader =
     do {
       let primaryKey = NormalizeKey (heUni ev) (stripPort (reqHost r)) (reqPath r) (reqRawQuery r) [] [];
       (found, h) \<leftarrow> h_Get ev TGet h primaryKey;
       (case found of
          Some entry \<Rightarrow>
            (case parseRange rangeHeader (int (length (eBody entry))) of
               None \<Rightarrow> mtProxyPassthrough ev h w r domain
             | Some (start, end') \<Rightarrow>
                 do { w' \<leftarrow> serveRange (evCodec (heDisk ev)) w entry start end'; Some (w', h) })
        | None \<Rightarrow> mt_fetch_range ev h w r domain rangeHeader primaryKey)
     }"

section \<open>Serving a request\<close>

fun bypass_rule :: "CacheRule list \<Rightarrow> string \<Rightarrow> bool" where
  "bypass_rule [] urlPath = False"
| "bypass_rule (rule # rules) urlPath =
     (if matchGlob urlPath (crPathGlob rule) \<and> crBypass rule then True else bypass_rule rules urlPath)"

definition mt_lookup :: "hEnv \<Rightarrow> MultiTenantCDN \<Rightarrow> request \<Rightarrow> string \<Rightarrow> (Entry option \<times> MultiTenantCDN) option" where
  "mt_lookup ev h r primaryKey =
     do {
       (found, h) \<leftarrow> h_Get ev TGet h primaryKey;
       (case found of
          None \<Rightarrow> Some (None, h)
        | Some entry \<Rightarrow>
            (let vary = header_Get (GetHeader (evCodec (heDisk ev)) entry) ''Vary''
             in if vary \<noteq> [] \<and> vary \<noteq> ''*'' then
                  (let varyKey = mt_varyKey ev r vary
                   in if varyKey \<noteq> primaryKey then h_Get ev TGetVary h varyKey else Some (Some entry, h))
                else Some (Some entry, h)))
     }"

definition mt_serve_cached :: "hEnv \<Rightarrow> respw \<Rightarrow> request \<Rightarrow> Entry \<Rightarrow> respw" where
  "mt_serve_cached ev w r entry =
     (if IsExpired (heClock ev TExpired) entry \<and> IsStaleServable (heClock ev TServable) entry then
        serveEntry ev w entry ''STALE''
      else let etag = header_Get (reqHeader r) ''If-None-Match''
           in if etag \<noteq> [] \<and> etag = eETag entry then
                w_WriteHeader (w_Set (w_Set w ''ETag'' (eETag entry)) ''X-Cache'' ''HIT'') 304
              else serveEntry ev w entry ''HIT'')"

text \<open>From the rules on: bypass, predictor, \<open>no-cache\<close>, the cache.\<close>

definition mt_serve_domain :: "hEnv \<Rightarrow> MultiTenantCDN \<Rightarrow> respw \<Rightarrow> request \<Rightarrow> Domain \<Rightarrow> (respw \<times> MultiTenantCDN) option" where
  "mt_serve_domain ev h w r domain =
     (let primaryKey = NormalizeKey (heUni ev) (stripPort (reqHost r)) (reqPath r) (reqRawQuery r) [] [];
          rules = lookupRules h (dmID domain)
      in if bypass_rule rules (reqPath r) then mtProxyPassthrough ev h w r domain
         else do {
           (likely, h) \<leftarrow> h_IsLikely h primaryKey;
           if likely then mtFetchAndServe ev h w r domain primaryKey rules
           else if hasCacheDirective (header_Get (reqHeader r) ''Cache-Control'') ''no-cache''
           then mtFetchAndServe ev h w r domain primaryKey rules
           else do {
             (found, h) \<leftarrow> mt_lookup ev h r primaryKey;
             (case found of
                Some entry \<Rightarrow> Some (mt_serve_cached ev w r entry, h)
              | None \<Rightarrow> mtFetchAndServe ev h w r domain primaryKey rules)
           }
         })"

definition mt_ServeHTTP :: "hEnv \<Rightarrow> MultiTenantCDN \<Rightarrow> respw \<Rightarrow> request \<Rightarrow> (respw \<times> MultiTenantCDN) option" where
  "mt_ServeHTTP ev h w r =
     (if reqMethod r \<noteq> ''GET'' \<and> reqMethod r \<noteq> ''HEAD'' then
        Some (http_Error (w_Set w ''Allow'' ''GET, HEAD'') ''Method Not Allowed'' 405, h)
      else if \<not> mtIsValidPath (reqPath r) then Some (http_Error w ''Bad Request'' 400, h)
      else
        let hostname = stripPort (reqHost r)
        in if hostname = [] then Some (http_Error w ''Bad Request: missing Host'' 400, h)
           else case lookupDomain h hostname of
                  None \<Rightarrow> Some (http_Error w ''Unknown domain'' 403, h)
                | Some domain \<Rightarrow>
                    if \<not> dmActive domain then Some (http_Error w ''Domain inactive'' 403, h)
                    else
                      let rangeHeader = header_Get (reqHeader r) ''Range''
                      in if rangeHeader \<noteq> [] then mtServeByteRange ev h w r domain rangeHeader
                         else mt_serve_domain ev h w r domain)"

section \<open>Polling for the configuration\<close>

record ConfigPoller =
  cpControlPlaneURL :: string
  cpAdminKey :: string
  cpLastVersion :: int

definition NewConfigPoller :: "string \<Rightarrow> string \<Rightarrow> ConfigPoller" where
  "NewConfigPoller cpURL adminKey =
     \<lparr>cpControlPlaneURL = strings_TrimRight cpURL (CHR ''/''), cpAdminKey = adminKey, cpLastVersion = 0\<rparr>"

definition poll ::
  "(bytes \<Rightarrow> EdgeConfig option) \<Rightarrow> netEnv \<Rightarrow> ConfigPoller \<Rightarrow> MultiTenantCDN \<Rightarrow> ConfigPoller \<times> MultiTenantCDN" where
  "poll json net p h =
     (let url = cpControlPlaneURL p @ ''/api/v1/config''
      in if neBadURL net url then (p, h)
         else case neDo net \<lparr>oqURL = url, oqHost = None, oqHeader = header_Set [] ''X-API-Key'' (cpAdminKey p)\<rparr> of
                DoError \<Rightarrow> (p, h)
              | DoResponse status hdr body \<Rightarrow>
                  if status \<noteq> 200 then (p, h)
                  else case read_limited (10 * 2 ^ 20) body of
                         None \<Rightarrow> (p, h)
                       | Some b \<Rightarrow>
                           (case json b of
                              None \<Rightarrow> (p, h)
                            | Some cfg \<Rightarrow>
                                if ecVersion cfg > cpLastVersion p
                                then (p\<lparr>cpLastVersion := ecVersion cfg\<rparr>, UpdateConfig h cfg)
                                else (p, h)))"

section \<open>What a request may change\<close>

text \<open>
  \<open>K\<close> is the set of keys a request may store under and \<open>u\<close> the URL it may ask the origin for; every
  other key holds afterwards only what it held before.
\<close>

definition mt_upto :: "(string \<Rightarrow> u64) \<Rightarrow> string set \<Rightarrow> string \<Rightarrow> MultiTenantCDN \<Rightarrow> originReq list \<Rightarrow> MultiTenantCDN \<Rightarrow> bool" where
  "mt_upto xx K u h sent h' \<longleftrightarrow>
     cdSent h' = cdSent h @ sent \<and> mtConfig h' = mtConfig h \<and> cdDefaultTTL h' = cdDefaultTTL h \<and>
     (\<forall>q \<in> set sent. oqURL q = u) \<and>
     (\<forall>j e. j \<notin> K \<longrightarrow> cache_lookup xx (cdCache h') j = Some e \<longrightarrow> cache_lookup xx (cdCache h) j = Some e)"

definition mt_served :: "(string \<Rightarrow> u64) \<Rightarrow> diskEnv \<Rightarrow> string set \<Rightarrow> string \<Rightarrow> MultiTenantCDN \<Rightarrow> respw \<times> MultiTenantCDN \<Rightarrow> bool" where
  "mt_served xx dk K u h = (\<lambda>(w', h'). cdn_core xx dk h' \<and> rwSent w' \<noteq> None \<and> (\<exists>sent. mt_upto xx K u h sent h' \<and> length sent \<le> 1))"

lemma mt_upto_refl: "mt_upto xx K u h [] h"
  by (simp add: mt_upto_def)

lemma mt_upto_trans: "mt_upto xx K u h s h1 \<Longrightarrow> mt_upto xx K u h1 s' h2 \<Longrightarrow> mt_upto xx K u h (s @ s') h2"
  by (auto simp: mt_upto_def)

lemma mt_served_after:
  assumes "mt_upto xx K u h [] h1" and "mt_served xx dk K u h1 p" shows "mt_served xx dk K u h p"
  using assms mt_upto_trans [OF assms(1)] by (fastforce simp: mt_served_def)

lemma mt_servedI:
  assumes "mt_upto xx K u h sent h'" and "length sent \<le> 1" and "cdn_core xx dk h'" and "rwSent w' \<noteq> None"
  shows "mt_served xx dk K u h (w', h')"
  using assms by (auto simp: mt_served_def)

lemma mt_Get:
  fixes h :: MultiTenantCDN
  assumes "cdn_core (heXX ev) (heDisk ev) h" and "k \<in> K"
  shows "returns (h_Get ev t h k) (\<lambda>(r, h'). cdn_core (heXX ev) (heDisk ev) h' \<and> mt_upto (heXX ev) K u h [] h')"
proof (rule returns_mono [OF h_Get_returns [OF assms(1)]], unfold split_paired_all prod.case, elim conjE)
  fix r and h' :: MultiTenantCDN
  assume h': "h' = h\<lparr>cdCache := cdCache h'\<rparr>" and core: "cdn_core (heXX ev) (heDisk ev) h'"
    and other: "\<forall>k' e. k' \<noteq> k \<longrightarrow> cache_lookup (heXX ev) (cdCache h') k' = Some e \<longrightarrow> cache_lookup (heXX ev) (cdCache h) k' = Some e"
  have "cdSent h' = cdSent h" "mtConfig h' = mtConfig h" "cdDefaultTTL h' = cdDefaultTTL h" by (subst h', simp)+
  with core other assms(2) show "cdn_core (heXX ev) (heDisk ev) h' \<and> mt_upto (heXX ev) K u h [] h'" by (auto simp: mt_upto_def)
qed

lemma mt_store:
  fixes h :: MultiTenantCDN
  assumes "cdn_core (heXX ev) (heDisk ev) h" and "k \<in> K" and "k' \<in> K"
  shows "returns (h_store ev h k k' e) (\<lambda>(e', h'). cdn_core (heXX ev) (heDisk ev) h' \<and> mt_upto (heXX ev) K u h [] h' \<and> same_page e e')"
proof (rule returns_mono [OF h_store_returns [OF assms(1)]], unfold split_paired_all prod.case, elim conjE)
  fix e' and h' :: MultiTenantCDN
  assume h': "h' = h\<lparr>cdCache := cdCache h'\<rparr>" and core: "cdn_core (heXX ev) (heDisk ev) h'" and page: "same_page e e'"
    and other: "\<forall>j e''. cache_lookup (heXX ev) (cdCache h') j = Some e'' \<longrightarrow>
         cache_lookup (heXX ev) (cdCache h) j = Some e'' \<or> (j = k \<or> j = k') \<and> same_page e e''"
  have "cdSent h' = cdSent h" "mtConfig h' = mtConfig h" "cdDefaultTTL h' = cdDefaultTTL h" by (subst h', simp)+
  with core other assms(2,3) page show "cdn_core (heXX ev) (heDisk ev) h' \<and> mt_upto (heXX ev) K u h [] h' \<and> same_page e e'"
    by (auto simp: mt_upto_def)
qed

lemma doFetch_url: "q \<in> set (snd (doFetch net og url rh)) \<Longrightarrow> oqURL q = url"
  by (auto simp: doFetch_def build_request_def Let_def split: if_splits)

lemma mt_Fetch:
  fixes h :: MultiTenantCDN
  assumes "cdn_core (heXX ev) (heDisk ev) h"
  shows "returns (h_Fetch ev h k u hdr) (\<lambda>(r, h'). \<exists>sent. cdn_core (heXX ev) (heDisk ev) h' \<and> mt_upto (heXX ev) K u h sent h' \<and>
      length sent \<le> 1 \<and> cdCache h' = cdCache h \<and> r = fetched ev h u hdr)"
proof (rule returns_mono [OF h_Fetch_returns [OF assms]], unfold split_paired_all prod.case, elim exE conjE)
  fix r and h' :: MultiTenantCDN and sent
  assume h': "h' = h\<lparr>cdOrigin := cdOrigin h', cdSent := cdSent h @ sent\<rparr>" and core: "cdn_core (heXX ev) (heDisk ev) h'" "length sent \<le> 1"
    and got: "if fst (Allow (heClock ev TAllow) (orCb (cdOrigin h))) then (r, sent) = doFetch (heNet ev) (cdOrigin h) u hdr
       else r = Inl ErrCircuitOpen \<and> sent = []"
  have f: "cdSent h' = cdSent h @ sent" "mtConfig h' = mtConfig h" "cdDefaultTTL h' = cdDefaultTTL h" "cdCache h' = cdCache h" by (subst h', simp)+
  have "\<forall>q \<in> set sent. oqURL q = u" using got doFetch_url [of _ "heNet ev" "cdOrigin h" u hdr] by (auto split: if_splits dest: arg_cong [of _ _ snd])
  moreover have "r = fetched ev h u hdr" using got by (auto simp: fetched_def split: if_splits dest: arg_cong [of _ _ fst])
  ultimately show "\<exists>sent. cdn_core (heXX ev) (heDisk ev) h' \<and> mt_upto (heXX ev) K u h sent h' \<and> length sent \<le> 1 \<and>
      cdCache h' = cdCache h \<and> r = fetched ev h u hdr"
    using core f by (intro exI [of _ sent]) (simp add: mt_upto_def)
qed

lemma mt_Mark:
  fixes h :: MultiTenantCDN
  assumes "cdn_core xx dk h"
  shows "returns (h_Mark h k) (\<lambda>h'. cdn_core xx dk h' \<and> mt_upto xx' K u h [] h')"
proof (rule returns_mono [OF h_Mark_returns [OF assms]], elim conjE)
  fix h' :: MultiTenantCDN
  assume h': "h' = h\<lparr>cdPredictor := cdPredictor h'\<rparr>" and core: "cdn_core xx dk h'"
  have "cdSent h' = cdSent h" "mtConfig h' = mtConfig h" "cdDefaultTTL h' = cdDefaultTTL h" "cdCache h' = cdCache h" by (subst h', simp)+
  with core show "cdn_core xx dk h' \<and> mt_upto xx' K u h [] h'" by (simp add: mt_upto_def)
qed

lemma mt_IsLikely:
  fixes h :: MultiTenantCDN
  assumes "cdn_core xx dk h"
  shows "returns (h_IsLikely h k) (\<lambda>(b, h'). cdn_core xx dk h' \<and> mt_upto xx' K u h [] h' \<and> cdCache h' = cdCache h)"
proof (rule returns_mono [OF h_IsLikely_returns [OF assms]], unfold split_paired_all prod.case, elim conjE)
  fix b and h' :: MultiTenantCDN
  assume h': "h' = h\<lparr>cdPredictor := cdPredictor h'\<rparr>" and core: "cdn_core xx dk h'"
  have "cdSent h' = cdSent h" "mtConfig h' = mtConfig h" "cdDefaultTTL h' = cdDefaultTTL h" "cdCache h' = cdCache h" by (subst h', simp)+
  with core show "cdn_core xx dk h' \<and> mt_upto xx' K u h [] h' \<and> cdCache h' = cdCache h" by (simp add: mt_upto_def)
qed

section \<open>Every request is served\<close>

lemma sent_502: "rwSent w = None \<Longrightarrow> rwSent (http_Error w msg code) \<noteq> None"
  by simp

lemma mt_stale:
  fixes h1 :: MultiTenantCDN
  assumes core: "cdn_core (heXX ev) (heDisk ev) h1" and "k \<in> K" and h: "mt_upto (heXX ev) K u h sent h1" "length sent \<le> 1"
    and w: "rwSent w = None" "rwBody w = []"
  shows "returns (stale_or_502 ev h1 w k) (mt_served (heXX ev) (heDisk ev) K u h)"
  unfolding stale_or_502_def
proof (rule returns_bind [OF mt_Get [OF core assms(2), where u = u]], unfold split_paired_all prod.case, elim conjE)
  fix f and h2 :: MultiTenantCDN
  assume core2: "cdn_core (heXX ev) (heDisk ev) h2" and "mt_upto (heXX ev) K u h1 [] h2"
  with h have u2: "mt_upto (heXX ev) K u h sent h2" using mt_upto_trans by fastforce
  show "returns (case f of None \<Rightarrow> Some (http_Error w ''Bad Gateway'' 502, h2) | Some e \<Rightarrow> Some (serveEntry ev w e ''STALE-ERROR'', h2))
      (mt_served (heXX ev) (heDisk ev) K u h)"
    using mt_servedI [OF u2 h(2) core2] sent_502 [OF w(1)] answered_sent [OF serveEntry_answers [OF w]] by (simp split: option.split)
qed

lemma mt_passthrough_returns:
  assumes core: "cdn_core (heXX ev) (heDisk ev) h" and w: "rwSent w = None" "rwBody w = []"
  shows "returns (mtProxyPassthrough ev h w r d) (\<lambda>p. mt_served (heXX ev) (heDisk ev) K (mt_originURL d r) h p \<and> cdCache (snd p) = cdCache h)"
  unfolding mtProxyPassthrough_def
proof (rule returns_bind [OF mt_Fetch [OF core, where K = K]], unfold split_paired_all prod.case, elim exE conjE)
  fix res sent and h1 :: MultiTenantCDN
  assume h1: "cdn_core (heXX ev) (heDisk ev) h1" "mt_upto (heXX ev) K (mt_originURL d r) h sent h1" "length sent \<le> 1" "cdCache h1 = cdCache h"
  show "returns (case res of Inl err \<Rightarrow> Some (http_Error w ''Bad Gateway'' 502, h1) | Inr resp \<Rightarrow> Some (serveResponse w resp ''BYPASS'', h1))
      (\<lambda>p. mt_served (heXX ev) (heDisk ev) K (mt_originURL d r) h p \<and> cdCache (snd p) = cdCache h)"
    using mt_servedI [OF h1(2,3,1)] sent_502 [OF w(1)] answered_sent [OF serveResponse_answers [OF w]] h1(4) by (simp split: sum.split)
qed

lemma mt_fetch_returns:
  assumes core: "cdn_core (heXX ev) (heDisk ev) h" and k: "k \<in> K" "\<And>v. mt_varyKey ev r v \<in> K" and w: "rwSent w = None" "rwBody w = []"
  shows "returns (mtFetchAndServe ev h w r d k rules) (mt_served (heXX ev) (heDisk ev) K (mt_originURL d r) h)"
  unfolding mtFetchAndServe_def
proof (rule returns_bind [OF mt_Fetch [OF core, where K = K]], unfold split_paired_all prod.case, elim exE conjE)
  fix res sent and h1 :: MultiTenantCDN
  assume h1: "cdn_core (heXX ev) (heDisk ev) h1" "mt_upto (heXX ev) K (mt_originURL d r) h sent h1" "length sent \<le> 1" "cdCache h1 = cdCache h"
  have keep: "returns (h_store ev h1 k j e \<bind> (\<lambda>(e', h). Some (serveEntry ev w e' ''MISS'', h))) (mt_served (heXX ev) (heDisk ev) K (mt_originURL d r) h)"
    if "j \<in> K" for j e
  proof (rule returns_bind [OF mt_store [OF h1(1) k(1) that, where u = "mt_originURL d r"]], unfold split_paired_all prod.case, elim conjE)
    fix e' and h2 :: MultiTenantCDN
    assume core2: "cdn_core (heXX ev) (heDisk ev) h2" and "mt_upto (heXX ev) K (mt_originURL d r) h1 [] h2"
    with h1(2) have u2: "mt_upto (heXX ev) K (mt_originURL d r) h sent h2" using mt_upto_trans by fastforce
    show "returns (Some (serveEntry ev w e' ''MISS'', h2)) (mt_served (heXX ev) (heDisk ev) K (mt_originURL d r) h)"
      using mt_servedI [OF u2 h1(3) core2] answered_sent [OF serveEntry_answers [OF w]] by simp
  qed
  have pass: "returns (h_Mark h1 k \<bind> (\<lambda>h. Some (serveResponse w resp ''BYPASS'', h))) (mt_served (heXX ev) (heDisk ev) K (mt_originURL d r) h)" for resp
  proof (rule returns_bind [OF mt_Mark [OF h1(1), where K = K and u = "mt_originURL d r" and xx' = "heXX ev"]], elim conjE)
    fix h2 :: MultiTenantCDN
    assume core2: "cdn_core (heXX ev) (heDisk ev) h2" and "mt_upto (heXX ev) K (mt_originURL d r) h1 [] h2"
    with h1(2) have u2: "mt_upto (heXX ev) K (mt_originURL d r) h sent h2" using mt_upto_trans by fastforce
    show "returns (Some (serveResponse w resp ''BYPASS'', h2)) (mt_served (heXX ev) (heDisk ev) K (mt_originURL d r) h)"
      using mt_servedI [OF u2 h1(3) core2] answered_sent [OF serveResponse_answers [OF w]] by simp
  qed
  show "returns (case res of Inl err \<Rightarrow> stale_or_502 ev h1 w k
        | Inr resp \<Rightarrow>
            (let (ttl, swr) = mtDetermineTTL (cdDefaultTTL h1) resp d rules (reqPath r)
             in if ttl > 0 \<and> isCacheableStatus (rsStatusCode resp) then
                  do {
                    let cacheKey = mt_varyKey ev r (header_Get (rsHeader resp) ''Vary'');
                    (entry, h) \<leftarrow> h_store ev h1 k cacheKey (new_entry ev resp ttl swr cacheKey);
                    Some (serveEntry ev w entry ''MISS'', h)
                  }
                else do { h \<leftarrow> h_Mark h1 k; Some (serveResponse w resp ''BYPASS'', h) }))
      (mt_served (heXX ev) (heDisk ev) K (mt_originURL d r) h)"
    using mt_stale [OF h1(1) k(1) h1(2,3) w] keep [OF k(2)] pass by (simp add: Let_def split: sum.split prod.split)
qed

lemma mt_serve_range:
  assumes core: "cdn_core xx dk h1" and u: "mt_upto xx K u h sent h1" "length sent \<le> 1" and w: "rwSent w = None"
    and rng: "parseRange rng (int (length (eBody e))) = Some (a, b)"
  shows "returns (serveRange cd w e a b \<bind> (\<lambda>w'. Some (w', h1))) (mt_served xx dk K u h)"
  by (rule returns_bind [OF serveRange_sent [OF rng w]]) (use mt_servedI [OF u core] in simp)

lemma mt_fetch_range_returns:
  assumes core: "cdn_core (heXX ev) (heDisk ev) h" and k: "k \<in> K" "\<And>v. mt_varyKey ev r v \<in> K" and w: "rwSent w = None" "rwBody w = []"
  shows "returns (mt_fetch_range ev h w r d rng k) (mt_served (heXX ev) (heDisk ev) K (mt_originURL d r) h)"
  unfolding mt_fetch_range_def Let_def
proof (rule returns_bind [OF mt_Fetch [OF core, where K = K]], unfold split_paired_all prod.case, elim exE conjE)
  fix res sent and h1 :: MultiTenantCDN
  assume h1: "cdn_core (heXX ev) (heDisk ev) h1" "mt_upto (heXX ev) K (mt_originURL d r) h sent h1" "length sent \<le> 1"
  have keep: "returns (h_store ev h1 k j e \<bind> (\<lambda>(entry, h). case parseRange rng (int (length (eBody entry))) of
        None \<Rightarrow> Some (serveEntry ev w entry ''MISS'', h)
      | Some (start, end') \<Rightarrow> serveRange (evCodec (heDisk ev)) w entry start end' \<bind> (\<lambda>w'. Some (w', h))))
      (mt_served (heXX ev) (heDisk ev) K (mt_originURL d r) h)" if "j \<in> K" for j e
  proof (rule returns_bind [OF mt_store [OF h1(1) k(1) that, where u = "mt_originURL d r"]], unfold split_paired_all prod.case, elim conjE)
    fix e' and h2 :: MultiTenantCDN
    assume core2: "cdn_core (heXX ev) (heDisk ev) h2" and "mt_upto (heXX ev) K (mt_originURL d r) h1 [] h2"
    with h1(2) have u2: "mt_upto (heXX ev) K (mt_originURL d r) h sent h2" using mt_upto_trans by fastforce
    show "returns (case parseRange rng (int (length (eBody e'))) of
        None \<Rightarrow> Some (serveEntry ev w e' ''MISS'', h2)
      | Some (start, end') \<Rightarrow> serveRange (evCodec (heDisk ev)) w e' start end' \<bind> (\<lambda>w'. Some (w', h2)))
      (mt_served (heXX ev) (heDisk ev) K (mt_originURL d r) h)"
      using mt_servedI [OF u2 h1(3) core2] answered_sent [OF serveEntry_answers [OF w]] mt_serve_range [OF core2 u2 h1(3) w(1)]
      by (auto split: option.split)
  qed
  show "returns (case res of Inl err \<Rightarrow> Some (http_Error w ''Bad Gateway'' 502, h1)
        | Inr resp \<Rightarrow>
            (case mtDetermineTTL (cdDefaultTTL h1) resp d (lookupRules h1 (dmID d)) (reqPath r) of (ttl, swr) \<Rightarrow>
               if ttl > 0 \<and> isCacheableStatus (rsStatusCode resp) then
                  h_store ev h1 k (mt_varyKey ev r (header_Get (rsHeader resp) ''Vary''))
                    (new_entry ev resp ttl swr (mt_varyKey ev r (header_Get (rsHeader resp) ''Vary''))) \<bind>
                  (\<lambda>(entry, h). case parseRange rng (int (length (eBody entry))) of
                       None \<Rightarrow> Some (serveEntry ev w entry ''MISS'', h)
                     | Some (start, end') \<Rightarrow> serveRange (evCodec (heDisk ev)) w entry start end' \<bind> (\<lambda>w'. Some (w', h)))
                else Some (serveResponse w resp ''BYPASS'', h1)))
      (mt_served (heXX ev) (heDisk ev) K (mt_originURL d r) h)"
    using mt_servedI [OF h1(2,3,1)] sent_502 [OF w(1)] answered_sent [OF serveResponse_answers [OF w]] keep [OF k(2)]
    by (simp split: sum.split prod.split)
qed

lemma mt_range_returns:
  assumes core: "cdn_core (heXX ev) (heDisk ev) h" and w: "rwSent w = None" "rwBody w = []"
    and k: "NormalizeKey (heUni ev) (stripPort (reqHost r)) (reqPath r) (reqRawQuery r) [] [] \<in> K" "\<And>v. mt_varyKey ev r v \<in> K"
  shows "returns (mtServeByteRange ev h w r d rng) (mt_served (heXX ev) (heDisk ev) K (mt_originURL d r) h)"
  unfolding mtServeByteRange_def Let_def
proof (rule returns_bind [OF mt_Get [OF core k(1), where u = "mt_originURL d r"]], unfold split_paired_all prod.case, elim conjE)
  fix found and h1 :: MultiTenantCDN
  let ?k = "NormalizeKey (heUni ev) (stripPort (reqHost r)) (reqPath r) (reqRawQuery r) [] []"
  assume core1: "cdn_core (heXX ev) (heDisk ev) h1" and u: "mt_upto (heXX ev) K (mt_originURL d r) h [] h1"
  have "returns (mtProxyPassthrough ev h1 w r d) (mt_served (heXX ev) (heDisk ev) K (mt_originURL d r) h)"
    by (rule returns_mono [OF mt_passthrough_returns [OF core1 w, where K = K]]) (use mt_served_after [OF u] in blast)
  moreover have "returns (mt_fetch_range ev h1 w r d rng ?k) (mt_served (heXX ev) (heDisk ev) K (mt_originURL d r) h)"
    by (rule returns_mono [OF mt_fetch_range_returns [OF core1 k w]]) (rule mt_served_after [OF u])
  ultimately show "returns (case found of
          None \<Rightarrow> mt_fetch_range ev h1 w r d rng ?k
        | Some entry \<Rightarrow>
            (case parseRange rng (int (length (eBody entry))) of
               None \<Rightarrow> mtProxyPassthrough ev h1 w r d
             | Some (start, end') \<Rightarrow> serveRange (evCodec (heDisk ev)) w entry start end' \<bind> (\<lambda>w'. Some (w', h1))))
      (mt_served (heXX ev) (heDisk ev) K (mt_originURL d r) h)"
    using mt_serve_range [OF core1 u _ w(1)] by (auto split: option.split)
qed

lemma mt_lookup_returns:
  assumes core: "cdn_core (heXX ev) (heDisk ev) h" and k: "k \<in> K" "\<And>v. mt_varyKey ev r v \<in> K"
  shows "returns (mt_lookup ev h r k) (\<lambda>(f, h'). cdn_core (heXX ev) (heDisk ev) h' \<and> mt_upto (heXX ev) K u h [] h')"
  unfolding mt_lookup_def
proof (rule returns_bind [OF mt_Get [OF core k(1), where u = u]], unfold split_paired_all prod.case, elim conjE)
  fix f and h1 :: MultiTenantCDN
  assume core1: "cdn_core (heXX ev) (heDisk ev) h1" and u1: "mt_upto (heXX ev) K u h [] h1"
  have "returns (h_Get ev TGetVary h1 j) (\<lambda>(f, h'). cdn_core (heXX ev) (heDisk ev) h' \<and> mt_upto (heXX ev) K u h [] h')" if "j \<in> K" for j
    by (rule returns_mono [OF mt_Get [OF core1 that, where u = u]]) (use mt_upto_trans [OF u1] in fastforce)
  with core1 u1 k(2) show "returns (case f of None \<Rightarrow> Some (None, h1)
        | Some entry \<Rightarrow>
            (let vary = header_Get (GetHeader (evCodec (heDisk ev)) entry) ''Vary''
             in if vary \<noteq> [] \<and> vary \<noteq> ''*'' then
                  (let varyKey = mt_varyKey ev r vary
                   in if varyKey \<noteq> k then h_Get ev TGetVary h1 varyKey else Some (Some entry, h1))
                else Some (Some entry, h1))) (\<lambda>(f, h'). cdn_core (heXX ev) (heDisk ev) h' \<and> mt_upto (heXX ev) K u h [] h')"
    by (simp add: Let_def split: option.split)
qed

lemma mt_serve_cached_answers:
  assumes "rwSent w = None" and "rwBody w = []"
  shows "if IsExpired (heClock ev TExpired) e \<and> IsStaleServable (heClock ev TServable) e
      then answered (mt_serve_cached ev w r e) (eStatusCode e) (eBody e) ''STALE''
      else if header_Get (reqHeader r) ''If-None-Match'' \<noteq> [] \<and> header_Get (reqHeader r) ''If-None-Match'' = eETag e
      then answered (mt_serve_cached ev w r e) 304 [] ''HIT''
      else answered (mt_serve_cached ev w r e) (eStatusCode e) (eBody e) ''HIT''"
  using serveEntry_answers [OF assms] not_modified_answers [OF assms] by (auto simp: mt_serve_cached_def Let_def)

lemma mt_serve_domain_returns:
  assumes core: "cdn_core (heXX ev) (heDisk ev) h" and w: "rwSent w = None" "rwBody w = []"
    and k: "NormalizeKey (heUni ev) (stripPort (reqHost r)) (reqPath r) (reqRawQuery r) [] [] \<in> K" "\<And>v. mt_varyKey ev r v \<in> K"
  shows "returns (mt_serve_domain ev h w r d) (mt_served (heXX ev) (heDisk ev) K (mt_originURL d r) h)"
proof -
  let ?k = "NormalizeKey (heUni ev) (stripPort (reqHost r)) (reqPath r) (reqRawQuery r) [] []" and ?rs = "lookupRules h (dmID d)"
  let ?ok = "mt_served (heXX ev) (heDisk ev) K (mt_originURL d r)"
  have cached: "rwSent (mt_serve_cached ev w r e) \<noteq> None" for e
    using mt_serve_cached_answers [OF w, of ev e r] answered_sent by (auto split: if_splits)
  have lookup: "returns (mt_lookup ev h1 r ?k \<bind> (\<lambda>(found, h). case found of
        Some entry \<Rightarrow> Some (mt_serve_cached ev w r entry, h) | None \<Rightarrow> mtFetchAndServe ev h w r d ?k ?rs)) (?ok h1)"
    if core1: "cdn_core (heXX ev) (heDisk ev) h1" for h1
  proof (rule returns_bind [OF mt_lookup_returns [OF core1 k, where u = "mt_originURL d r"]], unfold split_paired_all prod.case, elim conjE)
    fix found and h2 :: MultiTenantCDN
    assume core2: "cdn_core (heXX ev) (heDisk ev) h2" and u2: "mt_upto (heXX ev) K (mt_originURL d r) h1 [] h2"
    have "returns (mtFetchAndServe ev h2 w r d ?k ?rs) (?ok h1)"
      by (rule returns_mono [OF mt_fetch_returns [OF core2 k w]]) (rule mt_served_after [OF u2])
    with mt_servedI [OF u2 _ core2] cached show "returns (case found of Some entry \<Rightarrow> Some (mt_serve_cached ev w r entry, h2)
        | None \<Rightarrow> mtFetchAndServe ev h2 w r d ?k ?rs) (?ok h1)" by (simp split: option.split)
  qed
  have "returns (h_IsLikely h ?k \<bind> (\<lambda>(likely, h).
        if likely then mtFetchAndServe ev h w r d ?k ?rs
        else if b then mtFetchAndServe ev h w r d ?k ?rs
        else mt_lookup ev h r ?k \<bind> (\<lambda>(found, h). case found of
          Some entry \<Rightarrow> Some (mt_serve_cached ev w r entry, h) | None \<Rightarrow> mtFetchAndServe ev h w r d ?k ?rs))) (?ok h)" for b
  proof (rule returns_bind [OF mt_IsLikely [OF core, where K = K and u = "mt_originURL d r" and xx' = "heXX ev"]], unfold split_paired_all prod.case, elim conjE)
    fix likely and h1 :: MultiTenantCDN
    assume core1: "cdn_core (heXX ev) (heDisk ev) h1" and u1: "mt_upto (heXX ev) K (mt_originURL d r) h [] h1"
    show "returns (if likely then mtFetchAndServe ev h1 w r d ?k ?rs
        else if b then mtFetchAndServe ev h1 w r d ?k ?rs
        else mt_lookup ev h1 r ?k \<bind> (\<lambda>(found, h). case found of
          Some entry \<Rightarrow> Some (mt_serve_cached ev w r entry, h) | None \<Rightarrow> mtFetchAndServe ev h w r d ?k ?rs)) (?ok h)"
      by (intro returns_if returns_mono [OF mt_fetch_returns [OF core1 k w]] returns_mono [OF lookup [OF core1]]) (erule mt_served_after [OF u1])+
  qed
  moreover have "returns (mtProxyPassthrough ev h w r d) (?ok h)"
    by (rule returns_mono [OF mt_passthrough_returns [OF core w, where K = K]]) blast
  ultimately show ?thesis by (simp add: mt_serve_domain_def Let_def)
qed

text \<open>The domain a request is for, when it gets past the checks.\<close>

definition mt_target :: "MultiTenantCDN \<Rightarrow> request \<Rightarrow> Domain option" where
  "mt_target h r =
     (if (reqMethod r = ''GET'' \<or> reqMethod r = ''HEAD'') \<and> mtIsValidPath (reqPath r) \<and> stripPort (reqHost r) \<noteq> []
      then case lookupDomain h (stripPort (reqHost r)) of
             Some d \<Rightarrow> if dmActive d then Some d else None
           | None \<Rightarrow> None
      else None)"

lemma mt_ServeHTTP_target:
  assumes "mt_target h r = Some d"
  shows "mt_ServeHTTP ev h w r =
     (if header_Get (reqHeader r) ''Range'' \<noteq> [] then mtServeByteRange ev h w r d (header_Get (reqHeader r) ''Range'')
      else mt_serve_domain ev h w r d)"
  using assms by (auto simp: mt_target_def mt_ServeHTTP_def Let_def split: if_splits option.splits)

lemma mt_ServeHTTP_refused:
  assumes "mt_target h r = None" and "rwSent w = None"
  shows "\<exists>w'. mt_ServeHTTP ev h w r = Some (w', h) \<and> rwSent w' \<noteq> None \<and> rw_status w' =
      (if reqMethod r \<noteq> ''GET'' \<and> reqMethod r \<noteq> ''HEAD'' then 405
       else if \<not> mtIsValidPath (reqPath r) \<or> stripPort (reqHost r) = [] then 400 else 403)"
  using assms by (auto simp: mt_target_def mt_ServeHTTP_def Let_def split: if_splits option.splits)

lemma mt_ServeHTTP_returns:
  assumes core: "cdn_core (heXX ev) (heDisk ev) h" and d: "mt_target h r = Some d"
    and k: "NormalizeKey (heUni ev) (stripPort (reqHost r)) (reqPath r) (reqRawQuery r) [] [] \<in> K" "\<And>v. mt_varyKey ev r v \<in> K"
  shows "returns (mt_ServeHTTP ev h new_respw r) (mt_served (heXX ev) (heDisk ev) K (mt_originURL d r) h)"
  using mt_serve_domain_returns [OF core _ _ k, of new_respw d] mt_range_returns [OF core _ _ k, of new_respw d]
  by (simp add: mt_ServeHTTP_target [OF d])

section \<open>The handler as a state machine\<close>

definition mt_init :: "diskEnv \<Rightarrow> MultiTenantCDN \<Rightarrow> bool" where
  "mt_init dk h \<longleftrightarrow>
     (\<exists>c opts ttl p. cache_init dk c \<and> (\<forall>q. p = Some q \<longrightarrow> (\<exists>capacity decay. NewPredictor capacity decay = Some q)) \<and>
        h = EnablePredictor (NewMultiTenant c (origin_New opts) ttl) p)"

text \<open>Requests, configuration updates, predictor rotations and the cache calls of the admin endpoints.\<close>

inductive mt_step :: "(string \<Rightarrow> u64) \<Rightarrow> diskEnv \<Rightarrow> MultiTenantCDN \<Rightarrow> MultiTenantCDN \<Rightarrow> bool" for xx dk where
  req: "heXX ev = xx \<Longrightarrow> heDisk ev = dk \<Longrightarrow> mt_ServeHTTP ev h new_respw r = Some (w', h') \<Longrightarrow> mt_step xx dk h h'"
| config: "mt_step xx dk h (UpdateConfig h cfg)"
| rotate: "cdPredictor h = Some p \<Longrightarrow> Rotate p = Some p' \<Longrightarrow> mt_step xx dk h (h\<lparr>cdPredictor := Some p'\<rparr>)"
| admin: "cache_call xx dk (cdCache h) c \<Longrightarrow> mt_step xx dk h (h\<lparr>cdCache := c\<rparr>)"

interpretation mt: invariant_system "mt_init dk" "mt_step xx dk" "cdn_core xx dk" for xx dk
proof
  show "cdn_core xx dk h" if i: "mt_init dk h" for h :: MultiTenantCDN
  proof -
    obtain c opts ttl p where h: "cache_init dk c" "h = EnablePredictor (NewMultiTenant c (origin_New opts) ttl) p"
      and p: "\<forall>q. p = Some q \<longrightarrow> (\<exists>capacity decay. NewPredictor capacity decay = Some q)" using i by (auto simp: mt_init_def)
    have "cache_inv xx c \<and> spill_safe dk c" using h(1) by (rule cache_sys.inv_init)
    with h(2) p NewPredictor_wf show ?thesis
      by (auto simp: cdn_core_def NewMultiTenant_def EnablePredictor_def origin_New_def)
  qed
  show "cdn_core xx dk h'" if core: "cdn_core xx dk h" and step: "mt_step xx dk h h'" for h h' :: MultiTenantCDN
    using step
  proof cases
    case (req ev r w')
    have keys: "NormalizeKey (heUni ev) (stripPort (reqHost r)) (reqPath r) (reqRawQuery r) [] [] \<in> UNIV" "\<And>v. mt_varyKey ev r v \<in> UNIV" by simp_all
    show ?thesis
    proof (cases "mt_target h r")
      case None
      with mt_ServeHTTP_refused [OF None, of new_respw ev] req core show ?thesis by auto
    next
      case (Some d)
      with mt_ServeHTTP_returns [OF _ Some keys] req core show ?thesis by (simp add: mt_served_def)
    qed
  next
    case (config cfg)
    with core show ?thesis by (simp add: UpdateConfig_def cdn_core_def)
  next
    case (rotate p p')
    then have "wf_Predictor p" using core by (simp add: cdn_core_def)
    from Rotate_result [OF this] rotate core show ?thesis by (auto simp: cdn_core_def)
  next
    case (admin c)
    with core cache_sys.inv_step [of xx "cdCache h" dk c] show ?thesis by (simp add: cdn_core_def)
  qed
qed

section \<open>Keys of a domain\<close>

lemma NormalizeKey_own:
  assumes "isLowerASCII host" and "strings_HasPrefix p ''/''"
  shows "\<exists>rest. NormalizeKey uni host p q v hdr = host @ CHR ''/'' # rest"
proof -
  obtain p' where "p = CHR ''/'' # p'" using assms(2) by (auto simp: HasPrefix_iff)
  with assms(1) show ?thesis
    by (auto simp: NormalizeKey_def Let_def writeSortedQuery_eq write_vary_join)
qed

lemma prefix_unique:
  assumes "a @ c # x = b @ c # y" and "c \<notin> set a" and "c \<notin> set b" shows "a = b"
  using assms
proof (induction a arbitrary: b)
  case Nil
  then show ?case by (cases b) auto
next
  case (Cons z a)
  then show ?case by (cases b) auto
qed

section \<open>Properties\<close>

definition demo_rule :: CacheRule where
  "demo_rule = \<lparr>crID = ''r1'', crDomainID = ''d1'', crPathGlob = ''/x'', crTTLSec = 0, crBypass = True\<rparr>"

definition demo_config :: "CacheRule list \<Rightarrow> EdgeConfig" where
  "demo_config rules = \<lparr>ecVersion = 3, ecTimestamp = 0, ecDomains = [''a.org'' \<mapsto> demo_domain], ecRules = (\<lambda>_. rules)\<rparr>"

lemma demo_mt:
  obtains h where "reachable (mt_init demo_env) (mt_step xx demo_env) h" and "mt_target h demo_req = Some demo_domain"
    and "mtConfig h = Some (demo_config rules)" and "cdOrigin h = demo_origin"
proof -
  obtain c where c: "cache_init demo_env c" by (rule demo_cache)
  let ?h = "EnablePredictor (NewMultiTenant c demo_origin second) None"
  have "mt_init demo_env ?h" using c unfolding mt_init_def demo_origin_def by blast
  then have "reachable (mt_init demo_env) (mt_step xx demo_env) (UpdateConfig ?h (demo_config rules))"
    by (rule reachable.step [OF reachable.start]) (rule mt_step.config)
  moreover have "mtIsValidPath ''/x''" by code_simp
  then have "mt_target (UpdateConfig ?h (demo_config rules)) demo_req = Some demo_domain"
    by (simp add: mt_target_def lookupDomain_def UpdateConfig_def demo_config_def demo_req_def stripPort_def strings_LastIndexByte_def
        demo_domain_def)
  ultimately show thesis by (intro that) (auto simp: UpdateConfig_def EnablePredictor_def NewMultiTenant_def)
qed





text \<open>
  A rule with \<open>Bypass\<close> that matches the path keeps the cache out: neither a lookup nor a store
  happens, and the client gets the origin's answer marked \<open>BYPASS\<close>, or 502.
\<close>

theorem mt_bypass:
  assumes "reachable (mt_init (heDisk ev)) (mt_step (heXX ev) (heDisk ev)) h" and "mt_target h r = Some d"
    and "header_Get (reqHeader r) ''Range'' = []" and "rule \<in> set (lookupRules h (dmID d))"
    and "matchGlob (reqPath r) (crPathGlob rule)" and "crBypass rule"
  shows "\<exists>w' h'. mt_ServeHTTP ev h new_respw r = Some (w', h') \<and> cdCache h' = cdCache h \<and>
      (case fetched ev h (mt_originURL d r) (reqHeader r) of
         Inl _ \<Rightarrow> rw_status w' = 502
       | Inr resp \<Rightarrow> answered w' (rsStatusCode resp) (rsBody resp) ''BYPASS'')"
proof -
  have core: "cdn_core (heXX ev) (heDisk ev) h" using assms(1) by (rule mt.reachable_inv)
  have "bypass_rule rs p" if "rule \<in> set rs" "matchGlob p (crPathGlob rule)" for rs p
    using that assms(6) by (induction rs) auto
  then have call: "mt_ServeHTTP ev h new_respw r = mtProxyPassthrough ev h new_respw r d"
    using assms(3-5) by (simp add: mt_ServeHTTP_target [OF assms(2)] mt_serve_domain_def Let_def)
  obtain res h1 where f: "h_Fetch ev h (''passthrough:'' @ reqURI r) (mt_originURL d r) (reqHeader r) = Some (res, h1)"
      "cdCache h1 = cdCache h" "res = fetched ev h (mt_originURL d r) (reqHeader r)"
    using mt_Fetch [OF core, of "''passthrough:'' @ reqURI r" "mt_originURL d r" "reqHeader r" UNIV] by (auto elim!: returnsE)
  show ?thesis unfolding call mtProxyPassthrough_def f(1)
    using f(2,3) serveResponse_answers [of new_respw] by (auto split: sum.split)
qed

theorem mt_bypass_witness:
  "\<exists>(h :: MultiTenantCDN) w' h'. mt_ServeHTTP (demo_hev 5) h new_respw demo_req = Some (w', h') \<and> answered w' 200 ''abcd'' ''BYPASS''"
proof -
  obtain h where h: "reachable (mt_init demo_env) (mt_step (heXX (demo_hev 5)) demo_env) h" "mt_target h demo_req = Some demo_domain"
    "mtConfig h = Some (demo_config [demo_rule])" "cdOrigin h = demo_origin"
    by (rule demo_mt)
  have dk: "heDisk (demo_hev 5) = demo_env" by (simp add: demo_hev_def)
  have "matchGlob (reqPath demo_req) (crPathGlob demo_rule)" by (simp add: demo_req_def demo_rule_def matchGlob_def strings_HasSuffix_def)
  moreover have "demo_rule \<in> set (lookupRules h (dmID demo_domain))" by (simp add: lookupRules_def h(3) demo_config_def)
  moreover have "header_Get (reqHeader demo_req) ''Range'' = []" by (simp add: demo_req_def header_Get_def header_values_def)
  moreover have "fetched (demo_hev 5) h url hdr = Inr demo_resp" for url hdr
    by (simp add: fetched_def h(4) demo_hev_def doFetch_def demo_net_def demo_origin_def origin_New_def read_limited_def max_body_def Let_def
        Allow_def NewCircuitBreaker_def demo_resp_def)
  moreover have "crBypass demo_rule" by (simp add: demo_rule_def)
  ultimately obtain w' h' where "mt_ServeHTTP (demo_hev 5) h new_respw demo_req = Some (w', h')" "answered w' 200 ''abcd'' ''BYPASS''"
    using mt_bypass [of "demo_hev 5" h demo_req demo_domain demo_rule, unfolded dk, OF h(1,2)] by (auto simp: demo_resp_def)
  then show ?thesis by blast
qed

text \<open>
  A path rule can lengthen or shorten the lifetime of a response but not forbid keeping it: rules
  whose \<open>TTLSec\<close> is 0 or negative have no effect on \<open>mtDetermineTTL\<close>, although the data model
  documents 0 as \<open>don't cache\<close>. The first matching rule with a positive \<open>TTLSec\<close> wins over the domain
  default, and the origin's own positive lifetime wins over both when the domain respects it.
\<close>

theorem mt_ttl_rules:
  "mtDetermineTTL dflt resp d rules p = mtDetermineTTL dflt resp d (filter (\<lambda>rule. crTTLSec rule > 0) rules) p \<and>
   rule_ttl rules p = map_option (\<lambda>rule. wrap64 (crTTLSec rule * second))
     (find (\<lambda>rule. matchGlob p (crPathGlob rule) \<and> crTTLSec rule > 0) rules)"
proof -
  have "rule_ttl (filter (\<lambda>rule. crTTLSec rule > 0) rs) p = rule_ttl rs p" for rs by (induction rs) auto
  moreover have "rule_ttl rules p = map_option (\<lambda>rule. wrap64 (crTTLSec rule * second))
     (find (\<lambda>rule. matchGlob p (crPathGlob rule) \<and> crTTLSec rule > 0) rules)" by (induction rules) auto
  ultimately show ?thesis by (simp only: mtDetermineTTL_def)
qed

text \<open>
  A passthrough request that finds another one in flight for the same URI gets that one's
  result, whichever domain and origin it was for: the flight is found by the URI alone, so a bypassed
  page of one tenant can be answered with another tenant's response.
\<close>

theorem mt_passthrough_shared:
  assumes "orFlights (cdOrigin h) (''passthrough:'' @ reqURI r) = Some f" and "fst (Allow (heClock ev TAllow) (orCb (cdOrigin h)))"
    and "heJoined ev f = Inr resp"
  shows "\<exists>h'. mtProxyPassthrough ev h new_respw r d = Some (serveResponse new_respw resp ''BYPASS'', h') \<and>
           mtProxyPassthrough ev h new_respw r d' = Some (serveResponse new_respw resp ''BYPASS'', h') \<and> cdSent h' = cdSent h"
  using assms by (auto simp: mtProxyPassthrough_def h_Fetch_def origin_Fetch_def fl_admit_def fl_enter_def Let_def split: prod.splits)

theorem mt_passthrough_shared_witness:
  "\<exists>(h :: MultiTenantCDN) h'. mtProxyPassthrough ((demo_hev 5)\<lparr>heJoined := \<lambda>_. Inr demo_resp\<rparr>) h new_respw demo_req
      (demo_domain\<lparr>dmOriginURL := ''http://other''\<rparr>) = Some (serveResponse new_respw demo_resp ''BYPASS'', h')"
proof -
  obtain h :: MultiTenantCDN where h: "cdOrigin h = demo_origin" by (rule demo_mt [of "\<lambda>_. 0" "[]"])
  let ?ev = "(demo_hev 5)\<lparr>heJoined := \<lambda>_. Inr demo_resp\<rparr>"
  let ?h = "h\<lparr>cdOrigin := demo_origin\<lparr>orFlights := [''passthrough:/x'' \<mapsto> 0]\<rparr>\<rparr>"
  have "fst (Allow t (orCb demo_origin))" for t by (simp add: demo_origin_def origin_New_def Allow_def NewCircuitBreaker_def)
  then show ?thesis using mt_passthrough_shared [of ?h demo_req 0 ?ev demo_resp demo_domain "demo_domain\<lparr>dmOriginURL := ''http://other''\<rparr>"]
    by (auto simp: demo_req_def)
qed

section \<open>Configuration updates\<close>

fun polls :: "(bytes \<Rightarrow> EdgeConfig option) \<Rightarrow> netEnv list \<Rightarrow> ConfigPoller \<times> MultiTenantCDN \<Rightarrow> ConfigPoller \<times> MultiTenantCDN" where
  "polls json [] s = s"
| "polls json (net # nets) s = polls json nets (poll json net (fst s) (snd s))"

definition config_version :: "MultiTenantCDN \<Rightarrow> int" where
  "config_version h = (case GetConfig h of None \<Rightarrow> 0 | Some cfg \<Rightarrow> ecVersion cfg)"

lemma poll_result:
  "poll json net p h = (p, h) \<or>
   (\<exists>cfg. poll json net p h = (p\<lparr>cpLastVersion := ecVersion cfg\<rparr>, UpdateConfig h cfg) \<and> ecVersion cfg > cpLastVersion p)"
  by (auto simp: poll_def Let_def split: doResult.split option.split)

lemma polls_keep: 
  "cpLastVersion p \<le> cpLastVersion (fst (polls json nets (p, h))) \<and>
   (config_version h = cpLastVersion p \<longrightarrow> config_version (snd (polls json nets (p, h))) = cpLastVersion (fst (polls json nets (p, h))))"
proof (induction nets arbitrary: p h)
  case (Cons net nets)
  consider "poll json net p h = (p, h)"
    | cfg where "poll json net p h = (p\<lparr>cpLastVersion := ecVersion cfg\<rparr>, UpdateConfig h cfg)" "ecVersion cfg > cpLastVersion p"
    using poll_result by blast
  then show ?case
  proof cases
    case 1
    with Cons.IH [of p h] show ?thesis by simp
  next
    case (2 cfg)
    have "config_version (UpdateConfig h cfg) = ecVersion cfg" by (simp add: config_version_def GetConfig_def UpdateConfig_def)
    with Cons.IH [of "p\<lparr>cpLastVersion := ecVersion cfg\<rparr>" "UpdateConfig h cfg"] 2 show ?thesis by auto
  qed
qed simp

lemma polls_append: "polls json (xs @ ys) s = polls json ys (polls json xs s)"
  by (induction xs arbitrary: s) auto

text \<open>
  Polling never goes back: whatever the control plane and the network answer, after any further
  polls the edge runs a configuration at least as new as before, and the version the poller
  remembers is the version the handler runs.
\<close>

theorem mt_polls_monotone:
  "config_version (snd (polls json nets (NewConfigPoller url key, NewMultiTenant c og ttl))) =
     cpLastVersion (fst (polls json nets (NewConfigPoller url key, NewMultiTenant c og ttl))) \<and>
   config_version (snd (polls json nets (NewConfigPoller url key, NewMultiTenant c og ttl))) \<le>
     config_version (snd (polls json (nets @ nets') (NewConfigPoller url key, NewMultiTenant c og ttl)))"
proof -
  let ?s = "(NewConfigPoller url key, NewMultiTenant c og ttl)"
  have z: "config_version (snd ?s) = cpLastVersion (fst ?s)"
    by (simp add: config_version_def GetConfig_def NewMultiTenant_def NewConfigPoller_def)
  then have eq: "config_version (snd (polls json nets ?s)) = cpLastVersion (fst (polls json nets ?s))"
    using polls_keep [where p = "fst ?s" and h = "snd ?s"] by simp
  then show ?thesis
    using polls_keep [where p = "fst (polls json nets ?s)" and h = "snd (polls json nets ?s)" and nets = nets' and json = json]
    by (simp add: polls_append)
qed

text \<open>
  A push has no such guard: it installs any configuration it can decode, and an older one then
  stays, because every later poll that reports a version the poller has seen is ignored.
\<close>

theorem mt_push_rolls_back:
  assumes "read_limited (10 * 2 ^ 20) body = Some b" and "json b = Some old"
    and "\<And>net q hdr bd. net \<in> set nets \<Longrightarrow> neDo net q = DoResponse 200 hdr bd \<Longrightarrow>
         \<exists>b cfg. read_limited (10 * 2 ^ 20) bd = Some b \<and> json b = Some cfg \<and> ecVersion cfg \<le> cpLastVersion p"
  shows "GetConfig (snd (polls json nets (p, snd (HandleConfigPush json h w ''POST'' body)))) = Some old"
proof -
  have still: "poll json net p g = (p, g)" if "net \<in> set nets" for net g
    using assms(3) [OF that] by (fastforce simp: poll_def Let_def split: doResult.split)
  have "polls json xs (p, g) = (p, g)" if "set xs \<subseteq> set nets" for xs g
    using that still by (induction xs) auto
  with assms(1,2) show ?thesis by (simp add: HandleConfigPush_def UpdateConfig_def GetConfig_def)
qed

theorem mt_push_rolls_back_witness:
  "\<exists>c :: Cache. GetConfig (snd (polls (\<lambda>b. Some ((demo_config [])\<lparr>ecVersion := int (length b)\<rparr>))
      [demo_net\<lparr>neDo := \<lambda>_. DoResponse 200 [] \<lparr>nbData = ''12345'', nbFails = False\<rparr>\<rparr>]
      ((NewConfigPoller [] [])\<lparr>cpLastVersion := 5\<rparr>,
       snd (HandleConfigPush (\<lambda>b. Some ((demo_config [])\<lparr>ecVersion := int (length b)\<rparr>)) (NewMultiTenant c demo_origin 0) new_respw ''POST''
         \<lparr>nbData = ''12'', nbFails = False\<rparr>)))) = Some ((demo_config [])\<lparr>ecVersion := 2\<rparr>)"
  by (intro exI, rule mt_push_rolls_back [where b = "''12''"]) (auto simp: read_limited_def)

end
