(* ===== verification/CpStore.thy ===== *)
theory CpStore
  imports TenantData
begin

text \<open>
  \<open>controlplane/store/store.go\<close>: tenants, domains, cache rules and edge nodes, kept in memory and
  written to \<open>store.json\<close> after every change. The four maps are finite maps keyed by id. A range loop
  over a Go map visits the entries in some order: the loops whose result depends on it take that order, a list of
  the ids, as an argument; the loops that only delete entries are written as the map they leave.
  Random bytes, the clock, JSON and the outcome of writing the file are in \<open>storeEnv\<close>. Errors are
  values of \<open>storeErr\<close>; as in the code, a change stays in memory when writing the file fails.
\<close>

record storeData =
  sdVersion :: int
  sdTenants :: "string \<rightharpoonup> Tenant"
  sdDomains :: "string \<rightharpoonup> Domain"
  sdCacheRules :: "string \<rightharpoonup> CacheRule"
  sdEdgeNodes :: "string \<rightharpoonup> EdgeNode"

record Store =
  stData :: storeData
  stFile :: "bytes option"

datatype storeErr =
    ErrTenantNotFound string | ErrDomainNotFound string | ErrHostnameTaken string | ErrRuleNotFound string
  | ErrEdgeNotFound string | ErrInvalidKey | ErrMkdir | ErrRead | ErrParse | ErrMarshal | ErrWrite

record storeEnv =
  seNow :: instant
  seNow' :: instant
  seRandID :: bytes
  seRandKey :: bytes
  seMarshal :: "storeData \<Rightarrow> bytes option"
  seUnmarshal :: "bytes \<Rightarrow> storeData option"
  seWriteFails :: bool

section \<open>Opening and saving\<close>

definition empty_storeData :: storeData where
  "empty_storeData = \<lparr>sdVersion = 0, sdTenants = Map.empty, sdDomains = Map.empty, sdCacheRules = Map.empty, sdEdgeNodes = Map.empty\<rparr>"

datatype readResult = ReadOK bytes | ReadMissing | ReadError

definition store_load :: "storeEnv \<Rightarrow> readResult \<Rightarrow> storeErr + storeData" where
  "store_load ev res =
     (case res of
        ReadMissing \<Rightarrow> Inr empty_storeData
      | ReadError \<Rightarrow> Inl ErrRead
      | ReadOK data \<Rightarrow> (case seUnmarshal ev data of None \<Rightarrow> Inl ErrParse | Some sd \<Rightarrow> Inr sd))"

text \<open>\<open>New\<close>: the file the directory holds, and whether the directory can be made and the file read.\<close>

definition store_New :: "storeEnv \<Rightarrow> bool \<Rightarrow> bool \<Rightarrow> bytes option \<Rightarrow> storeErr + Store" where
  "store_New ev mkdirFails readFails content =
     (if mkdirFails then Inl ErrMkdir
      else let res = (case content of None \<Rightarrow> ReadMissing | Some b \<Rightarrow> if readFails then ReadError else ReadOK b)
           in case store_load ev res of Inl e \<Rightarrow> Inl e | Inr sd \<Rightarrow> Inr \<lparr>stData = sd, stFile = content\<rparr>)"

definition save :: "storeEnv \<Rightarrow> Store \<Rightarrow> storeErr option \<times> Store" where
  "save ev s =
     (let sd = (stData s)\<lparr>sdVersion := wrap64 (sdVersion (stData s) + 1)\<rparr>;
          s = s\<lparr>stData := sd\<rparr>
      in case seMarshal ev sd of
           None \<Rightarrow> (Some ErrMarshal, s)
         | Some b \<Rightarrow> if seWriteFails ev then (Some ErrWrite, s) else (None, s\<lparr>stFile := Some b\<rparr>))"

definition genID :: "storeEnv \<Rightarrow> string" where
  "genID ev = hex_EncodeToString (seRandID ev)"

definition genAPIKey :: "storeEnv \<Rightarrow> string" where
  "genAPIKey ev = ''cdnk_'' @ hex_EncodeToString (seRandKey ev)"

section \<open>Tenants\<close>

definition CreateTenant :: "storeEnv \<Rightarrow> Store \<Rightarrow> string \<Rightarrow> Tenant \<times> storeErr option \<times> Store" where
  "CreateTenant ev s name =
     (let t = \<lparr>tnID = genID ev, tnName = name, tnCreatedAt = seNow ev, tnUpdatedAt = seNow' ev, tnActive = True, tnAPIKey = genAPIKey ev\<rparr>;
          sd = (stData s)\<lparr>sdTenants := (sdTenants (stData s))(tnID t \<mapsto> t)\<rparr>
      in (t, save ev (s\<lparr>stData := sd\<rparr>)))"

definition GetTenant :: "Store \<Rightarrow> string \<Rightarrow> storeErr + Tenant" where
  "GetTenant s i = (case sdTenants (stData s) i of None \<Rightarrow> Inl (ErrTenantNotFound i) | Some t \<Rightarrow> Inr t)"

definition ListTenants :: "string list \<Rightarrow> Store \<Rightarrow> Tenant list" where
  "ListTenants order s = List.map_filter (sdTenants (stData s)) order"

text \<open>The domains of a tenant go, and the rules of those domains.\<close>

definition without_domains :: "string \<Rightarrow> storeData \<Rightarrow> storeData" where
  "without_domains i sd =
     sd\<lparr>sdCacheRules := (\<lambda>rid. case sdCacheRules sd rid of
            None \<Rightarrow> None
          | Some r \<Rightarrow> (case sdDomains sd (crDomainID r) of
               Some d \<Rightarrow> if dmTenantID d = i then None else Some r
             | None \<Rightarrow> Some r)),
        sdDomains := (\<lambda>did. case sdDomains sd did of
            None \<Rightarrow> None
          | Some d \<Rightarrow> if dmTenantID d = i then None else Some d)\<rparr>"

definition DeleteTenant :: "storeEnv \<Rightarrow> Store \<Rightarrow> string \<Rightarrow> storeErr option \<times> Store" where
  "DeleteTenant ev s i =
     (case sdTenants (stData s) i of
        None \<Rightarrow> (Some (ErrTenantNotFound i), s)
      | Some _ \<Rightarrow>
          (let sd = without_domains i (stData s);
               sd = sd\<lparr>sdTenants := (sdTenants sd)(i := None)\<rparr>
           in save ev (s\<lparr>stData := sd\<rparr>)))"

definition GetTenantByAPIKey :: "string list \<Rightarrow> Store \<Rightarrow> string \<Rightarrow> storeErr + Tenant" where
  "GetTenantByAPIKey order s key =
     (case find (\<lambda>t. tnAPIKey t = key) (ListTenants order s) of None \<Rightarrow> Inl ErrInvalidKey | Some t \<Rightarrow> Inr t)"

section \<open>Domains\<close>

definition all_domains :: "string list \<Rightarrow> Store \<Rightarrow> Domain list" where
  "all_domains order s = List.map_filter (sdDomains (stData s)) order"

text \<open>The fields \<open>CreateDomain\<close> fills in.\<close>

definition new_domain :: "storeEnv \<Rightarrow> Domain \<Rightarrow> Domain" where
  "new_domain ev d =
     d\<lparr>dmID := genID ev, dmCreatedAt := seNow ev, dmUpdatedAt := seNow' ev,
       dmDefaultTTLSec := (if dmDefaultTTLSec d = 0 then 300 else dmDefaultTTLSec d),
       dmTLSMode := (if dmTLSMode d = [] then ''managed'' else dmTLSMode d), dmActive := True\<rparr>"

definition CreateDomain :: "storeEnv \<Rightarrow> string list \<Rightarrow> Store \<Rightarrow> Domain \<Rightarrow> (storeErr + Domain \<times> storeErr option) \<times> Store" where
  "CreateDomain ev order s d =
     (case sdTenants (stData s) (dmTenantID d) of
        None \<Rightarrow> (Inl (ErrTenantNotFound (dmTenantID d)), s)
      | Some _ \<Rightarrow>
          if list_ex (\<lambda>existing. dmHostname existing = dmHostname d) (all_domains order s)
          then (Inl (ErrHostnameTaken (dmHostname d)), s)
          else
            (let d = new_domain ev d;
                 sd = (stData s)\<lparr>sdDomains := (sdDomains (stData s))(dmID d \<mapsto> d)\<rparr>;
                 (err, s) = save ev (s\<lparr>stData := sd\<rparr>)
             in (Inr (d, err), s)))"

definition GetDomain :: "Store \<Rightarrow> string \<Rightarrow> storeErr + Domain" where
  "GetDomain s i = (case sdDomains (stData s) i of None \<Rightarrow> Inl (ErrDomainNotFound i) | Some d \<Rightarrow> Inr d)"

definition GetDomainByHostname :: "string list \<Rightarrow> Store \<Rightarrow> string \<Rightarrow> storeErr + Domain" where
  "GetDomainByHostname order s hostname =
     (case find (\<lambda>d. dmHostname d = hostname) (all_domains order s) of
        None \<Rightarrow> Inl (ErrDomainNotFound hostname) | Some d \<Rightarrow> Inr d)"

definition ListDomains :: "string list \<Rightarrow> Store \<Rightarrow> string \<Rightarrow> Domain list" where
  "ListDomains order s tenantID = filter (\<lambda>d. tenantID = [] \<or> dmTenantID d = tenantID) (all_domains order s)"

definition UpdateDomain :: "storeEnv \<Rightarrow> Store \<Rightarrow> Domain \<Rightarrow> storeErr option \<times> Store" where
  "UpdateDomain ev s d =
     (case sdDomains (stData s) (dmID d) of
        None \<Rightarrow> (Some (ErrDomainNotFound (dmID d)), s)
      | Some _ \<Rightarrow>
          (let d = d\<lparr>dmUpdatedAt := seNow ev\<rparr>
           in save ev (s\<lparr>stData := (stData s)\<lparr>sdDomains := (sdDomains (stData s))(dmID d \<mapsto> d)\<rparr>\<rparr>)))"

definition without_rules :: "string \<Rightarrow> storeData \<Rightarrow> storeData" where
  "without_rules i sd =
     sd\<lparr>sdCacheRules := (\<lambda>rid. case sdCacheRules sd rid of
          None \<Rightarrow> None | Some r \<Rightarrow> if crDomainID r = i then None else Some r)\<rparr>"

definition DeleteDomain :: "storeEnv \<Rightarrow> Store \<Rightarrow> string \<Rightarrow> storeErr option \<times> Store" where
  "DeleteDomain ev s i =
     (case sdDomains (stData s) i of
        None \<Rightarrow> (Some (ErrDomainNotFound i), s)
      | Some _ \<Rightarrow>
          (let sd = without_rules i (stData s);
               sd = sd\<lparr>sdDomains := (sdDomains sd)(i := None)\<rparr>
           in save ev (s\<lparr>stData := sd\<rparr>)))"

section \<open>Cache rules\<close>

definition CreateCacheRule :: "storeEnv \<Rightarrow> Store \<Rightarrow> CacheRule \<Rightarrow> (storeErr + CacheRule \<times> storeErr option) \<times> Store" where
  "CreateCacheRule ev s r =
     (case sdDomains (stData s) (crDomainID r) of
        None \<Rightarrow> (Inl (ErrDomainNotFound (crDomainID r)), s)
      | Some _ \<Rightarrow>
          (let r = r\<lparr>crID := genID ev\<rparr>;
               sd = (stData s)\<lparr>sdCacheRules := (sdCacheRules (stData s))(crID r \<mapsto> r)\<rparr>;
               (err, s) = save ev (s\<lparr>stData := sd\<rparr>)
           in (Inr (r, err), s)))"

definition ListCacheRules :: "string list \<Rightarrow> Store \<Rightarrow> string \<Rightarrow> CacheRule list" where
  "ListCacheRules order s domainID = filter (\<lambda>r. crDomainID r = domainID) (List.map_filter (sdCacheRules (stData s)) order)"

definition DeleteCacheRule :: "storeEnv \<Rightarrow> Store \<Rightarrow> string \<Rightarrow> storeErr option \<times> Store" where
  "DeleteCacheRule ev s i =
     (case sdCacheRules (stData s) i of
        None \<Rightarrow> (Some (ErrRuleNotFound i), s)
      | Some _ \<Rightarrow> save ev (s\<lparr>stData := (stData s)\<lparr>sdCacheRules := (sdCacheRules (stData s))(i := None)\<rparr>\<rparr>))"

section \<open>Edge nodes\<close>

definition RegisterEdge :: "storeEnv \<Rightarrow> Store \<Rightarrow> string \<Rightarrow> string \<Rightarrow> string \<Rightarrow> EdgeNode \<times> storeErr option \<times> Store" where
  "RegisterEdge ev s name addr region =
     (let node = \<lparr>enID = genID ev, enName = name, enAddr = addr, enRegion = region, enLastSeen = seNow ev, enActive = True\<rparr>;
          sd = (stData s)\<lparr>sdEdgeNodes := (sdEdgeNodes (stData s))(enID node \<mapsto> node)\<rparr>
      in (node, save ev (s\<lparr>stData := sd\<rparr>)))"

definition ListEdges :: "string list \<Rightarrow> Store \<Rightarrow> EdgeNode list" where
  "ListEdges order s = List.map_filter (sdEdgeNodes (stData s)) order"

definition HeartbeatEdge :: "storeEnv \<Rightarrow> Store \<Rightarrow> string \<Rightarrow> storeErr option \<times> Store" where
  "HeartbeatEdge ev s i =
     (case sdEdgeNodes (stData s) i of
        None \<Rightarrow> (Some (ErrEdgeNotFound i), s)
      | Some n \<Rightarrow> save ev (s\<lparr>stData := (stData s)\<lparr>sdEdgeNodes := (sdEdgeNodes (stData s))(i \<mapsto> n\<lparr>enLastSeen := seNow ev\<rparr>)\<rparr>\<rparr>))"

definition DeleteEdge :: "storeEnv \<Rightarrow> Store \<Rightarrow> string \<Rightarrow> storeErr option \<times> Store" where
  "DeleteEdge ev s i = save ev (s\<lparr>stData := (stData s)\<lparr>sdEdgeNodes := (sdEdgeNodes (stData s))(i := None)\<rparr>\<rparr>)"

section \<open>The snapshot for the edges\<close>

fun snapshot_domains :: "storeData \<Rightarrow> Domain list \<Rightarrow> (string \<rightharpoonup> Domain) \<Rightarrow> (string \<rightharpoonup> Domain)" where
  "snapshot_domains sd [] domains = domains"
| "snapshot_domains sd (d # ds) domains =
     (if \<not> dmActive d then snapshot_domains sd ds domains
      else case sdTenants sd (dmTenantID d) of
             None \<Rightarrow> snapshot_domains sd ds domains
           | Some t \<Rightarrow> if \<not> tnActive t then snapshot_domains sd ds domains
                       else snapshot_domains sd ds (domains(dmHostname d \<mapsto> d)))"

fun snapshot_rules :: "CacheRule list \<Rightarrow> (string \<Rightarrow> CacheRule list) \<Rightarrow> (string \<Rightarrow> CacheRule list)" where
  "snapshot_rules [] rules = rules"
| "snapshot_rules (r # rs) rules = snapshot_rules rs (rules(crDomainID r := rules (crDomainID r) @ [r]))"

definition BuildEdgeConfig :: "storeEnv \<Rightarrow> string list \<Rightarrow> string list \<Rightarrow> Store \<Rightarrow> EdgeConfig" where
  "BuildEdgeConfig ev dorder rorder s =
     \<lparr>ecVersion = sdVersion (stData s), ecTimestamp = seNow ev,
      ecDomains = snapshot_domains (stData s) (all_domains dorder s) Map.empty,
      ecRules = snapshot_rules (List.map_filter (sdCacheRules (stData s)) rorder) (\<lambda>_. [])\<rparr>"

definition store_Version :: "Store \<Rightarrow> int" where
  "store_Version s = sdVersion (stData s)"

section \<open>Any sequence of changes\<close>

datatype storeOp =
    OpCreateTenant string | OpDeleteTenant string | OpCreateDomain "string list" Domain | OpUpdateDomain Domain | OpDeleteDomain string
  | OpCreateRule CacheRule | OpDeleteRule string | OpRegisterEdge string string string | OpHeartbeat string | OpDeleteEdge string

fun store_apply :: "storeEnv \<Rightarrow> storeOp \<Rightarrow> Store \<Rightarrow> Store" where
  "store_apply ev (OpCreateTenant n) s = snd (snd (CreateTenant ev s n))"
| "store_apply ev (OpDeleteTenant i) s = snd (DeleteTenant ev s i)"
| "store_apply ev (OpCreateDomain order d) s = snd (CreateDomain ev order s d)"
| "store_apply ev (OpUpdateDomain d) s = snd (UpdateDomain ev s d)"
| "store_apply ev (OpDeleteDomain i) s = snd (DeleteDomain ev s i)"
| "store_apply ev (OpCreateRule r) s = snd (CreateCacheRule ev s r)"
| "store_apply ev (OpDeleteRule i) s = snd (DeleteCacheRule ev s i)"
| "store_apply ev (OpRegisterEdge n a r) s = snd (snd (RegisterEdge ev s n a r))"
| "store_apply ev (OpHeartbeat i) s = snd (HeartbeatEdge ev s i)"
| "store_apply ev (OpDeleteEdge i) s = snd (DeleteEdge ev s i)"

text \<open>A range loop visits every entry of a map exactly once.\<close>

definition visits :: "string list \<Rightarrow> (string \<rightharpoonup> 'v) \<Rightarrow> bool" where
  "visits order m \<longleftrightarrow> distinct order \<and> set order = dom m"

text \<open>
  What a caller has to see to: the loop of \<open>CreateDomain\<close> visits all domains (the runtime does), and an
  updated domain names an existing tenant and no host name of another domain, which \<open>UpdateDomain\<close>
  does not check.
\<close>

fun op_ok :: "storeOp \<Rightarrow> Store \<Rightarrow> bool" where
  "op_ok (OpCreateDomain order d) s \<longleftrightarrow> visits order (sdDomains (stData s))"
| "op_ok (OpUpdateDomain d) s \<longleftrightarrow> dmTenantID d \<in> dom (sdTenants (stData s)) \<and>
     (\<forall>i e. sdDomains (stData s) i = Some e \<longrightarrow> dmHostname e = dmHostname d \<longrightarrow> i = dmID d)"
| "op_ok op s \<longleftrightarrow> True"

definition store_ok :: "storeData \<Rightarrow> bool" where
  "store_ok sd \<longleftrightarrow>
     (\<forall>i t. sdTenants sd i = Some t \<longrightarrow> tnID t = i) \<and>
     (\<forall>i d. sdDomains sd i = Some d \<longrightarrow> dmID d = i \<and> dmTenantID d \<in> dom (sdTenants sd)) \<and>
     (\<forall>i j d e. sdDomains sd i = Some d \<longrightarrow> sdDomains sd j = Some e \<longrightarrow> dmHostname d = dmHostname e \<longrightarrow> i = j) \<and>
     (\<forall>i r. sdCacheRules sd i = Some r \<longrightarrow> crID r = i \<and> crDomainID r \<in> dom (sdDomains sd)) \<and>
     (\<forall>i n. sdEdgeNodes sd i = Some n \<longrightarrow> enID n = i)"

lemma store_ok_version [simp]: "store_ok (sd\<lparr>sdVersion := v\<rparr>) = store_ok sd"
  by (simp add: store_ok_def)

lemma save_data [simp]: "stData (snd (save ev s)) = (stData s)\<lparr>sdVersion := wrap64 (sdVersion (stData s) + 1)\<rparr>"
  by (auto simp: save_def Let_def split: option.split)

lemma map_filter_set: "set (List.map_filter m xs) = {y. \<exists>x \<in> set xs. m x = Some y}"
  by (force simp: map_filter_def)

lemma all_domains_visits:
  "visits order (sdDomains (stData s)) \<Longrightarrow> set (all_domains order s) = {d. \<exists>i. sdDomains (stData s) i = Some d}"
  by (auto simp: all_domains_def map_filter_set visits_def)

lemma ok_CreateTenant: "store_ok sd \<Longrightarrow> tnID t = i \<Longrightarrow> store_ok (sd\<lparr>sdTenants := (sdTenants sd)(i \<mapsto> t)\<rparr>)"
  by (auto simp: store_ok_def)

lemma ok_without_domains:
  assumes "store_ok sd"
  shows "store_ok ((without_domains i sd)\<lparr>sdTenants := (sdTenants sd)(i := None)\<rparr>)"
proof -
  have doms: "sdDomains (without_domains i sd) j = Some d \<longleftrightarrow> sdDomains sd j = Some d \<and> dmTenantID d \<noteq> i" for j d
    by (auto simp: without_domains_def split: option.split)
  have rules: "sdCacheRules (without_domains i sd) j = Some r \<longleftrightarrow>
      sdCacheRules sd j = Some r \<and> (\<forall>d. sdDomains sd (crDomainID r) = Some d \<longrightarrow> dmTenantID d \<noteq> i)" for j r
    by (auto simp: without_domains_def split: option.splits if_splits)
  have "sdEdgeNodes (without_domains i sd) = sdEdgeNodes sd" by (simp add: without_domains_def)
  with assms show ?thesis by (simp add: store_ok_def doms rules dom_def) blast
qed

lemma ok_put_domain:
  assumes "store_ok sd" and "dmTenantID d \<in> dom (sdTenants sd)"
    and "\<forall>i e. sdDomains sd i = Some e \<longrightarrow> dmHostname e = dmHostname d \<longrightarrow> i = dmID d"
  shows "store_ok (sd\<lparr>sdDomains := (sdDomains sd)(dmID d \<mapsto> d)\<rparr>)"
  using assms unfolding store_ok_def by (auto split: if_splits)

lemma ok_without_rules:
  assumes "store_ok sd" shows "store_ok ((without_rules i sd)\<lparr>sdDomains := (sdDomains sd)(i := None)\<rparr>)"
proof -
  have "sdCacheRules (without_rules i sd) j = Some r \<longleftrightarrow> sdCacheRules sd j = Some r \<and> crDomainID r \<noteq> i" for j r
    by (auto simp: without_rules_def split: option.split)
  with assms show ?thesis by (auto simp: store_ok_def dom_def) (auto simp: without_rules_def)
qed

lemma ok_rules:
  "store_ok sd \<Longrightarrow> crDomainID r \<in> dom (sdDomains sd) \<Longrightarrow> store_ok (sd\<lparr>sdCacheRules := (sdCacheRules sd)(crID r \<mapsto> r)\<rparr>)"
  "store_ok sd \<Longrightarrow> store_ok (sd\<lparr>sdCacheRules := (sdCacheRules sd)(i := None)\<rparr>)"
  by (auto simp: store_ok_def)

lemma ok_edges:
  "store_ok sd \<Longrightarrow> enID n = i \<Longrightarrow> store_ok (sd\<lparr>sdEdgeNodes := (sdEdgeNodes sd)(i \<mapsto> n)\<rparr>)"
  "store_ok sd \<Longrightarrow> store_ok (sd\<lparr>sdEdgeNodes := (sdEdgeNodes sd)(i := None)\<rparr>)"
  by (auto simp: store_ok_def)

lemma without_frame [simp]:
  "sdTenants (without_domains i sd) = sdTenants sd" "sdDomains (without_rules i sd) = sdDomains sd"
  by (simp_all add: without_domains_def without_rules_def)

lemma create_domain_ok:
  assumes ok: "store_ok (stData s)" and op: "op_ok (OpCreateDomain order d) s"
  shows "store_ok (stData (store_apply ev (OpCreateDomain order d) s))"
proof (cases "dmTenantID d \<in> dom (sdTenants (stData s)) \<and> (\<forall>e \<in> set (all_domains order s). dmHostname e \<noteq> dmHostname d)")
  case True
  let ?d = "new_domain ev d"
  have "dmHostname ?d = dmHostname d" "dmTenantID ?d = dmTenantID d" by (simp_all add: new_domain_def)
  with ok_put_domain [OF ok, of ?d] True op all_domains_visits
  have "store_ok ((stData s)\<lparr>sdDomains := (sdDomains (stData s))(dmID ?d \<mapsto> ?d)\<rparr>)" by fastforce
  then show ?thesis using True by (auto simp: CreateDomain_def Let_def list_ex_iff case_prod_unfold)
next
  case False
  then show ?thesis using ok by (auto simp: CreateDomain_def list_ex_iff split: option.split)
qed

lemma apply_ok:
  assumes ok: "store_ok (stData s)" and op: "op_ok op s" shows "store_ok (stData (store_apply ev op s))"
proof (cases op)
  case (OpCreateTenant n)
  then show ?thesis by (auto simp: CreateTenant_def Let_def intro!: ok_CreateTenant [OF ok])
next
  case (OpDeleteTenant i)
  then show ?thesis using ok ok_without_domains [OF ok] by (simp add: DeleteTenant_def Let_def split: option.split)
next
  case (OpCreateDomain order d)
  then show ?thesis using create_domain_ok [OF ok] op by blast
next
  case (OpUpdateDomain d)
  then show ?thesis using ok op ok_put_domain [OF ok, of "d\<lparr>dmUpdatedAt := seNow ev\<rparr>"]
    by (simp add: UpdateDomain_def Let_def split: option.split)
next
  case (OpDeleteDomain i)
  then show ?thesis using ok ok_without_rules [OF ok] by (simp add: DeleteDomain_def Let_def split: option.split)
next
  case (OpCreateRule r)
  then show ?thesis using ok ok_rules(1) [OF ok, of "r\<lparr>crID := genID ev\<rparr>"]
    by (auto simp: CreateCacheRule_def Let_def case_prod_unfold split: option.split)
next
  case (OpDeleteRule i)
  then show ?thesis using ok ok_rules(2) [OF ok] by (simp add: DeleteCacheRule_def split: option.split)
next
  case (OpRegisterEdge n a r)
  then show ?thesis by (auto simp: RegisterEdge_def Let_def intro!: ok_edges(1) [OF ok])
next
  case (OpHeartbeat i)
  have "enID n = i" if "sdEdgeNodes (stData s) i = Some n" for n using ok that unfolding store_ok_def by blast
  then show ?thesis using ok OpHeartbeat
    by (auto simp: HeartbeatEdge_def split: option.split intro!: ok_edges(1) [OF ok])
next
  case (OpDeleteEdge i)
  then show ?thesis using ok ok_edges(2) [OF ok] by (simp add: DeleteEdge_def)
qed

definition store_init :: "Store \<Rightarrow> bool" where
  "store_init s \<longleftrightarrow> (\<exists>ev. store_New ev False False None = Inr s)"

definition store_step :: "Store \<Rightarrow> Store \<Rightarrow> bool" where
  "store_step s s' \<longleftrightarrow> (\<exists>ev op. op_ok op s \<and> s' = store_apply ev op s)"

interpretation store: invariant_system store_init store_step "\<lambda>s. store_ok (stData s)"
proof
  show "store_ok (stData s)" if "store_init s" for s
    using that by (auto simp: store_init_def store_New_def store_load_def empty_storeData_def store_ok_def)
  show "store_ok (stData s')" if "store_ok (stData s)" "store_step s s'" for s s'
    using that apply_ok by (auto simp: store_step_def)
qed

section \<open>The snapshot\<close>

definition served_domain :: "storeData \<Rightarrow> Domain \<Rightarrow> bool" where
  "served_domain sd d \<longleftrightarrow> dmActive d \<and> (\<exists>t. sdTenants sd (dmTenantID d) = Some t \<and> tnActive t)"

lemma snapshot_domains_filter:
  "snapshot_domains sd ds m = foldl (\<lambda>m d. m(dmHostname d \<mapsto> d)) m (filter (served_domain sd) ds)"
  by (induction ds arbitrary: m) (simp_all add: served_domain_def split: option.split)

lemma foldl_hosts:
  "inj_on dmHostname (set ds) \<Longrightarrow>
   foldl (\<lambda>m d. m(dmHostname d \<mapsto> d)) m ds h = (case find (\<lambda>d. dmHostname d = h) ds of Some d \<Rightarrow> Some d | None \<Rightarrow> m h)"
proof (induction ds arbitrary: m)
  case (Cons d ds)
  have "find (\<lambda>e. dmHostname e = h) ds = None" if "dmHostname d = h" "d \<notin> set ds"
    using Cons.prems that by (auto simp: find_None_iff image_iff)
  moreover have "find (\<lambda>e. dmHostname e = h) ds = Some d" if "dmHostname d = h" "d \<in> set ds"
  proof -
    have "find (\<lambda>e. dmHostname e = h) ds \<noteq> None" using that by (auto simp: find_None_iff)
    then obtain e where e: "find (\<lambda>e. dmHostname e = h) ds = Some e" by blast
    then have "e \<in> set ds" "dmHostname e = h" by (auto simp: find_Some_iff)
    with that have "e = d" by (intro inj_onD [OF Cons.prems]) simp_all
    with e show ?thesis by simp
  qed
  moreover have "inj_on dmHostname (set ds)" using Cons.prems by simp
  ultimately show ?case using Cons.IH [of "m(dmHostname d \<mapsto> d)"] by (cases "d \<in> set ds") (auto split: option.split)
qed simp

lemma snapshot_rules_filter: "snapshot_rules rs m i = m i @ filter (\<lambda>r. crDomainID r = i) rs"
  by (induction rs arbitrary: m) simp_all

lemma store_ok_hosts:
  assumes "store_ok (stData s)" and "visits order (sdDomains (stData s))" shows "inj_on dmHostname (set (all_domains order s))"
proof (rule inj_onI)
  fix d e assume "d \<in> set (all_domains order s)" "e \<in> set (all_domains order s)" and h: "dmHostname d = dmHostname e"
  then obtain i j where ij: "sdDomains (stData s) i = Some d" "sdDomains (stData s) j = Some e"
    by (auto simp: all_domains_visits [OF assms(2)])
  with h assms(1) have "i = j" unfolding store_ok_def by blast
  with ij show "d = e" by simp
qed

lemma snapshot_exact:
  assumes ok: "store_ok (stData s)" and "visits dorder (sdDomains (stData s))" and "visits rorder (sdCacheRules (stData s))"
  shows "ecVersion (BuildEdgeConfig ev dorder rorder s) = store_Version s \<and>
         (ecDomains (BuildEdgeConfig ev dorder rorder s) host = Some d \<longleftrightarrow>
            dmHostname d = host \<and> sdDomains (stData s) (dmID d) = Some d \<and> dmActive d \<and>
            (\<exists>t. sdTenants (stData s) (dmTenantID d) = Some t \<and> tnActive t)) \<and>
         ecRules (BuildEdgeConfig ev dorder rorder s) i = ListCacheRules rorder s i \<and>
         set (ListCacheRules rorder s i) = {r. crDomainID r = i \<and> sdCacheRules (stData s) (crID r) = Some r}"
proof -
  let ?ds = "filter (served_domain (stData s)) (all_domains dorder s)"
  have inj: "inj_on dmHostname (set ?ds)" using store_ok_hosts [OF ok assms(2)] by (rule inj_on_subset) auto
  have "ecDomains (BuildEdgeConfig ev dorder rorder s) host = find (\<lambda>d. dmHostname d = host) ?ds"
    by (simp add: BuildEdgeConfig_def snapshot_domains_filter foldl_hosts [OF inj] split: option.split)
  moreover have "find (\<lambda>d. dmHostname d = host) ?ds = Some d \<longleftrightarrow> dmHostname d = host \<and> d \<in> set ?ds"
  proof
    assume "dmHostname d = host \<and> d \<in> set ?ds"
    moreover from this obtain e where "find (\<lambda>d. dmHostname d = host) ?ds = Some e" "e \<in> set ?ds" "dmHostname e = host"
      by (metis (mono_tags, lifting) find_None_iff find_Some_iff nth_mem option.exhaust)
    ultimately show "find (\<lambda>d. dmHostname d = host) ?ds = Some d" using inj by (auto simp: inj_on_def)
  qed (metis (mono_tags, lifting) find_Some_iff nth_mem)
  moreover have "d \<in> set (all_domains dorder s) \<longleftrightarrow> sdDomains (stData s) (dmID d) = Some d"
    using ok by (auto simp: all_domains_visits [OF assms(2)] store_ok_def)
  moreover have "set (ListCacheRules rorder s i) = {r. crDomainID r = i \<and> sdCacheRules (stData s) (crID r) = Some r}"
    using assms(3) ok by (auto simp: ListCacheRules_def map_filter_set visits_def store_ok_def)
  ultimately show ?thesis
    by (auto simp: BuildEdgeConfig_def store_Version_def ListCacheRules_def snapshot_rules_filter served_domain_def)
qed

section \<open>Properties\<close>

definition demo_storeEnv :: storeEnv where
  "demo_storeEnv = \<lparr>seNow = 7, seNow' = 8, seRandID = [CHR ''A''], seRandKey = [CHR ''B''], seMarshal = (\<lambda>_. Some []),
     seUnmarshal = (\<lambda>_. Some empty_storeData), seWriteFails = False\<rparr>"

definition demo_store :: Store where
  "demo_store = store_apply demo_storeEnv (OpCreateTenant ''acme'') \<lparr>stData = empty_storeData, stFile = None\<rparr>"

lemma demo_store_reachable: "reachable store_init store_step demo_store"
proof -
  have "store_init \<lparr>stData = empty_storeData, stFile = None\<rparr>" by (auto simp: store_init_def store_New_def store_load_def)
  moreover have "store_step \<lparr>stData = empty_storeData, stFile = None\<rparr> demo_store"
    unfolding store_step_def demo_store_def by (intro exI [of _ demo_storeEnv] exI [of _ "OpCreateTenant ''acme''"]) simp
  ultimately show ?thesis by (intro reachable.step [OF reachable.start])
qed

lemma demo_store_data:
  "stData demo_store = empty_storeData\<lparr>sdVersion := 1, sdTenants := [''41'' \<mapsto>
     \<lparr>tnID = ''41'', tnName = ''acme'', tnCreatedAt = 7, tnUpdatedAt = 8, tnActive = True, tnAPIKey = ''cdnk_42''\<rparr>]\<rparr>"
  by (simp add: demo_store_def CreateTenant_def Let_def genID_def genAPIKey_def hex_EncodeToString_def hex_digit_def demo_storeEnv_def
      empty_storeData_def wrap64_def)

text \<open>
  C24. Integrity of the control plane's data: after any sequence of changes from an empty store
  (whatever the random ids, also when they collide, and also when writing the file fails) every
  entry is filed under its own id, every domain belongs to an existing tenant, no two domains share a
  host name and every cache rule belongs to an existing domain, provided that \<open>UpdateDomain\<close> is only
  given a domain whose tenant exists and whose host name no other domain has.
\<close>

theorem store_integrity:
  assumes "reachable store_init store_step s"
  shows "(\<forall>i d. sdDomains (stData s) i = Some d \<longrightarrow> dmID d = i \<and> dmTenantID d \<in> dom (sdTenants (stData s))) \<and>
         (\<forall>i j d e. sdDomains (stData s) i = Some d \<longrightarrow> sdDomains (stData s) j = Some e \<longrightarrow> dmHostname d = dmHostname e \<longrightarrow> i = j) \<and>
         (\<forall>i r. sdCacheRules (stData s) i = Some r \<longrightarrow> crID r = i \<and> crDomainID r \<in> dom (sdDomains (stData s))) \<and>
         (\<forall>i t. sdTenants (stData s) i = Some t \<longrightarrow> tnID t = i)"
  using store.reachable_inv [OF assms] unfolding store_ok_def by blast

theorem store_integrity_witness:
  "\<exists>t. sdTenants (stData demo_store) ''41'' = Some t \<and> tnID t = ''41''"
  using store_integrity [OF demo_store_reachable] by (simp add: demo_store_data)

text \<open>
  \<open>UpdateDomain\<close> does not check host names: given one domain's id and another domain's host
  name it succeeds, and two domains then share the host name that \<open>CreateDomain\<close> keeps unique.
\<close>

theorem store_update_unchecked:
  assumes "sdDomains (stData s) (dmID d) = Some old" and "sdDomains (stData s) j = Some e" and "j \<noteq> dmID d" and "dmHostname e = dmHostname d"
    and "\<And>sd. seMarshal ev sd \<noteq> None" and "\<not> seWriteFails ev"
  shows "\<exists>s' d'. UpdateDomain ev s d = (None, s') \<and> sdDomains (stData s') (dmID d) = Some d' \<and> sdDomains (stData s') j = Some e \<and>
           dmHostname d' = dmHostname e"
  using assms by (auto simp: UpdateDomain_def save_def Let_def split: option.split)

theorem store_update_unchecked_witness:
  "\<exists>s' d'. UpdateDomain demo_storeEnv
      (demo_store\<lparr>stData := (stData demo_store)\<lparr>sdDomains := [''d1'' \<mapsto> demo_domain, ''d2'' \<mapsto> demo_domain\<lparr>dmID := ''d2'', dmHostname := ''b.org''\<rparr>]\<rparr>\<rparr>)
      (demo_domain\<lparr>dmHostname := ''b.org''\<rparr>) = (None, s') \<and> sdDomains (stData s') ''d1'' = Some d' \<and> dmHostname d' = ''b.org''"
  using store_update_unchecked [of "demo_store\<lparr>stData := (stData demo_store)\<lparr>sdDomains := [''d1'' \<mapsto> demo_domain, ''d2'' \<mapsto> demo_domain\<lparr>dmID := ''d2'', dmHostname := ''b.org''\<rparr>]\<rparr>\<rparr>"
      "demo_domain\<lparr>dmHostname := ''b.org''\<rparr>" demo_domain "''d2''" "demo_domain\<lparr>dmID := ''d2'', dmHostname := ''b.org''\<rparr>" demo_storeEnv]
  by (auto simp: demo_domain_def demo_storeEnv_def)



text \<open>
  Versions: a call either is refused and leaves the store as it was, or counts the version up by
  exactly one, also when writing the file then fails, so every change of the data has a new version.
\<close>

theorem store_version_steps:
  "store_apply ev op s = s \<or> store_Version (store_apply ev op s) = wrap64 (store_Version s + 1)"
  by (cases op)
     (auto simp: store_Version_def CreateTenant_def DeleteTenant_def CreateDomain_def UpdateDomain_def DeleteDomain_def CreateCacheRule_def
       DeleteCacheRule_def RegisterEdge_def HeartbeatEdge_def DeleteEdge_def Let_def case_prod_unfold without_domains_def without_rules_def
       split: option.split)



text \<open>
  Deleting a tenant removes it with all its domains and the rules of those domains, and keeps
  every other tenant, every domain of another tenant and every rule of a domain that stays.
\<close>

theorem store_delete_cascades:
  assumes "reachable store_init store_step s" and "sdTenants (stData s) i = Some t"
  shows "sdTenants (stData (snd (DeleteTenant ev s i))) = (sdTenants (stData s))(i := None) \<and>
         (sdDomains (stData (snd (DeleteTenant ev s i))) j = Some d \<longleftrightarrow> sdDomains (stData s) j = Some d \<and> dmTenantID d \<noteq> i) \<and>
         (sdCacheRules (stData (snd (DeleteTenant ev s i))) j = Some r \<longleftrightarrow>
            sdCacheRules (stData s) j = Some r \<and> (\<exists>d. sdDomains (stData s) (crDomainID r) = Some d \<and> dmTenantID d \<noteq> i))"
proof -
  have ok: "store_ok (stData s)" using assms(1) by (rule store.reachable_inv)
  have "\<exists>d. sdDomains (stData s) (crDomainID r) = Some d" if "sdCacheRules (stData s) j = Some r" for j r
    using ok that by (auto simp: store_ok_def)
  then show ?thesis using assms(2)
    by (fastforce simp: DeleteTenant_def Let_def without_domains_def split: option.splits if_splits)
qed

theorem store_delete_cascades_witness:
  "sdTenants (stData (snd (DeleteTenant demo_storeEnv demo_store ''41''))) = Map.empty"
  using store_delete_cascades [OF demo_store_reachable, of "''41''"] by (auto simp: demo_store_data)

end
