(* ===== verification/CpApi.thy ===== *)
theory CpApi
  imports CpStore GoHttp
begin

text \<open>
  \<open>controlplane/api/api.go\<close>: authentication, routing and the handlers of the control plane's REST API over
  the store. A request carries its decoded query parameters and its body; a response is a status and
  the value that is written as JSON. JSON decoding of bodies, and the order in which the store's loops visit its
  maps, are in \<open>apiEnv\<close>. The handlers wired in from outside (analytics, purge, certificates) are
  functions in the server record, nil until set. \<open>svNotified\<close> counts the calls of the configuration-change callback.
\<close>

record apiReq =
  aqMethod :: string
  aqPath :: string
  aqHeader :: header
  aqQuery :: "string \<Rightarrow> string"
  aqBody :: bytes

datatype apiBody =
    BTenants "Tenant list" | BTenant Tenant | BDomains "Domain list" | BDomain Domain | BRules "CacheRule list" | BRule CacheRule
  | BEdges "EdgeNode list" | BEdge EdgeNode | BConfig EdgeConfig | BError string | BStoreError storeErr | BStatus string
  | BNotFound | BRedirect string | BExternal bytes

type_synonym apiResp = "int \<times> apiBody"

record apiEnv =
  aeStore :: storeEnv
  aeName :: "bytes \<Rightarrow> string option"
  aeDomain :: "bytes \<Rightarrow> Domain option"
  aeRule :: "bytes \<Rightarrow> CacheRule option"
  aeEdge :: "bytes \<Rightarrow> (string \<times> string \<times> string) option"
  aeTorder :: "string list"
  aeDorder :: "string list"
  aeRorder :: "string list"
  aeEorder :: "string list"

record Server =
  svStore :: Store
  svAdminKey :: string
  svOnChange :: bool
  svNotified :: nat
  svAnalyticsIngest :: "(apiReq \<Rightarrow> apiResp) option"
  svAnalyticsQuery :: "(apiReq \<Rightarrow> apiResp) option"
  svPurge :: "(apiReq \<Rightarrow> apiResp) option"
  svCerts :: "(apiReq \<Rightarrow> apiResp) option"
  svCert :: "(apiReq \<Rightarrow> apiResp) option"

definition api_New :: "Store \<Rightarrow> string \<Rightarrow> bool \<Rightarrow> Server" where
  "api_New s adminKey onChange =
     \<lparr>svStore = s, svAdminKey = adminKey, svOnChange = onChange, svNotified = 0, svAnalyticsIngest = None, svAnalyticsQuery = None,
      svPurge = None, svCerts = None, svCert = None\<rparr>"

definition SetAnalyticsHandlers :: "Server \<Rightarrow> (apiReq \<Rightarrow> apiResp) option \<Rightarrow> (apiReq \<Rightarrow> apiResp) option \<Rightarrow> Server" where
  "SetAnalyticsHandlers sv ingest query = sv\<lparr>svAnalyticsIngest := ingest, svAnalyticsQuery := query\<rparr>"

definition SetPurgeHandler :: "Server \<Rightarrow> (apiReq \<Rightarrow> apiResp) option \<Rightarrow> Server" where
  "SetPurgeHandler sv h = sv\<lparr>svPurge := h\<rparr>"

definition SetCertsHandlers :: "Server \<Rightarrow> (apiReq \<Rightarrow> apiResp) option \<Rightarrow> (apiReq \<Rightarrow> apiResp) option \<Rightarrow> Server" where
  "SetCertsHandlers sv listCreate single = sv\<lparr>svCerts := listCreate, svCert := single\<rparr>"

definition writeJSON :: "Server \<Rightarrow> int \<Rightarrow> apiBody \<Rightarrow> apiResp \<times> Server" where
  "writeJSON sv status v = ((status, v), sv)"

definition methodNotAllowed :: "Server \<Rightarrow> apiResp \<times> Server" where
  "methodNotAllowed sv = writeJSON sv 405 (BError ''method not allowed'')"

definition notifyConfigChange :: "Server \<Rightarrow> Server" where
  "notifyConfigChange sv = (if svOnChange sv then sv\<lparr>svNotified := Suc (svNotified sv)\<rparr> else sv)"

definition lastPathSegment :: "string \<Rightarrow> string" where
  "lastPathSegment path =
     (let path = strings_TrimRight path (CHR ''/'')
      in case strings_LastIndexByte path (CHR ''/'') of None \<Rightarrow> path | Some i \<Rightarrow> drop (i + 1) path)"

section \<open>Authentication\<close>

definition extractAPIKey :: "apiReq \<Rightarrow> string" where
  "extractAPIKey r =
     (let key = header_Get (aqHeader r) ''X-API-Key''
      in if key \<noteq> [] then key
         else let auth = header_Get (aqHeader r) ''Authorization''
              in if strings_HasPrefix auth ''Bearer '' then strings_TrimPrefix auth ''Bearer '' else aqQuery r ''api_key'')"

definition unauthorized :: "Server \<Rightarrow> apiResp \<times> Server" where
  "unauthorized sv = writeJSON sv 401 (BError ''unauthorized'')"

definition adminAuth :: "(Server \<Rightarrow> apiReq \<Rightarrow> apiResp \<times> Server) \<Rightarrow> Server \<Rightarrow> apiReq \<Rightarrow> apiResp \<times> Server" where
  "adminAuth next' sv r = (if extractAPIKey r \<noteq> svAdminKey sv then unauthorized sv else next' sv r)"

definition auth :: "apiEnv \<Rightarrow> (Server \<Rightarrow> apiReq \<Rightarrow> apiResp \<times> Server) \<Rightarrow> Server \<Rightarrow> apiReq \<Rightarrow> apiResp \<times> Server" where
  "auth ev next' sv r =
     (let key = extractAPIKey r
      in if key = svAdminKey sv then next' sv r
         else case GetTenantByAPIKey (aeTorder ev) (svStore sv) key of
                Inl err \<Rightarrow> unauthorized sv
              | Inr _ \<Rightarrow> next' sv r)"

section \<open>Tenants\<close>

definition handleTenants :: "apiEnv \<Rightarrow> Server \<Rightarrow> apiReq \<Rightarrow> apiResp \<times> Server" where
  "handleTenants ev sv r =
     (if aqMethod r = ''GET'' then writeJSON sv 200 (BTenants (ListTenants (aeTorder ev) (svStore sv)))
      else if aqMethod r = ''POST'' then
        (case aeName ev (aqBody r) of
           None \<Rightarrow> writeJSON sv 400 (BError ''name is required'')
         | Some name \<Rightarrow>
             if name = [] then writeJSON sv 400 (BError ''name is required'')
             else let (t, err, s) = CreateTenant (aeStore ev) (svStore sv) name;
                      sv = sv\<lparr>svStore := s\<rparr>
                  in case err of Some e \<Rightarrow> writeJSON sv 500 (BStoreError e) | None \<Rightarrow> writeJSON sv 201 (BTenant t))
      else methodNotAllowed sv)"

text \<open>The end of every handler that deletes: a failure, or the callback and the confirmation.\<close>

definition deleted :: "Server \<Rightarrow> storeErr option \<times> Store \<Rightarrow> apiResp \<times> Server" where
  "deleted sv = (\<lambda>(err, s).
     let sv = sv\<lparr>svStore := s\<rparr>
     in case err of
          Some e \<Rightarrow> writeJSON sv 404 (BStoreError e)
        | None \<Rightarrow> writeJSON (notifyConfigChange sv) 200 (BStatus ''deleted''))"

definition handleTenant :: "apiEnv \<Rightarrow> Server \<Rightarrow> apiReq \<Rightarrow> apiResp \<times> Server" where
  "handleTenant ev sv r =
     (let i = lastPathSegment (aqPath r)
      in if aqMethod r = ''GET'' then
           (case GetTenant (svStore sv) i of Inl e \<Rightarrow> writeJSON sv 404 (BStoreError e) | Inr t \<Rightarrow> writeJSON sv 200 (BTenant t))
         else if aqMethod r = ''DELETE'' then deleted sv (DeleteTenant (aeStore ev) (svStore sv) i)
         else methodNotAllowed sv)"

section \<open>Domains\<close>

definition handleDomains :: "apiEnv \<Rightarrow> Server \<Rightarrow> apiReq \<Rightarrow> apiResp \<times> Server" where
  "handleDomains ev sv r =
     (if aqMethod r = ''GET'' then writeJSON sv 200 (BDomains (ListDomains (aeDorder ev) (svStore sv) (aqQuery r ''tenant_id'')))
      else if aqMethod r = ''POST'' then
        (case aeDomain ev (aqBody r) of
           None \<Rightarrow> writeJSON sv 400 (BError ''invalid JSON'')
         | Some d \<Rightarrow>
             if dmHostname d = [] \<or> dmOriginURL d = [] \<or> dmTenantID d = []
             then writeJSON sv 400 (BError ''hostname, origin_url, and tenant_id are required'')
             else let (res, s) = CreateDomain (aeStore ev) (aeDorder ev) (svStore sv) d;
                      sv = sv\<lparr>svStore := s\<rparr>
                  in case res of
                       Inl e \<Rightarrow> writeJSON sv 400 (BStoreError e)
                     | Inr (_, Some e) \<Rightarrow> writeJSON sv 400 (BStoreError e)
                     | Inr (created, None) \<Rightarrow> writeJSON (notifyConfigChange sv) 201 (BDomain created))
      else methodNotAllowed sv)"

definition handleDomain :: "apiEnv \<Rightarrow> Server \<Rightarrow> apiReq \<Rightarrow> apiResp \<times> Server" where
  "handleDomain ev sv r =
     (let i = lastPathSegment (aqPath r)
      in if aqMethod r = ''GET'' then
           (case GetDomain (svStore sv) i of Inl e \<Rightarrow> writeJSON sv 404 (BStoreError e) | Inr d \<Rightarrow> writeJSON sv 200 (BDomain d))
         else if aqMethod r = ''PUT'' then
           (case aeDomain ev (aqBody r) of
              None \<Rightarrow> writeJSON sv 400 (BError ''invalid JSON'')
            | Some d \<Rightarrow>
                let d = d\<lparr>dmID := i\<rparr>;
                    (err, s) = UpdateDomain (aeStore ev) (svStore sv) d;
                    sv = sv\<lparr>svStore := s\<rparr>
                in case err of
                     Some e \<Rightarrow> writeJSON sv 400 (BStoreError e)
                   | None \<Rightarrow> writeJSON (notifyConfigChange sv) 200 (BDomain (d\<lparr>dmUpdatedAt := seNow (aeStore ev)\<rparr>)))
         else if aqMethod r = ''DELETE'' then deleted sv (DeleteDomain (aeStore ev) (svStore sv) i)
         else methodNotAllowed sv)"

section \<open>Cache rules and edges\<close>

definition handleRules :: "apiEnv \<Rightarrow> Server \<Rightarrow> apiReq \<Rightarrow> apiResp \<times> Server" where
  "handleRules ev sv r =
     (if aqMethod r = ''GET'' then writeJSON sv 200 (BRules (ListCacheRules (aeRorder ev) (svStore sv) (aqQuery r ''domain_id'')))
      else if aqMethod r = ''POST'' then
        (case aeRule ev (aqBody r) of
           None \<Rightarrow> writeJSON sv 400 (BError ''invalid JSON'')
         | Some rule \<Rightarrow>
             let (res, s) = CreateCacheRule (aeStore ev) (svStore sv) rule;
                 sv = sv\<lparr>svStore := s\<rparr>
             in case res of
                  Inl e \<Rightarrow> writeJSON sv 400 (BStoreError e)
                | Inr (_, Some e) \<Rightarrow> writeJSON sv 400 (BStoreError e)
                | Inr (created, None) \<Rightarrow> writeJSON (notifyConfigChange sv) 201 (BRule created))
      else methodNotAllowed sv)"

definition handleRule :: "apiEnv \<Rightarrow> Server \<Rightarrow> apiReq \<Rightarrow> apiResp \<times> Server" where
  "handleRule ev sv r =
     (if aqMethod r = ''DELETE'' then deleted sv (DeleteCacheRule (aeStore ev) (svStore sv) (lastPathSegment (aqPath r)))
      else methodNotAllowed sv)"

definition handleEdges :: "apiEnv \<Rightarrow> Server \<Rightarrow> apiReq \<Rightarrow> apiResp \<times> Server" where
  "handleEdges ev sv r =
     (if aqMethod r = ''GET'' then writeJSON sv 200 (BEdges (ListEdges (aeEorder ev) (svStore sv)))
      else if aqMethod r = ''POST'' then
        (case aeEdge ev (aqBody r) of
           None \<Rightarrow> writeJSON sv 400 (BError ''invalid JSON'')
         | Some (name, addr, region) \<Rightarrow>
             let (node, err, s) = RegisterEdge (aeStore ev) (svStore sv) name addr region;
                 sv = sv\<lparr>svStore := s\<rparr>
             in case err of Some e \<Rightarrow> writeJSON sv 500 (BStoreError e) | None \<Rightarrow> writeJSON sv 201 (BEdge node))
      else methodNotAllowed sv)"

definition handleEdge :: "apiEnv \<Rightarrow> Server \<Rightarrow> apiReq \<Rightarrow> apiResp \<times> Server" where
  "handleEdge ev sv r =
     (if aqMethod r = ''DELETE'' then
        (let (err, s) = DeleteEdge (aeStore ev) (svStore sv) (lastPathSegment (aqPath r));
             sv = sv\<lparr>svStore := s\<rparr>
         in case err of Some e \<Rightarrow> writeJSON sv 404 (BStoreError e) | None \<Rightarrow> writeJSON sv 200 (BStatus ''deleted''))
      else methodNotAllowed sv)"

section \<open>Snapshot and external handlers\<close>

definition handleConfig :: "apiEnv \<Rightarrow> Server \<Rightarrow> apiReq \<Rightarrow> apiResp \<times> Server" where
  "handleConfig ev sv r =
     (if aqMethod r \<noteq> ''GET'' then methodNotAllowed sv
      else writeJSON sv 200 (BConfig (BuildEdgeConfig (aeStore ev) (aeDorder ev) (aeRorder ev) (svStore sv))))"

definition handlePurge :: "Server \<Rightarrow> apiReq \<Rightarrow> apiResp \<times> Server" where
  "handlePurge sv r = (case svPurge sv of Some h \<Rightarrow> (h r, sv) | None \<Rightarrow> writeJSON sv 200 (BStatus ''purge_queued''))"

definition handleAnalyticsIngest :: "Server \<Rightarrow> apiReq \<Rightarrow> apiResp \<times> Server" where
  "handleAnalyticsIngest sv r = (case svAnalyticsIngest sv of Some h \<Rightarrow> (h r, sv) | None \<Rightarrow> writeJSON sv 202 (BStatus ''accepted''))"

definition handleAnalyticsQuery :: "Server \<Rightarrow> apiReq \<Rightarrow> apiResp \<times> Server" where
  "handleAnalyticsQuery sv r = (case svAnalyticsQuery sv of Some h \<Rightarrow> (h r, sv) | None \<Rightarrow> writeJSON sv 200 (BStatus ''not_implemented''))"

definition handleCerts :: "Server \<Rightarrow> apiReq \<Rightarrow> apiResp \<times> Server" where
  "handleCerts sv r =
     (case svCerts sv of Some h \<Rightarrow> (h r, sv) | None \<Rightarrow> writeJSON sv 501 (BError ''certificate manager not configured''))"

definition handleCert :: "Server \<Rightarrow> apiReq \<Rightarrow> apiResp \<times> Server" where
  "handleCert sv r =
     (case svCert sv of Some h \<Rightarrow> (h r, sv) | None \<Rightarrow> writeJSON sv 501 (BError ''certificate manager not configured''))"

section \<open>Routing\<close>

text \<open>
  The routes of \<open>Handler\<close>: exact patterns and, for those ending in a slash, everything below. The
  standard library's mux first redirects a path that is not in cleaned form.
\<close>

definition mux_clean :: "string \<Rightarrow> string" where
  "mux_clean p =
     (if p = [] then ''/''
      else let p = (if strings_HasPrefix p ''/'' then p else CHR ''/'' # p);
               np = path_Clean p
           in if strings_HasSuffix p ''/'' \<and> np \<noteq> ''/'' then np @ ''/'' else np)"

definition api_Handler :: "apiEnv \<Rightarrow> Server \<Rightarrow> apiReq \<Rightarrow> apiResp \<times> Server" where
  "api_Handler ev sv r =
     (let p = aqPath r
      in if mux_clean p \<noteq> p then ((301, BRedirect (mux_clean p)), sv)
         else if p = ''/api/v1/tenants'' then adminAuth (handleTenants ev) sv r
         else if strings_HasPrefix p ''/api/v1/tenants/'' then adminAuth (handleTenant ev) sv r
         else if p = ''/api/v1/domains'' then auth ev (handleDomains ev) sv r
         else if strings_HasPrefix p ''/api/v1/domains/'' then auth ev (handleDomain ev) sv r
         else if p = ''/api/v1/rules'' then auth ev (handleRules ev) sv r
         else if strings_HasPrefix p ''/api/v1/rules/'' then auth ev (handleRule ev) sv r
         else if p = ''/api/v1/edges'' then adminAuth (handleEdges ev) sv r
         else if strings_HasPrefix p ''/api/v1/edges/'' then adminAuth (handleEdge ev) sv r
         else if p = ''/api/v1/config'' then handleConfig ev sv r
         else if p = ''/api/v1/purge'' then auth ev handlePurge sv r
         else if p = ''/api/v1/analytics/ingest'' then handleAnalyticsIngest sv r
         else if p = ''/api/v1/analytics/query'' then auth ev handleAnalyticsQuery sv r
         else if p = ''/api/v1/certs'' then adminAuth handleCerts sv r
         else if strings_HasPrefix p ''/api/v1/certs/'' then adminAuth handleCert sv r
         else ((404, BNotFound), sv))"

section \<open>Who may change what\<close>

definition tenant_key :: "Store \<Rightarrow> string \<Rightarrow> bool" where
  "tenant_key s key \<longleftrightarrow> (\<exists>i t. sdTenants (stData s) i = Some t \<and> tnAPIKey t = key)"

lemma ByAPIKey_cases:
  assumes "visits order (sdTenants (stData s))"
  shows "(case GetTenantByAPIKey order s key of Inr t \<Rightarrow> tnAPIKey t = key \<and> tenant_key s key | Inl e \<Rightarrow> \<not> tenant_key s key)"
proof -
  have set: "set (ListTenants order s) = {t. \<exists>i. sdTenants (stData s) i = Some t}"
    using assms by (auto simp: ListTenants_def map_filter_set visits_def)
  show ?thesis
  proof (cases "find (\<lambda>t. tnAPIKey t = key) (ListTenants order s)")
    case None
    then have "\<not> tenant_key s key" using set by (auto simp: find_None_iff tenant_key_def)
    with None show ?thesis by (simp add: GetTenantByAPIKey_def)
  next
    case (Some t)
    then have "t \<in> set (ListTenants order s)" "tnAPIKey t = key" by (auto simp: find_Some_iff)
    with Some set show ?thesis by (auto simp: GetTenantByAPIKey_def tenant_key_def)
  qed
qed

lemma adminAuth_other: "extractAPIKey r \<noteq> svAdminKey sv \<Longrightarrow> adminAuth f sv r = ((401, BError ''unauthorized''), sv)"
  by (simp add: adminAuth_def unauthorized_def writeJSON_def)

lemma auth_other:
  assumes "visits (aeTorder ev) (sdTenants (stData (svStore sv)))" and "extractAPIKey r \<noteq> svAdminKey sv"
  shows "auth ev f sv r = (if tenant_key (svStore sv) (extractAPIKey r) then f sv r else ((401, BError ''unauthorized''), sv))"
  using assms ByAPIKey_cases [OF assms(1), of "extractAPIKey r"]
  by (auto simp: auth_def unauthorized_def writeJSON_def Let_def split: sum.splits)

text \<open>What a handler reachable with a tenant's key leaves alone.\<close>

definition keeps_admin_data :: "Server \<Rightarrow> apiResp \<times> Server \<Rightarrow> bool" where
  "keeps_admin_data sv x \<longleftrightarrow>
     sdTenants (stData (svStore (snd x))) = sdTenants (stData (svStore sv)) \<and>
     sdEdgeNodes (stData (svStore (snd x))) = sdEdgeNodes (stData (svStore sv)) \<and> svAdminKey (snd x) = svAdminKey sv"

lemma notify_frame [simp]: "svStore (notifyConfigChange sv) = svStore sv" "svAdminKey (notifyConfigChange sv) = svAdminKey sv"
  by (simp_all add: notifyConfigChange_def)

lemmas handler_defs = writeJSON_def methodNotAllowed_def deleted_def Let_def case_prod_unfold

lemma handlers_keep:
  "keeps_admin_data sv (handleDomains ev sv r)" "keeps_admin_data sv (handleDomain ev sv r)"
  "keeps_admin_data sv (handleRules ev sv r)" "keeps_admin_data sv (handleRule ev sv r)"
  by (auto simp: keeps_admin_data_def handleDomains_def CreateDomain_def handler_defs split: option.splits sum.splits)
     (auto simp: keeps_admin_data_def handleDomain_def handleRules_def handleRule_def UpdateDomain_def DeleteDomain_def
        CreateCacheRule_def DeleteCacheRule_def without_rules_def handler_defs split: option.splits sum.splits)

lemma external_keep:
  "snd (handlePurge sv r) = sv" "snd (handleAnalyticsIngest sv r) = sv" "snd (handleAnalyticsQuery sv r) = sv"
  "snd (handleConfig ev sv r) = sv"
  by (simp_all add: handlePurge_def handleAnalyticsIngest_def handleAnalyticsQuery_def handleConfig_def writeJSON_def methodNotAllowed_def
      split: option.split)

section \<open>The callback\<close>

definition tells :: "Server \<Rightarrow> apiResp \<times> Server \<Rightarrow> bool" where
  "tells sv x \<longleftrightarrow>
     ((sdDomains (stData (svStore (snd x))) \<noteq> sdDomains (stData (svStore sv)) \<or>
       sdCacheRules (stData (svStore (snd x))) \<noteq> sdCacheRules (stData (svStore sv))) \<and> fst (fst x) < 400 \<longrightarrow>
      svNotified (snd x) = Suc (svNotified sv))"

lemma tells_same [simp]: "snd x = sv \<Longrightarrow> tells sv x"
  by (simp add: tells_def)

lemma tells_auth [simp]: "tells sv (f sv r) \<Longrightarrow> tells sv (adminAuth f sv r)" "tells sv (f sv r) \<Longrightarrow> tells sv (auth ev f sv r)"
  by (simp_all add: adminAuth_def auth_def unauthorized_def writeJSON_def Let_def split: sum.split)

lemma tells_deleted: "svOnChange sv \<Longrightarrow> tells sv (deleted sv x)"
  by (auto simp: tells_def deleted_def writeJSON_def notifyConfigChange_def Let_def split: prod.splits option.splits)

lemma handlers_tell:
  assumes "svOnChange sv"
  shows "tells sv (handleTenants ev sv r)" "tells sv (handleTenant ev sv r)" "tells sv (handleEdges ev sv r)" "tells sv (handleEdge ev sv r)"
    "tells sv (handleDomains ev sv r)" "tells sv (handleDomain ev sv r)" "tells sv (handleRules ev sv r)" "tells sv (handleRule ev sv r)"
  using assms
  by (simp_all add: handleTenants_def CreateTenant_def handleTenant_def handleEdges_def RegisterEdge_def handleEdge_def DeleteEdge_def
      handleDomains_def handleDomain_def handleRules_def handleRule_def tells_deleted writeJSON_def methodNotAllowed_def notifyConfigChange_def
      Let_def case_prod_unfold split: option.split sum.split prod.split)
     (simp_all add: tells_def)

lemma tells_if: "(b \<Longrightarrow> tells sv x) \<Longrightarrow> (\<not> b \<Longrightarrow> tells sv y) \<Longrightarrow> tells sv (if b then x else y)"
  by simp

lemma certs_keep: "snd (handleCerts sv r) = sv" "snd (handleCert sv r) = sv"
  by (simp_all add: handleCerts_def handleCert_def writeJSON_def split: option.split)

lemma api_Handler_tells:
  assumes "svOnChange sv" shows "tells sv (api_Handler ev sv r)"
  unfolding api_Handler_def Let_def
  by (intro tells_if; (intro tells_auth)?;
      (rule handlers_tell [OF assms] | (rule tells_same, simp only: snd_conv external_keep certs_keep)))

section \<open>Properties\<close>

definition demo_apiEnv :: apiEnv where
  "demo_apiEnv = \<lparr>aeStore = demo_storeEnv, aeName = Some, aeDomain = (\<lambda>_. Some (demo_domain\<lparr>dmTenantID := ''41''\<rparr>)), aeRule = (\<lambda>_. None),
     aeEdge = (\<lambda>_. None), aeTorder = [''41''], aeDorder = [], aeRorder = [], aeEorder = []\<rparr>"

definition demo_server :: Server where
  "demo_server = api_New demo_store ''secret'' True"

definition demo_apiReq :: "string \<Rightarrow> string \<Rightarrow> string \<Rightarrow> apiReq" where
  "demo_apiReq meth path key = \<lparr>aqMethod = meth, aqPath = path, aqHeader = [(''X-Api-Key'', [key])], aqQuery = (\<lambda>_. []), aqBody = ''b''\<rparr>"

lemma demo_key: "key \<noteq> [] \<Longrightarrow> extractAPIKey (demo_apiReq meth path key) = key"
proof -
  have "CanonicalHeaderKey ''X-API-Key'' = ''X-Api-Key''" by code_simp
  then show "key \<noteq> [] \<Longrightarrow> extractAPIKey (demo_apiReq meth path key) = key"
    by (simp add: extractAPIKey_def demo_apiReq_def header_Get_def header_values_def)
qed

lemma demo_visits: "visits (aeTorder demo_apiEnv) (sdTenants (stData (svStore demo_server)))"
  by (simp add: visits_def demo_apiEnv_def demo_server_def api_New_def demo_store_data)



text \<open>
  A tenant's key is not limited to the tenant's own domains: with any tenant's key, \<open>DELETE\<close> on a
  domain's path deletes the domain and its rules, whoever owns it, and \<open>GET\<close> shows it, private key included.
\<close>

theorem api_tenant_key_unscoped:
  assumes "visits (aeTorder ev) (sdTenants (stData (svStore sv)))" and "tenant_key (svStore sv) (extractAPIKey r)"
    and "mux_clean (aqPath r) = aqPath r" and "strings_HasPrefix (aqPath r) ''/api/v1/domains/''"
    and "sdDomains (stData (svStore sv)) (lastPathSegment (aqPath r)) = Some d"
  shows "(aqMethod r = ''DELETE'' \<longrightarrow>
            sdDomains (stData (svStore (snd (api_Handler ev sv r)))) (lastPathSegment (aqPath r)) = None) \<and>
         (aqMethod r = ''GET'' \<longrightarrow> api_Handler ev sv r = ((200, BDomain d), sv))"
proof -
  have "api_Handler ev sv r = auth ev (handleDomain ev) sv r"
    using assms(3,4) by (auto simp: api_Handler_def Let_def HasPrefix_iff)
  moreover have "auth ev (handleDomain ev) sv r = handleDomain ev sv r"
    using assms(1,2) by (cases "extractAPIKey r = svAdminKey sv") (simp add: auth_def, simp add: auth_other)
  ultimately show ?thesis using assms(5)
    by (auto simp: handleDomain_def DeleteDomain_def GetDomain_def without_rules_def handler_defs split: option.split)
qed

theorem api_tenant_key_unscoped_witness:
  "api_Handler demo_apiEnv (demo_server\<lparr>svStore := demo_store\<lparr>stData := (stData demo_store)\<lparr>sdDomains := [''d1'' \<mapsto> demo_domain]\<rparr>\<rparr>\<rparr>)
     (demo_apiReq ''GET'' ''/api/v1/domains/d1'' ''cdnk_42'') =
   ((200, BDomain demo_domain), demo_server\<lparr>svStore := demo_store\<lparr>stData := (stData demo_store)\<lparr>sdDomains := [''d1'' \<mapsto> demo_domain]\<rparr>\<rparr>\<rparr>)"
proof -
  let ?sv = "demo_server\<lparr>svStore := demo_store\<lparr>stData := (stData demo_store)\<lparr>sdDomains := [''d1'' \<mapsto> demo_domain]\<rparr>\<rparr>\<rparr>"
  let ?r = "demo_apiReq ''GET'' ''/api/v1/domains/d1'' ''cdnk_42''"
  have path: "aqPath ?r = ''/api/v1/domains/d1''" "aqMethod ?r = ''GET''" by (simp_all add: demo_apiReq_def)
  have "mux_clean ''/api/v1/domains/d1'' = ''/api/v1/domains/d1''" by code_simp
  moreover have "lastPathSegment ''/api/v1/domains/d1'' = ''d1''" by code_simp
  moreover have "strings_HasPrefix ''/api/v1/domains/d1'' ''/api/v1/domains/''" by code_simp
  moreover have "tenant_key (svStore ?sv) (extractAPIKey ?r)" by (simp add: tenant_key_def demo_key demo_store_data)
  moreover have "visits (aeTorder demo_apiEnv) (sdTenants (stData (svStore ?sv)))" by (simp add: visits_def demo_apiEnv_def demo_store_data)
  ultimately show ?thesis
    using api_tenant_key_unscoped [of demo_apiEnv ?sv ?r demo_domain] by (simp add: path)
qed

text \<open>
  The snapshot route is open: anyone who can reach the control plane gets the whole snapshot of
  every active domain, without any key; the route never changes anything.
\<close>

theorem api_config_open:
  assumes "aqPath r = ''/api/v1/config''" and "aqMethod r = ''GET''"
  shows "api_Handler ev sv r = ((200, BConfig (BuildEdgeConfig (aeStore ev) (aeDorder ev) (aeRorder ev) (svStore sv))), sv)"
proof -
  have "mux_clean ''/api/v1/config'' = ''/api/v1/config''" by code_simp
  moreover have "\<not> strings_HasPrefix ''/api/v1/config'' p"
    if "p \<in> {''/api/v1/tenants/'', ''/api/v1/domains/'', ''/api/v1/rules/'', ''/api/v1/edges/''}" for p
    using that by (auto simp: HasPrefix_iff)
  ultimately show ?thesis using assms by (simp add: api_Handler_def Let_def handleConfig_def writeJSON_def)
qed

theorem api_config_open_witness:
  "fst (fst (api_Handler demo_apiEnv demo_server (demo_apiReq ''GET'' ''/api/v1/config'' []))) = 200"
  using api_config_open [of "demo_apiReq ''GET'' ''/api/v1/config'' []" demo_apiEnv demo_server] by (simp add: demo_apiReq_def)

text \<open>
  Changes reach the edges: a request that changed a domain or a rule and was answered with
  success has called the configuration-change callback exactly once.
\<close>

theorem api_notifies:
  assumes "svOnChange sv" and "fst (fst (api_Handler ev sv r)) < 400"
    and "sdDomains (stData (svStore (snd (api_Handler ev sv r)))) \<noteq> sdDomains (stData (svStore sv)) \<or>
         sdCacheRules (stData (svStore (snd (api_Handler ev sv r)))) \<noteq> sdCacheRules (stData (svStore sv))"
  shows "svNotified (snd (api_Handler ev sv r)) = Suc (svNotified sv)"
  using assms api_Handler_tells [OF assms(1), of ev r] by (simp add: tells_def)

theorem api_notifies_witness:
  "svNotified (snd (api_Handler demo_apiEnv demo_server (demo_apiReq ''POST'' ''/api/v1/domains'' ''secret''))) = 1"
proof -
  let ?r = "demo_apiReq ''POST'' ''/api/v1/domains'' ''secret''"
  have r: "aqPath ?r = ''/api/v1/domains''" "aqMethod ?r = ''POST''" by (simp_all add: demo_apiReq_def)
  have clean: "mux_clean ''/api/v1/domains'' = ''/api/v1/domains''" by code_simp
  have pre: "\<not> strings_HasPrefix ''/api/v1/domains'' ''/api/v1/tenants/''" by code_simp
  have key: "extractAPIKey ?r = svAdminKey demo_server" by (simp add: demo_key demo_server_def api_New_def)
  have call: "api_Handler demo_apiEnv demo_server ?r = handleDomains demo_apiEnv demo_server ?r"
    by (simp add: api_Handler_def Let_def r clean pre auth_def key)
  have facts: "fst (fst (handleDomains demo_apiEnv demo_server ?r)) = 201"
    "sdDomains (stData (svStore (snd (handleDomains demo_apiEnv demo_server ?r)))) ''41'' \<noteq> None"
    "sdDomains (stData (svStore demo_server)) ''41'' = None" "svOnChange demo_server" "svNotified demo_server = 0"
    by (simp_all add: handleDomains_def r demo_apiEnv_def demo_domain_def demo_server_def api_New_def CreateDomain_def demo_store_data all_domains_def
        save_def demo_storeEnv_def new_domain_def genID_def hex_EncodeToString_def hex_digit_def writeJSON_def empty_storeData_def
        map_filter_simps notifyConfigChange_def Let_def)
  then have "sdDomains (stData (svStore (snd (handleDomains demo_apiEnv demo_server ?r)))) \<noteq> sdDomains (stData (svStore demo_server))"
    by metis
  then show ?thesis using api_notifies [of demo_server demo_apiEnv ?r, unfolded call, OF facts(4)] facts(1,5) unfolding call by simp
qed

end
