(* ===== verification/Balancer.thy ===== *)
theory Balancer
  imports GoBase "HOL-Library.Multiset"
begin

text \<open>
  \<open>proxy/balancer.go\<close> and \<open>proxy/healthcheck.go\<close>: weighted round robin over the backends that are
  healthy, and the checker that marks them down and up. A backend is the address of its record in
  \<open>bsHeap\<close>. The 64-bit request counter wraps; the random choice and the outcome of a probe are
  parameters.
\<close>

record Backend =
  bkURL :: string
  bkWeight :: int
  bkHealthy :: bool
  bkActiveConns :: int

datatype Strategy = RoundRobin | Random | LeastConn

record Balancer =
  bsHeap :: "nat \<Rightarrow> Backend"
  bsBackends :: "nat list"
  bsCounter :: u64
  bsStrategy :: Strategy
  bsExpanded :: "nat list"

definition buildWeightedList :: "(nat \<Rightarrow> Backend) \<Rightarrow> nat list \<Rightarrow> nat list" where
  "buildWeightedList heap bs = concat (map (\<lambda>b. replicate (nat (bkWeight (heap b))) b) bs)"

definition init_backend :: "Backend \<Rightarrow> Backend" where
  "init_backend b = b\<lparr>bkHealthy := True, bkWeight := (if bkWeight b \<le> 0 then 1 else bkWeight b)\<rparr>"

definition NewBalancer :: "(nat \<Rightarrow> Backend) \<Rightarrow> nat list \<Rightarrow> Strategy \<Rightarrow> Balancer" where
  "NewBalancer heap bs strategy =
     (let heap' = fold (\<lambda>b h. h(b := init_backend (h b))) bs heap
      in \<lparr>bsHeap = heap', bsBackends = bs, bsCounter = 0, bsStrategy = strategy, bsExpanded = buildWeightedList heap' bs\<rparr>)"

definition Healthy :: "Balancer \<Rightarrow> nat list" where
  "Healthy b = filter (\<lambda>be. bkHealthy (bsHeap b be)) (bsBackends b)"

text \<open>
  The loop of \<open>nextRoundRobin\<close>, \<open>tries\<close> turns left. \<open>None\<close> is a panic; inside, \<open>None\<close> is
  \<open>ErrNoHealthyBackends\<close>.
\<close>

fun rr_loop :: "nat \<Rightarrow> Balancer \<Rightarrow> (nat option \<times> Balancer) option" where
  "rr_loop 0 b = Some (None, b)"
| "rr_loop (Suc tries) b =
     do {
       let idx = bsCounter b;
       let b = b\<lparr>bsCounter := idx + 1\<rparr>;
       backend \<leftarrow> idx_get (bsExpanded b) (unat idx mod length (bsExpanded b));
       if bkHealthy (bsHeap b backend) then Some (Some backend, b) else rr_loop tries b
     }"

definition nextRoundRobin :: "Balancer \<Rightarrow> (nat option \<times> Balancer) option" where
  "nextRoundRobin b = (if bsExpanded b = [] then Some (None, b) else rr_loop (length (bsExpanded b)) b)"

definition nextRandom :: "(nat \<Rightarrow> nat) \<Rightarrow> Balancer \<Rightarrow> (nat option \<times> Balancer) option" where
  "nextRandom intn b =
     (let healthy = Healthy b
      in if healthy = [] then Some (None, b)
         else do { be \<leftarrow> idx_get healthy (intn (length healthy)); Some (Some be, b) })"

definition Next :: "(nat \<Rightarrow> nat) \<Rightarrow> Balancer \<Rightarrow> (nat option \<times> Balancer) option" where
  "Next intn b = (case bsStrategy b of Random \<Rightarrow> nextRandom intn b | LeastConn \<Rightarrow> nextRoundRobin b | RoundRobin \<Rightarrow> nextRoundRobin b)"

definition MarkDown :: "Balancer \<Rightarrow> nat \<Rightarrow> Balancer" where
  "MarkDown b be = b\<lparr>bsHeap := (bsHeap b)(be := (bsHeap b be)\<lparr>bkHealthy := False\<rparr>)\<rparr>"

definition MarkUp :: "Balancer \<Rightarrow> nat \<Rightarrow> Balancer" where
  "MarkUp b be = b\<lparr>bsHeap := (bsHeap b)(be := (bsHeap b be)\<lparr>bkHealthy := True\<rparr>)\<rparr>"

section \<open>Health checks\<close>

record HealthChecker =
  hcBalancer :: Balancer
  hcThreshold :: int
  hcFailureCounts :: "nat \<Rightarrow> int"
  hcSuccessCounts :: "nat \<Rightarrow> int"
  hcRecovThreshold :: int

definition NewHealthChecker :: "Balancer \<Rightarrow> int \<Rightarrow> HealthChecker" where
  "NewHealthChecker b threshold =
     \<lparr>hcBalancer = b, hcThreshold = (if threshold \<le> 0 then 3 else threshold), hcFailureCounts = (\<lambda>_. 0),
      hcSuccessCounts = (\<lambda>_. 0), hcRecovThreshold = 1\<rparr>"

definition recordFailure :: "HealthChecker \<Rightarrow> nat \<Rightarrow> HealthChecker" where
  "recordFailure hc be =
     (let hc = hc\<lparr>hcSuccessCounts := (hcSuccessCounts hc)(be := 0),
                  hcFailureCounts := (hcFailureCounts hc)(be := hcFailureCounts hc be + 1)\<rparr>
      in if hcFailureCounts hc be \<ge> hcThreshold hc then hc\<lparr>hcBalancer := MarkDown (hcBalancer hc) be\<rparr> else hc)"

definition recordSuccess :: "HealthChecker \<Rightarrow> nat \<Rightarrow> HealthChecker" where
  "recordSuccess hc be =
     (let hc = hc\<lparr>hcFailureCounts := (hcFailureCounts hc)(be := 0),
                  hcSuccessCounts := (hcSuccessCounts hc)(be := hcSuccessCounts hc be + 1)\<rparr>
      in if hcSuccessCounts hc be \<ge> hcRecovThreshold hc then hc\<lparr>hcBalancer := MarkUp (hcBalancer hc) be\<rparr> else hc)"

text \<open>The outcome of a probe: the request cannot be built, the round trip fails, or a status.\<close>

datatype probe = BuildFails | DoFails | ProbeStatus int

definition probe_ok :: "probe \<Rightarrow> bool" where
  "probe_ok p = (case p of ProbeStatus c \<Rightarrow> c \<ge> 200 \<and> c < 400 | _ \<Rightarrow> False)"

definition hc_check :: "(nat \<Rightarrow> probe) \<Rightarrow> HealthChecker \<Rightarrow> nat \<Rightarrow> HealthChecker" where
  "hc_check probes hc be =
     (case probes be of
        BuildFails \<Rightarrow> recordFailure hc be
      | DoFails \<Rightarrow> recordFailure hc be
      | ProbeStatus c \<Rightarrow> if c \<ge> 200 \<and> c < 400 then recordSuccess hc be else recordFailure hc be)"

text \<open>\<open>checkAll\<close>: one goroutine per backend; \<open>order\<close> is the order in which their results are recorded.\<close>

definition checkAll :: "(nat \<Rightarrow> probe) \<Rightarrow> nat list \<Rightarrow> HealthChecker \<Rightarrow> HealthChecker" where
  "checkAll probes order hc = fold (\<lambda>be hc. hc_check probes hc be) order hc"

definition CheckOnce :: "(nat \<Rightarrow> probe) \<Rightarrow> HealthChecker \<Rightarrow> (nat \<times> bool) list" where
  "CheckOnce probes hc = map (\<lambda>be. (be, probe_ok (probes be))) (bsBackends (hcBalancer hc))"

section \<open>Round robin finds a healthy backend\<close>

lemma rr_loop_spec:
  assumes "bsExpanded b \<noteq> []" and "unat (bsCounter b) + tries \<le> 2 ^ 64"
  shows "\<exists>r b'. rr_loop tries b = Some (r, b') \<and> bsHeap b' = bsHeap b \<and> bsExpanded b' = bsExpanded b \<and>
           (r = None \<longrightarrow> (\<forall>j < tries. \<not> bkHealthy (bsHeap b (bsExpanded b ! ((unat (bsCounter b) + j) mod length (bsExpanded b)))))) \<and>
           (\<forall>be. r = Some be \<longrightarrow> bkHealthy (bsHeap b be) \<and> be \<in> set (bsExpanded b))"
  using assms
proof (induction tries arbitrary: b)
  case (Suc tries)
  let ?n = "length (bsExpanded b)" and ?c = "bsCounter b"
  let ?b1 = "b\<lparr>bsCounter := ?c + 1\<rparr>"
  let ?be = "bsExpanded b ! (unat ?c mod ?n)"
  have lt: "unat ?c mod ?n < ?n" using Suc.prems(1) by simp
  show ?case
  proof (cases "bkHealthy (bsHeap b ?be)")
    case True
    then show ?thesis using lt by (simp add: no_panic Let_def)
  next
    case False
    show ?thesis
    proof (cases tries)
      case 0
      then show ?thesis using False lt by (simp add: no_panic Let_def)
    next
      case (Suc k)
      then have "unat ?c + 1 < 2 ^ 64" using Suc.prems(2) by simp
      then have c1: "unat (?c + 1) = unat ?c + 1" by (subst unat_plus_if') auto
      obtain r b' where r: "rr_loop tries ?b1 = Some (r, b')" "bsHeap b' = bsHeap b" "bsExpanded b' = bsExpanded b"
          "r = None \<longrightarrow> (\<forall>j < tries. \<not> bkHealthy (bsHeap b (bsExpanded b ! ((unat ?c + 1 + j) mod ?n))))"
          "\<forall>be. r = Some be \<longrightarrow> bkHealthy (bsHeap b be) \<and> be \<in> set (bsExpanded b)"
        using Suc.IH [of ?b1] Suc.prems c1 by auto
      have "\<not> bkHealthy (bsHeap b (bsExpanded b ! ((unat ?c + j) mod ?n)))" if "r = None" "j < Suc tries" for j
        using that r(4) False by (cases j) auto
      with r(1-3,5) False lt show ?thesis by (simp add: no_panic Let_def)
    qed
  qed
qed simp

lemma mod_cover:
  assumes "i < n" shows "\<exists>j < n. (c + j) mod n = (i :: nat)"
proof (intro exI conjI)
  let ?j = "(i + (n - c mod n)) mod n"
  show "?j < n" using assms by simp
  have "c mod n < n" using assms by simp
  have "(c + ?j) mod n = (c mod n + (i + (n - c mod n))) mod n" by (simp add: mod_simps)
  also have "c mod n + (i + (n - c mod n)) = i + n" using \<open>c mod n < n\<close> by simp
  finally show "(c + ?j) mod n = i" using assms by simp
qed

lemma NewBalancer_heap:
  "bsHeap (NewBalancer heap bs st) = (\<lambda>b. if b \<in> set bs then init_backend (heap b) else heap b)"
proof -
  have idem: "init_backend (init_backend b) = init_backend b" for b by (simp add: init_backend_def)
  have "fold (\<lambda>b h. h(b := init_backend (h b))) bs heap = (\<lambda>b. if b \<in> set bs then init_backend (heap b) else heap b)"
    by (induction bs arbitrary: heap) (auto simp: fun_eq_iff idem)
  then show ?thesis by (simp add: NewBalancer_def Let_def)
qed

lemma rr_all_healthy:
  assumes "bsExpanded b \<noteq> []" and "\<forall>be \<in> set (bsExpanded b). bkHealthy (bsHeap b be)"
  shows "nextRoundRobin b = Some (Some (bsExpanded b ! (unat (bsCounter b) mod length (bsExpanded b))), b\<lparr>bsCounter := bsCounter b + 1\<rparr>)"
  using assms by (cases "length (bsExpanded b)") (auto simp: nextRoundRobin_def no_panic Let_def)

fun take_turns :: "nat \<Rightarrow> Balancer \<Rightarrow> nat list option" where
  "take_turns 0 b = Some []"
| "take_turns (Suc n) b =
     do { (r, b') \<leftarrow> nextRoundRobin b; be \<leftarrow> r; rest \<leftarrow> take_turns n b'; Some (be # rest) }"

lemma take_turns_all:
  assumes "bsExpanded b \<noteq> []" and "\<forall>be \<in> set (bsExpanded b). bkHealthy (bsHeap b be)" and "unat (bsCounter b) + m \<le> 2 ^ 64"
  shows "take_turns m b = Some (map (\<lambda>j. bsExpanded b ! ((unat (bsCounter b) + j) mod length (bsExpanded b))) [0..<m])"
  using assms
proof (induction m arbitrary: b)
  case (Suc m)
  let ?b1 = "b\<lparr>bsCounter := bsCounter b + 1\<rparr>"
  have nx: "nextRoundRobin b = Some (Some (bsExpanded b ! (unat (bsCounter b) mod length (bsExpanded b))), ?b1)"
    using Suc.prems by (intro rr_all_healthy) auto
  show ?case
  proof (cases m)
    case 0
    then show ?thesis using nx by simp
  next
    case (Suc k)
    then have "unat (bsCounter b) + 1 < 2 ^ 64" using Suc.prems(3) by simp
    then have c1: "unat (bsCounter b + 1) = unat (bsCounter b) + 1" by (subst unat_plus_if') auto
    have "take_turns m ?b1 = Some (map (\<lambda>j. bsExpanded b ! ((unat (bsCounter b) + 1 + j) mod length (bsExpanded b))) [0..<m])"
      using Suc.IH [of ?b1] Suc.prems c1 by simp
    moreover have "[0..<Suc m] = 0 # map Suc [0..<m]" by (simp add: map_Suc_upt upt_conv_Cons)
    ultimately show ?thesis using nx by (simp add: o_def)
  qed
qed simp

lemma rotation_mset:
  assumes "xs \<noteq> []"
  shows "mset (map (\<lambda>j. xs ! ((c + j) mod length xs)) [0..<length xs]) = mset xs"
proof -
  let ?n = "length xs"
  have "map (\<lambda>j. xs ! ((c + j) mod ?n)) [0..<?n] = rotate c xs"
    by (intro nth_equalityI) (simp_all add: nth_rotate add.commute)
  moreover have "mset (rotate c xs) = mset xs"
    unfolding rotate_drop_take mset_append using append_take_drop_id [of "c mod length xs" xs]
    by (metis add.commute mset_append)
  ultimately show ?thesis by metis
qed

section \<open>Health checking\<close>

lemma recordFailure_other:
  "be' \<noteq> be \<Longrightarrow> hcFailureCounts (recordFailure hc be) be' = hcFailureCounts hc be'"
  "be' \<noteq> be \<Longrightarrow> bsHeap (hcBalancer (recordFailure hc be)) be' = bsHeap (hcBalancer hc) be'"
  "hcThreshold (recordFailure hc be) = hcThreshold hc"
  by (simp_all add: recordFailure_def MarkDown_def Let_def)

lemma recordSuccess_other:
  "be' \<noteq> be \<Longrightarrow> hcFailureCounts (recordSuccess hc be) be' = hcFailureCounts hc be'"
  "be' \<noteq> be \<Longrightarrow> bsHeap (hcBalancer (recordSuccess hc be)) be' = bsHeap (hcBalancer hc) be'"
  "hcThreshold (recordSuccess hc be) = hcThreshold hc"
  "hcRecovThreshold (recordSuccess hc be) = hcRecovThreshold hc"
  by (simp_all add: recordSuccess_def MarkUp_def Let_def)

lemma hc_check_eq: "hc_check probes hc be = (if probe_ok (probes be) then recordSuccess hc be else recordFailure hc be)"
  by (simp add: hc_check_def probe_ok_def split: probe.split)

text \<open>What a checker knows of a backend, and how a probe of it changes that.\<close>

definition hc_ok :: "HealthChecker \<Rightarrow> bool" where
  "hc_ok hc \<longleftrightarrow> 1 \<le> hcThreshold hc \<and> hcRecovThreshold hc = 1 \<and>
     (\<forall>be. 0 \<le> hcSuccessCounts hc be \<and> 0 \<le> hcFailureCounts hc be)"

lemma hc_check_ok: "hc_ok hc \<Longrightarrow> hc_ok (hc_check probes hc be)"
  by (auto simp: hc_ok_def hc_check_eq recordSuccess_def recordFailure_def Let_def)

lemma hc_check_own:
  assumes "hc_ok hc"
  shows "hcFailureCounts (hc_check probes hc be) be = (if probe_ok (probes be) then 0 else hcFailureCounts hc be + 1)"
    and "bkHealthy (bsHeap (hcBalancer (hc_check probes hc be)) be) =
      (if probe_ok (probes be) then True
       else if hcFailureCounts hc be + 1 \<ge> hcThreshold hc then False else bkHealthy (bsHeap (hcBalancer hc) be))"
    and "hcThreshold (hc_check probes hc be) = hcThreshold hc"
  using assms by (auto simp: hc_ok_def hc_check_eq recordSuccess_def recordFailure_def MarkUp_def MarkDown_def Let_def
      dest: spec [of _ be])

lemma hc_check_other:
  assumes "be' \<noteq> be"
  shows "hcFailureCounts (hc_check probes hc be) be' = hcFailureCounts hc be'"
    and "bsHeap (hcBalancer (hc_check probes hc be)) be' = bsHeap (hcBalancer hc) be'"
  using assms by (simp_all add: hc_check_eq recordFailure_other recordSuccess_other)

lemma checkAll_backend:
  assumes "distinct order" and "be \<in> set order" and "hc_ok hc"
  shows "hc_ok (checkAll probes order hc) \<and> hcThreshold (checkAll probes order hc) = hcThreshold hc \<and>
    hcFailureCounts (checkAll probes order hc) be = (if probe_ok (probes be) then 0 else hcFailureCounts hc be + 1) \<and>
    bkHealthy (bsHeap (hcBalancer (checkAll probes order hc)) be) =
      (if probe_ok (probes be) then True
       else if hcFailureCounts hc be + 1 \<ge> hcThreshold hc then False else bkHealthy (bsHeap (hcBalancer hc) be))"
proof -
  have skip: "hc_ok (checkAll probes os h) \<and> hcThreshold (checkAll probes os h) = hcThreshold h \<and>
      hcFailureCounts (checkAll probes os h) be = hcFailureCounts h be \<and>
      bsHeap (hcBalancer (checkAll probes os h)) be = bsHeap (hcBalancer h) be" if "be \<notin> set os" "hc_ok h" for os h
    using that
    by (induction os arbitrary: h) (auto simp: checkAll_def hc_check_ok hc_check_other hc_check_own)
  obtain xs ys where o: "order = xs @ be # ys" using assms(2) by (meson split_list)
  then have be: "be \<notin> set xs" "be \<notin> set ys" using assms(1) by auto
  let ?h = "checkAll probes xs hc"
  have "checkAll probes order hc = checkAll probes ys (hc_check probes ?h be)" by (simp add: o checkAll_def)
  with skip [OF be(1) assms(3)] skip [OF be(2) hc_check_ok, of ?h probes] hc_check_own [of ?h probes be] show ?thesis by simp
qed

fun check_rounds :: "(nat \<Rightarrow> probe) list \<Rightarrow> nat list \<Rightarrow> HealthChecker \<Rightarrow> HealthChecker" where
  "check_rounds [] order hc = hc"
| "check_rounds (p # ps) order hc = check_rounds ps order (checkAll p order hc)"

lemma check_rounds_snoc: "check_rounds (ps @ [p]) order hc = checkAll p order (check_rounds ps order hc)"
  by (induction ps arbitrary: hc) auto

section \<open>Properties\<close>

text \<open>
  Load balancing never picks a dead origin and never misses a live one: \<open>Next\<close> returns without a
  panic, returns only healthy backends, and reports \<open>ErrNoHealthyBackends\<close> exactly when none of them
  is healthy. (For one caller at a time, until the 64-bit request counter wraps.)
\<close>

theorem balancer_next_correct:
  assumes "unat (bsCounter b) + length (bsExpanded b) \<le> 2 ^ 64" and "set (bsExpanded b) = set (bsBackends b)"
    and "\<And>n. 0 < n \<Longrightarrow> intn n < n"
  shows "\<exists>r b'. Next intn b = Some (r, b') \<and>
           (r = None \<longleftrightarrow> (\<forall>be \<in> set (bsBackends b). \<not> bkHealthy (bsHeap b be))) \<and>
           (\<forall>be. r = Some be \<longrightarrow> be \<in> set (bsBackends b) \<and> bkHealthy (bsHeap b be))"
proof -
  have rr: "\<exists>r b'. nextRoundRobin b = Some (r, b') \<and>
           (r = None \<longleftrightarrow> (\<forall>be \<in> set (bsBackends b). \<not> bkHealthy (bsHeap b be))) \<and>
           (\<forall>be. r = Some be \<longrightarrow> be \<in> set (bsBackends b) \<and> bkHealthy (bsHeap b be))"
  proof (cases "bsExpanded b = []")
    case True
    then show ?thesis using assms(2) by (simp add: nextRoundRobin_def)
  next
    case False
    let ?n = "length (bsExpanded b)"
    obtain r b' where r: "rr_loop ?n b = Some (r, b')"
      "r = None \<longrightarrow> (\<forall>j < ?n. \<not> bkHealthy (bsHeap b (bsExpanded b ! ((unat (bsCounter b) + j) mod ?n))))"
      "\<forall>be. r = Some be \<longrightarrow> bkHealthy (bsHeap b be) \<and> be \<in> set (bsExpanded b)"
      using rr_loop_spec [OF False assms(1)] by blast
    have "\<not> bkHealthy (bsHeap b be)" if none: "r = None" and be: "be \<in> set (bsBackends b)" for be
    proof -
      obtain i where i: "i < ?n" "be = bsExpanded b ! i" using be assms(2) by (metis in_set_conv_nth)
      then obtain j where "j < ?n" "(unat (bsCounter b) + j) mod ?n = i" using mod_cover by blast
      with r(2) none i show ?thesis by auto
    qed
    then show ?thesis using r(1,3) False assms(2) by (cases r) (auto simp: nextRoundRobin_def)
  qed
  have "\<exists>r b'. nextRandom intn b = Some (r, b') \<and>
           (r = None \<longleftrightarrow> (\<forall>be \<in> set (bsBackends b). \<not> bkHealthy (bsHeap b be))) \<and>
           (\<forall>be. r = Some be \<longrightarrow> be \<in> set (bsBackends b) \<and> bkHealthy (bsHeap b be))"
  proof (cases "Healthy b = []")
    case True
    then show ?thesis by (auto simp: nextRandom_def Healthy_def filter_empty_conv)
  next
    case False
    then have "intn (length (Healthy b)) < length (Healthy b)" using assms(3) by simp
    moreover from this have "Healthy b ! intn (length (Healthy b)) \<in> set (Healthy b)" by (rule nth_mem)
    moreover from this have "Healthy b ! intn (length (Healthy b)) \<in> set (bsBackends b)"
      "bkHealthy (bsHeap b (Healthy b ! intn (length (Healthy b))))" by (simp_all add: Healthy_def)
    moreover from this have "\<exists>be \<in> set (bsBackends b). bkHealthy (bsHeap b be)" by blast
    ultimately show ?thesis using False by (simp add: nextRandom_def Let_def no_panic)
  qed
  with rr show ?thesis by (cases "bsStrategy b") (simp_all add: Next_def)
qed

definition demo_heap :: "nat \<Rightarrow> Backend" where
  "demo_heap n = \<lparr>bkURL = ''http://o'', bkWeight = (if n = 0 then 2 else 1), bkHealthy = False, bkActiveConns = 0\<rparr>"

lemma demo_balancer:
  "bsExpanded (NewBalancer demo_heap [0, 2] RoundRobin) = [0, 0, 2]"
  "bsBackends (NewBalancer demo_heap [0, 2] RoundRobin) = [0, 2]"
  "bsCounter (NewBalancer demo_heap [0, 2] RoundRobin) = 0"
  by (simp_all add: NewBalancer_def Let_def buildWeightedList_def demo_heap_def init_backend_def numeral_2_eq_2)

theorem balancer_next_correct_witness:
  "\<exists>r b'. Next (\<lambda>n. 0) (MarkDown (NewBalancer demo_heap [0, 2] RoundRobin) 0) = Some (r, b') \<and> r \<noteq> None"
proof -
  let ?b = "MarkDown (NewBalancer demo_heap [0, 2] RoundRobin) 0"
  have b: "bsExpanded ?b = [0, 0, 2]" "bsBackends ?b = [0, 2]" "bsCounter ?b = 0"
    by (simp_all add: MarkDown_def demo_balancer)
  have "bkHealthy (bsHeap ?b 2)" by (simp add: MarkDown_def NewBalancer_heap init_backend_def)
  with balancer_next_correct [of ?b "\<lambda>n. 0"] b show ?thesis by auto
qed

lemma count_list_replicates [simp]: "count_list (replicate n x) y = (if x = y then n else 0)"
  by (induction n) auto

text \<open>
  Round robin is fair: when every backend is healthy, any full round of requests (as many as the
  weights add up to) goes to each backend exactly as often as its weight says.
\<close>

theorem balancer_fair:
  assumes "distinct bs" and "bs \<noteq> []" and "b = (NewBalancer heap bs st)\<lparr>bsCounter := c\<rparr>" and "unat c + length (bsExpanded b) \<le> 2 ^ 64"
    and "be \<in> set bs"
  shows "\<exists>turns. take_turns (length (bsExpanded b)) b = Some turns \<and>
           int (count_list turns be) = max 1 (bkWeight (heap be))"
proof -
  let ?w = "\<lambda>x. if bkWeight (heap x) \<le> 0 then 1 else bkWeight (heap x)"
  have exp: "bsExpanded b = concat (map (\<lambda>x. replicate (nat (?w x)) x) bs)"
    using assms(3) NewBalancer_heap [of heap bs st]
    by (auto simp: NewBalancer_def Let_def buildWeightedList_def init_backend_def intro!: arg_cong [of _ _ concat] map_cong)
  have heap: "\<forall>x \<in> set (bsExpanded b). bkHealthy (bsHeap b x)"
    unfolding exp using assms(3) NewBalancer_heap [of heap bs st] by (auto simp: init_backend_def)
  have "be \<in> set (bsExpanded b)" using assms(5) unfolding exp by auto
  then have ne: "bsExpanded b \<noteq> []" by auto
  have turns: "take_turns (length (bsExpanded b)) b =
      Some (map (\<lambda>j. bsExpanded b ! ((unat c + j) mod length (bsExpanded b))) [0..<length (bsExpanded b)])"
    using take_turns_all [OF ne heap] assms(3,4) by simp
  have "count_list (concat (map (\<lambda>x. replicate (nat (?w x)) x) xs)) be = (if be \<in> set xs then nat (?w be) else 0)"
    if "distinct xs" for xs
    using that by (induction xs) auto
  then have "count_list (bsExpanded b) be = nat (?w be)" using assms(1,5) exp by simp
  moreover have "count_list (map (\<lambda>j. bsExpanded b ! ((unat c + j) mod length (bsExpanded b))) [0..<length (bsExpanded b)]) be
      = count_list (bsExpanded b) be"
    using rotation_mset [OF ne, of "unat c"] by (metis count_mset)
  ultimately show ?thesis using turns by auto
qed

theorem balancer_fair_witness:
  "\<exists>turns. take_turns 3 (NewBalancer demo_heap [0, 2] RoundRobin) = Some turns \<and> count_list turns 0 = 2"
  using balancer_fair [where bs = "[0, 2]" and b = "NewBalancer demo_heap [0, 2] RoundRobin" and heap = demo_heap
      and st = RoundRobin and c = 0 and be = 0]
  by (simp add: demo_balancer demo_heap_def max_def numeral_3_eq_3 del: take_turns.simps)

text \<open>
  Health checks act on consecutive results: whatever was probed before, a backend that then fails
  as many rounds in a row as the threshold is marked down and stays down while it fails; one
  successful probe marks it up; a shorter series of failures does not change its mark.
\<close>

theorem healthcheck_thresholds:
  assumes "distinct order" and "be \<in> set order" and "hc = check_rounds earlier order (NewHealthChecker b threshold)"
    and "fails \<noteq> []" and "\<forall>p \<in> set fails. \<not> probe_ok (p be)" and "probe_ok (up be)"
  shows "bkHealthy (bsHeap (hcBalancer (checkAll up order hc)) be) \<and>
         (let after = bkHealthy (bsHeap (hcBalancer (check_rounds (up # fails) order hc)) be)
          in after \<longleftrightarrow> int (length fails) < hcThreshold hc)"
proof -
  have ok: "hc_ok h \<longrightarrow> hc_ok (check_rounds ps order h)" for ps h
    using checkAll_backend [OF assms(1,2)] by (induction ps arbitrary: h) auto
  have "hc_ok (NewHealthChecker b threshold)" by (simp add: NewHealthChecker_def hc_ok_def)
  then have hc: "hc_ok hc" using ok assms(3) by simp
  let ?u = "checkAll up order hc"
  note U = checkAll_backend [OF assms(1,2) hc, of up]
  have up: "bkHealthy (bsHeap (hcBalancer ?u) be)" "hcFailureCounts ?u be = 0" "hc_ok ?u" "hcThreshold ?u = hcThreshold hc"
    using U assms(6) by auto
  have "hc_ok (check_rounds ps order ?u) \<and> hcThreshold (check_rounds ps order ?u) = hcThreshold hc \<and>
      hcFailureCounts (check_rounds ps order ?u) be = int (length ps) \<and>
      (bkHealthy (bsHeap (hcBalancer (check_rounds ps order ?u)) be) \<longleftrightarrow> int (length ps) < hcThreshold hc)"
    if "\<forall>p \<in> set ps. \<not> probe_ok (p be)" for ps
    using that
  proof (induction ps rule: rev_induct)
    case Nil
    then show ?case using up hc by (auto simp: hc_ok_def)
  next
    case (snoc p ps)
    then have IH: "hc_ok (check_rounds ps order ?u)" "hcThreshold (check_rounds ps order ?u) = hcThreshold hc"
        "hcFailureCounts (check_rounds ps order ?u) be = int (length ps)"
        "bkHealthy (bsHeap (hcBalancer (check_rounds ps order ?u)) be) \<longleftrightarrow> int (length ps) < hcThreshold hc" by auto
    from checkAll_backend [OF assms(1,2) IH(1), of p] snoc.prems IH show ?case by (auto simp: check_rounds_snoc)
  qed
  from this [OF assms(5)] up(1) show ?thesis by (simp add: Let_def)
qed

theorem healthcheck_thresholds_witness:
  "\<not> bkHealthy (bsHeap (hcBalancer (check_rounds [\<lambda>_. ProbeStatus 200, \<lambda>_. DoFails, \<lambda>_. ProbeStatus 503, \<lambda>_. BuildFails]
       [0, 2] (NewHealthChecker (NewBalancer demo_heap [0, 2] RoundRobin) 3))) 0)"
  using healthcheck_thresholds [of "[0, 2]" 0 "NewHealthChecker (NewBalancer demo_heap [0, 2] RoundRobin) 3" "[]"
      "NewBalancer demo_heap [0, 2] RoundRobin" 3 "[\<lambda>_. DoFails, \<lambda>_. ProbeStatus 503, \<lambda>_. BuildFails]" "\<lambda>_. ProbeStatus 200"]
  by (simp add: probe_ok_def NewHealthChecker_def)

end
