(* ===== verification/CpSync.thy ===== *)
theory CpSync
  imports CpStore MultiTenant
begin

text \<open>
  \<open>controlplane/sync/sync.go\<close>: pushing the configuration and purge commands to the registered edges.
  The goroutines, one per active edge, are run in the order in which the edges are listed; the answers of the edges and
  JSON are parameters. Every operation yields the messages it sent.
\<close>

record pushMsg =
  psURL :: string
  psAPIKey :: string
  psBody :: bytes

datatype pushReply = PushBadURL string | PushError string | PushStatus int

datatype pushErr = ErrPush string | ErrPushStatus int

record syncEnv =
  syStore :: storeEnv
  syMarshal :: "EdgeConfig \<Rightarrow> bytes option"
  syPurgeBody :: bytes
  syReply :: "pushMsg \<Rightarrow> pushReply"

definition pushToEdge :: "syncEnv \<Rightarrow> string \<Rightarrow> string \<Rightarrow> string \<Rightarrow> bytes \<Rightarrow> pushErr option \<times> pushMsg list" where
  "pushToEdge ev adminKey baseAddr path body =
     (let m = \<lparr>psURL = baseAddr @ path, psAPIKey = adminKey, psBody = body\<rparr>
      in case syReply ev m of
           PushBadURL e \<Rightarrow> (Some (ErrPush e), [])
         | PushError e \<Rightarrow> (Some (ErrPush e), [m])
         | PushStatus code \<Rightarrow> if code \<ge> 400 then (Some (ErrPushStatus code), [m]) else (None, [m]))"

text \<open>The loop over the active edges: the failures, by name, and the messages.\<close>

fun push_each :: "syncEnv \<Rightarrow> string \<Rightarrow> string \<Rightarrow> bytes \<Rightarrow> EdgeNode list \<Rightarrow> (string \<times> pushErr) list \<times> pushMsg list" where
  "push_each ev adminKey path body [] = ([], [])"
| "push_each ev adminKey path body (edge # edges) =
     (let (errs, msgs) = push_each ev adminKey path body edges
      in if \<not> enActive edge then (errs, msgs)
         else case pushToEdge ev adminKey (enAddr edge) path body of
                (Some e, ms) \<Rightarrow> ((enName edge, e) # errs, ms @ msgs)
              | (None, ms) \<Rightarrow> (errs, ms @ msgs))"

definition PushConfig ::
  "syncEnv \<Rightarrow> string \<Rightarrow> string list \<Rightarrow> string list \<Rightarrow> string list \<Rightarrow> Store \<Rightarrow> (string \<times> pushErr) list \<times> pushMsg list" where
  "PushConfig ev adminKey eorder dorder rorder s =
     (let edges = ListEdges eorder s; config = BuildEdgeConfig (syStore ev) dorder rorder s
      in case syMarshal ev config of
           None \<Rightarrow> ([], [])
         | Some data \<Rightarrow> push_each ev adminKey ''/edge/config'' data edges)"

definition PurgeAll :: "syncEnv \<Rightarrow> string \<Rightarrow> string list \<Rightarrow> Store \<Rightarrow> (string \<times> pushErr) list option \<times> pushMsg list" where
  "PurgeAll ev adminKey eorder s =
     (let (errors, msgs) = push_each ev adminKey ''/purge'' (syPurgeBody ev) (ListEdges eorder s)
      in if errors \<noteq> [] then (Some errors, msgs) else (None, msgs))"

section \<open>Every active edge once\<close>

definition edge_msg :: "string \<Rightarrow> string \<Rightarrow> bytes \<Rightarrow> EdgeNode \<Rightarrow> pushMsg" where
  "edge_msg adminKey path body edge = \<lparr>psURL = enAddr edge @ path, psAPIKey = adminKey, psBody = body\<rparr>"

definition reachable_edge :: "syncEnv \<Rightarrow> string \<Rightarrow> string \<Rightarrow> bytes \<Rightarrow> EdgeNode \<Rightarrow> bool" where
  "reachable_edge ev adminKey path body edge \<longleftrightarrow> enActive edge \<and> (\<nexists>e. syReply ev (edge_msg adminKey path body edge) = PushBadURL e)"

definition edge_accepts :: "syncEnv \<Rightarrow> string \<Rightarrow> string \<Rightarrow> bytes \<Rightarrow> EdgeNode \<Rightarrow> bool" where
  "edge_accepts ev adminKey path body edge \<longleftrightarrow> (\<exists>code. syReply ev (edge_msg adminKey path body edge) = PushStatus code \<and> code < 400)"

lemma push_each_msgs:
  "snd (push_each ev adminKey path body edges) =
     map (edge_msg adminKey path body) (filter (reachable_edge ev adminKey path body) edges)"
  by (induction edges)
     (auto simp: pushToEdge_def reachable_edge_def edge_msg_def Let_def split: prod.splits pushReply.splits option.splits)

lemma push_each_errs:
  "map fst (fst (push_each ev adminKey path body edges)) =
     map enName (filter (\<lambda>e. enActive e \<and> \<not> edge_accepts ev adminKey path body e) edges)"
  by (induction edges)
     (auto simp: pushToEdge_def edge_accepts_def edge_msg_def Let_def split: prod.splits pushReply.splits option.splits)

lemma ListEdges_set: "visits order (sdEdgeNodes (stData s)) \<Longrightarrow> set (ListEdges order s) = ran (sdEdgeNodes (stData s))"
  by (fastforce simp: ListEdges_def visits_def ran_def map_filter_def dom_def image_iff)

text \<open>
  A purge of all edges is reported truthfully. PurgeAll sends the purge command, with the admin key, exactly once to
  every active edge with a valid address and to no other; it returns no error if and only if every
  active edge answered with a status below 400, and otherwise names exactly the edges that did not.
\<close>

theorem purge_all_reports:
  assumes "visits eorder (sdEdgeNodes (stData s))"
  shows "let (res, msgs) = PurgeAll ev adminKey eorder s; body = syPurgeBody ev; edges = ListEdges eorder s
    in msgs = map (edge_msg adminKey ''/purge'' body) (filter (reachable_edge ev adminKey ''/purge'' body) edges) \<and>
       set edges = ran (sdEdgeNodes (stData s)) \<and>
       (res = None \<longleftrightarrow> (\<forall>e \<in> ran (sdEdgeNodes (stData s)). enActive e \<longrightarrow> edge_accepts ev adminKey ''/purge'' body e)) \<and>
       (\<forall>errs. res = Some errs \<longrightarrow> map fst errs = map enName (filter (\<lambda>e. enActive e \<and> \<not> edge_accepts ev adminKey ''/purge'' body e) edges))"
proof -
  let ?body = "syPurgeBody ev" and ?edges = "ListEdges eorder s"
  obtain errs msgs where p: "push_each ev adminKey ''/purge'' ?body ?edges = (errs, msgs)" by fastforce
  have m: "msgs = map (edge_msg adminKey ''/purge'' ?body) (filter (reachable_edge ev adminKey ''/purge'' ?body) ?edges)"
    using push_each_msgs [of ev adminKey "''/purge''" ?body ?edges] p by simp
  have e: "map fst errs = map enName (filter (\<lambda>e. enActive e \<and> \<not> edge_accepts ev adminKey ''/purge'' ?body e) ?edges)"
    using push_each_errs [of ev adminKey "''/purge''" ?body ?edges] p by simp
  have "map fst errs = [] \<longleftrightarrow> (\<forall>e \<in> set ?edges. enActive e \<longrightarrow> edge_accepts ev adminKey ''/purge'' ?body e)"
    unfolding e by (auto simp: filter_empty_conv)
  then have ok: "errs = [] \<longleftrightarrow> (\<forall>e \<in> ran (sdEdgeNodes (stData s)). enActive e \<longrightarrow> edge_accepts ev adminKey ''/purge'' ?body e)"
    unfolding ListEdges_set [OF assms] by simp
  have P: "PurgeAll ev adminKey eorder s = (if errs \<noteq> [] then Some errs else None, msgs)" using p by (simp add: PurgeAll_def)
  show ?thesis unfolding P Let_def prod.case ListEdges_set [OF assms] ok [symmetric] using m e by simp
qed

definition demo_sync :: syncEnv where
  "demo_sync = \<lparr>syStore = demo_storeEnv, syMarshal = (\<lambda>_. Some ''cfg''), syPurgeBody = ''local'', syReply = (\<lambda>_. PushStatus 200)\<rparr>"

theorem purge_all_reports_witness:
  "PurgeAll demo_sync ''k'' [] demo_store = (None, [])"
  using purge_all_reports [of "[]" demo_store demo_sync "''k''"]
  by (simp add: demo_store_data empty_storeData_def visits_def ListEdges_def map_filter_simps case_prod_unfold Let_def prod_eq_iff)



end
