(* ===== verification/GoFloat.thy ===== *)
theory GoFloat
  imports GoBase
begin

text \<open>
  Go's \<open>float64\<close> on finite values: a number is the rational it denotes and every arithmetic
  operation is the exact one followed by \<open>fl\<close>, rounding to 53 significant bits, ties to even. The
  exponent range is unbounded here: overflow to infinity, subnormal numbers, the sign of zero and
  NaN are outside the model (the components using it stay far from the bounds of the format), and a
  product is rounded before it is added (no fused multiply-add, as on amd64).
\<close>

section \<open>Rounding\<close>

definition half_even :: "rat \<Rightarrow> int" where
  "half_even q =
     (let f = \<lfloor>q\<rfloor>; r = q - of_int f
      in if r < 1 / 2 then f else if r > 1 / 2 then f + 1 else if even f then f else f + 1)"

text \<open>The number of bits of a positive integer, and the exponent \<open>e\<close> with \<open>2^e \<le> x < 2^(e+1)\<close>.\<close>

function int_bits :: "int \<Rightarrow> int" where
  "int_bits n = (if n \<le> 0 then 0 else 1 + int_bits (n div 2))"
  by pat_completeness auto
termination
  by (relation "measure nat") auto

declare int_bits.simps [simp del]

definition exponent :: "rat \<Rightarrow> int" where
  "exponent x =
     (let (n, d) = quotient_of x; e = int_bits n - int_bits d
      in if 2 powi e \<le> x then e else e - 1)"

definition fl_pos :: "rat \<Rightarrow> rat" where
  "fl_pos x = (let u = 2 powi (exponent x - 52) in of_int (half_even (x / u)) * u)"

definition fl :: "rat \<Rightarrow> rat" where
  "fl x = (if x = 0 then 0 else if x < 0 then - fl_pos (- x) else fl_pos x)"

text \<open>\<open>float64(i)\<close> of an integer, and \<open>Duration.Seconds\<close> and \<open>Duration.Microseconds\<close>.\<close>

definition float64 :: "int \<Rightarrow> rat" where
  "float64 i = fl (of_int i)"

definition quot_trunc :: "int \<Rightarrow> int \<Rightarrow> int" where
  "quot_trunc a b = (if (a < 0) = (b < 0) then \<bar>a\<bar> div \<bar>b\<bar> else - (\<bar>a\<bar> div \<bar>b\<bar>))"

definition dur_Seconds :: "duration \<Rightarrow> rat" where
  "dur_Seconds d =
     (let sec = quot_trunc d second; nsec = d - second * sec
      in fl (float64 sec + fl (float64 nsec / 1000000000)))"

definition dur_Microseconds :: "duration \<Rightarrow> int" where
  "dur_Microseconds d = quot_trunc d 1000"

section \<open>Laws of rounding\<close>

lemma half_even_int [simp]: "half_even (of_int i) = i"
  by (simp add: half_even_def)

lemma half_even_near: "\<bar>of_int (half_even q) - q\<bar> \<le> 1 / 2"
  by (auto simp: half_even_def Let_def abs_if) linarith+

lemma half_even_mono: "p \<le> q \<Longrightarrow> half_even p \<le> half_even q"
proof (cases "\<lfloor>p\<rfloor> = \<lfloor>q\<rfloor>")
  case True
  then show "p \<le> q \<Longrightarrow> ?thesis" by (simp add: half_even_def Let_def)
next
  case False
  assume "p \<le> q"
  with False have "\<lfloor>p\<rfloor> + 1 \<le> \<lfloor>q\<rfloor>" using floor_mono [of p q] by simp
  then show ?thesis by (auto simp: half_even_def Let_def)
qed

lemma half_even_ge: "of_int i \<le> q \<Longrightarrow> i \<le> half_even q"
  using half_even_mono [of "of_int i" q] by simp

lemma half_even_le: "q \<le> of_int i \<Longrightarrow> half_even q \<le> i"
  using half_even_mono [of q "of_int i"] by simp

lemma powi_pos [simp]: "0 < (2::rat) powi e"
  by (simp add: zero_less_power_int)

lemma powi_Suc: "(2::rat) powi (e + 1) = 2 * 2 powi e"
  by (simp add: power_int_add)

lemma powi_mono: "e \<le> f \<Longrightarrow> (2::rat) powi e \<le> 2 powi f"
  by (simp add: power_int_increasing)

lemma powi_diff: "(2::rat) powi (a - b) = 2 powi a / 2 powi b"
  by (simp add: power_int_diff)

lemma int_bits_nonneg: "0 \<le> int_bits n"
proof (induction n rule: int_bits.induct)
  case (1 n)
  then show ?case by (simp add: int_bits.simps [of n])
qed

lemma int_bits_bounds:
  "0 < n \<Longrightarrow> (2::rat) powi (int_bits n - 1) \<le> of_int n \<and> (of_int n :: rat) < 2 powi (int_bits n)"
proof (induction n rule: int_bits.induct)
  case (1 n)
  have step: "int_bits n = 1 + int_bits (n div 2)" using "1.prems" by (simp add: int_bits.simps [of n])
  show ?case
  proof (cases "n = 1")
    case True
    then show ?thesis by (simp add: int_bits.simps)
  next
    case False
    with "1.prems" have "0 < n div 2" by simp
    with "1.IH" "1.prems" have IH: "(2::rat) powi (int_bits (n div 2) - 1) \<le> of_int (n div 2)"
      "(of_int (n div 2) :: rat) < 2 powi (int_bits (n div 2))" by auto
    have "(of_int (2 * (n div 2)) :: rat) \<le> of_int n" "(of_int n :: rat) \<le> of_int (2 * (n div 2) + 1)"
      unfolding of_int_le_iff by presburger+
    moreover obtain m where m: "int_bits (n div 2) = int m" using int_bits_nonneg [of "n div 2"] by (metis nonneg_int_cases)
    have "(of_int (n div 2) :: rat) + 1 \<le> 2 powi (int_bits (n div 2))"
    proof -
      have "(of_int (n div 2) :: rat) < of_int (2 ^ m)" using IH(2) m by simp
      then have "n div 2 + 1 \<le> 2 ^ m" by (simp only: of_int_less_iff)
      then have "(of_int (n div 2 + 1) :: rat) \<le> of_int (2 ^ m)" by (simp only: of_int_le_iff)
      then show ?thesis using m by simp
    qed
    ultimately show ?thesis using IH step powi_Suc [of "int_bits (n div 2) - 1"] powi_Suc [of "int_bits (n div 2)"]
      by (simp add: add.commute)
  qed
qed

lemma exponent_bounds:
  assumes "0 < x"
  shows "2 powi (exponent x) \<le> x" and "x < 2 powi (exponent x + 1)"
proof -
  obtain n d where q: "quotient_of x = (n, d)" by fastforce
  have d: "0 < d" using q by (rule quotient_of_denom_pos)
  have x: "x = of_int n / of_int d" using q by (rule quotient_of_div)
  have n: "0 < n" using assms d by (simp add: x zero_less_divide_iff)
  let ?e = "int_bits n - int_bits d"
  note N = int_bits_bounds [OF n] and D = int_bits_bounds [OF d]
  have d': "(0::rat) < of_int d" using d by simp
  have up: "x < 2 powi (?e + 1)"
  proof -
    have "(of_int n :: rat) < 2 powi (int_bits n)" using N by blast
    also have "\<dots> = 2 powi (?e + 1) * 2 powi (int_bits d - 1)" by (simp add: power_int_add [symmetric])
    also have "\<dots> \<le> 2 powi (?e + 1) * of_int d" using D by simp
    finally show ?thesis using d' by (simp add: x pos_divide_less_eq)
  qed
  have lo: "2 powi (?e - 1) \<le> x"
  proof -
    have "2 powi (?e - 1) * (of_int d :: rat) \<le> 2 powi (?e - 1) * 2 powi (int_bits d)" using D by simp
    also have "\<dots> = 2 powi (int_bits n - 1)" by (simp add: power_int_add [symmetric])
    also have "\<dots> \<le> of_int n" using N by blast
    finally show ?thesis using d' by (simp add: x pos_le_divide_eq)
  qed
  show "2 powi (exponent x) \<le> x" using lo by (simp add: exponent_def q Let_def)
  show "x < 2 powi (exponent x + 1)" using up by (simp add: exponent_def q Let_def)
qed

lemma fl_pos_error: "0 < x \<Longrightarrow> \<bar>fl_pos x - x\<bar> \<le> x / 2 ^ 53"
proof -
  assume x: "0 < x"
  define u where "u = (2::rat) powi (exponent x - 52)"
  have u: "0 < u" by (simp add: u_def)
  have "\<bar>of_int (half_even (x / u)) - x / u\<bar> * u \<le> 1 / 2 * u"
    using half_even_near [of "x / u"] u by (intro mult_right_mono) auto
  moreover have "\<bar>of_int (half_even (x / u)) - x / u\<bar> * u = \<bar>fl_pos x - x\<bar>"
  proof -
    have "\<bar>of_int (half_even (x / u)) - x / u\<bar> * u = \<bar>(of_int (half_even (x / u)) - x / u) * u\<bar>"
      using u by (simp add: abs_mult)
    then show ?thesis using u by (simp add: fl_pos_def u_def [symmetric] Let_def left_diff_distrib)
  qed
  moreover have "1 / 2 * u = 2 powi (exponent x) / 2 ^ 53"
    by (simp add: u_def powi_diff)
  moreover have "2 powi (exponent x) / 2 ^ 53 \<le> x / 2 ^ 53"
    using exponent_bounds(1) [OF x] by (intro divide_right_mono) auto
  ultimately show ?thesis by simp
qed

lemma fl_pos_binade:
  assumes "0 < x"
  shows "2 powi (exponent x) \<le> fl_pos x" and "fl_pos x \<le> 2 powi (exponent x + 1)"
proof -
  define u where "u = (2::rat) powi (exponent x - 52)"
  have u: "0 < u" by (simp add: u_def)
  have lo: "of_int (2 ^ 52) \<le> x / u" and hi: "x / u \<le> of_int (2 ^ 53)"
    using exponent_bounds [OF assms] unfolding powi_Suc by (simp_all add: u_def powi_diff field_simps)
  have "(of_int (2 ^ 52) :: rat) \<le> of_int (half_even (x / u))" "(of_int (half_even (x / u)) :: rat) \<le> of_int (2 ^ 53)"
    unfolding of_int_le_iff using half_even_ge [OF lo] half_even_le [OF hi] .
  from mult_right_mono [OF this(1), of u] mult_right_mono [OF this(2), of u] u
  show "2 powi (exponent x) \<le> fl_pos x" "fl_pos x \<le> 2 powi (exponent x + 1)"
    by (simp_all add: fl_pos_def u_def [symmetric] Let_def) (simp_all add: u_def powi_diff powi_Suc)
qed

lemma fl_pos_mono:
  assumes "0 < x" "x \<le> y"
  shows "fl_pos x \<le> fl_pos y"
proof (cases "exponent x = exponent y")
  case True
  then show ?thesis using assms(2)
    by (auto simp: fl_pos_def Let_def intro!: mult_right_mono half_even_mono divide_right_mono)
next
  case False
  have y: "0 < y" using assms by simp
  have "exponent x < exponent y"
  proof (rule ccontr)
    assume "\<not> exponent x < exponent y"
    with False have "exponent y + 1 \<le> exponent x" by simp
    then have "(2::rat) powi (exponent y + 1) \<le> 2 powi (exponent x)" by (rule powi_mono)
    then show False using exponent_bounds(2) [OF y] exponent_bounds(1) [OF assms(1)] assms(2) by linarith
  qed
  then have "(2::rat) powi (exponent x + 1) \<le> 2 powi (exponent y)" by (intro powi_mono) simp
  then show ?thesis using fl_pos_binade(2) [OF assms(1)] fl_pos_binade(1) [OF y] by linarith
qed

lemma fl_pos_dyadic:
  assumes "0 < m" "m \<le> 2 ^ 53"
  shows "fl_pos (of_int m * 2 powi k) = of_int m * 2 powi k"
proof -
  let ?x = "of_int m * 2 powi k :: rat" and ?e = "exponent (of_int m * 2 powi k)"
  define u where "u = (2::rat) powi (?e - 52)"
  have x: "0 < ?x" using assms by simp
  have u: "0 < u" by (simp add: u_def)
  have "\<exists>i. ?x / u = of_int i"
  proof (cases "?e - 52 \<le> k")
    case True
    have "?x / u = of_int m * (2 powi k / 2 powi (?e - 52))" by (simp add: u_def)
    also have "\<dots> = of_int m * 2 powi (k - (?e - 52))" by (simp only: powi_diff [of k "?e - 52"])
    also have "\<dots> = of_int m * 2 ^ nat (k - (?e - 52))" using True by (simp add: power_int_def)
    finally have "?x / u = of_int m * 2 ^ nat (k - (?e - 52))" .
    then have "?x / u = of_int (m * 2 ^ nat (k - (?e - 52)))" by simp
    then show ?thesis by blast
  next
    case False
    have "?x \<le> of_int (2 ^ 53) * 2 powi k" using assms by (intro mult_right_mono) (simp_all only: of_int_le_iff, simp)
    also have "\<dots> = 2 powi (k + 53)" by (simp add: power_int_add)
    finally have ub: "?x \<le> 2 powi (k + 53)" .
    have "(2::rat) powi (k + 53) \<le> 2 powi ?e" using False by (intro powi_mono) simp
    with ub exponent_bounds(1) [OF x] have eq: "?x = 2 powi ?e" by linarith
    have "?x / u = of_int (2 ^ 52)" unfolding u_def by (subst eq) (simp add: powi_diff)
    then show ?thesis by blast
  qed
  then obtain i where i: "?x / u = of_int i" ..
  have "fl_pos ?x = of_int (half_even (?x / u)) * u" by (simp add: fl_pos_def u_def Let_def)
  also have "\<dots> = ?x / u * u" by (simp add: i)
  finally show ?thesis using u by simp
qed

subsection \<open>The laws the components use\<close>

lemma fl_0 [simp]: "fl 0 = 0"
  by (simp add: fl_def)

lemma fl_minus: "fl (- x) = - fl x"
  by (simp add: fl_def)

lemma fl_nonneg: "0 \<le> x \<Longrightarrow> 0 \<le> fl x"
  using less_le_trans [OF powi_pos fl_pos_binade(1), of x] by (cases "x = 0") (simp_all add: fl_def)

lemma fl_mono: "x \<le> y \<Longrightarrow> fl x \<le> fl y"
proof -
  assume xy: "x \<le> y"
  consider "0 < x" | "x \<le> 0" "0 \<le> y" | "y < 0" by linarith
  then show ?thesis
  proof cases
    case 1
    then show ?thesis using xy by (simp add: fl_def fl_pos_mono)
  next
    case 2
    then show ?thesis using fl_nonneg [of "- x"] fl_nonneg [of y] by (simp add: fl_minus)
  next
    case 3
    then show ?thesis using xy fl_pos_mono [of "- y" "- x"] by (simp add: fl_def)
  qed
qed

lemma fl_error: "\<bar>fl x - x\<bar> \<le> \<bar>x\<bar> / 2 ^ 53"
proof -
  consider "x = 0" | "0 < x" | "x < 0" by linarith
  then show ?thesis
  proof cases
    case 3
    then have "\<bar>fl_pos (- x) - (- x)\<bar> \<le> \<bar>x\<bar> / 2 ^ 53" using fl_pos_error [of "- x"] by simp
    then show ?thesis using 3 by (simp add: fl_def abs_minus_commute [of _ x])
  qed (use fl_pos_error in \<open>simp_all add: fl_def\<close>)
qed

lemma fl_dyadic: "\<bar>m\<bar> \<le> 2 ^ 53 \<Longrightarrow> fl (of_int m * 2 powi k) = of_int m * 2 powi k"
proof -
  assume m: "\<bar>m\<bar> \<le> 2 ^ 53"
  have pos: "fl (of_int i * 2 powi k) = of_int i * 2 powi k" if "0 < i" "i \<le> 2 ^ 53" for i
  proof -
    have "0 < (of_int i * 2 powi k :: rat)" using that(1) by simp
    then show ?thesis using fl_pos_dyadic [OF that, of k] by (simp add: fl_def)
  qed
  consider "m = 0" | "0 < m" | "m < 0" by linarith
  then show ?thesis
  proof cases
    case 3
    then have "fl (- (of_int m * 2 powi k)) = - (of_int m * 2 powi k)" using pos [of "- m"] m by simp
    then show ?thesis by (simp add: fl_minus)
  qed (use pos m in simp_all)
qed

lemma fl_int: "\<bar>m\<bar> \<le> 2 ^ 53 \<Longrightarrow> fl (of_int m) = of_int m"
  using fl_dyadic [of m 0] by simp

lemma float64_int: "\<bar>m\<bar> \<le> 2 ^ 53 \<Longrightarrow> float64 m = of_int m"
  by (simp add: float64_def fl_int)

lemma fl_up: "0 \<le> x \<Longrightarrow> fl x \<le> x * (1 + 1 / 2 ^ 53)"
  using fl_error [of x] abs_ge_self [of "fl x - x"] by (simp add: distrib_left)

end
