(* ===== verification/Analytics.thy ===== *)
theory Analytics
  imports GoFloat GoHttp
begin

text \<open>
  \<open>controlplane/analytics\<close>: the collector that aggregates the access logs of the edges per host name, its
  HTTP handlers and its file. The interface \<open>Backend\<close> is the locale \<open>analytics_backend\<close>. JSON and the
  outcome of file operations are parameters; the ticker of the periodic flush is the operation \<open>flushStats\<close> itself.
\<close>

record LogEntry =
  alTimestamp :: string
  alEdgeID :: string
  alRequestID :: string
  alMethod :: string
  alHost :: string
  alPath :: string
  alStatus :: int
  alBytesSent :: int
  alDurationMs :: rat
  alCacheStatus :: string
  alClientIP :: string

record DomainStats =
  dsHostname :: string
  dsRequests :: int
  dsBytesServed :: int
  dsCacheHits :: int
  dsCacheMisses :: int
  dsStatus2xx :: int
  dsStatus3xx :: int
  dsStatus4xx :: int
  dsStatus5xx :: int
  dsAvgLatencyMs :: rat
  dsP95LatencyMs :: rat
  dsTotalLatency :: rat

record Collector =
  clStats :: "string \<rightharpoonup> DomainStats"
  clDir :: string
  clFile :: "bytes option"

record collectorEnv =
  coMkdirFails :: bool
  coWriteFile :: "bytes option \<Rightarrow> bytes \<Rightarrow> bytes option"
  coMarshal :: "(string \<rightharpoonup> DomainStats) \<Rightarrow> bytes option"
  coUnmarshal :: "bytes \<Rightarrow> (string \<rightharpoonup> DomainStats) \<Rightarrow> (string \<rightharpoonup> DomainStats)"

definition new_stats :: "string \<Rightarrow> DomainStats" where
  "new_stats host =
     \<lparr>dsHostname = host, dsRequests = 0, dsBytesServed = 0, dsCacheHits = 0, dsCacheMisses = 0, dsStatus2xx = 0, dsStatus3xx = 0,
      dsStatus4xx = 0, dsStatus5xx = 0, dsAvgLatencyMs = 0, dsP95LatencyMs = 0, dsTotalLatency = 0\<rparr>"

text \<open>What the file holds is overlaid on the empty map; a file that cannot be read is ignored.\<close>

definition loadStats :: "collectorEnv \<Rightarrow> Collector \<Rightarrow> Collector" where
  "loadStats ev c =
     (if clDir c = [] then c
      else case clFile c of None \<Rightarrow> c | Some data \<Rightarrow> c\<lparr>clStats := coUnmarshal ev data (clStats c)\<rparr>)"

definition flushStats :: "collectorEnv \<Rightarrow> Collector \<Rightarrow> Collector" where
  "flushStats ev c =
     (if clDir c = [] then c
      else case coMarshal ev (clStats c) of
             None \<Rightarrow> c
           | Some data \<Rightarrow> c\<lparr>clFile := coWriteFile ev (clFile c) data\<rparr>)"

definition NewCollector :: "collectorEnv \<Rightarrow> string \<Rightarrow> bytes option \<Rightarrow> Collector option" where
  "NewCollector ev dataDir file' =
     (if dataDir \<noteq> [] \<and> coMkdirFails ev then None
      else Some (loadStats ev \<lparr>clStats = Map.empty, clDir = dataDir, clFile = file'\<rparr>))"

section \<open>Ingesting\<close>

definition count_cache :: "string \<Rightarrow> DomainStats \<Rightarrow> DomainStats" where
  "count_cache status ds =
     (if status = ''HIT'' \<or> status = ''STALE'' then ds\<lparr>dsCacheHits := wrap64 (dsCacheHits ds + 1)\<rparr>
      else if status = ''MISS'' \<or> status = ''BYPASS'' then ds\<lparr>dsCacheMisses := wrap64 (dsCacheMisses ds + 1)\<rparr>
      else ds)"

definition count_code :: "int \<Rightarrow> DomainStats \<Rightarrow> DomainStats" where
  "count_code code ds =
     (if 200 \<le> code \<and> code < 300 then ds\<lparr>dsStatus2xx := wrap64 (dsStatus2xx ds + 1)\<rparr>
      else if 300 \<le> code \<and> code < 400 then ds\<lparr>dsStatus3xx := wrap64 (dsStatus3xx ds + 1)\<rparr>
      else if 400 \<le> code \<and> code < 500 then ds\<lparr>dsStatus4xx := wrap64 (dsStatus4xx ds + 1)\<rparr>
      else if 500 \<le> code then ds\<lparr>dsStatus5xx := wrap64 (dsStatus5xx ds + 1)\<rparr>
      else ds)"

definition ingest_entry :: "(string \<rightharpoonup> DomainStats) \<Rightarrow> LogEntry \<Rightarrow> (string \<rightharpoonup> DomainStats)" where
  "ingest_entry stats e =
     (let ds = (case stats (alHost e) of Some ds \<Rightarrow> ds | None \<Rightarrow> new_stats (alHost e));
          ds = ds\<lparr>dsRequests := wrap64 (dsRequests ds + 1), dsBytesServed := wrap64 (dsBytesServed ds + alBytesSent e),
                  dsTotalLatency := fl (dsTotalLatency ds + alDurationMs e)\<rparr>;
          ds = count_code (alStatus e) (count_cache (alCacheStatus e) ds);
          ds = (if dsRequests ds > 0 then ds\<lparr>dsAvgLatencyMs := fl (dsTotalLatency ds / float64 (dsRequests ds))\<rparr> else ds)
      in stats(alHost e \<mapsto> ds))"

definition Ingest :: "Collector \<Rightarrow> LogEntry list \<Rightarrow> Collector" where
  "Ingest c entries = c\<lparr>clStats := foldl ingest_entry (clStats c) entries\<rparr>"

section \<open>Querying, closing, handlers\<close>

text \<open>\<open>order\<close> lists the keys in the order of the loop over the map.\<close>

definition collector_Query :: "string list \<Rightarrow> Collector \<Rightarrow> string \<Rightarrow> DomainStats list" where
  "collector_Query order c hostname =
     filter (\<lambda>ds. hostname = [] \<or> dsHostname ds = hostname) (List.map_filter (clStats c) order)"

definition collector_Close :: "collectorEnv \<Rightarrow> Collector \<Rightarrow> Collector" where
  "collector_Close ev c = flushStats ev c"

definition HandleIngest :: "(bytes \<Rightarrow> LogEntry list option) \<Rightarrow> Collector \<Rightarrow> respw \<Rightarrow> string \<Rightarrow> bytes \<Rightarrow> respw \<times> Collector" where
  "HandleIngest decode c w meth body =
     (if meth \<noteq> ''POST'' then (http_Error w ''Method Not Allowed'' 405, c)
      else case decode body of
             None \<Rightarrow> (http_Error w ''invalid JSON'' 400, c)
           | Some entries \<Rightarrow>
               (w_Write (w_Set w ''Content-Type'' ''application/json'')
                  (''{\"accepted\":'' @ strconv_Itoa (int (length entries)) @ ''}''), Ingest c entries))"

definition HandleQuery :: "(DomainStats list \<Rightarrow> bytes) \<Rightarrow> string list \<Rightarrow> Collector \<Rightarrow> respw \<Rightarrow> (string \<Rightarrow> string) \<Rightarrow> respw" where
  "HandleQuery encode order c w query =
     w_Write (w_Set w ''Content-Type'' ''application/json'') (encode (collector_Query order c (query ''hostname'')))"

section \<open>The interface of a backend\<close>

definition for_host :: "string \<Rightarrow> LogEntry list \<Rightarrow> LogEntry list" where
  "for_host host es = filter (\<lambda>e. alHost e = host) es"

text \<open>
  What the interface promises its callers: taking a batch after another is taking both at once, and what a query
  reports of a host name depends on the entries of that host name alone. Then neither the cutting into batches nor
  the interleaving of the hosts matters.
\<close>

locale analytics_backend =
  fixes start :: 's
    and ingest :: "'s \<Rightarrow> LogEntry list \<Rightarrow> 's"
    and report :: "'s \<Rightarrow> string \<Rightarrow> DomainStats option"
    and summary :: "string \<Rightarrow> LogEntry list \<Rightarrow> DomainStats option"
  assumes ingest_nil: "ingest s [] = s"
    and ingest_append: "ingest (ingest s xs) ys = ingest s (xs @ ys)"
    and report_law: "int (length es) < 2 ^ 63 \<Longrightarrow> report (ingest start es) host = summary host (for_host host es)"
begin

lemma batches_concat: "foldl ingest s bs = ingest s (concat bs)"
  by (induction bs arbitrary: s) (simp_all add: ingest_nil ingest_append)

lemma batches_report:
  assumes "int (length (concat bs)) < 2 ^ 63"
  shows "report (foldl ingest start bs) host = summary host (for_host host (concat bs))"
  using assms by (simp only: batches_concat report_law)

lemma batches_agree:
  assumes "int (length (concat bs)) < 2 ^ 63" "int (length (concat cs)) < 2 ^ 63"
    and "for_host host (concat bs) = for_host host (concat cs)"
  shows "report (foldl ingest start bs) host = report (foldl ingest start cs) host"
  using assms by (simp only: batches_report)

end

section \<open>What the collector holds\<close>

definition latency_sum :: "LogEntry list \<Rightarrow> rat" where
  "latency_sum es = foldl (\<lambda>t e. fl (t + alDurationMs e)) 0 es"

text \<open>The statistics of one host name in closed form.\<close>

definition stats_of :: "string \<Rightarrow> LogEntry list \<Rightarrow> DomainStats" where
  "stats_of host hs =
     \<lparr>dsHostname = host, dsRequests = int (length hs), dsBytesServed = wrap64 (sum_list (map alBytesSent hs)),
      dsCacheHits = tally (\<lambda>e. alCacheStatus e \<in> {''HIT'', ''STALE''}) hs,
      dsCacheMisses = tally (\<lambda>e. alCacheStatus e \<in> {''MISS'', ''BYPASS''}) hs,
      dsStatus2xx = tally (\<lambda>e. 200 \<le> alStatus e \<and> alStatus e < 300) hs,
      dsStatus3xx = tally (\<lambda>e. 300 \<le> alStatus e \<and> alStatus e < 400) hs,
      dsStatus4xx = tally (\<lambda>e. 400 \<le> alStatus e \<and> alStatus e < 500) hs,
      dsStatus5xx = tally (\<lambda>e. 500 \<le> alStatus e) hs,
      dsAvgLatencyMs = fl (latency_sum hs / float64 (int (length hs))), dsP95LatencyMs = 0, dsTotalLatency = latency_sum hs\<rparr>"

definition summary_of :: "string \<Rightarrow> LogEntry list \<Rightarrow> DomainStats option" where
  "summary_of host hs = (if hs = [] then None else Some (stats_of host hs))"

lemma tally_step:
  assumes "int (length hs) + 1 < 2 ^ 63"
  shows "wrap64 (tally P hs + 1) = tally P hs + 1"
proof (rule wrap64_id)
  have "tally P hs \<le> int (length hs)" by (simp add: tally_def)
  then show "in_int64 (tally P hs + 1)" using assms tally_nonneg [of P hs] by (simp add: in_int64_def)
qed

lemma count_cache_fields:
  "count_cache status ds =
     ds\<lparr>dsCacheHits := (if status \<in> {''HIT'', ''STALE''} then wrap64 (dsCacheHits ds + 1) else dsCacheHits ds),
        dsCacheMisses := (if status \<in> {''MISS'', ''BYPASS''} then wrap64 (dsCacheMisses ds + 1) else dsCacheMisses ds)\<rparr>"
  by (auto simp: count_cache_def)

lemma count_code_fields:
  "count_code code ds =
     ds\<lparr>dsStatus2xx := (if 200 \<le> code \<and> code < 300 then wrap64 (dsStatus2xx ds + 1) else dsStatus2xx ds),
        dsStatus3xx := (if 300 \<le> code \<and> code < 400 then wrap64 (dsStatus3xx ds + 1) else dsStatus3xx ds),
        dsStatus4xx := (if 400 \<le> code \<and> code < 500 then wrap64 (dsStatus4xx ds + 1) else dsStatus4xx ds),
        dsStatus5xx := (if 500 \<le> code then wrap64 (dsStatus5xx ds + 1) else dsStatus5xx ds)\<rparr>"
  by (simp add: count_code_def)

lemma tally_next:
  assumes "int (length hs) + 1 < 2 ^ 63"
  shows "(if P e then wrap64 (tally P hs + 1) else tally P hs) = tally P (hs @ [e])"
  using tally_step [OF assms, of P] by simp

lemma ingest_step:
  assumes len: "int (length hs) + 1 < 2 ^ 63" and host: "host = alHost e"
    and start: "(case stats host of Some ds \<Rightarrow> ds | None \<Rightarrow> new_stats host) = (stats_of host hs)\<lparr>dsAvgLatencyMs := a\<rparr>"
  shows "ingest_entry stats e host = Some (stats_of host (hs @ [e]))"
proof -
  have n: "wrap64 (int (length hs) + 1) = int (length hs) + 1" using len by (intro wrap64_id) (simp add: in_int64_def)
  have bytes: "wrap64 (wrap64 (sum_list (map alBytesSent hs)) + alBytesSent e) = wrap64 (sum_list (map alBytesSent (hs @ [e])))"
    by (simp add: wrap64_add)
  have lat: "fl (latency_sum hs + alDurationMs e) = latency_sum (hs @ [e])" by (simp add: latency_sum_def)
  have pos: "int (length hs) + 1 > 0" and succ: "int (length (hs @ [e])) = int (length hs) + 1" by simp_all
  show ?thesis
    unfolding ingest_entry_def Let_def host [symmetric] start count_cache_fields count_code_fields stats_of_def
    by (simp only: DomainStats.simps n bytes lat pos succ if_True tally_next [OF len, where e = e, symmetric] fun_upd_same)
qed

lemma ingest_all:
  assumes "int (length es) < 2 ^ 63"
  shows "foldl ingest_entry Map.empty es host = summary_of host (for_host host es)"
  using assms
proof (induction es arbitrary: host rule: rev_induct)
  case (snoc e es)
  show ?case
  proof (cases "host = alHost e")
    case True
    let ?hs = "for_host host es"
    have "length ?hs \<le> length es" by (simp add: for_host_def)
    then have len: "int (length ?hs) + 1 < 2 ^ 63" using snoc.prems by simp
    have "\<exists>a. (case foldl ingest_entry Map.empty es host of Some ds \<Rightarrow> ds | None \<Rightarrow> new_stats host) = (stats_of host ?hs)\<lparr>dsAvgLatencyMs := a\<rparr>"
      using snoc by (cases "?hs = []")
        (auto simp: summary_of_def stats_of_def new_stats_def latency_sum_def wrap64_def)
    then show ?thesis using ingest_step [OF len True] True by (auto simp: summary_of_def for_host_def)
  next
    case False
    then show ?thesis using snoc by (simp add: ingest_entry_def Let_def for_host_def)
  qed
qed (simp add: for_host_def summary_of_def)

definition empty_collector :: "string \<Rightarrow> Collector" where
  "empty_collector dir = \<lparr>clStats = Map.empty, clDir = dir, clFile = None\<rparr>"

interpretation col: analytics_backend "empty_collector dir" Ingest clStats summary_of
  by unfold_locales (simp_all add: Ingest_def empty_collector_def ingest_all)

lemma stats_of_consistent:
  "dsCacheHits (stats_of host hs) + dsCacheMisses (stats_of host hs) \<le> dsRequests (stats_of host hs)"
  "dsStatus2xx (stats_of host hs) + dsStatus3xx (stats_of host hs) + dsStatus4xx (stats_of host hs) + dsStatus5xx (stats_of host hs)
     \<le> dsRequests (stats_of host hs)"
proof (induction hs rule: rev_induct)
  case (snoc e hs)
  {
    case 1
    show ?case using snoc.IH by (auto simp: stats_of_def)
  next
    case 2
    show ?case using snoc.IH by (auto simp: stats_of_def)
  }
qed (simp_all add: stats_of_def)

text \<open>
  C31. A collector that starts without a file holds, after any sequence of batches, exactly the statistics of the
  entries of each host name: requests, bytes (modulo \<open>2 ^ 64\<close>), hits and misses, the four classes of status and the
  mean latency, and nothing for a host name that no entry names. How the entries were cut into batches does not
  matter. Hits and misses together, and the four classes together, never exceed the requests.
\<close>

theorem analytics_exact:
  assumes "NewCollector ev dir None = Some c" and "int (length (concat batches)) < 2 ^ 63"
  shows "clStats (foldl Ingest c batches) host =
           (if for_host host (concat batches) = [] then None else Some (stats_of host (for_host host (concat batches))))
         \<and> (\<forall>ds. clStats (foldl Ingest c batches) host = Some ds \<longrightarrow>
              dsCacheHits ds + dsCacheMisses ds \<le> dsRequests ds
              \<and> dsStatus2xx ds + dsStatus3xx ds + dsStatus4xx ds + dsStatus5xx ds \<le> dsRequests ds)"
proof -
  have c: "c = empty_collector dir"
    using assms(1) by (auto simp: NewCollector_def loadStats_def empty_collector_def split: if_splits)
  show ?thesis
    using col.batches_report [OF assms(2), of dir host] stats_of_consistent [of host "for_host host (concat batches)"]
    by (auto simp: c summary_of_def)
qed

definition sample_entry :: "string \<Rightarrow> string \<Rightarrow> rat \<Rightarrow> LogEntry" where
  "sample_entry host cache ms =
     \<lparr>alTimestamp = [], alEdgeID = [], alRequestID = [], alMethod = ''GET'', alHost = host, alPath = ''/'', alStatus = 200,
      alBytesSent = 100, alDurationMs = ms, alCacheStatus = cache, alClientIP = []\<rparr>"

definition sample_env :: collectorEnv where
  "sample_env = \<lparr>coMkdirFails = False, coWriteFile = (\<lambda>f b. Some b), coMarshal = (\<lambda>st. Some []), coUnmarshal = (\<lambda>b st. st)\<rparr>"

theorem analytics_exact_witness:
  "\<exists>c. NewCollector sample_env [] None = Some c
     \<and> clStats (foldl Ingest c [[sample_entry ''a'' ''HIT'' 2, sample_entry ''b'' ''MISS'' 1], [sample_entry ''a'' ''MISS'' 4]]) ''a''
       = Some (stats_of ''a'' [sample_entry ''a'' ''HIT'' 2, sample_entry ''a'' ''MISS'' 4])"
proof -
  have "NewCollector sample_env [] None = Some (empty_collector [])"
    by (simp add: NewCollector_def loadStats_def empty_collector_def)
  from analytics_exact [OF this, where host = "''a''"
      and batches = "[[sample_entry ''a'' ''HIT'' 2, sample_entry ''b'' ''MISS'' 1], [sample_entry ''a'' ''MISS'' 4]]"] this
  show ?thesis by (auto simp: sample_entry_def for_host_def)
qed

text \<open>
  \<open>totalLatency\<close> is unexported, so the file does not hold it: a collector that is closed and started again keeps
  every counter, and the first entry afterwards divides its own latency by the requests of all time.
\<close>

definition saved :: "DomainStats \<Rightarrow> DomainStats" where
  "saved ds = ds\<lparr>dsTotalLatency := 0\<rparr>"

theorem analytics_restart:
  assumes dir: "clDir c \<noteq> []" and mk: "\<not> coMkdirFails ev"
    and json: "coMarshal ev (clStats c) = Some data" "coUnmarshal ev data Map.empty = map_option saved \<circ> clStats c"
    and disk: "coWriteFile ev (clFile c) data = Some data"
    and ds: "clStats c (alHost e) = Some ds" "0 \<le> dsRequests ds" "dsRequests ds + 1 < 2 ^ 63"
  shows "\<exists>c'. NewCollector ev (clDir c) (clFile (collector_Close ev c)) = Some c'
           \<and> clStats c' = map_option saved \<circ> clStats c
           \<and> map_option dsAvgLatencyMs (clStats (Ingest c' [e]) (alHost e))
               = Some (fl (fl (alDurationMs e) / float64 (dsRequests ds + 1)))"
proof -
  let ?c = "\<lparr>clStats = map_option saved \<circ> clStats c, clDir = clDir c, clFile = Some data\<rparr>"
  have new: "NewCollector ev (clDir c) (clFile (collector_Close ev c)) = Some ?c"
    using assms by (simp add: NewCollector_def loadStats_def collector_Close_def flushStats_def)
  have n: "wrap64 (dsRequests ds + 1) = dsRequests ds + 1" using ds by (intro wrap64_id) (simp add: in_int64_def)
  have "map_option dsAvgLatencyMs (clStats (Ingest ?c [e]) (alHost e)) = Some (fl (fl (alDurationMs e) / float64 (dsRequests ds + 1)))"
    using ds by (simp add: Ingest_def ingest_entry_def Let_def count_cache_fields count_code_fields saved_def n)
  then show ?thesis using new by (intro exI [of _ ?c]) simp
qed

text \<open>With one request of 8 ms before the restart and one of 8 ms after it the mean reported is 4 ms.\<close>

lemma analytics_restart_mean:
  "map_option dsAvgLatencyMs
     (clStats (Ingest \<lparr>clStats = map_option saved \<circ> clStats (Ingest (empty_collector []) [sample_entry ''a'' ''HIT'' 8]), clDir = [], clFile = None\<rparr>
        [sample_entry ''a'' ''HIT'' 8]) ''a'') = Some 4"
proof -
  have "fl 8 = 8" "fl 4 = 4" "fl 2 = 2" using fl_int [of 8] fl_int [of 4] fl_int [of 2] by simp_all
  then show ?thesis
    by (simp add: Ingest_def ingest_entry_def Let_def count_cache_def count_code_def saved_def sample_entry_def empty_collector_def
        new_stats_def wrap64_def float64_def)
qed

text \<open>A STALE-ERROR answer, which the edge serves from its cache, is counted neither as a hit nor as a miss.\<close>

lemma stale_error_uncounted: "count_cache ''STALE-ERROR'' ds = ds"
  by (simp add: count_cache_def)

end
