(* ===== verification/Certs.thy ===== *)
theory Certs
  imports GoHttp
begin

text \<open>
  \<open>controlplane/certs\<close>: the certificate manager and its HTTP handlers. What the manager takes from
  \<open>crypto\<close>, \<open>encoding/pem\<close> and \<open>encoding/json\<close> is the parameter \<open>certLib\<close>; what the world does during one
  operation (file writes, the clock, random keys, the answer of the ACME client) is the parameter \<open>certEnv\<close>. The files
  are a map from paths. The ticker of the renewal loop is the operation \<open>checkRenewals\<close> itself.
\<close>

record CertInfo =
  ciHostname :: string
  ciNotBefore :: instant
  ciNotAfter :: instant
  ciIssuer :: string
  ciAutoRenew :: bool
  ciSource :: string

record tlsCert =
  tcCertificate :: "bytes list"
  tcPrivateKey :: bytes

record leafCert =
  lfNotBefore :: instant
  lfNotAfter :: instant
  lfIssuer :: string

record certTemplate =
  ctSerial :: int
  ctCommonName :: string
  ctDNSNames :: "string list"
  ctNotBefore :: instant
  ctNotAfter :: instant

record certLib =
  ckKeyPair :: "bytes \<Rightarrow> bytes \<Rightarrow> string + tlsCert"
  ckParse :: "bytes \<Rightarrow> string + leafCert"
  ckCreate :: "bytes \<Rightarrow> certTemplate \<Rightarrow> bytes \<Rightarrow> string + bytes"
  ckMarshalKey :: "bytes \<Rightarrow> string + bytes"
  ckPem :: "string \<Rightarrow> bytes \<Rightarrow> bytes"
  ckMarshal :: "(string \<rightharpoonup> CertInfo) \<Rightarrow> bytes option"
  ckUnmarshal :: "bytes \<Rightarrow> (string \<rightharpoonup> CertInfo) \<Rightarrow> (string \<rightharpoonup> CertInfo)"

text \<open>
  \<open>ceNow\<close> lists the readings of the clock in an operation: 0 in the check of \<open>ProvisionACME\<close>, 1 and 2 for the two
  ends of a self-signed certificate. \<open>ceWrite\<close> gives the error and the contents of a file after a write.
\<close>

record certEnv =
  ceMkdirFails :: bool
  ceWrite :: "string \<Rightarrow> bytes option \<Rightarrow> bytes \<Rightarrow> string option \<times> bytes option"
  ceRemove :: "string \<Rightarrow> bool"
  ceNow :: "nat \<Rightarrow> instant"
  ceKey :: "string + bytes"
  ceSerial :: int
  ceRandom :: bytes
  ceAcme :: "string \<Rightarrow> bool \<Rightarrow> string + tlsCert"

record Manager =
  cmDir :: string
  cmCerts :: "string \<rightharpoonup> CertInfo"
  cmTls :: "string \<rightharpoonup> tlsCert"
  cmAcme :: bool
  cmSelfSignedOnly :: bool
  cmFiles :: "string \<rightharpoonup> bytes"

datatype certErr =
    ErrKeyPair string | ErrParse string | ErrWriteCert string | ErrWriteKey string
  | ErrGenerate string | ErrCreate string | ErrMarshalKey string
  | ErrAcme string string | ErrAcmeParse string string | PanicIndex

definition certErr_Error :: "certErr \<Rightarrow> string" where
  "certErr_Error e = (case e of
      ErrKeyPair s \<Rightarrow> ''invalid cert/key pair: '' @ s
    | ErrParse s \<Rightarrow> ''parse certificate: '' @ s
    | ErrWriteCert s \<Rightarrow> ''write cert: '' @ s
    | ErrWriteKey s \<Rightarrow> ''write key: '' @ s
    | ErrGenerate s \<Rightarrow> ''generate key: '' @ s
    | ErrCreate s \<Rightarrow> ''create cert: '' @ s
    | ErrMarshalKey s \<Rightarrow> ''marshal key: '' @ s
    | ErrAcme h s \<Rightarrow> ''certs: ACME provision for '' @ h @ '': '' @ s
    | ErrAcmeParse h s \<Rightarrow> ''certs: parse ACME cert for '' @ h @ '': '' @ s
    | PanicIndex \<Rightarrow> ''index out of range'')"

definition day :: duration where
  "day = 24 * 3600 * second"

text \<open>The zero \<open>time.Time\<close> is the first instant of the year 1.\<close>

definition zero_time :: instant where
  "zero_time = - 62135596800 * second"

section \<open>Files\<close>

definition filepath_Join :: "string \<Rightarrow> string \<Rightarrow> string" where
  "filepath_Join dir name =
     (if dir = [] then (if name = [] then [] else path_Clean name)
      else if name = [] then path_Clean dir
      else path_Clean (dir @ ''/'' @ name))"

definition crtPath :: "string \<Rightarrow> string \<Rightarrow> string" where
  "crtPath dir hostname = filepath_Join dir (hostname @ ''.crt'')"

definition keyPath :: "string \<Rightarrow> string \<Rightarrow> string" where
  "keyPath dir hostname = filepath_Join dir (hostname @ ''.key'')"

definition metadataPath :: "string \<Rightarrow> string" where
  "metadataPath dir = filepath_Join dir ''metadata.json''"

definition os_WriteFile :: "certEnv \<Rightarrow> Manager \<Rightarrow> string \<Rightarrow> bytes \<Rightarrow> string option \<times> Manager" where
  "os_WriteFile ev m path data =
     (let (err, contents) = ceWrite ev path (cmFiles m path) data
      in (err, m\<lparr>cmFiles := (cmFiles m)(path := contents)\<rparr>))"

definition os_Remove :: "certEnv \<Rightarrow> Manager \<Rightarrow> string \<Rightarrow> Manager" where
  "os_Remove ev m path = (if ceRemove ev path then m\<lparr>cmFiles := (cmFiles m)(path := None)\<rparr> else m)"

definition write_pair :: "certEnv \<Rightarrow> Manager \<Rightarrow> string \<Rightarrow> bytes \<Rightarrow> bytes \<Rightarrow> certErr option \<times> Manager" where
  "write_pair ev m hostname certPEM keyPEM =
     (case os_WriteFile ev m (crtPath (cmDir m) hostname) certPEM of
        (Some e, m) \<Rightarrow> (Some (ErrWriteCert e), m)
      | (None, m) \<Rightarrow>
          (case os_WriteFile ev m (keyPath (cmDir m) hostname) keyPEM of
             (Some e, m) \<Rightarrow> (Some (ErrWriteKey e), m)
           | (None, m) \<Rightarrow> (None, m)))"

definition saveMetadata :: "certLib \<Rightarrow> certEnv \<Rightarrow> Manager \<Rightarrow> Manager" where
  "saveMetadata lib ev m =
     (case ckMarshal lib (cmCerts m) of
        None \<Rightarrow> m
      | Some data \<Rightarrow> snd (os_WriteFile ev m (metadataPath (cmDir m)) data))"

definition loadMetadata :: "certLib \<Rightarrow> Manager \<Rightarrow> Manager" where
  "loadMetadata lib m =
     (case cmFiles m (metadataPath (cmDir m)) of
        None \<Rightarrow> m
      | Some data \<Rightarrow> m\<lparr>cmCerts := ckUnmarshal lib data (cmCerts m)\<rparr>)"

text \<open>The pair of files of one host name, when both can be read and belong together.\<close>

definition load_pair :: "certLib \<Rightarrow> Manager \<Rightarrow> string \<Rightarrow> tlsCert option" where
  "load_pair lib m hostname =
     (case cmFiles m (crtPath (cmDir m) hostname) of
        None \<Rightarrow> None
      | Some certPEM \<Rightarrow>
          (case cmFiles m (keyPath (cmDir m) hostname) of
             None \<Rightarrow> None
           | Some keyPEM \<Rightarrow> (case ckKeyPair lib certPEM keyPEM of Inl e \<Rightarrow> None | Inr t \<Rightarrow> Some t)))"

definition loadCertsFromDisk :: "certLib \<Rightarrow> Manager \<Rightarrow> Manager" where
  "loadCertsFromDisk lib m =
     m\<lparr>cmTls := (\<lambda>h. if cmCerts m h = None then cmTls m h
                     else case load_pair lib m h of None \<Rightarrow> cmTls m h | Some t \<Rightarrow> Some t)\<rparr>"

definition NewManagerWithConfig :: "certLib \<Rightarrow> certEnv \<Rightarrow> string \<Rightarrow> bool \<Rightarrow> (string \<rightharpoonup> bytes) \<Rightarrow> Manager option" where
  "NewManagerWithConfig lib ev dataDir selfSignedOnly files =
     (if ceMkdirFails ev then None
      else Some (loadCertsFromDisk lib (loadMetadata lib
        \<lparr>cmDir = filepath_Join dataDir ''certs'', cmCerts = Map.empty, cmTls = Map.empty, cmAcme = \<not> selfSignedOnly,
         cmSelfSignedOnly = selfSignedOnly, cmFiles = files\<rparr>)))"

definition NewManager :: "certLib \<Rightarrow> certEnv \<Rightarrow> string \<Rightarrow> (string \<rightharpoonup> bytes) \<Rightarrow> Manager option" where
  "NewManager lib ev dataDir files = NewManagerWithConfig lib ev dataDir True files"

section \<open>Serving certificates\<close>

definition acmeHostPolicy :: "Manager \<Rightarrow> string \<Rightarrow> bool" where
  "acmeHostPolicy m host = (case cmCerts m host of Some info \<Rightarrow> ciSource info = ''acme'' | None \<Rightarrow> False)"

definition GetCertificate :: "certEnv \<Rightarrow> Manager \<Rightarrow> string \<Rightarrow> string + tlsCert" where
  "GetCertificate ev m serverName =
     (case cmTls m serverName of
        Some cert \<Rightarrow> Inr cert
      | None \<Rightarrow>
          (case cmCerts m serverName of
             Some info \<Rightarrow>
               if cmAcme m \<and> ciSource info = ''acme'' then ceAcme ev serverName (acmeHostPolicy m serverName)
               else Inl (''no certificate for '' @ serverName)
           | None \<Rightarrow> Inl (''no certificate for '' @ serverName)))"

section \<open>Storing, provisioning, deleting\<close>

definition parse_leaf :: "certLib \<Rightarrow> tlsCert \<Rightarrow> (string \<Rightarrow> certErr) \<Rightarrow> certErr + leafCert" where
  "parse_leaf lib t wrap =
     (case tcCertificate t of
        [] \<Rightarrow> Inl PanicIndex
      | der # _ \<Rightarrow> (case ckParse lib der of Inl e \<Rightarrow> Inl (wrap e) | Inr leaf \<Rightarrow> Inr leaf))"

definition install :: "Manager \<Rightarrow> string \<Rightarrow> CertInfo \<Rightarrow> tlsCert \<Rightarrow> Manager" where
  "install m hostname info t = m\<lparr>cmCerts := (cmCerts m)(hostname \<mapsto> info), cmTls := (cmTls m)(hostname \<mapsto> t)\<rparr>"

definition StoreCert :: "certLib \<Rightarrow> certEnv \<Rightarrow> Manager \<Rightarrow> string \<Rightarrow> bytes \<Rightarrow> bytes \<Rightarrow> certErr option \<times> Manager" where
  "StoreCert lib ev m hostname certPEM keyPEM =
     (case ckKeyPair lib certPEM keyPEM of
        Inl e \<Rightarrow> (Some (ErrKeyPair e), m)
      | Inr t \<Rightarrow>
          (case parse_leaf lib t ErrParse of
             Inl e \<Rightarrow> (Some e, m)
           | Inr leaf \<Rightarrow>
               (case write_pair ev m hostname certPEM keyPEM of
                  (Some e, m) \<Rightarrow> (Some e, m)
                | (None, m) \<Rightarrow>
                    (None, saveMetadata lib ev (install m hostname
                       \<lparr>ciHostname = hostname, ciNotBefore = lfNotBefore leaf, ciNotAfter = lfNotAfter leaf, ciIssuer = lfIssuer leaf,
                        ciAutoRenew = False, ciSource = ''custom''\<rparr> t)))))"

definition self_signed_template :: "certEnv \<Rightarrow> string \<Rightarrow> certTemplate" where
  "self_signed_template ev hostname =
     \<lparr>ctSerial = ceSerial ev, ctCommonName = hostname, ctDNSNames = [hostname], ctNotBefore = ceNow ev 1, ctNotAfter = ceNow ev 2 + 365 * day\<rparr>"

definition make_pair :: "certLib \<Rightarrow> certEnv \<Rightarrow> string \<Rightarrow> certErr + bytes \<times> bytes" where
  "make_pair lib ev hostname =
     (case ceKey ev of
        Inl e \<Rightarrow> Inl (ErrGenerate e)
      | Inr key \<Rightarrow>
          (case ckCreate lib (ceRandom ev) (self_signed_template ev hostname) key of
             Inl e \<Rightarrow> Inl (ErrCreate e)
           | Inr certDER \<Rightarrow>
               (case ckMarshalKey lib key of
                  Inl e \<Rightarrow> Inl (ErrMarshalKey e)
                | Inr keyDER \<Rightarrow> Inr (ckPem lib ''CERTIFICATE'' certDER, ckPem lib ''EC PRIVATE KEY'' keyDER))))"

text \<open>The error of \<open>tls.X509KeyPair\<close> is dropped: the zero certificate is installed then.\<close>

definition pair_or_zero :: "certLib \<Rightarrow> bytes \<Rightarrow> bytes \<Rightarrow> tlsCert" where
  "pair_or_zero lib certPEM keyPEM =
     (case ckKeyPair lib certPEM keyPEM of Inl e \<Rightarrow> \<lparr>tcCertificate = [], tcPrivateKey = []\<rparr> | Inr t \<Rightarrow> t)"

definition ProvisionSelfSigned :: "certLib \<Rightarrow> certEnv \<Rightarrow> Manager \<Rightarrow> string \<Rightarrow> certErr option \<times> Manager" where
  "ProvisionSelfSigned lib ev m hostname =
     (case make_pair lib ev hostname of
        Inl e \<Rightarrow> (Some e, m)
      | Inr (certPEM, keyPEM) \<Rightarrow>
          (case write_pair ev m hostname certPEM keyPEM of
             (Some e, m) \<Rightarrow> (Some e, m)
           | (None, m) \<Rightarrow>
               (None, saveMetadata lib ev (install m hostname
                  \<lparr>ciHostname = hostname, ciNotBefore = ceNow ev 1, ciNotAfter = ceNow ev 2 + 365 * day, ciIssuer = ''self-signed'',
                   ciAutoRenew = False, ciSource = ''self-signed''\<rparr> (pair_or_zero lib certPEM keyPEM)))))"

definition mark_acme :: "Manager \<Rightarrow> string \<Rightarrow> Manager" where
  "mark_acme m hostname =
     (case cmCerts m hostname of
        None \<Rightarrow> m
      | Some ci \<Rightarrow> m\<lparr>cmCerts := (cmCerts m)(hostname \<mapsto> ci\<lparr>ciAutoRenew := True, ciSource := ''acme''\<rparr>)\<rparr>)"

definition still_valid :: "certEnv \<Rightarrow> Manager \<Rightarrow> string \<Rightarrow> bool" where
  "still_valid ev m hostname =
     (case cmCerts m hostname of Some info \<Rightarrow> ciNotAfter info > ceNow ev 0 + 30 * day | None \<Rightarrow> False)"

definition ProvisionACME :: "certLib \<Rightarrow> certEnv \<Rightarrow> Manager \<Rightarrow> string \<Rightarrow> certErr option \<times> Manager" where
  "ProvisionACME lib ev m hostname =
     (if still_valid ev m hostname then (None, m)
      else if cmSelfSignedOnly m \<or> \<not> cmAcme m then
        (case ProvisionSelfSigned lib ev m hostname of
           (Some e, m) \<Rightarrow> (Some e, m)
         | (None, m) \<Rightarrow> (None, saveMetadata lib ev (mark_acme m hostname)))
      else
        let m = saveMetadata lib ev (m\<lparr>cmCerts := (cmCerts m)(hostname \<mapsto>
                  \<lparr>ciHostname = hostname, ciNotBefore = zero_time, ciNotAfter = zero_time, ciIssuer = [], ciAutoRenew = True, ciSource = ''acme''\<rparr>)\<rparr>)
        in case ceAcme ev hostname (acmeHostPolicy m hostname) of
             Inl e \<Rightarrow> (Some (ErrAcme hostname e), saveMetadata lib ev (m\<lparr>cmCerts := (cmCerts m)(hostname := None)\<rparr>))
           | Inr cert \<Rightarrow>
               (case parse_leaf lib cert (ErrAcmeParse hostname) of
                  Inl e \<Rightarrow> (Some e, m)
                | Inr leaf \<Rightarrow>
                    (None, saveMetadata lib ev (install m hostname
                       \<lparr>ciHostname = hostname, ciNotBefore = lfNotBefore leaf, ciNotAfter = lfNotAfter leaf, ciIssuer = lfIssuer leaf,
                        ciAutoRenew = True, ciSource = ''acme''\<rparr> cert))))"

definition DeleteCert :: "certLib \<Rightarrow> certEnv \<Rightarrow> Manager \<Rightarrow> string \<Rightarrow> Manager" where
  "DeleteCert lib ev m hostname =
     (let m = m\<lparr>cmCerts := (cmCerts m)(hostname := None), cmTls := (cmTls m)(hostname := None)\<rparr>;
          m = os_Remove ev m (crtPath (cmDir m) hostname);
          m = os_Remove ev m (keyPath (cmDir m) hostname)
      in saveMetadata lib ev m)"

section \<open>Listing and renewing\<close>

text \<open>\<open>order\<close> lists the keys in the order of the loops over the map.\<close>

definition ListCerts :: "string list \<Rightarrow> Manager \<Rightarrow> CertInfo list" where
  "ListCerts order m = List.map_filter (cmCerts m) order"

definition GetCertInfo :: "Manager \<Rightarrow> string \<Rightarrow> CertInfo option" where
  "GetCertInfo m hostname = cmCerts m hostname"

definition HasCert :: "instant \<Rightarrow> Manager \<Rightarrow> string \<Rightarrow> bool" where
  "HasCert now m hostname = (case cmCerts m hostname of Some ci \<Rightarrow> ciNotAfter ci > now | None \<Rightarrow> False)"

definition due :: "(string \<Rightarrow> instant) \<Rightarrow> Manager \<Rightarrow> string \<Rightarrow> bool" where
  "due scan m hostname =
     (case cmCerts m hostname of Some ci \<Rightarrow> ciAutoRenew ci \<and> ciNotAfter ci < scan hostname + 30 * day | None \<Rightarrow> False)"

definition renew_each :: "certLib \<Rightarrow> (string \<Rightarrow> certEnv) \<Rightarrow> Manager \<Rightarrow> string list \<Rightarrow> Manager" where
  "renew_each lib evs m toRenew = foldl (\<lambda>m h. snd (ProvisionACME lib (evs h) m h)) m toRenew"

definition checkRenewals :: "certLib \<Rightarrow> (string \<Rightarrow> certEnv) \<Rightarrow> (string \<Rightarrow> instant) \<Rightarrow> string list \<Rightarrow> Manager \<Rightarrow> Manager" where
  "checkRenewals lib evs scan order m = renew_each lib evs m (filter (due scan m) order)"

section \<open>The HTTP handlers\<close>

record certBody =
  cbHostname :: string
  cbMode :: string
  cbCertPEM :: string
  cbKeyPEM :: string

record certJson =
  cjDecode :: "bytes \<Rightarrow> certBody option"
  cjList :: "CertInfo list \<Rightarrow> bytes"
  cjInfo :: "CertInfo option \<Rightarrow> bytes"
  cjError :: "string \<Rightarrow> bytes"

definition json_header :: "respw \<Rightarrow> respw" where
  "json_header w = w_Set w ''Content-Type'' ''application/json''"

definition writeErr :: "certJson \<Rightarrow> respw \<Rightarrow> int \<Rightarrow> string \<Rightarrow> respw" where
  "writeErr js w status msg = w_Write (w_WriteHeader (json_header w) status) (cjError js msg)"

definition cert_method_not_allowed :: "respw \<Rightarrow> respw" where
  "cert_method_not_allowed w = w_Write (w_WriteHeader (json_header w) 405) ''{\"error\":\"method not allowed\"}''"

definition provision_mode :: "certLib \<Rightarrow> certEnv \<Rightarrow> Manager \<Rightarrow> certBody \<Rightarrow> (int \<times> string) option \<times> Manager" where
  "provision_mode lib ev m body =
     (if cbMode body = ''custom'' then
        if cbCertPEM body = [] \<or> cbKeyPEM body = [] then (Some (400, ''cert_pem and key_pem required for custom mode''), m)
        else apfst (map_option (\<lambda>e. (400, certErr_Error e))) (StoreCert lib ev m (cbHostname body) (cbCertPEM body) (cbKeyPEM body))
      else if cbMode body = ''self-signed'' then
        apfst (map_option (\<lambda>e. (500, certErr_Error e))) (ProvisionSelfSigned lib ev m (cbHostname body))
      else if cbMode body = ''acme'' \<or> cbMode body = [] then
        apfst (map_option (\<lambda>e. (500, certErr_Error e))) (ProvisionACME lib ev m (cbHostname body))
      else (Some (400, ''invalid mode: '' @ cbMode body), m))"

definition HandleCerts ::
  "certLib \<Rightarrow> certEnv \<Rightarrow> certJson \<Rightarrow> string list \<Rightarrow> Manager \<Rightarrow> respw \<Rightarrow> string \<Rightarrow> bytes \<Rightarrow> respw \<times> Manager" where
  "HandleCerts lib ev js order m w meth body =
     (if meth = ''GET'' then (w_Write (json_header w) (cjList js (ListCerts order m)), m)
      else if meth = ''POST'' then
        (case cjDecode js body of
           None \<Rightarrow> (writeErr js w 400 ''hostname is required'', m)
         | Some b \<Rightarrow>
             if cbHostname b = [] then (writeErr js w 400 ''hostname is required'', m)
             else case provision_mode lib ev m b of
                    (Some (code, msg), m) \<Rightarrow> (writeErr js w code msg, m)
                  | (None, m) \<Rightarrow> (w_Write (w_WriteHeader (json_header w) 201) (cjInfo js (GetCertInfo m (cbHostname b))), m))
      else (cert_method_not_allowed w, m))"

definition lastSeg :: "string \<Rightarrow> string" where
  "lastSeg path =
     (let path = strings_TrimRight path (CHR ''/'')
      in case strings_LastIndexByte path (CHR ''/'') of None \<Rightarrow> path | Some i \<Rightarrow> drop (i + 1) path)"

definition HandleCert :: "certLib \<Rightarrow> certEnv \<Rightarrow> certJson \<Rightarrow> Manager \<Rightarrow> respw \<Rightarrow> string \<Rightarrow> string \<Rightarrow> respw \<times> Manager" where
  "HandleCert lib ev js m w meth path =
     (let hostname = lastSeg path
      in if meth = ''GET'' then
           (case GetCertInfo m hostname of
              None \<Rightarrow> (writeErr js w 404 ''certificate not found'', m)
            | Some info \<Rightarrow> (w_Write (json_header w) (cjInfo js (Some info)), m))
         else if meth = ''DELETE'' then
           (w_Write (json_header w) ''{\"status\":\"deleted\"}'', DeleteCert lib ev m hostname)
         else (cert_method_not_allowed w, m))"

section \<open>File names\<close>

text \<open>A host name is plain when it holds no slash. Its files then lie in the directory of the manager, two per host name.\<close>

definition plain_host :: "string \<Rightarrow> bool" where
  "plain_host h = (CHR ''/'' \<notin> set h)"

definition plain_name :: "string \<Rightarrow> bool" where
  "plain_name n = (CHR ''/'' \<notin> set n \<and> n \<notin> {[], ''.'', ''..''})"

lemma Split_append_all: "strings_Split (u @ c # v) c = strings_Split u c @ strings_Split v c"
proof (induction u)
  case (Cons a u)
  then show ?case by (cases "strings_Split u c") simp_all
qed simp

lemma clean_elems_last: "plain_name n \<Longrightarrow> clean_elems r out (es @ [n]) = clean_elems r out es @ [n]"
proof (induction r out es rule: clean_elems.induct)
  case (2 r out e es)
  then show ?case by (cases out) auto
qed (auto simp: plain_name_def)

lemma Join_snoc: "strings_Join (xs @ [n]) c = (if xs = [] then n else strings_Join xs c @ c # n)"
proof (induction xs)
  case (Cons x xs)
  then show ?case by (cases xs) simp_all
qed simp

lemma filepath_Join_plain: "\<exists>p. \<forall>n. plain_name n \<longrightarrow> filepath_Join dir n = p @ n"
proof (cases "dir = []")
  case True
  have "filepath_Join dir n = [] @ n" if n: "plain_name n" for n
  proof -
    have "clean_elems False [] ([] @ [n]) = clean_elems False [] [] @ [n]" using n by (rule clean_elems_last)
    moreover have "strings_Split n (CHR ''/'') = [n]" "\<not> strings_HasPrefix n ''/''" "n \<noteq> []"
      using n by (auto simp: plain_name_def Split_absent HasPrefix_iff)
    ultimately show ?thesis using True by (simp add: filepath_Join_def path_Clean_def)
  qed
  then show ?thesis by blast
next
  case False
  let ?r = "strings_HasPrefix dir ''/''" let ?out = "clean_elems ?r [] (strings_Split dir (CHR ''/''))"
  let ?p = "(if ?r then ''/'' else []) @ (if ?out = [] then [] else strings_Join ?out (CHR ''/'') @ ''/'')"
  have "filepath_Join dir n = ?p @ n" if n: "plain_name n" for n
  proof -
    have "n \<noteq> []" and split: "strings_Split (dir @ ''/'' @ n) (CHR ''/'') = strings_Split dir (CHR ''/'') @ [n]"
      using n Split_append_all [of dir "CHR ''/''" n] by (auto simp: plain_name_def Split_absent)
    moreover have "strings_HasPrefix (dir @ ''/'' @ n) ''/'' = ?r"
      using False by (cases dir) (auto simp: strings_HasPrefix_def)
    ultimately show ?thesis using False n
      by (simp add: filepath_Join_def path_Clean_def clean_elems_last Join_snoc)
  qed
  then show ?thesis by blast
qed

lemma filepath_Join_inj: "plain_name n \<Longrightarrow> plain_name n' \<Longrightarrow> filepath_Join dir n = filepath_Join dir n' \<longleftrightarrow> n = n'"
  using filepath_Join_plain [of dir] by fastforce

lemma plain_files [simp]:
  assumes "plain_host h"
  shows "plain_name (h @ ''.crt'')" "plain_name (h @ ''.key'')"
  using assms by (cases h; auto simp: plain_name_def plain_host_def append_eq_Cons_conv)+

lemma plain_metadata [simp]: "plain_name ''metadata.json''"
  by (simp add: plain_name_def)

lemma paths_distinct:
  assumes "plain_host h" "plain_host h'"
  shows "crtPath dir h = crtPath dir h' \<longleftrightarrow> h = h'" "keyPath dir h = keyPath dir h' \<longleftrightarrow> h = h'"
    "crtPath dir h \<noteq> keyPath dir h'" "metadataPath dir \<noteq> crtPath dir h" "metadataPath dir \<noteq> keyPath dir h"
    "keyPath dir h' \<noteq> crtPath dir h" "crtPath dir h \<noteq> metadataPath dir" "keyPath dir h \<noteq> metadataPath dir"
proof -
  have ends: "u @ ''.crt'' \<noteq> v @ ''.key''" "''metadata.json'' \<noteq> u @ ''.crt''" "''metadata.json'' \<noteq> u @ ''.key''" for u v :: string
    by (auto dest: arg_cong [of _ _ last] arg_cong [of _ _ rev])
  show "crtPath dir h = crtPath dir h' \<longleftrightarrow> h = h'" "keyPath dir h = keyPath dir h' \<longleftrightarrow> h = h'"
    using assms by (simp_all add: crtPath_def keyPath_def filepath_Join_inj)
  show "crtPath dir h \<noteq> keyPath dir h'" "metadataPath dir \<noteq> crtPath dir h" "metadataPath dir \<noteq> keyPath dir h"
    "keyPath dir h' \<noteq> crtPath dir h" "crtPath dir h \<noteq> metadataPath dir" "keyPath dir h \<noteq> metadataPath dir"
    using assms ends by (simp_all add: crtPath_def keyPath_def metadataPath_def filepath_Join_inj)
qed

text \<open>With slashes nothing keeps the files inside the directory, nor the files of two host names apart.\<close>

lemma host_escapes_directory:
  "crtPath ''/var/cp/certs'' ''../../../etc/ssl/site'' = ''/etc/ssl/site.crt''"
  "crtPath ''/var/cp/certs'' ''x/../a.com'' = crtPath ''/var/cp/certs'' ''a.com''"
  by code_simp+

section \<open>The files follow the manager\<close>

datatype certOp =
    OpStore string bytes bytes | OpSelfSigned string | OpACME string | OpDelete string

definition cert_op :: "certLib \<Rightarrow> Manager \<Rightarrow> certEnv \<times> certOp \<Rightarrow> Manager" where
  "cert_op lib m x = (case x of (ev, op) \<Rightarrow> case op of
      OpStore h c k \<Rightarrow> snd (StoreCert lib ev m h c k)
    | OpSelfSigned h \<Rightarrow> snd (ProvisionSelfSigned lib ev m h)
    | OpACME h \<Rightarrow> snd (ProvisionACME lib ev m h)
    | OpDelete h \<Rightarrow> DeleteCert lib ev m h)"

definition op_host :: "certOp \<Rightarrow> string" where
  "op_host op = (case op of OpStore h _ _ \<Rightarrow> h | OpSelfSigned h \<Rightarrow> h | OpACME h \<Rightarrow> h | OpDelete h \<Rightarrow> h)"

definition writes_ok :: "certEnv \<Rightarrow> bool" where
  "writes_ok ev = (\<forall>path old data. ceWrite ev path old data = (None, Some data))"

text \<open>What \<open>crypto/tls\<close> and \<open>crypto/x509\<close> promise: a certificate made with a key forms a pair with it.\<close>

definition pairs_match :: "certLib \<Rightarrow> bool" where
  "pairs_match lib = (\<forall>rnd t key der kd. ckCreate lib rnd t key = Inr der \<longrightarrow> ckMarshalKey lib key = Inr kd \<longrightarrow>
     (\<exists>c. ckKeyPair lib (ckPem lib ''CERTIFICATE'' der) (ckPem lib ''EC PRIVATE KEY'' kd) = Inr c))"

definition metadata_saved :: "certLib \<Rightarrow> Manager \<Rightarrow> bool" where
  "metadata_saved lib m =
     (case cmFiles m (metadataPath (cmDir m)) of
        None \<Rightarrow> cmCerts m = Map.empty \<or> ckMarshal lib (cmCerts m) = None
      | Some data \<Rightarrow> ckMarshal lib (cmCerts m) \<in> {None, Some data})"

definition pairs_saved :: "certLib \<Rightarrow> Manager \<Rightarrow> bool" where
  "pairs_saved lib m =
     (dom (cmTls m) = dom (cmCerts m) \<and> (\<forall>h t. cmTls m h = Some t \<longrightarrow> plain_host h \<and> load_pair lib m h = Some t))"

definition same_config :: "Manager \<Rightarrow> Manager \<Rightarrow> bool" where
  "same_config m m' = (cmDir m' = cmDir m \<and> cmSelfSignedOnly m' = cmSelfSignedOnly m \<and> cmAcme m' = cmAcme m)"

lemma write_ok: "writes_ok ev \<Longrightarrow> os_WriteFile ev m path data = (None, m\<lparr>cmFiles := (cmFiles m)(path \<mapsto> data)\<rparr>)"
  by (simp add: os_WriteFile_def writes_ok_def)

lemma write_pair_ok:
  "writes_ok ev \<Longrightarrow> write_pair ev m h c k =
     (None, m\<lparr>cmFiles := (cmFiles m)(crtPath (cmDir m) h \<mapsto> c, keyPath (cmDir m) h \<mapsto> k)\<rparr>)"
  by (simp add: write_pair_def write_ok)

lemma save_fields [simp]:
  "cmDir (saveMetadata lib ev m) = cmDir m" "cmCerts (saveMetadata lib ev m) = cmCerts m" "cmTls (saveMetadata lib ev m) = cmTls m"
  "cmAcme (saveMetadata lib ev m) = cmAcme m" "cmSelfSignedOnly (saveMetadata lib ev m) = cmSelfSignedOnly m"
  by (simp_all add: saveMetadata_def os_WriteFile_def split: option.splits prod.splits)

lemma save_saved: "writes_ok ev \<Longrightarrow> metadata_saved lib (saveMetadata lib ev m)"
  by (simp add: metadata_saved_def saveMetadata_def write_ok split: option.splits)

lemma save_load [simp]:
  assumes "writes_ok ev" "plain_host h"
  shows "load_pair lib (saveMetadata lib ev m) h = load_pair lib m h"
  using assms by (simp add: saveMetadata_def write_ok load_pair_def paths_distinct split: option.splits)

lemma save_pairs: "writes_ok ev \<Longrightarrow> pairs_saved lib m \<Longrightarrow> pairs_saved lib (saveMetadata lib ev m)"
  by (auto simp: pairs_saved_def)

text \<open>Writing a pair that belongs together and installing it keeps every pair in step with its files.\<close>

lemma install_pairs:
  assumes ok: "writes_ok ev" and h: "plain_host h" and pair: "ckKeyPair lib c k = Inr t" and inv: "pairs_saved lib m"
  shows "pairs_saved lib (saveMetadata lib ev (install (snd (write_pair ev m h c k)) h info t))"
proof (rule save_pairs [OF ok])
  let ?m = "install (snd (write_pair ev m h c k)) h info t"
  have "load_pair lib ?m h' = (if h' = h then Some t else load_pair lib m h')" if "plain_host h'" for h'
    using that h by (simp add: write_pair_ok [OF ok] install_def load_pair_def paths_distinct pair cong: option.case_cong)
  moreover have "cmTls ?m = (cmTls m)(h \<mapsto> t)" "cmCerts ?m = (cmCerts m)(h \<mapsto> info)"
    by (simp_all add: write_pair_ok [OF ok] install_def)
  ultimately show "pairs_saved lib ?m" using inv h by (auto simp: pairs_saved_def)
qed

lemma delete_pairs:
  assumes ok: "writes_ok ev" and h: "plain_host h" and inv: "pairs_saved lib m"
  shows "pairs_saved lib (DeleteCert lib ev m h)"
  unfolding DeleteCert_def Let_def
proof (rule save_pairs [OF ok])
  let ?m = "m\<lparr>cmCerts := (cmCerts m)(h := None), cmTls := (cmTls m)(h := None)\<rparr>"
  let ?n = "os_Remove ev (os_Remove ev ?m (crtPath (cmDir ?m) h)) (keyPath (cmDir (os_Remove ev ?m (crtPath (cmDir ?m) h))) h)"
  have "load_pair lib ?n h' = load_pair lib m h'" if "plain_host h'" "h' \<noteq> h" for h'
    using that h by (simp add: os_Remove_def load_pair_def paths_distinct cong: option.case_cong)
  moreover have "cmTls ?n = (cmTls m)(h := None)" "cmCerts ?n = (cmCerts m)(h := None)"
    by (simp_all add: os_Remove_def)
  ultimately show "pairs_saved lib ?n" using inv by (auto simp: pairs_saved_def)
qed

text \<open>The outcomes of the operations of a manager without ACME, when the writes succeed.\<close>

definition installs :: "certLib \<Rightarrow> certEnv \<Rightarrow> Manager \<Rightarrow> string \<Rightarrow> Manager \<Rightarrow> bool" where
  "installs lib ev m h m' = (\<exists>c k t info. ckKeyPair lib c k = Inr t \<and> ciHostname info = h
     \<and> m' = saveMetadata lib ev (install (snd (write_pair ev m h c k)) h info t))"

lemma installsI:
  "ckKeyPair lib c k = Inr t \<Longrightarrow> write_pair ev m h c k = (None, m1) \<Longrightarrow> ciHostname info = h \<Longrightarrow>
   m' = saveMetadata lib ev (install m1 h info t) \<Longrightarrow> installs lib ev m h m'"
  unfolding installs_def by (metis snd_conv)

lemma store_outcome:
  assumes "writes_ok ev"
  shows "snd (StoreCert lib ev m h c k) = m \<or> installs lib ev m h (snd (StoreCert lib ev m h c k))"
proof (cases "ckKeyPair lib c k")
  case (Inr t)
  obtain m' where m': "write_pair ev m h c k = (None, m')" using write_pair_ok [OF assms] by blast
  show ?thesis
  proof (cases "parse_leaf lib t ErrParse")
    case (Inr leaf)
    have "installs lib ev m h (snd (StoreCert lib ev m h c k))"
      by (rule installsI [OF \<open>ckKeyPair lib c k = Inr t\<close> m'])
        (simp_all add: StoreCert_def \<open>ckKeyPair lib c k = Inr t\<close> m' Inr)
    then show ?thesis ..
  qed (simp add: StoreCert_def Inr)
qed (simp add: StoreCert_def)

lemma make_pair_match:
  assumes "pairs_match lib" "make_pair lib ev h = Inr (c, k)"
  shows "ckKeyPair lib c k = Inr (pair_or_zero lib c k)"
proof -
  have "\<exists>t. ckKeyPair lib c k = Inr t"
    using assms by (auto simp: make_pair_def pairs_match_def split: sum.splits)
  then show ?thesis by (auto simp: pair_or_zero_def)
qed

lemma self_signed_outcome:
  assumes ok: "writes_ok ev" and lib: "pairs_match lib"
  shows "snd (ProvisionSelfSigned lib ev m h) = m \<or> installs lib ev m h (snd (ProvisionSelfSigned lib ev m h))"
proof (cases "make_pair lib ev h")
  case (Inr p)
  then obtain c k where p: "make_pair lib ev h = Inr (c, k)" by (cases p) auto
  obtain m' where m': "write_pair ev m h c k = (None, m')" using write_pair_ok [OF ok] by blast
  have "installs lib ev m h (snd (ProvisionSelfSigned lib ev m h))"
    using installsI [OF make_pair_match [OF lib p] m'] by (simp add: ProvisionSelfSigned_def p m')
  then show ?thesis ..
qed (simp add: ProvisionSelfSigned_def)

lemma acme_outcome:
  assumes "cmSelfSignedOnly m"
  shows "snd (ProvisionACME lib ev m h) \<in> {m, snd (ProvisionSelfSigned lib ev m h),
           saveMetadata lib ev (mark_acme (snd (ProvisionSelfSigned lib ev m h)) h)}"
  using assms by (auto simp: ProvisionACME_def split: prod.splits option.splits)

lemma mark_fields [simp]:
  "cmDir (mark_acme m h) = cmDir m" "cmTls (mark_acme m h) = cmTls m" "cmFiles (mark_acme m h) = cmFiles m"
  "cmSelfSignedOnly (mark_acme m h) = cmSelfSignedOnly m" "cmAcme (mark_acme m h) = cmAcme m"
  by (simp_all add: mark_acme_def split: option.splits)

lemma mark_pairs: "pairs_saved lib m \<Longrightarrow> pairs_saved lib (mark_acme m h)"
proof -
  have "dom (cmCerts (mark_acme m h)) = dom (cmCerts m)" by (auto simp: mark_acme_def split: option.splits)
  moreover have "load_pair lib (mark_acme m h) = load_pair lib m" by (simp add: load_pair_def fun_eq_iff cong: option.case_cong)
  ultimately show "pairs_saved lib m \<Longrightarrow> pairs_saved lib (mark_acme m h)" by (simp add: pairs_saved_def)
qed

definition in_step :: "certLib \<Rightarrow> string \<Rightarrow> Manager \<Rightarrow> bool" where
  "in_step lib dir m = (pairs_saved lib m \<and> metadata_saved lib m \<and> cmSelfSignedOnly m \<and> cmDir m = dir)"

lemma installs_in_step:
  assumes "writes_ok ev" "plain_host h" "in_step lib dir m" "installs lib ev m h m'"
  shows "in_step lib dir m'"
  using assms install_pairs [OF assms(1,2)] save_saved [OF assms(1)] write_pair_ok [OF assms(1)]
  by (auto simp: installs_def in_step_def) (simp_all add: install_def)

lemma op_in_step:
  assumes ok: "writes_ok ev" and h: "plain_host (op_host op)" and lib: "pairs_match lib" and inv: "in_step lib dir m"
  shows "in_step lib dir (cert_op lib m (ev, op))"
proof (cases op)
  case (OpStore x c k)
  then show ?thesis using store_outcome [OF ok, of lib m x c k] installs_in_step [OF ok _ inv] h inv
    by (auto simp: cert_op_def op_host_def)
next
  case (OpSelfSigned x)
  then show ?thesis using self_signed_outcome [OF ok lib, of m x] installs_in_step [OF ok _ inv] h inv
    by (auto simp: cert_op_def op_host_def)
next
  case (OpACME x)
  let ?n = "snd (ProvisionSelfSigned lib ev m x)"
  have n: "in_step lib dir ?n"
    using self_signed_outcome [OF ok lib, of m x] installs_in_step [OF ok _ inv] h inv OpACME by (auto simp: op_host_def)
  then have "in_step lib dir (saveMetadata lib ev (mark_acme ?n x))"
    by (simp add: in_step_def save_pairs [OF ok] mark_pairs save_saved [OF ok])
  then show ?thesis using acme_outcome [of m lib ev x] inv n OpACME by (auto simp: cert_op_def in_step_def)
next
  case (OpDelete x)
  then show ?thesis using inv h delete_pairs [OF ok, of x lib m]
    by (simp add: cert_op_def op_host_def in_step_def) (simp add: DeleteCert_def Let_def save_saved [OF ok] os_Remove_def)
qed

lemma ops_in_step:
  assumes "\<forall>(ev, op) \<in> set ops. writes_ok ev \<and> plain_host (op_host op)" "pairs_match lib" "in_step lib dir m"
  shows "in_step lib dir (foldl (cert_op lib) m ops)"
  using assms by (induction ops arbitrary: m) (auto simp: op_in_step)

lemma new_manager_loads:
  assumes "in_step lib (filepath_Join dir ''certs'') m" "\<not> ceMkdirFails ev"
    and "ckMarshal lib (cmCerts m) = Some data" "ckUnmarshal lib data Map.empty = cmCerts m"
  shows "\<exists>m'. NewManagerWithConfig lib ev dir True (cmFiles m) = Some m' \<and> cmCerts m' = cmCerts m \<and> cmTls m' = cmTls m"
proof -
  let ?d = "filepath_Join dir ''certs''"
  let ?n = "\<lparr>cmDir = ?d, cmCerts = Map.empty, cmTls = Map.empty, cmAcme = False, cmSelfSignedOnly = True, cmFiles = cmFiles m\<rparr>"
  have dir: "cmDir m = ?d" and pairs: "pairs_saved lib m" and meta: "metadata_saved lib m"
    using assms(1) by (auto simp: in_step_def)
  have load: "loadMetadata lib ?n = ?n\<lparr>cmCerts := cmCerts m\<rparr>"
    using meta assms(3,4) by (auto simp: loadMetadata_def metadata_saved_def dir split: option.splits)
  have same: "load_pair lib \<lparr>cmDir = ?d, cmCerts = cmCerts m, cmTls = Map.empty, cmAcme = False, cmSelfSignedOnly = True, cmFiles = cmFiles m\<rparr> h
      = load_pair lib m h" for h
    by (simp add: load_pair_def dir cong: option.case_cong)
  have "(if cmCerts m h = None then None else case load_pair lib m h of None \<Rightarrow> None | Some t \<Rightarrow> Some t) = cmTls m h" for h
  proof (cases "cmTls m h")
    case None
    then have "h \<notin> dom (cmCerts m)" using pairs by (metis pairs_saved_def domIff)
    then show ?thesis using None by (simp add: domIff)
  next
    case (Some t)
    then have "h \<in> dom (cmCerts m)" using pairs by (metis pairs_saved_def domI)
    then show ?thesis using Some pairs by (simp add: pairs_saved_def domIff)
  qed
  then have "cmTls (loadCertsFromDisk lib (loadMetadata lib ?n)) = cmTls m"
    unfolding load loadCertsFromDisk_def Manager.simps same by (intro ext)
  moreover have "cmCerts (loadCertsFromDisk lib (loadMetadata lib ?n)) = cmCerts m" by (simp add: loadCertsFromDisk_def load)
  ultimately show ?thesis using assms(2) by (simp add: NewManagerWithConfig_def)
qed


definition sample_lib :: certLib where
  "sample_lib = \<lparr>ckKeyPair = (\<lambda>c k. Inr \<lparr>tcCertificate = [c], tcPrivateKey = k\<rparr>),
     ckParse = (\<lambda>der. Inr \<lparr>lfNotBefore = 0, lfNotAfter = 90 * day, lfIssuer = der\<rparr>),
     ckCreate = (\<lambda>rnd t key. Inr (ctCommonName t)), ckMarshalKey = Inr, ckPem = (\<lambda>kind b. b),
     ckMarshal = (\<lambda>st. Some ''{}''),
     ckUnmarshal = (\<lambda>b st. st(''a.com'' \<mapsto> \<lparr>ciHostname = ''a.com'', ciNotBefore = 5, ciNotAfter = 5 + 365 * day, ciIssuer = ''self-signed'',
        ciAutoRenew = False, ciSource = ''self-signed''\<rparr>))\<rparr>"

definition sample_certEnv :: "instant \<Rightarrow> certEnv" where
  "sample_certEnv now = \<lparr>ceMkdirFails = False, ceWrite = (\<lambda>p f b. (None, Some b)), ceRemove = (\<lambda>p. True), ceNow = (\<lambda>i. now), ceKey = Inr ''k'',
     ceSerial = 1, ceRandom = [], ceAcme = (\<lambda>h ok. Inl ''no network'')\<rparr>"

definition sample_ops :: "(certEnv \<times> certOp) list" where
  "sample_ops = [(sample_certEnv 5, OpSelfSigned ''a.com''), (sample_certEnv 6, OpStore ''b.com'' ''c'' ''k''), (sample_certEnv 7, OpDelete ''b.com'')]"

lemma sample_paths:
  "crtPath ''/d/certs'' ''a.com'' = ''/d/certs/a.com.crt''" "keyPath ''/d/certs'' ''a.com'' = ''/d/certs/a.com.key''"
  "crtPath ''/d/certs'' ''b.com'' = ''/d/certs/b.com.crt''" "keyPath ''/d/certs'' ''b.com'' = ''/d/certs/b.com.key''"
  "metadataPath ''/d/certs'' = ''/d/certs/metadata.json''" "filepath_Join ''/d'' ''certs'' = ''/d/certs''"
  by code_simp+


section \<open>Renewal\<close>

definition renewed :: "certEnv \<Rightarrow> string \<Rightarrow> CertInfo" where
  "renewed ev h =
     \<lparr>ciHostname = h, ciNotBefore = ceNow ev 1, ciNotAfter = ceNow ev 2 + 365 * day, ciIssuer = ''self-signed'', ciAutoRenew = True, ciSource = ''acme''\<rparr>"

lemma acme_renews:
  assumes "writes_ok ev" "make_pair lib ev h = Inr (c, k)" "cmSelfSignedOnly m" "\<not> still_valid ev m h"
  defines "m' \<equiv> snd (ProvisionACME lib ev m h)"
  shows "cmCerts m' = (cmCerts m)(h \<mapsto> renewed ev h)" "cmTls m' = (cmTls m)(h \<mapsto> pair_or_zero lib c k)" "cmSelfSignedOnly m'"
  using assms(1-4) unfolding m'_def
  by (simp_all add: ProvisionACME_def ProvisionSelfSigned_def write_pair_ok mark_acme_def install_def renewed_def)

lemma renew_each_certs:
  assumes "\<forall>h \<in> set hs. writes_ok (evs h) \<and> (\<exists>p. make_pair lib (evs h) h = Inr p) \<and> \<not> still_valid (evs h) m h"
    and "distinct hs" "cmSelfSignedOnly m"
  shows "cmCerts (renew_each lib evs m hs) h = (if h \<in> set hs then Some (renewed (evs h) h) else cmCerts m h)
    \<and> (h \<notin> set hs \<longrightarrow> cmTls (renew_each lib evs m hs) h = cmTls m h)"
  using assms
proof (induction hs arbitrary: m)
  case (Cons x hs)
  let ?m = "snd (ProvisionACME lib (evs x) m x)"
  obtain c k where "make_pair lib (evs x) x = Inr (c, k)" using Cons.prems(1) by auto
  then have x: "cmCerts ?m = (cmCerts m)(x \<mapsto> renewed (evs x) x)" "cmTls ?m = (cmTls m)(x \<mapsto> pair_or_zero lib c k)" "cmSelfSignedOnly ?m"
    using acme_renews [of "evs x" lib x c k m] Cons.prems by simp_all
  then have "still_valid (evs y) ?m y = still_valid (evs y) m y" if "y \<in> set hs" for y
    using that Cons.prems(2) by (auto simp: still_valid_def)
  then have "cmCerts (renew_each lib evs ?m hs) h = (if h \<in> set hs then Some (renewed (evs h) h) else cmCerts ?m h)
    \<and> (h \<notin> set hs \<longrightarrow> cmTls (renew_each lib evs ?m hs) h = cmTls ?m h)"
    using Cons.prems x(3) by (intro Cons.IH) auto
  then show ?case using x Cons.prems(2) by (auto simp: renew_each_def)
qed (simp add: renew_each_def)



section \<open>What goes wrong with ACME\<close>

text \<open>
  A renewal by ACME that fails once removes the entry: the host name is never looked at again by the renewal checker,
  and the manager goes on serving the old certificate until it has expired.
\<close>

lemma acme_failure_forgets:
  fixes lib :: certLib
  assumes "cmAcme m" "\<not> cmSelfSignedOnly m" "\<not> still_valid ev m h" "\<And>ok. ceAcme ev h ok = Inl e"
  defines "m' \<equiv> snd (ProvisionACME lib ev m h)"
  shows "fst (ProvisionACME lib ev m h) = Some (ErrAcme h e)" "cmTls m' = cmTls m" "cmCerts m' = (cmCerts m)(h := None)"
    "\<not> due scan m' h" "cmTls m h = Some t \<Longrightarrow> GetCertificate ev' m' h = Inr t"
  using assms(1-4) unfolding m'_def
  by (simp_all add: ProvisionACME_def Let_def due_def GetCertificate_def)

text \<open>A host name with a custom certificate that is still valid is reported as provisioned by ACME, though nothing renews it.\<close>

lemma acme_ignores_source:
  assumes "cmCerts m h = Some ci" "ciNotAfter ci > ceNow ev 0 + 30 * day" "\<not> ciAutoRenew ci"
  shows "ProvisionACME lib ev m h = (None, m)" "\<not> due scan m h"
  using assms by (simp_all add: ProvisionACME_def still_valid_def due_def)

end
