(* ===== verification/CpProcess.thy ===== *)
theory CpProcess
  imports CpSync CpApi Analytics Certs
begin

text \<open>
  \<open>controlplane/cmd/main.go\<close>: the settings of the control plane, the handlers it wires into the API and the routes of its
  server. The wired handlers are those of the collector and the certificate manager as they stand, on a fresh response
  writer; the purge handler is the closure of \<open>main\<close>.
\<close>

record cpSettings =
  csListen :: string
  csAdminKey :: string
  csDataDir :: string

text \<open>The flags as parsed, then the environment; \<open>None\<close> when the process exits for want of an admin key.\<close>

definition flag_defaults :: cpSettings where
  "flag_defaults = \<lparr>csListen = '':9090'', csAdminKey = [], csDataDir = ''./cp-data''\<rparr>"

definition cp_settings :: "(string \<Rightarrow> string) \<Rightarrow> cpSettings \<Rightarrow> cpSettings option" where
  "cp_settings getenv flags =
     (let over = (\<lambda>key v. let e = getenv key in if e \<noteq> [] then e else v);
          cs = \<lparr>csListen = over ''CP_LISTEN'' (csListen flags), csAdminKey = over ''CP_ADMIN_KEY'' (csAdminKey flags),
                csDataDir = over ''CP_DATA_DIR'' (csDataDir flags)\<rparr>
      in if csAdminKey cs = [] then None else Some cs)"

section \<open>The wired handlers\<close>

definition pushErr_Error :: "pushErr \<Rightarrow> string" where
  "pushErr_Error e = (case e of ErrPush s \<Rightarrow> s | ErrPushStatus code \<Rightarrow> ''HTTP '' @ strconv_Itoa code)"

definition purge_error :: "(string \<times> pushErr) list \<Rightarrow> string" where
  "purge_error errs =
     ''purge failed on: ['' @ strings_Join (map (\<lambda>(name, e). name @ '': '' @ pushErr_Error e) errs) (CHR '' '') @ '']''"

definition cp_purge :: "syncEnv \<Rightarrow> string \<Rightarrow> string list \<Rightarrow> Store \<Rightarrow> apiReq \<Rightarrow> apiResp" where
  "cp_purge sy adminKey eorder st r =
     (if aqMethod r \<noteq> ''POST'' then (405, BError ''method not allowed'')
      else case PurgeAll sy adminKey eorder st of
             (Some errs, _) \<Rightarrow> (502, BError (purge_error errs))
           | (None, _) \<Rightarrow> (200, BStatus ''purged''))"

definition external :: "respw \<Rightarrow> apiResp" where
  "external w = (rw_status w, BExternal (rwBody w))"

record cpWorld =
  cwSync :: syncEnv
  cwEorder :: "string list"
  cwDecode :: "bytes \<Rightarrow> LogEntry list option"
  cwEncode :: "DomainStats list \<Rightarrow> bytes"
  cwHosts :: "string list"
  cwLib :: certLib
  cwCertEnv :: certEnv
  cwCertJson :: certJson

definition cp_server :: "cpWorld \<Rightarrow> cpSettings \<Rightarrow> Collector \<Rightarrow> Manager \<Rightarrow> Store \<Rightarrow> Server" where
  "cp_server cw cs collector certMgr st =
     (let sv = api_New st (csAdminKey cs) True;
          sv = SetAnalyticsHandlers sv
                 (Some (\<lambda>r. external (fst (HandleIngest (cwDecode cw) collector new_respw (aqMethod r) (aqBody r)))))
                 (Some (\<lambda>r. external (HandleQuery (cwEncode cw) (cwHosts cw) collector new_respw (aqQuery r))));
          sv = SetPurgeHandler sv (Some (cp_purge (cwSync cw) (csAdminKey cs) (cwEorder cw) st))
      in SetCertsHandlers sv
           (Some (\<lambda>r. external (fst (HandleCerts (cwLib cw) (cwCertEnv cw) (cwCertJson cw) (cwHosts cw) certMgr new_respw (aqMethod r) (aqBody r)))))
           (Some (\<lambda>r. external (fst (HandleCert (cwLib cw) (cwCertEnv cw) (cwCertJson cw) certMgr new_respw (aqMethod r) (aqPath r))))))"

section \<open>The routes\<close>

datatype cpRoute = CpRedirect string | CpProbe | CpApi | CpDashboard

definition cp_route :: "string \<Rightarrow> cpRoute" where
  "cp_route path =
     (if mux_clean path \<noteq> path then CpRedirect (mux_clean path)
      else if path = ''/livez'' \<or> path = ''/readyz'' then CpProbe
      else if path = ''/api'' then CpRedirect ''/api/''
      else if strings_HasPrefix path ''/api/'' then CpApi
      else CpDashboard)"

section \<open>The purge endpoint\<close>

lemma cp_server_fields:
  "svStore (cp_server cw cs c m st) = st" "svAdminKey (cp_server cw cs c m st) = csAdminKey cs"
  "svPurge (cp_server cw cs c m st) = Some (cp_purge (cwSync cw) (csAdminKey cs) (cwEorder cw) st)"
  by (simp_all add: cp_server_def Let_def api_New_def SetAnalyticsHandlers_def SetPurgeHandler_def SetCertsHandlers_def)

lemma purge_path_clean: "mux_clean ''/api/v1/purge'' = ''/api/v1/purge''"
  by code_simp

text \<open>
  C34. The purge endpoint of the running control plane. A request to \<open>/api/v1/purge\<close> never changes the store. It is answered
  401 without the admin key or the key of a tenant, 405 unless it is a POST, 200 exactly when
  every active edge accepted the purge, and 502 naming the edges that did not otherwise. The key of any one tenant
  purges the caches of all.
\<close>

theorem purge_endpoint:
  assumes "visits (aeTorder ev) (sdTenants (stData st))" and "visits (cwEorder cw) (sdEdgeNodes (stData st))" and "aqPath r = ''/api/v1/purge''"
  shows "svStore (snd (api_Handler ev (cp_server cw cs c m st) r)) = st
    \<and> fst (fst (api_Handler ev (cp_server cw cs c m st) r)) =
        (if extractAPIKey r \<noteq> csAdminKey cs \<and> \<not> tenant_key st (extractAPIKey r) then 401
         else if aqMethod r \<noteq> ''POST'' then 405
         else if \<forall>e \<in> ran (sdEdgeNodes (stData st)). enActive e \<longrightarrow>
                   edge_accepts (cwSync cw) (csAdminKey cs) ''/purge'' (syPurgeBody (cwSync cw)) e then 200
         else 502)"
proof -
  let ?sv = "cp_server cw cs c m st"
  have route: "api_Handler ev ?sv r = auth ev handlePurge ?sv r"
    using assms(3) purge_path_clean by (simp add: api_Handler_def Let_def strings_HasPrefix_def)
  have purge: "handlePurge ?sv r = (cp_purge (cwSync cw) (csAdminKey cs) (cwEorder cw) st r, ?sv)"
    by (simp add: handlePurge_def cp_server_fields)
  have "fst (cp_purge (cwSync cw) (csAdminKey cs) (cwEorder cw) st r) =
      (if aqMethod r \<noteq> ''POST'' then 405
       else if \<forall>e \<in> ran (sdEdgeNodes (stData st)). enActive e \<longrightarrow>
                 edge_accepts (cwSync cw) (csAdminKey cs) ''/purge'' (syPurgeBody (cwSync cw)) e then 200
       else 502)"
    using purge_all_reports [OF assms(2), of "cwSync cw" "csAdminKey cs"]
    by (cases "PurgeAll (cwSync cw) (csAdminKey cs) (cwEorder cw) st"; cases "fst (PurgeAll (cwSync cw) (csAdminKey cs) (cwEorder cw) st)")
       (auto simp: cp_purge_def Let_def)
  moreover have "auth ev handlePurge ?sv r =
      (if extractAPIKey r \<noteq> csAdminKey cs \<and> \<not> tenant_key st (extractAPIKey r) then ((401, BError ''unauthorized''), ?sv) else handlePurge ?sv r)"
  proof (cases "extractAPIKey r = csAdminKey cs")
    case True
    then show ?thesis by (simp add: auth_def cp_server_fields)
  next
    case False
    then show ?thesis using auth_other [of ev ?sv r handlePurge] assms(1) by (simp add: cp_server_fields)
  qed
  ultimately show ?thesis by (simp add: route purge cp_server_fields)
qed

definition sample_world :: cpWorld where
  "sample_world = \<lparr>cwSync = demo_sync, cwEorder = [], cwDecode = (\<lambda>b. None), cwEncode = (\<lambda>ds. []), cwHosts = [], cwLib = sample_lib,
     cwCertEnv = sample_certEnv 0, cwCertJson = \<lparr>cjDecode = (\<lambda>b. None), cjList = (\<lambda>cs. []), cjInfo = (\<lambda>c. []), cjError = (\<lambda>e. e)\<rparr>\<rparr>"

definition sample_manager :: Manager where
  "sample_manager = \<lparr>cmDir = ''/d/certs'', cmCerts = Map.empty, cmTls = Map.empty, cmAcme = False, cmSelfSignedOnly = True, cmFiles = Map.empty\<rparr>"

theorem purge_endpoint_witness:
  "fst (fst (api_Handler demo_apiEnv (cp_server sample_world \<lparr>csListen = [], csAdminKey = ''secret'', csDataDir = []\<rparr> (empty_collector []) sample_manager demo_store)
     (demo_apiReq ''POST'' ''/api/v1/purge'' ''secret''))) = 200"
proof -
  have v: "visits (aeTorder demo_apiEnv) (sdTenants (stData demo_store))" "visits (cwEorder sample_world) (sdEdgeNodes (stData demo_store))"
    by (simp_all add: visits_def demo_apiEnv_def sample_world_def demo_store_data empty_storeData_def)
  have p: "aqPath (demo_apiReq ''POST'' ''/api/v1/purge'' ''secret'') = ''/api/v1/purge''" by (simp add: demo_apiReq_def)
  have k: "extractAPIKey (demo_apiReq ''POST'' ''/api/v1/purge'' ''secret'') = ''secret''" "aqMethod (demo_apiReq ''POST'' ''/api/v1/purge'' ''secret'') = ''POST''"
    by code_simp+
  have e: "ran (sdEdgeNodes (stData demo_store)) = {}" by (simp add: demo_store_data empty_storeData_def)
  from purge_endpoint [OF v p, of "\<lparr>csListen = [], csAdminKey = ''secret'', csDataDir = []\<rparr>" "empty_collector []" sample_manager] k e
  show ?thesis by simp
qed

text \<open>Access logs are taken from anybody: the ingest route asks for no key.\<close>

lemma ingest_open:
  assumes "aqPath r = ''/api/v1/analytics/ingest''" "aqMethod r = ''POST''" "cwDecode cw (aqBody r) = Some entries"
  shows "fst (fst (api_Handler ev (cp_server cw cs c m st) r)) = 200"
proof -
  have "mux_clean ''/api/v1/analytics/ingest'' = ''/api/v1/analytics/ingest''" by code_simp
  then show ?thesis using assms
    by (simp add: api_Handler_def Let_def strings_HasPrefix_def handleAnalyticsIngest_def cp_server_def api_New_def SetAnalyticsHandlers_def
        SetPurgeHandler_def SetCertsHandlers_def HandleIngest_def external_def rw_status_def w_Write_def w_WriteHeader_def w_Set_def new_respw_def)
qed

end
