(* ===== verification/Upgrade.thy ===== *)
theory Upgrade
  imports GoStrings "HOL-Library.Sublist"
begin

text \<open>
  \<open>upgrade/upgrade.go\<close>: replacing the running binary. The parent starts a copy of itself that inherits the listening
  socket and the write end of a pipe, and waits until that end is closed. The environment is the list of its
  \<open>NAME=value\<close> entries; a listener, a file and a pipe end are numbers; what the system calls answer and what becomes of the
  child are the parameter \<open>upgradeEnv\<close>. The descriptors the parent has open for the upgrade are part of its state.
\<close>

definition EnvUpgradeFD :: string where
  "EnvUpgradeFD = ''CDN_UPGRADE_FD''"

definition EnvUpgradeReady :: string where
  "EnvUpgradeReady = ''CDN_UPGRADE_READY_FD''"

text \<open>\<open>os.Getenv\<close>: the value of the first entry of that name, empty when there is none.\<close>

fun os_Getenv :: "string list \<Rightarrow> string \<Rightarrow> string" where
  "os_Getenv [] key = []"
| "os_Getenv (e # es) key = (if strings_HasPrefix e (key @ ''='') then drop (length key + 1) e else os_Getenv es key)"

section \<open>Listeners\<close>

datatype upErr =
    ErrInvalidFD string | ErrOpenFD int | ErrFileListener int string
  | ErrControl string | ErrReuseAddr string | ErrReusePort string | ErrListen string
  | ErrExtract string | ErrPipe string | ErrExecutable string | ErrStart string | ErrCtx
  | ErrInvalidReady string | ErrOpenReady int | ErrCloseReady string

text \<open>How the child ends its hold on the pipe: by closing it when ready, by dying, or never.\<close>

datatype childFate = ChildReady | ChildDied | ChildHangs

record upgradeEnv =
  ueFileListener :: "int \<Rightarrow> string + nat"
  ueListen :: "string \<Rightarrow> string + nat"
  ueControl :: "string option"
  ueReuseAddr :: "string option"
  ueReusePort :: "string option"
  ueCloseFD :: "int \<Rightarrow> string option"
  ueFile :: "nat \<Rightarrow> string + nat"
  uePipe :: "string + nat \<times> nat"
  ueExecutable :: "string + string"
  ueArgs :: "string list"
  ueEnviron :: "string list"
  ueStart :: "string \<Rightarrow> string list \<Rightarrow> string list \<Rightarrow> nat list \<Rightarrow> string + childFate"

text \<open>\<open>os.NewFile\<close> gives nil for a negative descriptor.\<close>

definition inheritedListener :: "upgradeEnv \<Rightarrow> string \<Rightarrow> upErr + nat" where
  "inheritedListener ev fdStr =
     (case strconv_Atoi fdStr of
        None \<Rightarrow> Inl (ErrInvalidFD fdStr)
      | Some fd \<Rightarrow>
          if fd < 0 then Inl (ErrOpenFD fd)
          else case ueFileListener ev fd of Inl e \<Rightarrow> Inl (ErrFileListener fd e) | Inr sock \<Rightarrow> Inr sock)"

definition reusePortControl :: "upgradeEnv \<Rightarrow> upErr option" where
  "reusePortControl ev =
     (case ueControl ev of
        Some e \<Rightarrow> Some (ErrControl e)
      | None \<Rightarrow>
          (case ueReuseAddr ev of
             Some e \<Rightarrow> Some (ErrReuseAddr e)
           | None \<Rightarrow> (case ueReusePort ev of Some e \<Rightarrow> Some (ErrReusePort e) | None \<Rightarrow> None)))"

text \<open>\<open>Listen\<close> hands the error of the control function on.\<close>

definition newReusePortListener :: "upgradeEnv \<Rightarrow> string \<Rightarrow> upErr + nat" where
  "newReusePortListener ev addr =
     (case reusePortControl ev of
        Some e \<Rightarrow> Inl e
      | None \<Rightarrow> (case ueListen ev addr of Inl e \<Rightarrow> Inl (ErrListen e) | Inr sock \<Rightarrow> Inr sock))"

definition Listener :: "upgradeEnv \<Rightarrow> string \<Rightarrow> upErr + nat" where
  "Listener ev addr =
     (let fdStr = os_Getenv (ueEnviron ev) EnvUpgradeFD
      in if fdStr \<noteq> [] then inheritedListener ev fdStr else newReusePortListener ev addr)"

definition IsUpgrade :: "upgradeEnv \<Rightarrow> bool" where
  "IsUpgrade ev = (os_Getenv (ueEnviron ev) EnvUpgradeFD \<noteq> [])"

text \<open>The error, and the descriptor that was closed.\<close>

definition SignalReady :: "upgradeEnv \<Rightarrow> upErr option \<times> int option" where
  "SignalReady ev =
     (let fdStr = os_Getenv (ueEnviron ev) EnvUpgradeReady
      in if fdStr = [] then (None, None)
         else case strconv_Atoi fdStr of
                None \<Rightarrow> (Some (ErrInvalidReady fdStr), None)
              | Some fd \<Rightarrow>
                  if fd < 0 then (Some (ErrOpenReady fd), None)
                  else (case ueCloseFD ev fd of Some e \<Rightarrow> (Some (ErrCloseReady e), Some fd) | None \<Rightarrow> (None, Some fd)))"

section \<open>The upgrade\<close>

definition buildChildEnv :: "string list \<Rightarrow> int \<Rightarrow> int \<Rightarrow> string list" where
  "buildChildEnv environ listenerFD readyFD =
     filter (\<lambda>e. \<not> (length e > length EnvUpgradeFD \<and> take (length EnvUpgradeFD + 1) e = EnvUpgradeFD @ ''='')
               \<and> \<not> (length e > length EnvUpgradeReady \<and> take (length EnvUpgradeReady + 1) e = EnvUpgradeReady @ ''='')) environ
     @ [EnvUpgradeFD @ ''='' @ strconv_Itoa listenerFD, EnvUpgradeReady @ ''='' @ strconv_Itoa readyFD]"

record Upgrader =
  upLn :: nat
  upReady :: bool
  upOpen :: "nat set"

definition up_New :: "nat \<Rightarrow> Upgrader" where
  "up_New sock = \<lparr>upLn = sock, upReady = False, upOpen = {}\<rparr>"

definition ReadySignal :: "Upgrader \<Rightarrow> bool" where
  "ReadySignal u = upReady u"

definition up_open :: "nat \<Rightarrow> Upgrader \<Rightarrow> Upgrader" where
  "up_open fd u = u\<lparr>upOpen := insert fd (upOpen u)\<rparr>"

definition up_close :: "nat \<Rightarrow> Upgrader \<Rightarrow> Upgrader" where
  "up_close fd u = u\<lparr>upOpen := upOpen u - {fd}\<rparr>"

text \<open>
  \<open>None\<close> when the read of the pipe never returns. Reading the end of the pipe does not tell a child that closed it
  from one that died.
\<close>

definition doUpgrade :: "upgradeEnv \<Rightarrow> Upgrader \<Rightarrow> (upErr option \<times> Upgrader) option" where
  "doUpgrade ev u =
     (case ueFile ev (upLn u) of
        Inl e \<Rightarrow> Some (Some (ErrExtract e), u)
      | Inr lnFile \<Rightarrow>
          let u = up_open lnFile u
          in case uePipe ev of
               Inl e \<Rightarrow> Some (Some (ErrPipe e), up_close lnFile u)
             | Inr (readyR, readyW) \<Rightarrow>
                 let u = up_open readyW (up_open readyR u)
                 in case ueExecutable ev of
                      Inl e \<Rightarrow> Some (Some (ErrExecutable e), up_close lnFile (up_close readyR (up_close readyW u)))
                    | Inr exe \<Rightarrow>
                        (case ueStart ev exe (ueArgs ev) (buildChildEnv (ueEnviron ev) 3 4) [lnFile, readyW] of
                           Inl e \<Rightarrow> Some (Some (ErrStart e), up_close lnFile (up_close readyR (up_close readyW u)))
                         | Inr fate \<Rightarrow>
                             let u = up_close readyW u
                             in if fate = ChildHangs then None
                                else Some (None, up_close lnFile (up_close readyR (u\<lparr>upReady := True\<rparr>)))))"

datatype upEvent = CtxDone | SigUsr2

definition ListenForUpgrade :: "upgradeEnv \<Rightarrow> Upgrader \<Rightarrow> upEvent \<Rightarrow> (upErr option \<times> Upgrader) option" where
  "ListenForUpgrade ev u event = (case event of CtxDone \<Rightarrow> Some (Some ErrCtx, u) | SigUsr2 \<Rightarrow> doUpgrade ev u)"

section \<open>The hand-over\<close>

lemma Getenv_append: "os_Getenv (es @ es') key = (if \<exists>e \<in> set es. strings_HasPrefix e (key @ ''='') then os_Getenv es key else os_Getenv es' key)"
  by (induction es) auto

lemma Getenv_filter:
  "(\<And>e. e \<in> set es \<Longrightarrow> strings_HasPrefix e (key @ ''='') \<Longrightarrow> P e) \<Longrightarrow> os_Getenv (filter P es) key = os_Getenv es key"
  by (induction es) auto

lemma Getenv_none: "\<forall>e \<in> set es. \<not> strings_HasPrefix e (key @ ''='') \<Longrightarrow> os_Getenv es key = []"
  by (induction es) auto

text \<open>The length test of the source is implied by the comparison of the prefix.\<close>

lemma buildChildEnv_eq:
  "buildChildEnv es m n =
     filter (\<lambda>e. \<not> strings_HasPrefix e (EnvUpgradeFD @ ''='') \<and> \<not> strings_HasPrefix e (EnvUpgradeReady @ ''='')) es
     @ [EnvUpgradeFD @ ''='' @ strconv_Itoa m, EnvUpgradeReady @ ''='' @ strconv_Itoa n]"
proof -
  have "length e > length k \<and> take (length k + 1) e = k @ ''='' \<longleftrightarrow> strings_HasPrefix e (k @ ''='')" for e k :: string
    by (auto simp: strings_HasPrefix_def dest: arg_cong [of _ _ length])
  then show ?thesis unfolding buildChildEnv_def by simp
qed

lemma prefix_clash:
  assumes "strings_HasPrefix e (k @ ''='')" "strings_HasPrefix e (k' @ ''='')" "CHR ''='' \<notin> set k" "CHR ''='' \<notin> set k'"
  shows "k = k'"
proof -
  obtain t where e: "e = k @ CHR ''='' # t" using assms(1) by (auto simp: HasPrefix_iff)
  obtain t' where e': "e = k' @ CHR ''='' # t'" using assms(2) by (auto simp: HasPrefix_iff)
  have cut: "takeWhile (\<lambda>c. c \<noteq> CHR ''='') (x @ CHR ''='' # y) = x" if "CHR ''='' \<notin> set x" for x y :: string
    using that by (induction x) auto
  have "takeWhile (\<lambda>c. c \<noteq> CHR ''='') e = k" "takeWhile (\<lambda>c. c \<noteq> CHR ''='') e = k'"
    using cut [OF assms(3)] cut [OF assms(4)] by (simp add: e, simp add: e')
  then show ?thesis by simp
qed

text \<open>
  C36. The hand-over to the child. Whatever the environment of the parent, even one that names upgrade descriptors
  of its own, the child started by \<open>doUpgrade\<close> finds exactly descriptors 3 and 4: it takes the inherited socket instead of
  binding the address and closes the write end of the pipe to signal that it is ready, once each; every
  other variable reads as in the parent, and the entries keep their order.
\<close>

theorem upgrade_handover:
  assumes "ueEnviron child = buildChildEnv (ueEnviron parent) 3 4" and "CHR ''='' \<notin> set key"
    and "key \<notin> {EnvUpgradeFD, EnvUpgradeReady}"
  shows "IsUpgrade child
    \<and> Listener child addr = (case ueFileListener child 3 of Inl e \<Rightarrow> Inl (ErrFileListener 3 e) | Inr sock \<Rightarrow> Inr sock)
    \<and> snd (SignalReady child) = Some 4
    \<and> os_Getenv (ueEnviron child) key = os_Getenv (ueEnviron parent) key
    \<and> subseq (butlast (butlast (ueEnviron child))) (ueEnviron parent)"
proof -
  let ?es = "filter (\<lambda>e. \<not> strings_HasPrefix e (EnvUpgradeFD @ ''='') \<and> \<not> strings_HasPrefix e (EnvUpgradeReady @ ''='')) (ueEnviron parent)"
  have digits: "strconv_Itoa 3 = ''3''" "strconv_Itoa 4 = ''4''" by code_simp+
  have env: "ueEnviron child = ?es @ [EnvUpgradeFD @ ''='' @ ''3'', EnvUpgradeReady @ ''='' @ ''4'']"
    by (simp add: assms(1) buildChildEnv_eq digits)
  have fd: "os_Getenv (ueEnviron child) EnvUpgradeFD = ''3''" and ready: "os_Getenv (ueEnviron child) EnvUpgradeReady = ''4''"
    unfolding env Getenv_append by (auto simp: EnvUpgradeFD_def EnvUpgradeReady_def strings_HasPrefix_def)
  have atoi: "strconv_Atoi ''3'' = Some 3" "strconv_Atoi ''4'' = Some 4" by code_simp+
  have eq: "CHR ''='' \<notin> set EnvUpgradeFD" "CHR ''='' \<notin> set EnvUpgradeReady" by (simp_all add: EnvUpgradeFD_def EnvUpgradeReady_def)
  have other: "\<not> strings_HasPrefix e (k @ ''='')" if "strings_HasPrefix e (key @ ''='')" "k \<in> {EnvUpgradeFD, EnvUpgradeReady}" for e k
    using prefix_clash [OF that(1), of k] that(2) assms(2,3) eq by auto
  then have same: "os_Getenv ?es key = os_Getenv (ueEnviron parent) key" by (intro Getenv_filter) blast
  have "\<not> strings_HasPrefix (EnvUpgradeFD @ ''='' @ ''3'') (key @ ''='')" "\<not> strings_HasPrefix (EnvUpgradeReady @ ''='' @ ''4'') (key @ ''='')"
    using other by (metis HasPrefix_append append.assoc insertI1, metis HasPrefix_append append.assoc insertI1 insertI2)
  then have tail: "os_Getenv [EnvUpgradeFD @ ''='' @ ''3'', EnvUpgradeReady @ ''='' @ ''4''] key = []" by simp
  have "os_Getenv (ueEnviron child) key = os_Getenv ?es key"
  proof (cases "\<exists>e \<in> set ?es. strings_HasPrefix e (key @ ''='')")
    case False
    then have "os_Getenv ?es key = []" by (intro Getenv_none) blast
    then show ?thesis unfolding env Getenv_append using False tail by (simp only: if_False)
  qed (simp only: env Getenv_append if_True)
  with fd ready atoi same show ?thesis
    by (simp add: IsUpgrade_def Listener_def inheritedListener_def SignalReady_def env butlast_append split: option.split)
qed

definition sample_upgrade :: "string list \<Rightarrow> childFate \<Rightarrow> upgradeEnv" where
  "sample_upgrade environ fate =
     \<lparr>ueFileListener = (\<lambda>fd. if fd = 3 then Inr 7 else Inl ''bad descriptor''), ueListen = (\<lambda>addr. Inr 8), ueControl = None, ueReuseAddr = None,
      ueReusePort = None, ueCloseFD = (\<lambda>fd. None), ueFile = (\<lambda>sock. Inr 9), uePipe = Inr (10, 11), ueExecutable = Inr ''/bin/edge'', ueArgs = [],
      ueEnviron = environ, ueStart = (\<lambda>exe args environ files. Inr fate)\<rparr>"

theorem upgrade_handover_witness:
  "Listener (sample_upgrade (buildChildEnv [''CDN_UPGRADE_FD=9'', ''HOME=/''] 3 4) ChildReady) '':80'' = Inr 7
   \<and> os_Getenv (buildChildEnv [''CDN_UPGRADE_FD=9'', ''HOME=/''] 3 4) ''HOME'' = ''/''"
proof -
  let ?p = "sample_upgrade [''CDN_UPGRADE_FD=9'', ''HOME=/''] ChildReady"
  let ?c = "sample_upgrade (buildChildEnv [''CDN_UPGRADE_FD=9'', ''HOME=/''] 3 4) ChildReady"
  have "ueEnviron ?c = buildChildEnv (ueEnviron ?p) 3 4" "CHR ''='' \<notin> set ''HOME''" "''HOME'' \<notin> {EnvUpgradeFD, EnvUpgradeReady}"
    by (simp_all add: sample_upgrade_def EnvUpgradeFD_def EnvUpgradeReady_def)
  from upgrade_handover [OF this, of "'':80''"] show ?thesis by (simp add: sample_upgrade_def strings_HasPrefix_def)
qed

text \<open>
  The parent on every path. An upgrade leaves none of the descriptors it opened open; it reports an error exactly
  when no child was started; the ready channel is closed exactly when it reports none.
\<close>

theorem upgrade_parent:
  assumes "doUpgrade ev u = Some (err, u')" and "\<not> upReady u" and "upOpen u = {}"
  shows "upOpen u' = {} \<and> (ReadySignal u' \<longleftrightarrow> err = None)
    \<and> (err = None \<longleftrightarrow> (\<exists>f r w exe fate. ueFile ev (upLn u) = Inr f \<and> uePipe ev = Inr (r, w) \<and> ueExecutable ev = Inr exe
          \<and> ueStart ev exe (ueArgs ev) (buildChildEnv (ueEnviron ev) 3 4) [f, w] = Inr fate))"
  using assms
  by (auto simp: doUpgrade_def Let_def up_open_def up_close_def ReadySignal_def split: sum.splits prod.splits if_splits)

theorem upgrade_parent_witness:
  "\<exists>u'. doUpgrade (sample_upgrade [] ChildReady) (up_New 5) = Some (None, u') \<and> upOpen u' = {} \<and> ReadySignal u'"
proof -
  have "doUpgrade (sample_upgrade [] ChildReady) (up_New 5) = Some (None, \<lparr>upLn = 5, upReady = True, upOpen = {}\<rparr>)"
    by (simp add: doUpgrade_def sample_upgrade_def up_New_def Let_def up_open_def up_close_def)
  with upgrade_parent [OF this] show ?thesis by (simp add: up_New_def)
qed

text \<open>A child that dies before it is ready is taken for one that is: the parent reports success and goes on to shut down.\<close>

lemma upgrade_child_dies:
  assumes "\<And>exe args environ files. ueStart ev exe args environ files = Inr ChildDied"
    and "ueFile ev (upLn u) = Inr f" "uePipe ev = Inr (r, w)" "ueExecutable ev = Inr exe"
  shows "\<exists>u'. ListenForUpgrade ev u SigUsr2 = Some (None, u') \<and> ReadySignal u'"
  using assms by (simp add: ListenForUpgrade_def doUpgrade_def Let_def up_close_def ReadySignal_def)

end
