(* ===== verification/Warm.thy ===== *)
theory Warm
  imports CdnServe
begin

text \<open>
  \<open>handler/warm.go\<close>: the handler that fetches a list of URLs into the cache. It shares the cache and
  the origin of the serving handler, so its state is the common part \<open>edgeCore\<close>. The goroutines of a
  batch are run one URL at a time in an arbitrary order, each with its own environment (network,
  clock); JSON and the texts of errors are parameters.
\<close>

record warmResult =
  wrURL :: string
  wrStatus :: string
  wrError :: string

record warmEnv =
  weH :: hEnv
  weUnixNano :: int
  weErrText :: "fetchErr \<Rightarrow> string"

text \<open>The verb \<open>%x\<close> of \<open>fmt\<close> on an integer.\<close>

fun nat_hex :: "nat \<Rightarrow> string" where
  "nat_hex n = (if n < 16 then [hex_digit n] else nat_hex (n div 16) @ [hex_digit (n mod 16)])"

declare nat_hex.simps [simp del]

definition fmt_x :: "int \<Rightarrow> string" where
  "fmt_x i = (if i < 0 then CHR ''-'' # nat_hex (nat (- i)) else nat_hex (nat i))"

definition warm_ttl :: "duration \<Rightarrow> string \<Rightarrow> duration" where
  "warm_ttl defaultTTL cc =
     (let ttl = getCacheDirectiveValue cc ''s-maxage'';
          ttl = (if ttl = 0 then getCacheDirectiveValue cc ''max-age'' else ttl)
      in if ttl = 0 then defaultTTL else ttl)"

definition warm_entry :: "warmEnv \<Rightarrow> Response \<Rightarrow> duration \<Rightarrow> Entry" where
  "warm_entry ev resp ttl =
     (let etag = header_Get (rsHeader resp) ''ETag'';
          etag = (if etag = [] then [CHR 0x22] @ fmt_x (weUnixNano ev) @ [CHR 0x22] else etag)
      in \<lparr>eBody = rsBody resp, eHeader = Some (rsHeader resp), eCompressedHeader = None, eStatusCode = rsStatusCode resp,
          eStoredAt = heClock (weH ev) TStored, eTTL = ttl, eETag = etag,
          eLastMod = header_Get (rsHeader resp) ''Last-Modified'', eVaryKey = [], eStaleWhileRevalidate = 0\<rparr>)"

definition warmURL :: "warmEnv \<Rightarrow> string \<Rightarrow> 'a edgeCore_scheme \<Rightarrow> string \<Rightarrow> (warmResult \<times> 'a edgeCore_scheme) option" where
  "warmURL ev originURL h urlPath =
     do {
       let cacheKey = NormalizeKey (heUni (weH ev)) [] urlPath [] [] [];
       (res, h) \<leftarrow> h_Fetch (weH ev) h (''warm:'' @ cacheKey) (originURL @ urlPath) [];
       (case res of
          Inl err \<Rightarrow> Some (\<lparr>wrURL = urlPath, wrStatus = ''error'', wrError = weErrText ev err\<rparr>, h)
        | Inr resp \<Rightarrow>
            if rsStatusCode resp \<ge> 400 then
              Some (\<lparr>wrURL = urlPath, wrStatus = ''error'', wrError = ''status '' @ strconv_Itoa (rsStatusCode resp)\<rparr>, h)
            else
              (let cc = header_Get (rsHeader resp) ''Cache-Control''
               in if hasCacheDirective cc ''no-store'' \<or> hasCacheDirective cc ''private''
                  then Some (\<lparr>wrURL = urlPath, wrStatus = ''skipped'', wrError = []\<rparr>, h)
                  else do {
                    (_, h) \<leftarrow> h_Put (weH ev) TPut h cacheKey (warm_entry ev resp (warm_ttl (cdDefaultTTL h) cc));
                    Some (\<lparr>wrURL = urlPath, wrStatus = ''ok'', wrError = []\<rparr>, h)
                  }))
     }"

text \<open>The batch: every goroutine writes its own slot of the results.\<close>

fun warm_loop ::
  "(nat \<Rightarrow> warmEnv) \<Rightarrow> string \<Rightarrow> string list \<Rightarrow> nat list \<Rightarrow> warmResult list \<Rightarrow> 'a edgeCore_scheme \<Rightarrow>
   (warmResult list \<times> 'a edgeCore_scheme) option" where
  "warm_loop evs originURL urls [] results h = Some (results, h)"
| "warm_loop evs originURL urls (i # order) results h =
     do {
       u \<leftarrow> idx_get urls i;
       (r, h) \<leftarrow> warmURL (evs i) originURL h u;
       results \<leftarrow> idx_set results i r;
       warm_loop evs originURL urls order results h
     }"

definition empty_result :: warmResult where
  "empty_result = \<lparr>wrURL = [], wrStatus = [], wrError = []\<rparr>"

definition warm_ServeHTTP ::
  "(bytes \<Rightarrow> string list option) \<Rightarrow> (int \<Rightarrow> warmResult list \<Rightarrow> bytes) \<Rightarrow> (nat \<Rightarrow> warmEnv) \<Rightarrow> nat list \<Rightarrow> string \<Rightarrow>
   'a edgeCore_scheme \<Rightarrow> respw \<Rightarrow> string \<Rightarrow> bytes \<Rightarrow> (respw \<times> 'a edgeCore_scheme) option" where
  "warm_ServeHTTP decode encode evs order originURL h w meth body =
     (if meth \<noteq> ''POST'' then Some (http_Error w ''Method Not Allowed'' 405, h)
      else case decode body of
             None \<Rightarrow> Some (http_Error w ''invalid JSON'' 400, h)
           | Some urls \<Rightarrow>
               if urls = [] then Some (http_Error w ''{\"error\":\"no urls provided\"}'' 400, h)
               else if length urls > 1000 then Some (http_Error w ''{\"error\":\"max 1000 urls per request\"}'' 400, h)
               else do {
                 (results, h) \<leftarrow> warm_loop evs originURL urls order (replicate (length urls) empty_result) h;
                 let w = w_Set w ''Content-Type'' ''application/json'';
                 Some (w_Write w (encode (int (length urls)) results), h)
               })"

section \<open>What a batch does\<close>

lemma warm_key: "NormalizeKey uni [] u [] [] [] = u"
  by (simp add: NormalizeKey_def)

text \<open>What one URL leaves: a consistent core, at most one request sent, at most the URL's own key added.\<close>

definition warmed :: "warmEnv \<Rightarrow> 'a edgeCore_scheme \<Rightarrow> string \<Rightarrow> warmResult \<times> 'a edgeCore_scheme \<Rightarrow> bool" where
  "warmed ev h u = (\<lambda>(r, h'). cdn_core (heXX (weH ev)) (heDisk (weH ev)) h' \<and> wrURL r = u \<and>
      wrStatus r \<in> {''ok'', ''skipped'', ''error''} \<and> length (cdSent h') \<le> length (cdSent h) + 1 \<and>
      (\<forall>j e. cache_lookup (heXX (weH ev)) (cdCache h') j = Some e \<longrightarrow>
         cache_lookup (heXX (weH ev)) (cdCache h) j = Some e \<or> j = u \<and> wrStatus r = ''ok''))"

lemma h_Put_returns:
  assumes "cdn_core (heXX ev) (heDisk ev) h"
  shows "returns (h_Put ev t h k e) (\<lambda>(e', h'). cdSent h' = cdSent h \<and> cdn_core (heXX ev) (heDisk ev) h' \<and>
      (\<forall>j e''. cache_lookup (heXX ev) (cdCache h') j = Some e'' \<longrightarrow> cache_lookup (heXX ev) (cdCache h) j = Some e'' \<or> j = k))"
proof -
  have ok: "cache_inv (heXX ev) (cdCache h) \<and> spill_safe (heDisk ev) (cdCache h)" using assms by (simp add: cdn_core_def)
  show ?thesis unfolding h_Put_def
  proof (rule returns_bind [OF edge.put_once [OF ok, of "heClock ev t" k e]], goal_cases)
    case (1 x)
    obtain e' c' where x: "x = (e', c')" by fastforce
    have c: "cache_inv (heXX ev) c' \<and> spill_safe (heDisk ev) c'"
      and L: "\<forall>j e''. cache_lookup (heXX ev) c' j = Some e'' \<longrightarrow> cache_lookup (heXX ev) (cdCache h) j = Some e'' \<or> j = k"
      using 1 unfolding x prod.case by blast+
    show ?case using c L assms by (simp add: x cdn_core_def)
  qed
qed

lemma warmURL_returns:
  assumes "cdn_core (heXX (weH ev)) (heDisk (weH ev)) h"
  shows "returns (warmURL ev originURL h u) (warmed ev h u)"
  unfolding warmURL_def Let_def warm_key
proof (rule returns_bind [OF h_Fetch_returns [OF assms]], goal_cases)
  case (1 x)
  obtain res h1 where x: "x = (res, h1)" by fastforce
  with 1 obtain sent where h1: "h1 = h\<lparr>cdOrigin := cdOrigin h1, cdSent := cdSent h @ sent\<rparr>"
    and core: "cdn_core (heXX (weH ev)) (heDisk (weH ev)) h1" and sent: "length sent \<le> 1"
    unfolding x prod.case by blast
  have c: "cdCache h1 = cdCache h" by (subst h1) simp
  have s: "length (cdSent h1) \<le> length (cdSent h) + 1" by (subst h1) (use sent in simp)
  have stay: "warmed ev h u (r, h1)" if "wrURL r = u" "wrStatus r \<in> {''ok'', ''skipped'', ''error''}" for r
    using that core c s by (simp add: warmed_def)
  show ?case unfolding x prod.case
  proof (cases res, simp add: stay, simp only: sum.case, intro returns_if, goal_cases)
    case (3 resp)
    show ?case
      by (rule returns_bind [OF h_Put_returns [OF core]]) (use c s in \<open>auto simp: warmed_def\<close>)
  qed (simp_all add: stay)
qed

lemma warm_loop_returns:
  assumes "cdn_core xx dk h" "\<And>i. heXX (weH (evs i)) = xx \<and> heDisk (weH (evs i)) = dk" "set order \<subseteq> {..<length urls}" "length results = length urls"
  shows "returns (warm_loop evs originURL urls order results h) (\<lambda>(rs, h').
     cdn_core xx dk h' \<and> length rs = length urls \<and> length (cdSent h') \<le> length (cdSent h) + length order \<and>
     (\<forall>i < length urls. if i \<in> set order then wrURL (rs ! i) = urls ! i \<and> wrStatus (rs ! i) \<in> {''ok'', ''skipped'', ''error''} else rs ! i = results ! i) \<and>
     (\<forall>j e. cache_lookup xx (cdCache h') j = Some e \<longrightarrow> cache_lookup xx (cdCache h) j = Some e \<or> j \<in> set urls))"
  using assms(1,3,4)
proof (induction order arbitrary: results h)
  case (Cons i order)
  have i: "i < length urls" using Cons.prems(2) by simp
  have ev: "heXX (weH (evs i)) = xx" "heDisk (weH (evs i)) = dk" using assms(2) by simp_all
  obtain r h1 where w: "warmURL (evs i) originURL h (urls ! i) = Some (r, h1)" and W: "warmed (evs i) h (urls ! i) (r, h1)"
    using warmURL_returns [of "evs i" h originURL "urls ! i"] Cons.prems(1) ev by (auto elim!: returnsE)
  note W = W [unfolded warmed_def prod.case ev]
  have L: "cache_lookup xx (cdCache h1) j = Some e \<longrightarrow> cache_lookup xx (cdCache h) j = Some e \<or> j \<in> set urls" for j e
    using W i nth_mem [OF i] by blast
  obtain rs h' where l: "warm_loop evs originURL urls order (results[i := r]) h1 = Some (rs, h')"
    and IH: "cdn_core xx dk h'" "length rs = length urls" "length (cdSent h') \<le> length (cdSent h1) + length order"
      "\<forall>k < length urls. if k \<in> set order then wrURL (rs ! k) = urls ! k \<and> wrStatus (rs ! k) \<in> {''ok'', ''skipped'', ''error''} else rs ! k = results[i := r] ! k"
      "\<forall>j e. cache_lookup xx (cdCache h') j = Some e \<longrightarrow> cache_lookup xx (cdCache h1) j = Some e \<or> j \<in> set urls"
  proof -
    have "returns (warm_loop evs originURL urls order (results[i := r]) h1) (\<lambda>(rs, h').
     cdn_core xx dk h' \<and> length rs = length urls \<and> length (cdSent h') \<le> length (cdSent h1) + length order \<and>
     (\<forall>k < length urls. if k \<in> set order then wrURL (rs ! k) = urls ! k \<and> wrStatus (rs ! k) \<in> {''ok'', ''skipped'', ''error''} else rs ! k = results[i := r] ! k) \<and>
     (\<forall>j e. cache_lookup xx (cdCache h') j = Some e \<longrightarrow> cache_lookup xx (cdCache h1) j = Some e \<or> j \<in> set urls))"
      using Cons.prems W by (intro Cons.IH) auto
    then show ?thesis using that by (elim returnsE) (simp only: split_paired_all prod.case, blast)
  qed
  have call: "warm_loop evs originURL urls (i # order) results h = Some (rs, h')"
    using i w l Cons.prems(3) by (simp add: no_panic)
  have "wrURL (rs ! k) = urls ! k \<and> wrStatus (rs ! k) \<in> {''ok'', ''skipped'', ''error''}" if "k < length urls" "k \<in> set (i # order)" for k
    using IH(4) that W i Cons.prems(3) by (cases "k \<in> set order") auto
  moreover have "rs ! k = results ! k" if "k < length urls" "k \<notin> set (i # order)" for k using IH(4) that by auto
  ultimately have slots: "\<forall>k < length urls. if k \<in> set (i # order)
      then wrURL (rs ! k) = urls ! k \<and> wrStatus (rs ! k) \<in> {''ok'', ''skipped'', ''error''} else rs ! k = results ! k" by auto
  have keys: "\<forall>j e. cache_lookup xx (cdCache h') j = Some e \<longrightarrow> cache_lookup xx (cdCache h) j = Some e \<or> j \<in> set urls"
    using IH(5) L by blast
  have sent: "length (cdSent h') \<le> length (cdSent h) + length (i # order)" using IH(3) W by simp
  show ?case by (intro returnsI [OF call], unfold prod.case) (intro conjI IH(1,2) slots keys sent)
qed auto

text \<open>
  A batch of URLs to warm is fetched whatever the order of the goroutines. A request with 1 to 1000 URLs is answered 200 with one
  result per URL, in the order of the request; at most one request per URL goes to the origin; the
  cache stays consistent and gains no key but the URLs themselves. Any other request is refused
  with 405 or 400 and changes nothing.
\<close>

theorem warm_batch:
  assumes "cdn_core xx dk h" "\<And>i. heXX (weH (evs i)) = xx \<and> heDisk (weH (evs i)) = dk" "rwSent w = None"
    and "\<And>urls. decode body = Some urls \<Longrightarrow> distinct order \<and> set order = {..<length urls}"
  shows "returns (warm_ServeHTTP decode encode evs order originURL h w meth body) (\<lambda>(w', h').
    case decode body of
      Some urls \<Rightarrow>
        if meth = ''POST'' \<and> urls \<noteq> [] \<and> length urls \<le> 1000
        then rw_status w' = 200 \<and> cdn_core xx dk h' \<and> length (cdSent h') \<le> length (cdSent h) + length urls \<and>
             (\<exists>rs. rwBody w' = rwBody w @ encode (int (length urls)) rs \<and> map wrURL rs = urls) \<and>
             (\<forall>j e. cache_lookup xx (cdCache h') j = Some e \<longrightarrow> cache_lookup xx (cdCache h) j = Some e \<or> j \<in> set urls)
        else rw_status w' \<in> {400, 405} \<and> h' = h
    | None \<Rightarrow> rw_status w' \<in> {400, 405} \<and> h' = h)"
proof (cases "\<exists>urls. decode body = Some urls \<and> meth = ''POST'' \<and> urls \<noteq> [] \<and> length urls \<le> 1000")
  case True
  then obtain urls where u: "decode body = Some urls" "meth = ''POST''" "urls \<noteq> []" "length urls \<le> 1000" by blast
  have ord: "set order \<subseteq> {..<length urls}" "length order = length urls"
    using assms(4) [OF u(1)] distinct_card [of order] by auto
  obtain rs h' where l: "warm_loop evs originURL urls order (replicate (length urls) empty_result) h = Some (rs, h')"
    and L: "cdn_core xx dk h'" "length rs = length urls" "length (cdSent h') \<le> length (cdSent h) + length order"
      "\<forall>i < length urls. wrURL (rs ! i) = urls ! i"
      "\<forall>j e. cache_lookup xx (cdCache h') j = Some e \<longrightarrow> cache_lookup xx (cdCache h) j = Some e \<or> j \<in> set urls"
    using warm_loop_returns [where evs = evs and results = "replicate (length urls) empty_result" and originURL = originURL, OF assms(1,2) ord(1)] assms(4) [OF u(1)]
    by (auto elim!: returnsE)
  have "map wrURL rs = urls" using L(2,4) by (simp add: list_eq_iff_nth_eq)
  moreover have "rw_status (w_Write (w_Set w ''Content-Type'' ''application/json'') b) = 200" for b
    using assms(3) by (simp add: w_Write_def rw_status_def Let_def)
  ultimately show ?thesis using u l L(1,3,5) ord(2) by (auto simp: warm_ServeHTTP_def)
next
  case False
  then show ?thesis using assms(3) by (auto simp: warm_ServeHTTP_def split: option.splits)
qed

definition demo_warm :: "nat \<Rightarrow> warmEnv" where
  "demo_warm i = \<lparr>weH = demo_hev 5, weUnixNano = 5, weErrText = (\<lambda>_. ''failed'')\<rparr>"

lemma demo_warm_env: "heXX (weH (demo_warm i)) = heXX (demo_hev 5) \<and> heDisk (weH (demo_warm i)) = demo_env"
  by (simp add: demo_warm_def demo_hev_def)

lemma demo_core:
  obtains h :: CDN where "cdn_core (heXX (demo_hev 5)) demo_env h" "cache_lookup (heXX (demo_hev 5)) (cdCache h) = Map.empty"
proof (rule demo_cdn [of "heXX (demo_hev 5)" "[]" 5], goal_cases)
  case (1 h)
  have "cdn_core (heXX (demo_hev 5)) demo_env h" using cdn.reachable_inv [OF 1(2)] by (simp add: cdn_inv_def)
  from 1(1) [OF this 1(4)] show ?case .
qed

theorem warm_batch_witness:
  "\<exists>(h :: CDN) w' h'. warm_ServeHTTP (\<lambda>_. Some [''/x'', ''/y'']) (\<lambda>_ _. []) demo_warm [1, 0] ''http://o'' h new_respw ''POST'' [] = Some (w', h') \<and>
     rw_status w' = 200"
proof -
  obtain h :: CDN where h: "cdn_core (heXX (demo_hev 5)) demo_env h" by (rule demo_core)
  have ord: "distinct [1, 0 :: nat] \<and> set [1, 0 :: nat] = {..<length urls}" if "(\<lambda>_::bytes. Some [''/x'', ''/y'']) [] = Some urls" for urls :: "string list"
    using that by auto
  from warm_batch [where decode = "\<lambda>_. Some [''/x'', ''/y'']" and encode = "\<lambda>_ _. []" and originURL = "''http://o''" and body = "[]" and meth = "''POST''"
      and evs = demo_warm and order = "[1, 0]" and w = new_respw, OF h demo_warm_env _ ord]
  show ?thesis by (auto elim!: returnsE)
qed

text \<open>
  What is warmed is never served. Warming stores a path under itself, with no host name; every key a request
  looks up begins with its host name. So whatever paths are warmed, no request finds an entry under
  its key that was not there before.
\<close>

theorem warm_never_served:
  assumes "cdn_core xx dk h" "\<And>i. heXX (weH (evs i)) = xx \<and> heDisk (weH (evs i)) = dk"
    and "set order \<subseteq> {..<length urls}" "length results = length urls"
    and "\<forall>u\<in>set urls. strings_HasPrefix u ''/''"
    and "host \<noteq> []" "hd host \<noteq> CHR ''/''" "list_all is_ascii host"
  shows "returns (warm_loop evs originURL urls order results h) (\<lambda>(rs, h').
    \<forall>e. cache_lookup xx (cdCache h') (NormalizeKey uni host path query vary rh) = Some e \<longrightarrow>
        cache_lookup xx (cdCache h) (NormalizeKey uni host path query vary rh) = Some e)"
proof -
  have "ascii_lower c \<noteq> CHR ''/''" if "c \<noteq> CHR ''/''" for c
  proof
    assume l: "ascii_lower c = CHR ''/''"
    show False
    proof (cases "is_upper c")
      case True
      then have "(of_char (ascii_lower c) :: nat) = of_char c + 32" by (simp add: ascii_lower_def is_upper_def)
      with True show False unfolding l by (simp add: is_upper_def)
    qed (use l that in \<open>simp add: ascii_lower_def\<close>)
  qed
  with assms(6-8) have "\<not> strings_HasPrefix (NormalizeKey uni host path query vary rh) ''/''"
    by (cases host) (simp_all add: NormalizeKey_spec key_spec_def strings_HasPrefix_def)
  then have "NormalizeKey uni host path query vary rh \<notin> set urls" using assms(5) by blast
  then show ?thesis by (intro returns_mono [OF warm_loop_returns [OF assms(1-4)]]) auto
qed

theorem warm_never_served_witness:
  "\<exists>(h :: CDN) rs h'. warm_loop demo_warm ''http://o'' [''/x''] [0] [empty_result] h = Some (rs, h') \<and>
     cache_lookup (heXX (demo_hev 5)) (cdCache h') (NormalizeKey (\<lambda>s. s) ''a.org'' ''/x'' [] [] []) = None"
proof -
  obtain h :: CDN where h: "cdn_core (heXX (demo_hev 5)) demo_env h" "cache_lookup (heXX (demo_hev 5)) (cdCache h) = Map.empty" by (rule demo_core)
  have a: "list_all is_ascii ''a.org''" by code_simp
  have "returns (warm_loop demo_warm ''http://o'' [''/x''] [0] [empty_result] h) (\<lambda>(rs, h').
    \<forall>e. cache_lookup (heXX (demo_hev 5)) (cdCache h') (NormalizeKey (\<lambda>s. s) ''a.org'' ''/x'' [] [] []) = Some e \<longrightarrow>
        cache_lookup (heXX (demo_hev 5)) (cdCache h) (NormalizeKey (\<lambda>s. s) ''a.org'' ''/x'' [] [] []) = Some e)"
    by (rule warm_never_served [OF h(1) demo_warm_env]) (use a in \<open>simp_all add: strings_HasPrefix_def\<close>)
  then show ?thesis unfolding h(2) by (auto elim!: returnsE)
qed

end
