(* ===== verification/GoWriter.thy ===== *)
theory GoWriter
  imports GoHttp
begin

text \<open>
  The \<open>http.ResponseWriter\<close> interface as the middlewares see it. A handler is observed through the
  calls it makes on its writer; a middleware turns the calls of the handler it wraps into calls on
  the next writer out, and \<open>run_calls\<close> is what the server's own writer makes of a sequence of
  calls. The contract \<open>writer_wrapper\<close> is that of a wrapper that only observes.

  An informational status (1xx) passed to \<open>WriteHeader\<close> counts as the final one here, and the
  server's check of written bytes against a declared Content-Length is left out.
\<close>

section \<open>Calls on a writer\<close>

datatype call =
    CSet string string
  | CAdd string string
  | CDel string
  | CWriteHeader int
  | CWrite bytes

text \<open>\<open>bodyAllowedForStatus\<close> of \<open>net/http\<close>: a \<open>Write\<close> after such a status sends nothing.\<close>

definition bodyAllowedForStatus :: "int \<Rightarrow> bool" where
  "bodyAllowedForStatus status \<longleftrightarrow> \<not> (100 \<le> status \<and> status \<le> 199) \<and> status \<noteq> 204 \<and> status \<noteq> 304"

text \<open>\<open>Write\<close> returns how many bytes were taken.\<close>

definition net_Write :: "respw \<Rightarrow> bytes \<Rightarrow> nat \<times> respw" where
  "net_Write w b =
     (let w' = w_WriteHeader w 200
      in if bodyAllowedForStatus (rw_status w') then (length b, w'\<lparr>rwBody := rwBody w' @ b\<rparr>) else (0, w'))"

definition w_Del :: "respw \<Rightarrow> string \<Rightarrow> respw" where
  "w_Del w k = w\<lparr>rwHeader := header_Del (rwHeader w) k\<rparr>"

fun do_call :: "respw \<Rightarrow> call \<Rightarrow> respw" where
  "do_call w (CSet k v) = w_Set w k v"
| "do_call w (CAdd k v) = w_Add w k v"
| "do_call w (CDel k) = w_Del w k"
| "do_call w (CWriteHeader code) = w_WriteHeader w code"
| "do_call w (CWrite b) = snd (net_Write w b)"

definition run_calls :: "respw \<Rightarrow> call list \<Rightarrow> respw" where
  "run_calls = foldl do_call"

text \<open>The calls \<open>http.Error\<close> makes.\<close>

definition error_calls :: "string \<Rightarrow> int \<Rightarrow> call list" where
  "error_calls msg code =
     [CDel ''Content-Length'', CSet ''Content-Type'' ''text/plain; charset=utf-8'',
      CSet ''X-Content-Type-Options'' ''nosniff'', CWriteHeader code, CWrite (msg @ [CHR 0x0A])]"

text \<open>A header edit, and what it does to the header map.\<close>

fun is_edit :: "call \<Rightarrow> bool" where
  "is_edit (CSet k v) = True"
| "is_edit (CAdd k v) = True"
| "is_edit (CDel k) = True"
| "is_edit _ = False"

fun is_write :: "call \<Rightarrow> bool" where
  "is_write (CWrite b) = True"
| "is_write _ = False"

fun edit_header :: "header \<Rightarrow> call \<Rightarrow> header" where
  "edit_header h (CSet k v) = header_Set h k v"
| "edit_header h (CAdd k v) = header_Add h k v"
| "edit_header h (CDel k) = header_Del h k"
| "edit_header h _ = h"

fun written :: "call list \<Rightarrow> bytes" where
  "written [] = []"
| "written (CWrite b # cs) = b @ written cs"
| "written (c # cs) = written cs"

text \<open>
  The calls of a well-behaved handler: header edits, then at most one \<open>WriteHeader\<close>, then writes.
\<close>

definition disciplined :: "call list \<Rightarrow> call list \<Rightarrow> int option \<Rightarrow> call list \<Rightarrow> bool" where
  "disciplined cs edits st writes \<longleftrightarrow>
     cs = edits @ (case st of None \<Rightarrow> [] | Some c \<Rightarrow> [CWriteHeader c]) @ writes \<and>
     list_all is_edit edits \<and> list_all is_write writes"

section \<open>What a run leaves\<close>

lemma run_calls_simps [simp]:
  "run_calls w [] = w"
  "run_calls w (c # cs) = run_calls (do_call w c) cs"
  "run_calls w (cs @ ds) = run_calls (run_calls w cs) ds"
  by (simp_all add: run_calls_def)

lemma do_edit: "is_edit c \<Longrightarrow> do_call w c = w\<lparr>rwHeader := edit_header (rwHeader w) c\<rparr>"
  by (cases c) (simp_all add: w_Set_def w_Add_def w_Del_def)

lemma run_edits:
  "list_all is_edit cs \<Longrightarrow> run_calls w cs = w\<lparr>rwHeader := foldl edit_header (rwHeader w) cs\<rparr>"
  by (induction cs arbitrary: w) (simp_all add: do_edit)

lemma run_calls_header: "rwHeader (run_calls w cs) = foldl edit_header (rwHeader w) cs"
proof (induction cs arbitrary: w)
  case (Cons c cs)
  then show ?case
    by (cases c) (simp_all add: w_Set_def w_Add_def w_Del_def net_Write_def Let_def)
qed simp

lemma do_call_sends: "rwSent (do_call w c) = rwSent w \<or> rwSent w = None \<and> (\<exists>a. rwSent (do_call w c) = Some (a, rwHeader w))"
  by (cases c) (auto simp: w_Del_def net_Write_def w_WriteHeader_def Let_def split: option.splits)

lemma do_call_sent: "rwSent w = Some x \<Longrightarrow> rwSent (do_call w c) = Some x"
  by (cases c) (simp_all add: w_Del_def net_Write_def Let_def)

lemma run_calls_sent: "rwSent w = Some x \<Longrightarrow> rwSent (run_calls w cs) = Some x"
  by (induction cs arbitrary: w) (simp_all add: do_call_sent)

lemma net_Write_sent:
  "rwSent w = Some (c, h) \<Longrightarrow>
   net_Write w b = (if bodyAllowedForStatus c then (length b, w\<lparr>rwBody := rwBody w @ b\<rparr>) else (0, w))"
  by (simp add: net_Write_def rw_status_def)

lemma run_writes:
  "list_all is_write cs \<Longrightarrow> rwSent w = Some (c, h) \<Longrightarrow>
   run_calls w cs = (if bodyAllowedForStatus c then w\<lparr>rwBody := rwBody w @ written cs\<rparr> else w)"
proof (induction cs arbitrary: w)
  case (Cons b cs)
  then obtain x where "b = CWrite x" by (cases b) auto
  with Cons show ?case by (simp add: net_Write_sent)
qed simp

lemma written_append [simp]: "written (cs @ ds) = written cs @ written ds"
  by (induction cs rule: written.induct) simp_all

lemma run_calls_body: "length (rwBody (run_calls w cs)) \<le> length (rwBody w) + length (written cs)"
proof (induction cs arbitrary: w)
  case (Cons c cs)
  from Cons [of "do_call w c"] show ?case
    by (cases c) (simp_all add: w_Del_def net_Write_def Let_def split: if_splits)
qed simp

lemma run_error_calls:
  "rwSent w = None \<Longrightarrow> bodyAllowedForStatus code \<Longrightarrow> run_calls w (error_calls msg code) = http_Error w msg code"
  by (simp add: error_calls_def http_Error_def w_Del_def w_Set_def net_Write_def w_Write_def w_WriteHeader_def
      rw_status_def Let_def)

section \<open>Wrappers that only observe\<close>

text \<open>
  A wrapper keeps its own state next to the writer it embeds; \<open>inner\<close> reads that writer. The law is
  that every call reaches it unchanged, so that a client cannot tell the wrapped writer from the
  plain one.
\<close>

locale writer_wrapper =
  fixes inner :: "'s \<Rightarrow> respw"
    and call :: "'s \<Rightarrow> call \<Rightarrow> 's"
  assumes call_inner: "inner (call s c) = do_call (inner s) c"
begin

lemma run_inner: "inner (foldl call s cs) = run_calls (inner s) cs"
  by (induction cs arbitrary: s) (simp_all add: call_inner)

end

text \<open>A wrapper that in addition records the status: the record is right after every call.\<close>

locale status_recorder = writer_wrapper inner call
  for inner :: "'s \<Rightarrow> respw" and call :: "'s \<Rightarrow> call \<Rightarrow> 's" +
  fixes recorded :: "'s \<Rightarrow> int"
    and tracks :: "'s \<Rightarrow> bool"
  assumes tracks_call: "tracks s \<Longrightarrow> tracks (call s c)"
    and tracks_status: "tracks s \<Longrightarrow> recorded s = rw_status (inner s)"
begin

lemma run_tracks: "tracks s \<Longrightarrow> tracks (foldl call s cs)"
  by (induction cs arbitrary: s) (simp_all add: tracks_call)

lemma run_status: "tracks s \<Longrightarrow> recorded (foldl call s cs) = rw_status (run_calls (inner s) cs)"
  using run_tracks tracks_status run_inner by metis

end

end
