(* ===== verification/Histogram.thy ===== *)
theory Histogram
  imports GoFloat GoWriter
begin

text \<open>
  \<open>metrics/histogram.go\<close>: the latency histogram with its status counters, the approximate
  percentile, and the middleware that records every request. Counters are \<open>atomic.Int64\<close> and wrap.
  The text of the exposition is modelled up to number formatting: one value per line.
\<close>

section \<open>The histogram\<close>

record RequestMetrics =
  rmBucketBounds :: "rat list"
  rmBucketCounts :: "int list"
  rmTotalCount :: int
  rmTotalSumUs :: int
  rmStatus2xx :: int
  rmStatus3xx :: int
  rmStatus4xx :: int
  rmStatus5xx :: int

definition hist_bounds :: "rat list" where
  "hist_bounds = [1 / 2, 1, 5 / 2, 5, 10, 25, 50, 100, 250, 500, 1000, 2500, 5000, 10000]"

definition NewRequestMetrics :: RequestMetrics where
  "NewRequestMetrics =
     \<lparr>rmBucketBounds = hist_bounds, rmBucketCounts = replicate (length hist_bounds + 1) 0, rmTotalCount = 0,
      rmTotalSumUs = 0, rmStatus2xx = 0, rmStatus3xx = 0, rmStatus4xx = 0, rmStatus5xx = 0\<rparr>"

text \<open>The binary search of \<open>sort.Search\<close>, and \<open>sort.SearchFloat64s\<close>.\<close>

function sort_Search :: "(nat \<Rightarrow> bool) \<Rightarrow> nat \<Rightarrow> nat \<Rightarrow> nat" where
  "sort_Search f i j =
     (if i < j then
        (let h = (i + j) div 2 in if \<not> f h then sort_Search f (h + 1) j else sort_Search f i h)
      else i)"
  by pat_completeness auto
termination
  by (relation "measure (\<lambda>(f, i, j). j - i)") auto

declare sort_Search.simps [simp del]

definition SearchFloat64s :: "rat list \<Rightarrow> rat \<Rightarrow> nat" where
  "SearchFloat64s a x = sort_Search (\<lambda>i. a ! i \<ge> x) 0 (length a)"

definition bump :: "int \<Rightarrow> int" where
  "bump n = wrap64 (n + 1)"

definition count_status :: "int \<Rightarrow> RequestMetrics \<Rightarrow> RequestMetrics" where
  "count_status code rm =
     (if 200 \<le> code \<and> code < 300 then rm\<lparr>rmStatus2xx := bump (rmStatus2xx rm)\<rparr>
      else if 300 \<le> code \<and> code < 400 then rm\<lparr>rmStatus3xx := bump (rmStatus3xx rm)\<rparr>
      else if 400 \<le> code \<and> code < 500 then rm\<lparr>rmStatus4xx := bump (rmStatus4xx rm)\<rparr>
      else if 500 \<le> code then rm\<lparr>rmStatus5xx := bump (rmStatus5xx rm)\<rparr>
      else rm)"

definition hist_Record :: "RequestMetrics \<Rightarrow> duration \<Rightarrow> int \<Rightarrow> RequestMetrics option" where
  "hist_Record rm dur code =
     (let us = dur_Microseconds dur;
          ms = fl (float64 us / 1000);
          rm = rm\<lparr>rmTotalCount := bump (rmTotalCount rm), rmTotalSumUs := wrap64 (rmTotalSumUs rm + us)\<rparr>;
          idx = SearchFloat64s (rmBucketBounds rm) ms;
          idx = (if idx > length (rmBucketBounds rm) then length (rmBucketBounds rm) else idx)
      in do {
           n \<leftarrow> idx_get (rmBucketCounts rm) idx;
           counts \<leftarrow> idx_set (rmBucketCounts rm) idx (bump n);
           Some (count_status code (rm\<lparr>rmBucketCounts := counts\<rparr>))
         })"

text \<open>The lines of the exposition: \<open>le="bound"\<close>, \<open>le="+Inf"\<close>, sum, count and the status classes.\<close>

datatype promLine =
    PBucket rat int
  | PInf int
  | PSum rat
  | PCount int
  | PClass string int

fun cumulate :: "rat list \<Rightarrow> int list \<Rightarrow> int \<Rightarrow> promLine list \<times> int" where
  "cumulate (b # bs) (n # ns) cum =
     (let cum = wrap64 (cum + n); (ls, c) = cumulate bs ns cum in (PBucket b cum # ls, c))"
| "cumulate _ _ cum = ([], cum)"

definition WritePrometheus :: "RequestMetrics \<Rightarrow> promLine list option" where
  "WritePrometheus rm =
     (let (ls, cum) = cumulate (rmBucketBounds rm) (rmBucketCounts rm) 0
      in do {
           n \<leftarrow> idx_get (rmBucketCounts rm) (length (rmBucketBounds rm));
           Some (ls @ [PInf (wrap64 (cum + n)), PSum (fl (float64 (rmTotalSumUs rm) / 1000)), PCount (rmTotalCount rm),
                       PClass ''2xx'' (rmStatus2xx rm), PClass ''3xx'' (rmStatus3xx rm),
                       PClass ''4xx'' (rmStatus4xx rm), PClass ''5xx'' (rmStatus5xx rm)])
         })"

fun percentile_scan :: "int \<Rightarrow> rat list \<Rightarrow> int list \<Rightarrow> int \<Rightarrow> rat option" where
  "percentile_scan target (b # bs) (n # ns) cum =
     (let cum = wrap64 (cum + n) in if cum \<ge> target then Some b else percentile_scan target bs ns cum)"
| "percentile_scan target _ _ cum = None"

definition Percentile :: "RequestMetrics \<Rightarrow> rat \<Rightarrow> rat" where
  "Percentile rm p =
     (if rmTotalCount rm = 0 then 0
      else let target = \<lceil>fl (fl (float64 (rmTotalCount rm) * p) / 100)\<rceil>
           in case percentile_scan target (rmBucketBounds rm) (rmBucketCounts rm) 0 of
                Some b \<Rightarrow> b
              | None \<Rightarrow> if rmBucketBounds rm \<noteq> [] then last (rmBucketBounds rm) else 0)"

section \<open>The middleware\<close>

text \<open>\<open>metricsRW\<close>: the embedded writer, the recorded status and the state of its \<open>sync.Once\<close>.\<close>

record metricsRW =
  mrResponseWriter :: respw
  mrStatus :: int
  mrOnce :: bool

definition mrw_note :: "metricsRW \<Rightarrow> int \<Rightarrow> metricsRW" where
  "mrw_note rw code = (if mrOnce rw then rw else rw\<lparr>mrStatus := code, mrOnce := True\<rparr>)"

fun mrw_call :: "metricsRW \<Rightarrow> call \<Rightarrow> metricsRW" where
  "mrw_call rw (CWriteHeader code) =
     (let rw = mrw_note rw code in rw\<lparr>mrResponseWriter := w_WriteHeader (mrResponseWriter rw) code\<rparr>)"
| "mrw_call rw (CWrite b) =
     (let rw = mrw_note rw 200 in rw\<lparr>mrResponseWriter := snd (net_Write (mrResponseWriter rw) b)\<rparr>)"
| "mrw_call rw c = rw\<lparr>mrResponseWriter := do_call (mrResponseWriter rw) c\<rparr>"

text \<open>\<open>ServeHTTP\<close>: the next handler runs on the wrapped writer, then the request is recorded.\<close>

definition metrics_ServeHTTP ::
  "RequestMetrics \<Rightarrow> respw \<Rightarrow> duration \<Rightarrow> call list \<Rightarrow> (respw \<times> RequestMetrics) option" where
  "metrics_ServeHTTP rm w elapsed next_calls =
     (let rw = foldl mrw_call \<lparr>mrResponseWriter = w, mrStatus = 200, mrOnce = False\<rparr> next_calls
      in do {
           rm \<leftarrow> hist_Record rm elapsed (mrStatus rw);
           Some (mrResponseWriter rw, rm)
         })"

definition mrw_tracks :: "metricsRW \<Rightarrow> bool" where
  "mrw_tracks rw \<longleftrightarrow> (mrOnce rw \<longleftrightarrow> rwSent (mrResponseWriter rw) \<noteq> None) \<and> mrStatus rw = rw_status (mrResponseWriter rw)"

lemma mrw_call_inner: "mrResponseWriter (mrw_call rw c) = do_call (mrResponseWriter rw) c"
  by (cases c) (simp_all add: mrw_note_def Let_def)

lemma mrw_tracks_call: "mrw_tracks rw \<Longrightarrow> mrw_tracks (mrw_call rw c)"
  by (cases c) (auto simp: mrw_tracks_def mrw_note_def Let_def rw_status_def w_Del_def net_Write_def w_WriteHeader_def
      split: option.splits)

interpretation mrw: status_recorder mrResponseWriter mrw_call mrStatus mrw_tracks
  by unfold_locales (auto simp: mrw_call_inner mrw_tracks_call, simp add: mrw_tracks_def)

section \<open>Searching\<close>

lemma sort_Search_spec:
  assumes "\<And>a b. a \<le> b \<Longrightarrow> b < n \<Longrightarrow> f a \<Longrightarrow> f b" "i \<le> j" "j \<le> n" "\<And>a. a < i \<Longrightarrow> \<not> f a" "\<And>a. j \<le> a \<Longrightarrow> a < n \<Longrightarrow> f a"
  shows "(\<forall>a < sort_Search f i j. \<not> f a) \<and> (\<forall>a. sort_Search f i j \<le> a \<longrightarrow> a < n \<longrightarrow> f a) \<and> sort_Search f i j \<le> n"
  using assms
proof (induction f i j rule: sort_Search.induct)
  case (1 f i j)
  show ?case
  proof (cases "i < j")
    case True
    define h where "h = (i + j) div 2"
    have h: "i \<le> h" "h < j" using True by (auto simp: h_def)
    show ?thesis
    proof (cases "f h")
      case fh: True
      have E: "sort_Search f i j = sort_Search f i h" using True fh by (subst sort_Search.simps) (simp add: h_def Let_def)
      have "f a" if "h \<le> a" "a < n" for a using that fh "1.prems"(1) by blast
      moreover have "\<not> \<not> f h" "h \<le> n" using fh h(2) "1.prems"(3) by simp_all
      ultimately show ?thesis unfolding E by (intro "1.IH"(2) [OF True h_def _ "1.prems"(1) h(1) _ "1.prems"(4)])
    next
      case fh: False
      have E: "sort_Search f i j = sort_Search f (h + 1) j" using True fh by (subst sort_Search.simps) (simp add: h_def Let_def)
      have "\<not> f a" if "a < h + 1" for a
        using that fh "1.prems"(1) [of a h] "1.prems"(3) h by (metis Suc_eq_plus1 less_Suc_eq_le order_less_le_trans)
      moreover have "h + 1 \<le> j" using h(2) by simp
      ultimately show ?thesis unfolding E by (intro "1.IH"(1) [OF True h_def fh "1.prems"(1) _ "1.prems"(3) _ "1.prems"(5)])
    qed
  next
    case False
    with "1.prems" show ?thesis by (simp add: sort_Search.simps)
  qed
qed

lemma SearchFloat64s_spec:
  assumes "sorted a"
  shows "SearchFloat64s a x \<le> length a" and "i < length a \<Longrightarrow> SearchFloat64s a x \<le> i \<longleftrightarrow> x \<le> a ! i"
proof -
  have m: "x \<le> a ! j" if "i \<le> j" "j < length a" "x \<le> a ! i" for i j
    using sorted_nth_mono [OF assms that(1,2)] that(3) by simp
  have "(\<forall>i < SearchFloat64s a x. \<not> x \<le> a ! i) \<and> (\<forall>i. SearchFloat64s a x \<le> i \<longrightarrow> i < length a \<longrightarrow> x \<le> a ! i) \<and> SearchFloat64s a x \<le> length a"
    unfolding SearchFloat64s_def by (rule sort_Search_spec) (use m in auto)
  then show "SearchFloat64s a x \<le> length a" "i < length a \<Longrightarrow> SearchFloat64s a x \<le> i \<longleftrightarrow> x \<le> a ! i"
    by (auto simp: not_le [symmetric])
qed

text \<open>Every bound is a multiple of one half.\<close>

lemma hist_bounds_halves: "b \<in> set hist_bounds \<Longrightarrow> \<exists>m. b = of_int m / 2 \<and> 0 < m \<and> m \<le> 20000"
proof -
  let ?ms = "[1, 2, 5, 10, 20, 50, 100, 200, 500, 1000, 2000, 5000, 10000, 20000] :: int list"
  have eq: "hist_bounds = map (\<lambda>m. of_int m / 2) ?ms" by (simp add: hist_bounds_def)
  assume "b \<in> set hist_bounds"
  then obtain m where m: "m \<in> set ?ms" "b = of_int m / 2" unfolding eq list.set_map by (rule imageE) blast
  have "\<forall>m\<in>set ?ms. 0 < m \<and> m \<le> 20000" by simp
  with m show ?thesis by blast
qed

text \<open>Rounding never moves a latency across a bound.\<close>

lemma fl_ms_le:
  assumes "b \<in> set hist_bounds"
  shows "fl (float64 us / 1000) \<le> b \<longleftrightarrow> of_int us \<le> 1000 * b"
proof -
  obtain m where m: "b = of_int m / 2" "0 < m" "m \<le> 20000" using hist_bounds_halves assms by blast
  define n where "n = 500 * m"
  have n: "1000 * b = of_int n" "0 < n" "n \<le> 10000000" using m by (simp_all add: n_def)
  have fb: "fl b = b" using fl_dyadic [of m "- 1"] m(2,3) unfolding m(1) by simp
  have b: "b = of_int n / 1000" using n(1) by simp
  show ?thesis
  proof
    assume "of_int us \<le> 1000 * b"
    then have "us \<le> n" by (simp add: n(1))
    then have "float64 us \<le> of_int n" using fl_mono [of "of_int us" "of_int n"] fl_int [of n] n(2,3) by (simp add: float64_def)
    then have "fl (float64 us / 1000) \<le> fl b" unfolding b by (intro fl_mono) (simp add: divide_right_mono)
    then show "fl (float64 us / 1000) \<le> b" by (simp add: fb)
  next
    assume le: "fl (float64 us / 1000) \<le> b"
    show "of_int us \<le> 1000 * b"
    proof (rule ccontr)
      assume "\<not> of_int us \<le> 1000 * b"
      then have "n + 1 \<le> us" by (simp add: n(1))
      then have "of_int (n + 1) \<le> float64 us" using fl_mono [of "of_int (n + 1)" "of_int us"] fl_int [of "n + 1"] n(2,3) by (simp add: float64_def)
      then have "fl (of_int (n + 1) / 1000) \<le> fl (float64 us / 1000)" by (intro fl_mono divide_right_mono) simp_all
      moreover have "b < fl (of_int (n + 1) / 1000)"
      proof -
        let ?y = "of_int (n + 1) / 1000 :: rat"
        have "\<bar>?y\<bar> = ?y" using n(2) by simp
        then have "?y - fl ?y \<le> ?y / 2 ^ 53" using fl_error [of ?y] abs_ge_minus_self [of "fl ?y - ?y"] by linarith
        moreover have "?y / 2 ^ 53 < 1 / 1000" using n(3) by simp
        ultimately show ?thesis by (simp add: b add_divide_distrib)
      qed
      ultimately show False using le by simp
    qed
  qed
qed

section \<open>What the counters hold\<close>

declare wrap64_add [simp]

text \<open>A recorded request: its duration and status.\<close>

definition us_of :: "duration \<times> int \<Rightarrow> int" where
  "us_of e = dur_Microseconds (fst e)"

definition slot :: "duration \<times> int \<Rightarrow> nat" where
  "slot e = SearchFloat64s hist_bounds (fl (float64 (us_of e) / 1000))"

definition in_class :: "int \<Rightarrow> int \<Rightarrow> duration \<times> int \<Rightarrow> bool" where
  "in_class lo hi e \<longleftrightarrow> lo \<le> snd e \<and> snd e < hi"

text \<open>Recording a run of requests.\<close>

fun record_all :: "RequestMetrics \<Rightarrow> (duration \<times> int) list \<Rightarrow> RequestMetrics option" where
  "record_all rm [] = Some rm"
| "record_all rm (e # es) = do { rm \<leftarrow> hist_Record rm (fst e) (snd e); record_all rm es }"

lemma record_all_snoc: "record_all rm (es @ [e]) = do { rm \<leftarrow> record_all rm es; hist_Record rm (fst e) (snd e) }"
  by (induction es arbitrary: rm) (simp_all add: Option.bind_assoc)

text \<open>The state after a run, in closed form.\<close>

definition hist_of :: "(duration \<times> int) list \<Rightarrow> RequestMetrics" where
  "hist_of es =
     \<lparr>rmBucketBounds = hist_bounds, rmBucketCounts = map (\<lambda>k. wrap64 (tally (\<lambda>e. slot e = k) es)) [0..<15],
      rmTotalCount = wrap64 (int (length es)), rmTotalSumUs = wrap64 (sum_list (map us_of es)),
      rmStatus2xx = wrap64 (tally (in_class 200 300) es), rmStatus3xx = wrap64 (tally (in_class 300 400) es),
      rmStatus4xx = wrap64 (tally (in_class 400 500) es), rmStatus5xx = wrap64 (tally (\<lambda>e. 500 \<le> snd e) es)\<rparr>"

lemma sorted_bounds: "sorted hist_bounds" and length_bounds: "length hist_bounds = 14"
  by (simp_all add: hist_bounds_def)

lemma slot_le: "slot e \<le> 14"
  using SearchFloat64s_spec(1) [OF sorted_bounds] by (simp add: slot_def length_bounds)

lemma slot_within:
  assumes "i < 14"
  shows "slot e \<le> i \<longleftrightarrow> of_int (us_of e) \<le> 1000 * hist_bounds ! i"
  using SearchFloat64s_spec(2) [OF sorted_bounds, of i] fl_ms_le [of "hist_bounds ! i"] assms
  by (simp add: slot_def length_bounds)

lemma hist_Record_snoc: "hist_Record (hist_of es) d c = Some (hist_of (es @ [(d, c)]))"
proof -
  have slot: "SearchFloat64s hist_bounds (fl (float64 (dur_Microseconds d) / 1000)) = slot (d, c)"
    by (simp add: slot_def us_of_def)
  let ?k = "slot (d, c)"
  have k: "?k < 15" using slot_le [of "(d, c)"] by simp
  have upd: "(map (\<lambda>k. wrap64 (tally (\<lambda>e. slot e = k) es)) [0..<15])[?k := bump (wrap64 (tally (\<lambda>e. slot e = ?k) es))]
      = map (\<lambda>k. wrap64 (tally (\<lambda>e. slot e = k) (es @ [(d, c)]))) [0..<15]"
    using k by (intro nth_equalityI) (auto simp: nth_list_update bump_def)
  show ?thesis
    using k slot_le [of "(d, c)"] upd unfolding hist_Record_def Let_def hist_of_def
    by (simp add: slot length_bounds no_panic count_status_def in_class_def us_of_def bump_def add.commute [of 1] del: upt_rec_numeral)
qed

lemma hist_of_Nil: "hist_of [] = NewRequestMetrics"
proof -
  have "map (\<lambda>k. 0 :: int) [0..<15] = replicate 15 0" by (rule nth_equalityI) auto
  then show ?thesis by (simp add: hist_of_def NewRequestMetrics_def length_bounds wrap64_def del: upt_rec_numeral)
qed

lemma record_all_eq: "record_all NewRequestMetrics es = Some (hist_of es)"
  by (induction es rule: rev_induct) (simp_all add: hist_of_Nil record_all_snoc hist_Record_snoc)

section \<open>The exposition\<close>

definition tally_le :: "rat \<Rightarrow> (duration \<times> int) list \<Rightarrow> int" where
  "tally_le b es = tally (\<lambda>e. of_int (us_of e) \<le> 1000 * b) es"

lemma sum_slots: "sum_list (map (\<lambda>k. tally (\<lambda>e. slot e = k) es) [0..<n]) = tally (\<lambda>e. slot e < n) es"
proof (induction n)
  case (Suc n)
  have "tally (\<lambda>e. slot e < Suc n) es = tally (\<lambda>e. slot e < n) es + tally (\<lambda>e. slot e = n) es"
    by (induction es rule: rev_induct) auto
  with Suc show ?case by simp
qed (simp add: tally_def)

lemma slots_within: "i < 14 \<Longrightarrow> tally (\<lambda>e. slot e < Suc i) es = tally_le (hist_bounds ! i) es"
  by (simp add: tally_le_def slot_within less_Suc_eq_le)

lemma cumulate_eq:
  "length bs \<le> length ns \<Longrightarrow> (\<And>n. n \<in> set ns \<Longrightarrow> wrap64 n = n) \<Longrightarrow> wrap64 cum = cum \<Longrightarrow>
   cumulate bs ns cum = (map (\<lambda>i. PBucket (bs ! i) (wrap64 (cum + sum_list (take (Suc i) ns)))) [0..<length bs],
     wrap64 (cum + sum_list (take (length bs) ns)))"
proof (induction bs ns cum rule: cumulate.induct)
  case (1 b bs n ns cum)
  have "cumulate bs ns (wrap64 (cum + n)) = (map (\<lambda>i. PBucket (bs ! i) (wrap64 (wrap64 (cum + n) + sum_list (take (Suc i) ns)))) [0..<length bs],
     wrap64 (wrap64 (cum + n) + sum_list (take (length bs) ns)))"
    using "1.prems" wrap64_add(1) [of "cum + n" 0] by (intro "1.IH") auto
  then show ?case
    by (simp add: upt_conv_Cons map_Suc_upt [symmetric] comp_def add.assoc del: upt_Suc)
qed auto

lemma cumulate_hist:
  "cumulate hist_bounds (rmBucketCounts (hist_of es)) 0 =
     (map (\<lambda>b. PBucket b (wrap64 (tally_le b es))) hist_bounds, wrap64 (tally_le 10000 es))"
proof -
  let ?ns = "map (\<lambda>k. wrap64 (tally (\<lambda>e. slot e = k) es)) [0..<15]"
  have w: "wrap64 (sum_list (map (\<lambda>k. wrap64 (f k)) ks)) = wrap64 (sum_list (map f ks))" for f and ks :: "nat list"
    by (induction ks) (simp, metis (no_types, lifting) list.simps(9) sum_list.Cons wrap64_add)
  have part: "wrap64 (0 + sum_list (take (Suc i) ?ns)) = wrap64 (tally_le (hist_bounds ! i) es)" if "i < 14" for i
    using that sum_slots [of es "Suc i"] slots_within [OF that, of es]
    by (simp add: take_map w take_upt del: upt_Suc upt_rec_numeral)
  have ids: "wrap64 n = n" if "n \<in> set ?ns" for n using that by (auto simp: wrap64_id wrap64_range)
  have "map (\<lambda>i. PBucket (hist_bounds ! i) (wrap64 (0 + sum_list (take (Suc i) ?ns)))) [0..<14]
      = map (\<lambda>b. PBucket b (wrap64 (tally_le b es))) hist_bounds"
    by (rule nth_equalityI) (use part in \<open>simp_all add: length_bounds del: upt_rec_numeral\<close>)
  moreover have "wrap64 (0 + sum_list (take 14 ?ns)) = wrap64 (tally_le 10000 es)"
    using part [of 13] by (simp add: hist_bounds_def del: upt_rec_numeral)
  moreover have "cumulate hist_bounds ?ns 0 = (map (\<lambda>i. PBucket (hist_bounds ! i) (wrap64 (0 + sum_list (take (Suc i) ?ns)))) [0..<length hist_bounds],
     wrap64 (0 + sum_list (take (length hist_bounds) ?ns)))"
    by (rule cumulate_eq [OF _ ids]) (simp_all add: length_bounds wrap64_def [of 0] del: upt_rec_numeral)
  ultimately show ?thesis unfolding hist_of_def length_bounds by (simp only: RequestMetrics.select_convs)
qed

lemma tally_all: "tally (\<lambda>e. slot e < 15) es = int (length es)"
  using slot_le by (auto simp: tally_def less_Suc_eq_le filter_id_conv numeral_eq_Suc)

lemma hist_last: "wrap64 (wrap64 (tally_le 10000 es) + wrap64 (tally (\<lambda>e. slot e = 14) es)) = wrap64 (int (length es))"
proof -
  have "tally (\<lambda>e. slot e < 15) es = tally (\<lambda>e. slot e < 14) es + tally (\<lambda>e. slot e = 14) es"
    by (induction es rule: rev_induct) auto
  then show ?thesis using slots_within [of 13 es] tally_all [of es] by (simp add: hist_bounds_def)
qed

text \<open>
  The exposition is exact. After any run of requests has been recorded the histogram reports, for each
  bound, exactly the number of requests that took at most that many milliseconds (rounding never
  moves a request across a bound), all requests under +Inf and as the count, and the number of
  responses of each status class; nothing panics. Counts are those of an int64.
\<close>

theorem histogram_exact:
  "record_all NewRequestMetrics es \<bind> WritePrometheus =
     Some (map (\<lambda>b. PBucket b (wrap64 (tally_le b es))) hist_bounds @
       [PInf (wrap64 (int (length es))), PSum (fl (float64 (wrap64 (sum_list (map us_of es))) / 1000)),
        PCount (wrap64 (int (length es))),
        PClass ''2xx'' (wrap64 (tally (in_class 200 300) es)), PClass ''3xx'' (wrap64 (tally (in_class 300 400) es)),
        PClass ''4xx'' (wrap64 (tally (in_class 400 500) es)), PClass ''5xx'' (wrap64 (tally (\<lambda>e. 500 \<le> snd e) es))])"
proof -
  have n: "idx_get (rmBucketCounts (hist_of es)) 14 = Some (wrap64 (tally (\<lambda>e. slot e = 14) es))"
    by (simp add: hist_of_def no_panic del: upt_rec_numeral)
  have b: "rmBucketBounds (hist_of es) = hist_bounds" by (simp add: hist_of_def)
  have "WritePrometheus (hist_of es) =
     Some (map (\<lambda>b. PBucket b (wrap64 (tally_le b es))) hist_bounds @
       [PInf (wrap64 (wrap64 (tally_le 10000 es) + wrap64 (tally (\<lambda>e. slot e = 14) es))), PSum (fl (float64 (rmTotalSumUs (hist_of es)) / 1000)),
        PCount (rmTotalCount (hist_of es)), PClass ''2xx'' (rmStatus2xx (hist_of es)), PClass ''3xx'' (rmStatus3xx (hist_of es)),
        PClass ''4xx'' (rmStatus4xx (hist_of es)), PClass ''5xx'' (rmStatus5xx (hist_of es))])"
    by (simp only: WritePrometheus_def b cumulate_hist length_bounds n Let_def prod.case bind.bind_lunit)
  then show ?thesis unfolding hist_last by (simp add: record_all_eq hist_of_def)
qed

section \<open>The percentile\<close>

lemma percentile_scan_cumulate:
  "fst (cumulate bs ns cum) = map (\<lambda>b. PBucket b (f b)) xs \<Longrightarrow> percentile_scan target bs ns cum = find (\<lambda>b. target \<le> f b) xs"
proof (induction target bs ns cum arbitrary: xs rule: percentile_scan.induct)
  case (1 target b bs n ns cum)
  obtain ls c where c: "cumulate bs ns (wrap64 (cum + n)) = (ls, c)" by fastforce
  with "1.prems" obtain xs' where "xs = b # xs'" "wrap64 (cum + n) = f b" "ls = map (\<lambda>b. PBucket b (f b)) xs'"
    by (auto simp: Let_def)
  with "1.IH" [of "wrap64 (cum + n)" xs'] c show ?case by auto
qed auto

lemma percentile_scan_hist:
  "percentile_scan target hist_bounds (rmBucketCounts (hist_of es)) 0 = find (\<lambda>b. target \<le> wrap64 (tally_le b es)) hist_bounds"
  by (rule percentile_scan_cumulate) (simp add: cumulate_hist)

text \<open>The rank of the percentile is rounded up exactly: \<open>float64\<close> arithmetic cannot change it.\<close>

lemma ceiling_fl:
  assumes "0 \<le> k" "k < 2 ^ 47"
  shows "\<lceil>fl (of_int k / 100)\<rceil> = (k + 99) div 100"
proof -
  let ?q = "of_int k / 100 :: rat" and ?c = "(k + 99) div 100"
  have c: "k \<le> 100 * ?c" "100 * ?c \<le> k + 99" by linarith+
  have hi: "?q \<le> of_int ?c" and lo: "of_int ?c - 1 + 1 / 100 \<le> ?q"
    using of_int_le_iff [of k "100 * ?c", where 'a = rat] of_int_le_iff [of "100 * ?c" "k + 99", where 'a = rat] c
    by (simp_all del: of_int_le_iff of_int_div)
  have "\<bar>?c\<bar> \<le> 2 ^ 53" using assms c by (simp add: abs_if)
  then have up: "fl ?q \<le> of_int ?c" using fl_mono [OF hi] fl_int [of ?c] by simp
  have k': "of_int k < (of_int (2 ^ 47) :: rat)" "0 \<le> (of_int k :: rat)" using assms by (simp_all only: of_int_less_iff of_int_0_le_iff)
  have "?q - fl ?q \<le> ?q / 2 ^ 53" using fl_error [of ?q] abs_ge_minus_self [of "fl ?q - ?q"] k'(2) by simp
  moreover have "?q / 2 ^ 53 < 1 / 100" using k' by simp
  ultimately have "of_int ?c - 1 < fl ?q" using lo by linarith
  with up show ?thesis by (simp add: ceiling_unique)
qed

lemma find_least:
  assumes "sorted xs" "find P xs = Some b"
  shows "b \<in> set xs \<and> P b \<and> (\<forall>b'\<in>set xs. b' < b \<longrightarrow> \<not> P b')"
  using assms
  by (induction xs) (auto split: if_splits simp: not_less)

text \<open>
  Percentile is the nearest-rank percentile of the bucketed latencies: for a whole
  percentage and fewer than 2^40 requests it returns the least bound that at least the rank (the
  percentage of the requests, rounded up) of them meet, and the greatest bound when more than that
  are slower than every bound.
\<close>

theorem percentile_nearest_rank:
  assumes "record_all NewRequestMetrics es = Some rm" "es \<noteq> []" "length es < 2 ^ 40" "1 \<le> p" "p \<le> 100"
  shows "let rank = (int (length es) * p + 99) div 100; b = Percentile rm (of_int p)
    in if \<exists>b\<in>set hist_bounds. rank \<le> tally_le b es
       then b \<in> set hist_bounds \<and> rank \<le> tally_le b es \<and> (\<forall>b'\<in>set hist_bounds. b' < b \<longrightarrow> tally_le b' es < rank)
       else b = 10000"
proof -
  let ?n = "int (length es)" and ?rank = "(int (length es) * p + 99) div 100"
  have rm: "rm = hist_of es" using assms(1) by (simp add: record_all_eq)
  have n: "0 < ?n" "?n < 2 ^ 40" using assms(2,3) by auto
  have np: "0 \<le> ?n * p" "?n * p < 2 ^ 47"
  proof -
    have "?n * p \<le> ?n * 100" using assms(5) n by (intro mult_left_mono) auto
    moreover have "?n * 100 < 2 ^ 47" using n by simp
    ultimately show "0 \<le> ?n * p" "?n * p < 2 ^ 47" using n assms(4) by (simp, linarith)
  qed
  have total: "rmTotalCount rm = ?n" using n by (simp add: rm hist_of_def wrap64_id in_int64_def)
  have tot: "float64 ?n * of_int p = of_int (?n * p)" using n by (simp add: float64_int)
  have target: "\<lceil>fl (fl (float64 (rmTotalCount rm) * of_int p) / 100)\<rceil> = ?rank"
    unfolding total tot using ceiling_fl [OF np] np by (simp add: fl_int del: of_int_mult)
  have w: "wrap64 (tally_le b es) = tally_le b es" for b
  proof -
    have "tally_le b es \<le> ?n" by (simp add: tally_le_def tally_def)
    moreover have "0 \<le> tally_le b es" by (simp add: tally_le_def tally_def)
    ultimately show ?thesis using n(2) by (intro wrap64_id) (simp add: in_int64_def)
  qed
  have P: "Percentile rm (of_int p) = (case find (\<lambda>b. ?rank \<le> tally_le b es) hist_bounds of Some b \<Rightarrow> b | None \<Rightarrow> 10000)"
  proof -
    have b: "rmBucketBounds rm = hist_bounds" by (simp add: rm hist_of_def del: upt_rec_numeral)
    have S: "percentile_scan ?rank hist_bounds (rmBucketCounts rm) 0 = find (\<lambda>b. ?rank \<le> tally_le b es) hist_bounds"
      unfolding rm percentile_scan_hist w ..
    have l: "(if hist_bounds \<noteq> [] then last hist_bounds else 0) = 10000" by (simp add: hist_bounds_def)
    have "rmTotalCount rm \<noteq> 0" using total n(1) by simp
    then show ?thesis unfolding Percentile_def target b S l Let_def by (simp only: if_False)
  qed
  show ?thesis
  proof (cases "find (\<lambda>b. ?rank \<le> tally_le b es) hist_bounds")
    case None
    then have "\<not> (\<exists>b\<in>set hist_bounds. ?rank \<le> tally_le b es)" by (auto simp: find_None_iff)
    then show ?thesis using None by (simp add: P Let_def)
  next
    case (Some b)
    from find_least [OF sorted_bounds this] show ?thesis by (auto simp: P Some Let_def not_le)
  qed
qed

theorem percentile_nearest_rank_witness:
  "\<exists>rm. record_all NewRequestMetrics [(3000000, 200), (40000000, 200)] = Some rm \<and> Percentile rm 50 = 5"
proof -
  obtain rm where rm: "record_all NewRequestMetrics [(3000000, 200), (40000000, 200)] = Some rm" using record_all_eq by blast
  have t: "tally_le b [(3000000, 200), (40000000, 200)] = (if 3 \<le> b then 1 else 0) + (if 40 \<le> b then 1 else 0)" for b
    by (simp add: tally_le_def tally_def us_of_def dur_Microseconds_def quot_trunc_def)
  have P: "Percentile rm 50 \<in> set hist_bounds \<and> 1 \<le> tally_le (Percentile rm 50) [(3000000, 200), (40000000, 200)] \<and>
     (\<forall>b'\<in>set hist_bounds. b' < Percentile rm 50 \<longrightarrow> tally_le b' [(3000000, 200), (40000000, 200)] < 1)"
  proof -
    have "\<exists>b\<in>set hist_bounds. 1 \<le> tally_le b [(3000000, 200), (40000000, 200)]"
      by (rule bexI [of _ 5]) (simp_all add: t hist_bounds_def)
    then show ?thesis using percentile_nearest_rank [OF rm, of 50] by (simp add: Let_def)
  qed
  then have "3 \<le> Percentile rm 50" unfolding t by (auto split: if_splits)
  moreover have "\<not> 5 < Percentile rm 50" using P unfolding t by (auto simp: hist_bounds_def)
  moreover have "Percentile rm 50 \<in> set hist_bounds" using P by blast
  ultimately have "Percentile rm 50 = 5" by (auto simp: hist_bounds_def)
  with rm show ?thesis by blast
qed

section \<open>Recording requests\<close>

text \<open>
  The middleware is invisible to the client and records what the client got: whatever calls the next handler makes, the response
  is the one it would have produced on the plain writer, and the request is recorded with exactly
  the status that was sent, without a panic.
\<close>

theorem metrics_records_sent_status:
  assumes "rwSent w = None"
  shows "metrics_ServeHTTP (hist_of es) w d cs =
    Some (run_calls w cs, hist_of (es @ [(d, rw_status (run_calls w cs))]))"
proof -
  let ?rw = "\<lparr>mrResponseWriter = w, mrStatus = 200, mrOnce = False\<rparr>"
  have "mrw_tracks ?rw" using assms by (simp add: mrw_tracks_def rw_status_def)
  then show ?thesis using mrw.run_status [of ?rw cs] mrw.run_inner [of ?rw cs]
    by (simp add: metrics_ServeHTTP_def Let_def hist_Record_snoc)
qed

theorem metrics_records_sent_status_witness:
  "metrics_ServeHTTP (hist_of []) new_respw 7 [CWriteHeader 404, CWrite ''x''] =
     Some (run_calls new_respw [CWriteHeader 404, CWrite ''x''], hist_of [(7, 404)])"
proof -
  have "rw_status (run_calls new_respw [CWriteHeader 404, CWrite ''x'']) = 404"
    by (simp add: rw_status_def net_Write_sent)
  then show ?thesis using metrics_records_sent_status [of new_respw "[]" 7 "[CWriteHeader 404, CWrite ''x'']"]
    by (simp del: run_calls_simps)
qed

end
