(* ===== verification/AccessLog.thy ===== *)
theory AccessLog
  imports GoFloat GoWriter
begin

text \<open>
  \<open>logging/logging.go\<close>: the levelled logger, request ids and the access-log middleware, the outermost
  one of the server. A line of the log is the record that is written as JSON; the formatted time and
  the random bytes of a request id are parameters.
\<close>

section \<open>The logger\<close>

definition LevelDebug :: int where "LevelDebug = 0"

definition LevelInfo :: int where "LevelInfo = 1"

definition LevelError :: int where "LevelError = 2"

record AccessEntry =
  aeTimestamp :: string
  aeLevel :: string
  aeRequestID :: string
  aeMethod :: string
  aeHost :: string
  aePath :: string
  aeStatus :: int
  aeBytesSent :: int
  aeDurationMs :: rat
  aeCacheStatus :: string
  aeClientIP :: string
  aeUserAgent :: string

record LogEntry =
  leTimestamp :: string
  leLevel :: string
  leMsg :: string
  leRequestID :: string
  leError :: string

datatype logLine = LAccess AccessEntry | LEntry LogEntry

record Logger =
  lgOut :: "logLine list"
  lgLevel :: int

definition log_New :: Logger where
  "log_New = \<lparr>lgOut = [], lgLevel = LevelInfo\<rparr>"

definition SetLevel :: "Logger \<Rightarrow> string \<Rightarrow> Logger" where
  "SetLevel l level =
     (if level = ''debug'' then l\<lparr>lgLevel := LevelDebug\<rparr>
      else if level = ''info'' then l\<lparr>lgLevel := LevelInfo\<rparr>
      else if level = ''error'' then l\<lparr>lgLevel := LevelError\<rparr>
      else l)"

definition log_Level :: "Logger \<Rightarrow> string" where
  "log_Level l =
     (if lgLevel l = LevelDebug then ''debug''
      else if lgLevel l = LevelInfo then ''info''
      else if lgLevel l = LevelError then ''error''
      else ''info'')"

definition log_write :: "Logger \<Rightarrow> logLine \<Rightarrow> Logger" where
  "log_write l v = l\<lparr>lgOut := lgOut l @ [v]\<rparr>"

definition log_Access :: "string \<Rightarrow> Logger \<Rightarrow> AccessEntry \<Rightarrow> Logger" where
  "log_Access ts l entry =
     (if lgLevel l > LevelInfo then l
      else log_write l (LAccess (entry\<lparr>aeTimestamp := ts, aeLevel := ''info''\<rparr>)))"

text \<open>The optional request id of the variadic parameter: the first one given.\<close>

definition first_id :: "string list \<Rightarrow> string" where
  "first_id requestID = (case requestID of [] \<Rightarrow> [] | i # _ \<Rightarrow> i)"

definition log_Debug :: "string \<Rightarrow> Logger \<Rightarrow> string \<Rightarrow> string list \<Rightarrow> Logger" where
  "log_Debug ts l msg requestID =
     (if lgLevel l > LevelDebug then l
      else log_write l (LEntry \<lparr>leTimestamp = ts, leLevel = ''debug'', leMsg = msg, leRequestID = first_id requestID, leError = []\<rparr>))"

definition log_Info :: "string \<Rightarrow> Logger \<Rightarrow> string \<Rightarrow> string list \<Rightarrow> Logger" where
  "log_Info ts l msg requestID =
     (if lgLevel l > LevelInfo then l
      else log_write l (LEntry \<lparr>leTimestamp = ts, leLevel = ''info'', leMsg = msg, leRequestID = first_id requestID, leError = []\<rparr>))"

definition log_Error :: "string \<Rightarrow> Logger \<Rightarrow> string \<Rightarrow> string option \<Rightarrow> string list \<Rightarrow> Logger" where
  "log_Error ts l msg err requestID =
     log_write l (LEntry \<lparr>leTimestamp = ts, leLevel = ''error'', leMsg = msg, leRequestID = first_id requestID,
                          leError = (case err of None \<Rightarrow> [] | Some e \<Rightarrow> e)\<rparr>)"

section \<open>The middleware\<close>

definition GenerateRequestID :: "bytes \<Rightarrow> string" where
  "GenerateRequestID rand = hex_EncodeToString rand"

record responseWriter =
  rrResponseWriter :: respw
  rrStatus :: int
  rrBytesWritten :: int

fun rrw_call :: "responseWriter \<Rightarrow> call \<Rightarrow> responseWriter" where
  "rrw_call rw (CWriteHeader code) =
     rw\<lparr>rrStatus := code, rrResponseWriter := w_WriteHeader (rrResponseWriter rw) code\<rparr>"
| "rrw_call rw (CWrite b) =
     (let (n, w) = net_Write (rrResponseWriter rw) b
      in rw\<lparr>rrResponseWriter := w, rrBytesWritten := rrBytesWritten rw + int n\<rparr>)"
| "rrw_call rw c = rw\<lparr>rrResponseWriter := do_call (rrResponseWriter rw) c\<rparr>"

definition clientIP :: "request \<Rightarrow> string" where
  "clientIP r =
     (let xff = header_Get (reqHeader r) ''X-Forwarded-For'' in if xff \<noteq> [] then xff else reqRemoteAddr r)"

text \<open>
  What one request needs from outside: random bytes, the time it took and the formatted time of the
  log line. \<open>next_calls\<close> gets the request id that the context carries.
\<close>

record logEnv =
  lvRand :: bytes
  lvElapsed :: duration
  lvNow :: string

definition log_Middleware ::
  "logEnv \<Rightarrow> Logger \<Rightarrow> (string \<Rightarrow> call list) \<Rightarrow> respw \<Rightarrow> request \<Rightarrow> respw \<times> Logger" where
  "log_Middleware ev l next_calls w r =
     (let reqID = header_Get (reqHeader r) ''X-Request-ID'';
          reqID = (if reqID = [] then GenerateRequestID (lvRand ev) else reqID);
          rw = \<lparr>rrResponseWriter = w_Set w ''X-Request-ID'' reqID, rrStatus = 200, rrBytesWritten = 0\<rparr>;
          rw = foldl rrw_call rw (next_calls reqID)
      in (rrResponseWriter rw,
          log_Access (lvNow ev) l
            \<lparr>aeTimestamp = [], aeLevel = [], aeRequestID = reqID, aeMethod = reqMethod r, aeHost = reqHost r,
             aePath = reqPath r, aeStatus = rrStatus rw, aeBytesSent = rrBytesWritten rw,
             aeDurationMs = fl (float64 (dur_Microseconds (lvElapsed ev)) / 1000),
             aeCacheStatus = header_Get (rwHeader (rrResponseWriter rw)) ''X-Cache'',
             aeClientIP = clientIP r, aeUserAgent = header_Get (reqHeader r) ''User-Agent''\<rparr>))"

interpretation rrw: writer_wrapper rrResponseWriter rrw_call
proof
  show "rrResponseWriter (rrw_call s c) = do_call (rrResponseWriter s) c" for s c
    by (cases c) (simp_all add: case_prod_unfold Let_def)
qed

section \<open>What is logged\<close>

text \<open>The level is always one of the three, and naming it sets it.\<close>

definition level_ok :: "Logger \<Rightarrow> bool" where
  "level_ok l \<longleftrightarrow> lgLevel l \<in> {LevelDebug, LevelInfo, LevelError}"

lemmas level_defs = LevelDebug_def LevelInfo_def LevelError_def

lemma level_ok_New: "level_ok log_New"
  by (simp add: level_ok_def log_New_def)

lemma level_ok_SetLevel: "level_ok l \<Longrightarrow> level_ok (SetLevel l s)"
  by (simp add: level_ok_def SetLevel_def)

lemma Level_SetLevel:
  "level_ok l \<Longrightarrow> log_Level (SetLevel l s) = (if s \<in> {''debug'', ''info'', ''error''} then s else log_Level l)"
  by (auto simp: level_ok_def log_Level_def SetLevel_def level_defs)

text \<open>The last status passed to \<open>WriteHeader\<close>, 200 without one.\<close>

fun last_status :: "int \<Rightarrow> call list \<Rightarrow> int" where
  "last_status s [] = s"
| "last_status s (CWriteHeader code # cs) = last_status code cs"
| "last_status s (c # cs) = last_status s cs"

lemma rrw_status: "rrStatus (foldl rrw_call rw cs) = last_status (rrStatus rw) cs"
proof (induction cs arbitrary: rw)
  case (Cons c cs)
  then show ?case by (cases c) (simp_all add: case_prod_unfold Let_def)
qed simp

lemma net_Write_count: "int (fst (net_Write w b)) = int (length (rwBody (snd (net_Write w b)))) - int (length (rwBody w))"
  by (simp add: net_Write_def Let_def)

lemma rrw_bytes:
  "rrBytesWritten (foldl rrw_call rw cs) =
     rrBytesWritten rw + int (length (rwBody (run_calls (rrResponseWriter rw) cs))) - int (length (rwBody (rrResponseWriter rw)))"
proof (induction cs arbitrary: rw)
  case (Cons c cs)
  then show ?case
    using net_Write_count by (cases c) (simp_all add: case_prod_unfold Let_def w_Del_def)
qed simp

lemma last_status_append: "last_status s (cs @ ds) = last_status (last_status s cs) ds"
  by (induction s cs rule: last_status.induct) simp_all

lemma last_status_edits: "list_all is_edit cs \<Longrightarrow> last_status s cs = s"
  by (induction s cs rule: last_status.induct) simp_all

lemma last_status_writes: "list_all is_write cs \<Longrightarrow> last_status s cs = s"
  by (induction s cs rule: last_status.induct) simp_all

lemma disciplined_status:
  assumes "disciplined cs es st ws" "rwSent w = None"
  shows "rw_status (run_calls w cs) = last_status 200 cs"
proof -
  have L: "last_status 200 cs = (case st of None \<Rightarrow> 200 | Some c \<Rightarrow> c)"
    using assms(1) by (auto simp: disciplined_def last_status_append last_status_edits last_status_writes split: option.splits)
  let ?w = "w\<lparr>rwHeader := foldl edit_header (rwHeader w) es\<rparr>"
  have E: "run_calls w cs = run_calls (run_calls ?w (case st of None \<Rightarrow> [] | Some c \<Rightarrow> [CWriteHeader c])) ws"
    and ws: "list_all is_write ws" using assms(1) by (auto simp: disciplined_def run_edits)
  have sent: "rwSent ?w = None" using assms(2) by simp
  show ?thesis
  proof (cases st)
    case (Some c)
    then show ?thesis using E L run_calls_sent [of "w_WriteHeader ?w c"] sent by (simp add: rw_status_def)
  next
    case None
    show ?thesis
    proof (cases ws)
      case (Cons b bs)
      with ws obtain x where "b = CWrite x" by (cases b) auto
      then have "rwSent (run_calls ?w ws) = Some (200, rwHeader ?w)"
        using sent run_calls_sent [of "do_call ?w b" "(200, rwHeader ?w)" bs] Cons by (simp add: net_Write_def Let_def)
      then show ?thesis using E L None by (simp add: rw_status_def)
    qed (use E L None sent in \<open>simp add: rw_status_def\<close>)
  qed
qed

text \<open>
  The access log tells what was sent. The client gets what the handler would have produced on the plain
  writer with the request id set; at level debug or info exactly one line is
  added, with that id and exactly the number of body bytes sent, and at level error none. For a handler that edits headers,
  then sets the status at most once, then writes, the logged status is the one sent.
\<close>

theorem access_log_exact:
  assumes "rwSent w = None" "rwBody w = []" "log_Middleware ev l next_calls w r = (w', l')" "level_ok l"
  shows "\<exists>id e. id = (if header_Get (reqHeader r) ''X-Request-ID'' = [] then hex_EncodeToString (lvRand ev)
        else header_Get (reqHeader r) ''X-Request-ID'') \<and>
      w' = run_calls (w_Set w ''X-Request-ID'' id) (next_calls id) \<and>
      l' = (if log_Level l = ''error'' then l else l\<lparr>lgOut := lgOut l @ [LAccess e]\<rparr>) \<and>
      aeRequestID e = id \<and> aeBytesSent e = int (length (rwBody w')) \<and>
      (\<forall>es st ws. disciplined (next_calls id) es st ws \<longrightarrow> aeStatus e = rw_status w')"
proof -
  define id where "id = (if header_Get (reqHeader r) ''X-Request-ID'' = [] then hex_EncodeToString (lvRand ev)
    else header_Get (reqHeader r) ''X-Request-ID'')"
  define rw where "rw = \<lparr>rrResponseWriter = w_Set w ''X-Request-ID'' id, rrStatus = 200, rrBytesWritten = 0\<rparr>"
  let ?w = "w_Set w ''X-Request-ID'' id" and ?rw = "foldl rrw_call rw (next_calls id)"
  define e where "e = \<lparr>aeTimestamp = lvNow ev, aeLevel = ''info'', aeRequestID = id, aeMethod = reqMethod r, aeHost = reqHost r,
      aePath = reqPath r, aeStatus = rrStatus ?rw, aeBytesSent = rrBytesWritten ?rw,
      aeDurationMs = fl (float64 (dur_Microseconds (lvElapsed ev)) / 1000),
      aeCacheStatus = header_Get (rwHeader (rrResponseWriter ?rw)) ''X-Cache'',
      aeClientIP = clientIP r, aeUserAgent = header_Get (reqHeader r) ''User-Agent''\<rparr>"
  have M: "w' = rrResponseWriter ?rw" and L: "l' = (if lgLevel l > LevelInfo then l else l\<lparr>lgOut := lgOut l @ [LAccess e]\<rparr>)"
    using assms(3) [unfolded log_Middleware_def Let_def GenerateRequestID_def, folded id_def, folded rw_def]
    by (auto simp: log_Access_def log_write_def e_def)
  have ef: "aeRequestID e = id" "aeStatus e = rrStatus ?rw" "aeBytesSent e = rrBytesWritten ?rw" by (simp_all add: e_def)
  have w': "w' = run_calls ?w (next_calls id)" using rrw.run_inner [of rw] by (simp add: M rw_def)
  have lev: "lgLevel l > LevelInfo \<longleftrightarrow> log_Level l = ''error''" using assms(4) by (auto simp: level_ok_def log_Level_def level_defs)
  have bytes: "rrBytesWritten ?rw = int (length (rwBody w'))" using rrw_bytes [of rw] w' assms(2) by (simp add: rw_def)
  have status: "rrStatus ?rw = rw_status w'" if "disciplined (next_calls id) es st ws" for es st ws
    using disciplined_status [OF that, of ?w] rrw_status [of rw] w' assms(1) by (simp add: rw_def)
  show ?thesis
  proof (intro exI conjI)
    show "id = (if header_Get (reqHeader r) ''X-Request-ID'' = [] then hex_EncodeToString (lvRand ev)
        else header_Get (reqHeader r) ''X-Request-ID'')" by (rule id_def)
    show "l' = (if log_Level l = ''error'' then l else l\<lparr>lgOut := lgOut l @ [LAccess e]\<rparr>)" using L unfolding lev .
    show "\<forall>es st ws. disciplined (next_calls id) es st ws \<longrightarrow> aeStatus e = rw_status w'" using status ef(2) by simp
  qed (use w' ef bytes in simp_all)
qed

text \<open>The theorem on a request without an id to a handler that answers 404.\<close>

definition demo_log_req :: request where
  "demo_log_req = \<lparr>reqMethod = ''GET'', reqHost = ''h'', reqPath = ''/'', reqRawQuery = [], reqURI = ''/'',
     reqHeader = [], reqRemoteAddr = ''10.0.0.1:99''\<rparr>"

definition demo_log_calls :: "call list" where
  "demo_log_calls = [CSet ''X-Cache'' ''MISS'', CWriteHeader 404, CWrite ''gone'']"

theorem access_log_exact_witness:
  "\<exists>w' l' e. log_Middleware \<lparr>lvRand = [CHR 0xAB], lvElapsed = 5, lvNow = ''t''\<rparr> log_New (\<lambda>_. demo_log_calls) new_respw demo_log_req = (w', l') \<and>
     lgOut l' = [LAccess e] \<and> aeRequestID e = ''ab'' \<and> aeStatus e = 404 \<and> aeBytesSent e = 4"
proof -
  let ?ev = "\<lparr>lvRand = [CHR 0xAB], lvElapsed = 5, lvNow = ''t''\<rparr>"
  obtain w' l' where m: "log_Middleware ?ev log_New (\<lambda>_. demo_log_calls) new_respw demo_log_req = (w', l')" by fastforce
  have d: "disciplined demo_log_calls [CSet ''X-Cache'' ''MISS''] (Some 404) [CWrite ''gone'']"
    by (simp add: disciplined_def demo_log_calls_def)
  have id: "hex_EncodeToString [CHR 0xAB] = ''ab''" by (simp add: hex_EncodeToString_def hex_digit_def)
  obtain e where e: "w' = run_calls (w_Set new_respw ''X-Request-ID'' ''ab'') demo_log_calls"
    "l' = (if log_Level log_New = ''error'' then log_New else log_New\<lparr>lgOut := lgOut log_New @ [LAccess e]\<rparr>)"
    "aeRequestID e = ''ab''" "aeBytesSent e = int (length (rwBody w'))" "aeStatus e = rw_status w'"
    using access_log_exact [OF _ _ m level_ok_New] d by (auto simp: demo_log_req_def id)
  have st: "rw_status w' = last_status 200 demo_log_calls" using disciplined_status [OF d] e(1) by simp
  have b: "rwBody w' = ''gone''"
    by (simp add: e(1) demo_log_calls_def net_Write_sent bodyAllowedForStatus_def)
  have "lgOut l' = [LAccess e]" using e(2) by (simp add: log_New_def log_Level_def level_defs)
  with m e st b show ?thesis by (auto simp: demo_log_calls_def)
qed

text \<open>
  A second \<open>WriteHeader\<close> is ignored by the server but recorded by the log: the logged status then is
  not the one sent.
\<close>

lemma access_log_superfluous:
  "rrStatus (foldl rrw_call \<lparr>rrResponseWriter = new_respw, rrStatus = 200, rrBytesWritten = 0\<rparr> [CWriteHeader 200, CWriteHeader 500]) = 500"
  "rw_status (run_calls new_respw [CWriteHeader 200, CWriteHeader 500]) = 200"
  by (simp_all add: rw_status_def)

end
