(* ===== verification/Admin.thy ===== *)
theory Admin
  imports Warm Histogram AccessLog
begin

text \<open>
  The administrative endpoints of the edge: \<open>metrics/metrics.go\<close> (metrics, probes, log level, API key),
  \<open>purge/distributed.go\<close> (purge with fan-out to peers) and \<open>mountAdmin\<close> of \<open>main.go\<close>, which puts them on paths. The
  state is the common part of the serving handlers with the readiness flag, the request metrics, the
  logger and the peers; \<open>asSent\<close> logs the purge messages sent to peers. JSON, the runtime's memory
  statistics and the peers' answers are parameters.
\<close>

section \<open>State and environment\<close>

record admReq = request +
  rqQuery :: "string \<Rightarrow> string"
  rqBody :: bytes

record peerMsg =
  pmURL :: string
  pmContentType :: string
  pmAPIKey :: "string option"
  pmBody :: bytes

datatype peerReply = PeerBadURL string | PeerError string | PeerStatus int

record purgeResult =
  puPeer :: string
  puStatus :: string
  puError :: string

record 'a adminState =
  asCore :: "'a edgeCore_scheme"
  asReady :: bool
  asReqMet :: RequestMetrics
  asLog :: Logger
  asPeers :: "string list"
  asSent :: "peerMsg list"

record cacheMetrics =
  cmHits :: int
  cmMisses :: int
  cmEvictions :: int
  cmStaleHits :: int
  cmItemsInMem :: int
  cmHitRate :: rat

record metricsResponse =
  mpCache :: cacheMetrics
  mpGoroutines :: int
  mpHeapAllocMB :: rat
  mpNumGC :: int
  mpCircuitState :: string

record adminEnv =
  adGoroutines :: int
  adHeapAlloc :: int
  adNumGC :: int
  adMetricsJSON :: "metricsResponse \<Rightarrow> bytes"
  adPromText :: "(string \<times> int) list \<Rightarrow> promLine list \<Rightarrow> bytes"
  adLevel :: "bytes \<Rightarrow> string option"
  adDistributed :: "bytes \<Rightarrow> bool"
  adPurgeJSON :: "bool \<Rightarrow> bytes"
  adResultsJSON :: "purgeResult list \<Rightarrow> bytes"
  adPeerReply :: "peerMsg \<Rightarrow> peerReply"
  adWarmDecode :: "bytes \<Rightarrow> string list option"
  adWarmEncode :: "int \<Rightarrow> warmResult list \<Rightarrow> bytes"
  adWarmEnvs :: "nat \<Rightarrow> warmEnv"
  adWarmOrder :: "nat list"

type_synonym 'a adminHandler = "'a adminState \<Rightarrow> respw \<Rightarrow> admReq \<Rightarrow> (respw \<times> 'a adminState) option"

section \<open>Metrics and probes\<close>

definition metrics_SetReady :: "'a adminState \<Rightarrow> bool \<Rightarrow> 'a adminState" where
  "metrics_SetReady s ready = s\<lparr>asReady := ready\<rparr>"

definition hit_rate :: "int \<Rightarrow> int \<Rightarrow> rat" where
  "hit_rate hits misses =
     (let total' = hits + misses
      in if total' > 0 then fl (fl (float64 hits / float64 total') * 100) else 0)"

definition ServeJSONMetrics :: "adminEnv \<Rightarrow> 'a adminHandler" where
  "ServeJSONMetrics ev s w r =
     (let (hits, misses, evicts, staleHits) = GetStats (cdCache (asCore s));
          resp = \<lparr>mpCache = \<lparr>cmHits = hits, cmMisses = misses, cmEvictions = evicts, cmStaleHits = staleHits,
                             cmItemsInMem = cache_Len (cdCache (asCore s)), cmHitRate = hit_rate hits misses\<rparr>,
                  mpGoroutines = adGoroutines ev, mpHeapAllocMB = fl (fl (float64 (adHeapAlloc ev) / 1024) / 1024),
                  mpNumGC = adNumGC ev, mpCircuitState = CircuitState (cdOrigin (asCore s))\<rparr>
      in Some (w_Write (w_Set w ''Content-Type'' ''application/json'') (adMetricsJSON ev resp), s))"

definition prometheus_counters :: "adminEnv \<Rightarrow> 'a edgeCore_scheme \<Rightarrow> (string \<times> int) list" where
  "prometheus_counters ev h =
     (let (hits, misses, evicts, staleHits) = GetStats (cdCache h);
          circuitOpen = (if CircuitState (cdOrigin h) = ''open'' then 1 else 0)
      in [(''cdn_cache_hits_total'', hits), (''cdn_cache_misses_total'', misses), (''cdn_cache_evictions_total'', evicts),
          (''cdn_cache_stale_hits_total'', staleHits), (''cdn_cache_items_in_memory'', cache_Len (cdCache h)),
          (''cdn_origin_circuit_open'', circuitOpen), (''cdn_goroutines'', adGoroutines ev),
          (''cdn_heap_alloc_bytes'', adHeapAlloc ev), (''cdn_gc_total'', adNumGC ev)])"

definition ServePrometheus :: "adminEnv \<Rightarrow> 'a adminHandler" where
  "ServePrometheus ev s w r =
     do {
       let w = w_Set w ''Content-Type'' ''text/plain; version=0.0.4; charset=utf-8'';
       ls \<leftarrow> WritePrometheus (asReqMet s);
       Some (w_Write w (adPromText ev (prometheus_counters ev (asCore s)) ls), s)
     }"

definition ServeLiveness :: "'a adminHandler" where
  "ServeLiveness s w r = Some (w_Write (w_Set w ''Content-Type'' ''application/json'') ''{\"status\":\"alive\"}'', s)"

definition ServeReadiness :: "'a adminHandler" where
  "ServeReadiness s w r =
     (let w = w_Set w ''Content-Type'' ''application/json''
      in if \<not> asReady s then Some (w_Write (w_WriteHeader w 503) ''{\"status\":\"not ready\"}'', s)
         else if CircuitState (cdOrigin (asCore s)) = ''open''
              then Some (w_Write (w_WriteHeader w 503) ''{\"status\":\"origin unavailable\"}'', s)
         else Some (w_Write w ''{\"status\":\"ready\"}'', s))"

definition metrics_ServePurge :: "'a adminHandler" where
  "metrics_ServePurge s w r =
     (if reqMethod r \<noteq> ''POST'' then Some (http_Error w ''Method Not Allowed'' 405, s)
      else Some (w_Write (w_Set w ''Content-Type'' ''application/json'') ''{\"status\":\"purged\"}'',
                 s\<lparr>asCore := (asCore s)\<lparr>cdCache := cache_Purge (cdCache (asCore s))\<rparr>\<rparr>))"

section \<open>Log level and authentication\<close>

definition level_body :: "string \<Rightarrow> bytes" where
  "level_body level = ''{\"level\":\"'' @ level @ ''\"}''"

definition LogLevelHandler :: "adminEnv \<Rightarrow> 'a adminHandler" where
  "LogLevelHandler ev s w r =
     (let w = w_Set w ''Content-Type'' ''application/json''
      in if reqMethod r = ''GET'' then Some (w_Write w (level_body (log_Level (asLog s))), s)
         else if reqMethod r = ''POST'' then
           (case adLevel ev (rqBody r) of
              None \<Rightarrow> Some (http_Error w ''invalid JSON'' 400, s)
            | Some level \<Rightarrow>
                if level \<in> set [''debug'', ''info'', ''error'']
                then Some (w_Write w (level_body level), s\<lparr>asLog := SetLevel (asLog s) level\<rparr>)
                else Some (http_Error w ''invalid level'' 400, s))
         else Some (http_Error w ''Method Not Allowed'' 405, s))"

definition presented_key :: "admReq \<Rightarrow> string" where
  "presented_key r =
     (let key = header_Get (reqHeader r) ''X-API-Key'' in if key = [] then rqQuery r ''api_key'' else key)"

definition AdminAuth :: "string \<Rightarrow> 'a adminHandler \<Rightarrow> 'a adminHandler" where
  "AdminAuth apiKey next' s w r =
     (if apiKey = [] then next' s w r
      else if presented_key r \<noteq> apiKey then Some (http_Error w ''Unauthorized'' 401, s)
      else next' s w r)"

section \<open>Distributed purge\<close>

definition SetPeers :: "'a adminState \<Rightarrow> string list \<Rightarrow> 'a adminState" where
  "SetPeers s peers = s\<lparr>asPeers := peers\<rparr>"

definition purge_msg :: "adminEnv \<Rightarrow> string \<Rightarrow> string \<Rightarrow> peerMsg" where
  "purge_msg ev apiKey peerURL =
     \<lparr>pmURL = peerURL @ ''/purge'', pmContentType = ''application/json'',
      pmAPIKey = (if apiKey \<noteq> [] then Some apiKey else None), pmBody = adPurgeJSON ev False\<rparr>"

text \<open>One peer: the result, and the message if one could be built.\<close>

definition purgePeer :: "adminEnv \<Rightarrow> string \<Rightarrow> string \<Rightarrow> purgeResult \<times> peerMsg list" where
  "purgePeer ev apiKey peerURL =
     (let m = purge_msg ev apiKey peerURL
      in case adPeerReply ev m of
           PeerBadURL err \<Rightarrow> (\<lparr>puPeer = peerURL, puStatus = ''error'', puError = err\<rparr>, [])
         | PeerError err \<Rightarrow> (\<lparr>puPeer = peerURL, puStatus = ''error'', puError = err\<rparr>, [m])
         | PeerStatus code \<Rightarrow>
             if code \<noteq> 200 then (\<lparr>puPeer = peerURL, puStatus = ''error'', puError = ''status '' @ strconv_Itoa code\<rparr>, [m])
             else (\<lparr>puPeer = peerURL, puStatus = ''ok'', puError = []\<rparr>, [m]))"

definition dist_ServePurge :: "adminEnv \<Rightarrow> string \<Rightarrow> 'a adminHandler" where
  "dist_ServePurge ev apiKey s w r =
     (if reqMethod r \<noteq> ''POST'' then Some (http_Error w ''Method Not Allowed'' 405, s)
      else let s = s\<lparr>asCore := (asCore s)\<lparr>cdCache := cache_Purge (cdCache (asCore s))\<rparr>\<rparr>;
               w = w_Set w ''Content-Type'' ''application/json''
           in if \<not> adDistributed ev (rqBody r) then Some (w_Write w ''{\"status\":\"purged\",\"scope\":\"local\"}'', s)
              else let rs = map (purgePeer ev apiKey) (asPeers s)
                   in Some (w_Write w (adResultsJSON ev (map fst rs)), s\<lparr>asSent := asSent s @ concat (map snd rs)\<rparr>))"

section \<open>Routes\<close>

definition warm_route :: "adminEnv \<Rightarrow> string \<Rightarrow> 'a adminHandler" where
  "warm_route ev originURL s w r =
     do {
       (w, h) \<leftarrow> warm_ServeHTTP (adWarmDecode ev) (adWarmEncode ev) (adWarmEnvs ev) (adWarmOrder ev) originURL (asCore s) w (reqMethod r) (rqBody r);
       Some (w, s\<lparr>asCore := h\<rparr>)
     }"

text \<open>The table of \<open>mountAdmin\<close>; \<open>None\<close> for a path that goes to the data plane.\<close>

definition mountAdmin :: "adminEnv \<Rightarrow> string \<Rightarrow> string \<Rightarrow> string \<Rightarrow> 'a adminHandler option" where
  "mountAdmin ev apiKey originURL path =
     (if path \<in> set [''/livez'', ''/health''] then Some ServeLiveness
      else if path = ''/readyz'' then Some ServeReadiness
      else if path = ''/metrics'' then Some (AdminAuth apiKey (ServePrometheus ev))
      else if path = ''/metrics.json'' then Some (AdminAuth apiKey (ServeJSONMetrics ev))
      else if path = ''/purge'' then Some (AdminAuth apiKey (dist_ServePurge ev apiKey))
      else if path = ''/warm'' then Some (AdminAuth apiKey (warm_route ev originURL))
      else if path = ''/loglevel'' then Some (AdminAuth apiKey (LogLevelHandler ev))
      else None)"

section \<open>What the endpoints promise\<close>

text \<open>
  C12. The API key protects the operational endpoints. When a key is configured, a request that
  does not present it (in the X-API-Key header or the api_key parameter) is answered 401 on every
  endpoint but the probes and changes nothing; the probes are answered 200 or 503 and change
  nothing.
\<close>

theorem admin_authorised:
  assumes "mountAdmin ev apiKey originURL path = Some handler" "apiKey \<noteq> []" "presented_key r \<noteq> apiKey" "rwSent w = None"
  shows "\<exists>w'. handler s w r = Some (w', s) \<and>
    (if path \<in> {''/livez'', ''/health'', ''/readyz''} then rw_status w' \<in> {200, 503} else rw_status w' = 401)"
proof -
  have probe: "rw_status (w_Write (w_Set w k v) b) = 200" "rw_status (w_Write (w_WriteHeader (w_Set w k v) 503) b) = 503" for k v b
    using assms(4) by (simp_all add: w_Write_def rw_status_def Let_def)
  show ?thesis using assms probe
    by (auto simp: mountAdmin_def AdminAuth_def ServeLiveness_def ServeReadiness_def Let_def split: if_splits)
qed

definition demo_adm :: adminEnv where
  "demo_adm = \<lparr>adGoroutines = 1, adHeapAlloc = 0, adNumGC = 0, adMetricsJSON = (\<lambda>_. []), adPromText = (\<lambda>_ _. []), adLevel = (\<lambda>_. None),
     adDistributed = (\<lambda>b. b \<noteq> ''local''), adPurgeJSON = (\<lambda>b. if b then [] else ''local''), adResultsJSON = (\<lambda>_. []),
     adPeerReply = (\<lambda>_. PeerStatus 200), adWarmDecode = (\<lambda>_. None), adWarmEncode = (\<lambda>_ _. []), adWarmEnvs = demo_warm, adWarmOrder = []\<rparr>"

definition demo_adm_req :: "string \<Rightarrow> admReq" where
  "demo_adm_req path = \<lparr>reqMethod = ''POST'', reqHost = ''h'', reqPath = path, reqRawQuery = [], reqURI = path,
     reqHeader = [], reqRemoteAddr = ''10.0.0.1:99'', rqQuery = (\<lambda>_. []), rqBody = []\<rparr>"

theorem admin_authorised_witness:
  "\<forall>s :: unit adminState. \<exists>w'. AdminAuth ''secret'' (dist_ServePurge demo_adm ''secret'') s new_respw (demo_adm_req ''/purge'') = Some (w', s) \<and>
     rw_status w' = 401"
proof
  fix s :: "unit adminState"
  have "mountAdmin demo_adm ''secret'' [] ''/purge'' = Some (AdminAuth ''secret'' (dist_ServePurge demo_adm ''secret'') :: unit adminHandler)"
    by (simp add: mountAdmin_def)
  from admin_authorised [OF this, of "demo_adm_req ''/purge''" new_respw s]
  show "\<exists>w'. AdminAuth ''secret'' (dist_ServePurge demo_adm ''secret'') s new_respw (demo_adm_req ''/purge'') = Some (w', s) \<and> rw_status w' = 401"
    by (simp add: presented_key_def demo_adm_req_def)
qed

lemma core_Purge:
  assumes "cdn_core xx dk h"
  shows "cdn_core xx dk (h\<lparr>cdCache := cache_Purge (cdCache h)\<rparr>)"
    and "cache_lookup xx (cache_Purge (cdCache h)) = Map.empty" and "cache_Len (cache_Purge (cdCache h)) = 0"
proof -
  have inv: "cache_inv xx (cdCache h)" using assms by (simp add: cdn_core_def)
  note P = cache_Purge_result [OF inv]
  show "cdn_core xx dk (h\<lparr>cdCache := cache_Purge (cdCache h)\<rparr>)"
    using assms P(1) spill_safe_cfg [OF P(2), of dk] by (simp add: cdn_core_def)
  show "cache_lookup xx (cache_Purge (cdCache h)) = Map.empty" "cache_Len (cache_Purge (cdCache h)) = 0" by (fact P(3), fact P(4))
qed

lemma purgePeer_sends:
  "snd (purgePeer ev apiKey p) = (case adPeerReply ev (purge_msg ev apiKey p) of PeerBadURL e \<Rightarrow> [] | _ \<Rightarrow> [purge_msg ev apiKey p])"
  by (simp add: purgePeer_def Let_def split: peerReply.splits)

text \<open>
  A purge reaches every peer once and goes no further. An accepted POST to /purge is answered
  200, empties the memory cache and keeps the handler consistent; unless the request is marked local it sends one message to every peer whose URL is
  valid. The message is marked local, so that a peer that gets it sends none in turn: the fan-out ends
  after one hop, whatever peers the nodes list.
\<close>

theorem purge_one_hop:
  assumes "cdn_core xx dk (asCore s)" "reqMethod r = ''POST''" "apiKey = [] \<or> presented_key r = apiKey"
    and "mountAdmin ev apiKey originURL ''/purge'' = Some handler" "rwSent w = None"
    and "\<not> adDistributed ev (adPurgeJSON ev False)"
  shows "\<exists>w' s' msgs. handler s w r = Some (w', s') \<and> rw_status w' = 200 \<and> cdn_core xx dk (asCore s') \<and>
    cache_lookup xx (cdCache (asCore s')) = Map.empty \<and> cache_Len (cdCache (asCore s')) = 0 \<and> asSent s' = asSent s @ msgs \<and>
    map pmURL msgs = (if adDistributed ev (rqBody r)
      then map (\<lambda>p. p @ ''/purge'') (filter (\<lambda>p. \<nexists>e. adPeerReply ev (purge_msg ev apiKey p) = PeerBadURL e) (asPeers s)) else []) \<and>
    (\<forall>m\<in>set msgs. \<forall>key' s2 w2 r2. rqBody r2 = pmBody m \<longrightarrow>
       (\<exists>w3 s3. dist_ServePurge ev key' s2 w2 r2 = Some (w3, s3) \<and> asSent s3 = asSent (s2 :: 'b adminState)))"
proof -
  let ?core = "(asCore s)\<lparr>cdCache := cache_Purge (cdCache (asCore s))\<rparr>"
  let ?w = "w_Set w ''Content-Type'' ''application/json''"
  define msgs where "msgs = (if adDistributed ev (rqBody r) then concat (map (\<lambda>p. snd (purgePeer ev apiKey p)) (asPeers s)) else [])"
  let ?s' = "s\<lparr>asCore := ?core, asSent := asSent s @ msgs\<rparr>"
  note P = core_Purge [OF assms(1)]
  have H: "handler s w r = dist_ServePurge ev apiKey s w r" using assms(3,4) by (auto simp: mountAdmin_def AdminAuth_def)
  obtain w' where call: "handler s w r = Some (w', ?s')" and st: "rw_status w' = 200"
    using assms(2,5) unfolding H
    by (cases "adDistributed ev (rqBody r)") (simp_all add: dist_ServePurge_def msgs_def Let_def w_Write_def rw_status_def o_def)
  have "map pmURL (concat (map (\<lambda>p. snd (purgePeer ev apiKey p)) ps)) =
      map (\<lambda>p. p @ ''/purge'') (filter (\<lambda>p. \<nexists>e. adPeerReply ev (purge_msg ev apiKey p) = PeerBadURL e) ps)" for ps
    by (induction ps) (auto simp: purgePeer_sends purge_msg_def split: peerReply.splits)
  then have urls: "map pmURL msgs = (if adDistributed ev (rqBody r)
      then map (\<lambda>p. p @ ''/purge'') (filter (\<lambda>p. \<nexists>e. adPeerReply ev (purge_msg ev apiKey p) = PeerBadURL e) (asPeers s)) else [])"
    by (simp add: msgs_def)
  have "pmBody m = adPurgeJSON ev False" if "m \<in> set msgs" for m
  proof -
    have "set (snd (purgePeer ev apiKey p)) \<subseteq> {purge_msg ev apiKey p}" for p
      by (cases "adPeerReply ev (purge_msg ev apiKey p)") (simp_all add: purgePeer_sends)
    then have "\<exists>p. m = purge_msg ev apiKey p" using that by (fastforce simp: msgs_def split: if_splits)
    then show ?thesis by (auto simp: purge_msg_def)
  qed
  then have stop: "\<forall>m\<in>set msgs. \<forall>key' s2 w2 r2. rqBody r2 = pmBody m \<longrightarrow>
       (\<exists>w3 s3. dist_ServePurge ev key' s2 w2 r2 = Some (w3, s3) \<and> asSent s3 = asSent (s2 :: 'b adminState))"
    using assms(6) by (simp add: dist_ServePurge_def Let_def)
  show ?thesis
    by (rule exI [of _ w'], rule exI [of _ ?s'], rule exI [of _ msgs], intro conjI call st urls stop) (simp_all add: P)
qed

theorem purge_one_hop_witness:
  "\<exists>(s :: unit CDN_ext adminState) w' s'. AdminAuth ''secret'' (dist_ServePurge demo_adm ''secret'') s new_respw
       ((demo_adm_req ''/purge'')\<lparr>rqQuery := \<lambda>_. ''secret''\<rparr>) = Some (w', s') \<and>
     rw_status w' = 200 \<and> map pmURL (asSent s') = [''http://p/purge'']"
proof -
  obtain h :: CDN where h: "cdn_core (heXX (demo_hev 5)) demo_env h" by (rule demo_core)
  let ?s = "\<lparr>asCore = h, asReady = True, asReqMet = NewRequestMetrics, asLog = log_New, asPeers = [''http://p''], asSent = []\<rparr>"
  let ?r = "(demo_adm_req ''/purge'')\<lparr>rqQuery := \<lambda>_. ''secret''\<rparr>"
  have m: "mountAdmin demo_adm ''secret'' [] ''/purge'' = Some (AdminAuth ''secret'' (dist_ServePurge demo_adm ''secret'') :: unit CDN_ext adminHandler)"
    by (simp add: mountAdmin_def)
  have k: "presented_key ?r = ''secret''" by (simp add: presented_key_def demo_adm_req_def)
  have d: "\<not> adDistributed demo_adm (adPurgeJSON demo_adm False)" "adDistributed demo_adm (rqBody ?r)" by (simp_all add: demo_adm_def demo_adm_req_def)
  have c: "cdn_core (heXX (demo_hev 5)) demo_env (asCore ?s)" using h by simp
  have p: "reqMethod ?r = ''POST''" by (simp add: demo_adm_req_def)
  obtain w' s' msgs where x: "AdminAuth ''secret'' (dist_ServePurge demo_adm ''secret'') ?s new_respw ?r = Some (w', s')" "rw_status w' = 200"
    "asSent s' = asSent ?s @ msgs" "map pmURL msgs = (if adDistributed demo_adm (rqBody ?r)
      then map (\<lambda>p. p @ ''/purge'') (filter (\<lambda>p. \<nexists>e. adPeerReply demo_adm (purge_msg demo_adm ''secret'' p) = PeerBadURL e) (asPeers ?s)) else [])"
    using purge_one_hop [where 'b = unit, OF c p disjI2 [OF k] m new_respw_fields(1) d(1)] by blast
  have "adPeerReply demo_adm x = PeerStatus 200" for x by (simp add: demo_adm_def)
  then have "map pmURL (asSent s') = [''http://p/purge'']" using x(3,4) d(2) by simp
  then show ?thesis using x(1,2) by (intro exI [of _ ?s] exI [of _ w'] exI [of _ s']) simp
qed

text \<open>The readiness probe answers 200 exactly when the server is ready and the breaker is not open.\<close>

theorem readiness_iff:
  assumes "rwSent w = None"
  shows "\<exists>w'. ServeReadiness s w r = Some (w', s) \<and>
    rw_status w' = (if asReady s \<and> CircuitState (cdOrigin (asCore s)) \<noteq> ''open'' then 200 else 503)"
  using assms by (simp add: ServeReadiness_def Let_def w_Write_def rw_status_def)

text \<open>The reported hit rate is a percentage.\<close>

lemma hit_rate_range:
  assumes "0 \<le> hits" "0 \<le> misses"
  shows "0 \<le> hit_rate hits misses \<and> hit_rate hits misses \<le> 100"
proof (cases "hits + misses > 0")
  case True
  let ?h = "float64 hits" and ?t = "float64 (hits + misses)"
  have h: "0 \<le> ?h" "?h \<le> ?t" using assms fl_nonneg fl_mono by (auto simp: float64_def simp del: of_int_add)
  have one: "fl 1 = 1" "fl 100 = 100" using fl_int [of 1] fl_int [of 100] by simp_all
  have "1 \<le> ?t" using fl_mono [of 1 "of_int (hits + misses)"] True one by (simp add: float64_def)
  then have q: "0 \<le> ?h / ?t" "?h / ?t \<le> 1" using h by simp_all
  then have f: "0 \<le> fl (?h / ?t)" "fl (?h / ?t) \<le> 1" using fl_nonneg fl_mono [OF q(2)] one by auto
  then have "fl (fl (?h / ?t) * 100) \<le> fl 100" by (intro fl_mono) simp
  then show ?thesis using True f one fl_nonneg by (simp add: hit_rate_def Let_def)
qed (simp add: hit_rate_def)

text \<open>Setting the level over HTTP takes effect, and only for the three names.\<close>

lemma loglevel_post:
  assumes "reqMethod r = ''POST''" "adLevel ev (rqBody r) = Some level" "level_ok (asLog s)" "LogLevelHandler ev s w r = Some (w', s')"
  shows "level_ok (asLog s') \<and> log_Level (asLog s') = (if level \<in> {''debug'', ''info'', ''error''} then level else log_Level (asLog s))"
  using assms Level_SetLevel [of "asLog s" level] level_ok_SetLevel [of "asLog s" level]
  by (auto simp: LogLevelHandler_def Let_def split: if_splits)

end
