(* ===== verification/RateLimit.thy ===== *)
theory RateLimit
  imports GoFloat GoWriter
begin

text \<open>
  \<open>ratelimit/ratelimit.go\<close>: the per-client token bucket, its periodic clean-up and the middleware.
  Tokens and the refill rate are \<open>float64\<close> values (theory \<open>GoFloat\<close>). The main result bounds what a
  client is allowed over any run of requests and clean-ups, rounding errors included, by a potential
  argument: the tokens a client could have at an instant.
\<close>

section \<open>The limiter\<close>

record bucket =
  bkTokens :: rat
  bkLastTime :: instant

record Limiter =
  lmBuckets :: "string \<rightharpoonup> bucket"
  lmRps :: rat
  lmBurst :: int

definition rl_New :: "rat \<Rightarrow> int \<Rightarrow> Limiter" where
  "rl_New rps burst = \<lparr>lmBuckets = Map.empty, lmRps = rps, lmBurst = burst\<rparr>"

text \<open>The refill of a bucket, up to the assignment of \<open>lastTime\<close>.\<close>

definition refill :: "Limiter \<Rightarrow> instant \<Rightarrow> bucket \<Rightarrow> bucket" where
  "refill l now b =
     (let elapsed = dur_Seconds (time_Sub now (bkLastTime b));
          tokens = fl (bkTokens b + fl (elapsed * lmRps l));
          tokens = (if tokens > float64 (lmBurst l) then float64 (lmBurst l) else tokens)
      in b\<lparr>bkTokens := tokens, bkLastTime := now\<rparr>)"

definition rl_Allow :: "instant \<Rightarrow> Limiter \<Rightarrow> string \<Rightarrow> bool \<times> Limiter" where
  "rl_Allow now l ip =
     (let b = (case lmBuckets l ip of
                 Some b \<Rightarrow> b
               | None \<Rightarrow> \<lparr>bkTokens = float64 (lmBurst l), bkLastTime = now\<rparr>);
          b = refill l now b
      in if bkTokens b < 1 then (False, l\<lparr>lmBuckets := (lmBuckets l)(ip \<mapsto> b)\<rparr>)
         else (True, l\<lparr>lmBuckets := (lmBuckets l)(ip \<mapsto> b\<lparr>bkTokens := fl (bkTokens b - 1)\<rparr>)\<rparr>))"

text \<open>One tick of the clean-up loop.\<close>

definition rl_cleanup :: "instant \<Rightarrow> Limiter \<Rightarrow> Limiter" where
  "rl_cleanup now l =
     (let cutoff = now - 5 * 60 * second
      in l\<lparr>lmBuckets := (\<lambda>ip. case lmBuckets l ip of
                               None \<Rightarrow> None
                             | Some b \<Rightarrow> if bkLastTime b < cutoff then None else Some b)\<rparr>)"

text \<open>\<open>net.SplitHostPort\<close>; \<open>None\<close> for an error.\<close>

definition net_SplitHostPort :: "string \<Rightarrow> (string \<times> string) option" where
  "net_SplitHostPort hp =
     (case strings_LastIndexByte hp (CHR '':'') of
        None \<Rightarrow> None
      | Some i \<Rightarrow>
          (let port = drop (i + 1) hp
           in if take 1 hp = ''['' then
                (case strings_IndexByte hp (CHR '']'') of
                   None \<Rightarrow> None
                 | Some e \<Rightarrow>
                     if e + 1 \<noteq> i then None
                     else if CHR ''['' \<in> set (drop 1 hp) \<or> CHR '']'' \<in> set (drop (e + 1) hp) then None
                     else Some (take (e - 1) (drop 1 hp), port))
              else if CHR '':'' \<in> set (take i hp) then None
              else if CHR ''['' \<in> set hp \<or> CHR '']'' \<in> set hp then None
              else Some (take i hp, port)))"

definition extractIP :: "request \<Rightarrow> string" where
  "extractIP r =
     (let xff = header_Get (reqHeader r) ''X-Forwarded-For''
      in if xff \<noteq> [] then
           (case strings_IndexByte xff (CHR '','') of Some i \<Rightarrow> take i xff | None \<Rightarrow> xff)
         else case net_SplitHostPort (reqRemoteAddr r) of None \<Rightarrow> reqRemoteAddr r | Some (host, _) \<Rightarrow> host)"

text \<open>The middleware: the calls made on the writer, given the calls the next handler would make.\<close>

definition rl_Middleware :: "instant \<Rightarrow> Limiter \<Rightarrow> (request \<Rightarrow> call list) \<Rightarrow> request \<Rightarrow> call list \<times> Limiter" where
  "rl_Middleware now l next' r =
     (let ip = extractIP r; (ok, l) = rl_Allow now l ip
      in if \<not> ok then (CSet ''Retry-After'' ''1'' # error_calls ''Too Many Requests'' 429, l)
         else (next' r, l))"

section \<open>Runs\<close>

datatype rlEvent = RlRequest instant string | RlCleanup instant

fun rl_time :: "rlEvent \<Rightarrow> instant" where
  "rl_time (RlRequest t ip) = t"
| "rl_time (RlCleanup t) = t"

fun rl_step :: "Limiter \<Rightarrow> rlEvent \<Rightarrow> bool \<times> Limiter" where
  "rl_step l (RlRequest t ip) = rl_Allow t l ip"
| "rl_step l (RlCleanup t) = (False, rl_cleanup t l)"

fun requests_of :: "string \<Rightarrow> rlEvent list \<Rightarrow> nat" where
  "requests_of ip [] = 0"
| "requests_of ip (RlRequest t ip' # es) = (if ip' = ip then 1 else 0) + requests_of ip es"
| "requests_of ip (RlCleanup t # es) = requests_of ip es"

text \<open>How many requests of a client a run allows.\<close>

fun allowed :: "string \<Rightarrow> Limiter \<Rightarrow> rlEvent list \<Rightarrow> nat" where
  "allowed ip l [] = 0"
| "allowed ip l (e # es) =
     (case rl_step l e of
        (ok, l') \<Rightarrow> (case e of RlRequest t ip' \<Rightarrow> if ok \<and> ip' = ip then 1 else 0 | RlCleanup t \<Rightarrow> 0) + allowed ip l' es)"

definition rl_ok :: "Limiter \<Rightarrow> instant \<Rightarrow> bool" where
  "rl_ok l t \<longleftrightarrow> 0 \<le> lmRps l \<and> 0 \<le> lmBurst l \<and> lmBurst l \<le> 2 ^ 53 \<and>
     (\<forall>ip b. lmBuckets l ip = Some b \<longrightarrow> 0 \<le> bkTokens b \<and> bkTokens b \<le> of_int (lmBurst l) \<and> bkLastTime b \<le> t)"

lemma rl_ok_later: "rl_ok l t \<Longrightarrow> t \<le> t' \<Longrightarrow> rl_ok l t'"
  by (fastforce simp: rl_ok_def)

lemma rl_ok_New: "0 \<le> rps \<Longrightarrow> 0 \<le> burst \<Longrightarrow> burst \<le> 2 ^ 53 \<Longrightarrow> rl_ok (rl_New rps burst) t"
  by (simp add: rl_ok_def rl_New_def)

section \<open>Refilling\<close>

lemma quot_trunc_second: "0 \<le> d \<Longrightarrow> quot_trunc d second = d div second"
  by (auto simp: quot_trunc_def second_def)

lemma dur_Seconds_eq:
  assumes "0 \<le> d" "d \<le> maxDuration"
  shows "dur_Seconds d = fl (of_int (d div second) + fl (of_int (d mod second) / 1000000000))"
proof -
  have "d div second \<le> d" using assms(1) by (simp add: second_def)
  then have "\<bar>d div second\<bar> \<le> 2 ^ 53" "\<bar>d mod second\<bar> \<le> 2 ^ 53"
    using assms by (auto simp: second_def maxDuration_def abs_if)
  then show ?thesis using assms(1)
    by (simp add: dur_Seconds_def quot_trunc_second Let_def float64_int minus_mult_div_eq_mod)
qed

lemma dur_Seconds_nonneg: "0 \<le> d \<Longrightarrow> d \<le> maxDuration \<Longrightarrow> 0 \<le> dur_Seconds d"
  by (simp add: dur_Seconds_eq second_def fl_nonneg)

lemma dur_Seconds_up:
  assumes "0 \<le> d" "d \<le> maxDuration"
  shows "dur_Seconds d \<le> of_int d / 1000000000 * (1 + 1 / 2 ^ 53) ^ 2"
proof -
  let ?k = "1 + 1 / 2 ^ 53 :: rat" and ?s = "of_int (d div second) :: rat" and ?n = "of_int (d mod second) / 1000000000 :: rat"
  have s: "0 \<le> ?s" and n: "0 \<le> ?n" using assms(1) by (simp_all add: second_def)
  have "?s + fl ?n \<le> ?s * ?k + ?n * ?k" using fl_up [OF n] s by (simp add: distrib_left)
  also have "\<dots> = of_int d / 1000000000 * ?k"
  proof -
    have "(of_int d :: rat) = of_int (d div second) * 1000000000 + of_int (d mod second)"
      by (subst mult_div_mod_eq [of second d, symmetric], unfold of_int_add of_int_mult) (simp add: second_def)
    then have "?s + ?n = of_int d / 1000000000" by (simp add: add_divide_distrib)
    then show ?thesis by (metis distrib_right)
  qed
  finally have "?s + fl ?n \<le> of_int d / 1000000000 * ?k" .
  then have "(?s + fl ?n) * ?k \<le> of_int d / 1000000000 * ?k * ?k" by (rule mult_right_mono) simp
  moreover have "fl (?s + fl ?n) \<le> (?s + fl ?n) * ?k" using s fl_nonneg [OF n] by (intro fl_up) simp
  ultimately show ?thesis using assms by (simp add: dur_Seconds_eq power2_eq_square mult.assoc)
qed

text \<open>The tokens a client can be credited per nanosecond, with the rounding of three operations.\<close>

definition rate :: "Limiter \<Rightarrow> rat" where
  "rate l = lmRps l / 1000000000 * (1 + 1 / 2 ^ 51)"

lemma credit_up:
  assumes "0 \<le> lmRps l" "t \<le> now"
  shows "0 \<le> fl (dur_Seconds (time_Sub now t) * lmRps l)"
    and "fl (dur_Seconds (time_Sub now t) * lmRps l) \<le> rate l * of_int (now - t)"
proof -
  define d where "d = time_Sub now t"
  have d: "0 \<le> d" "d \<le> maxDuration" "d \<le> now - t"
    using assms(2) by (auto simp: d_def time_Sub_def maxDuration_def minDuration_def)
  let ?k = "1 + 1 / 2 ^ 53 :: rat"
  have s: "0 \<le> dur_Seconds d" using d(1,2) by (rule dur_Seconds_nonneg)
  then show "0 \<le> fl (dur_Seconds (time_Sub now t) * lmRps l)" using assms(1) by (simp add: fl_nonneg d_def)
  have "fl (dur_Seconds d * lmRps l) \<le> dur_Seconds d * lmRps l * ?k" using s assms(1) by (intro fl_up) simp
  also have "\<dots> \<le> of_int d / 1000000000 * ?k ^ 2 * lmRps l * ?k"
    using dur_Seconds_up [OF d(1,2)] assms(1) by (intro mult_right_mono) auto
  also have "\<dots> = lmRps l / 1000000000 * of_int d * ?k ^ 3" by (simp add: power_numeral_reduce field_simps)
  also have "\<dots> \<le> lmRps l / 1000000000 * of_int (now - t) * (1 + 1 / 2 ^ 51)"
  proof (intro mult_mono)
    show "(of_int d :: rat) \<le> of_int (now - t)" using d(3) by (simp only: of_int_le_iff)
    show "?k ^ 3 \<le> 1 + 1 / 2 ^ 51" by (simp add: power_numeral_reduce)
  qed (use assms d in auto)
  finally show "fl (dur_Seconds (time_Sub now t) * lmRps l) \<le> rate l * of_int (now - t)"
    unfolding rate_def d_def [symmetric] by (simp only: mult.assoc mult.commute mult.left_commute)
qed

lemma refill_fields [simp]: "bkLastTime (refill l now b) = now"
  by (simp add: refill_def Let_def)

lemma burst_float: "rl_ok l t \<Longrightarrow> float64 (lmBurst l) = of_int (lmBurst l)"
  by (simp add: rl_ok_def float64_int)

lemma refill_range:
  assumes "rl_ok l t" "0 \<le> bkTokens b" "bkLastTime b \<le> now"
  shows "0 \<le> bkTokens (refill l now b)" and "bkTokens (refill l now b) \<le> of_int (lmBurst l)"
proof -
  have "0 \<le> fl (bkTokens b + fl (dur_Seconds (time_Sub now (bkLastTime b)) * lmRps l))"
    using credit_up(1) [of l "bkLastTime b" now] assms by (intro fl_nonneg) (simp add: rl_ok_def)
  moreover have "0 \<le> (of_int (lmBurst l) :: rat)" using assms(1) by (simp add: rl_ok_def)
  ultimately show "0 \<le> bkTokens (refill l now b)" by (simp add: refill_def burst_float [OF assms(1)] Let_def)
  show "bkTokens (refill l now b) \<le> of_int (lmBurst l)" using assms(1) by (simp add: refill_def burst_float Let_def)
qed

text \<open>A refill adds at most the credit of the elapsed time and one rounding error.\<close>

lemma refill_up:
  assumes "rl_ok l t" "0 \<le> bkTokens b" "bkTokens b \<le> of_int (lmBurst l)" "bkLastTime b \<le> now"
  shows "bkTokens (refill l now b) \<le> bkTokens b + rate l * of_int (now - bkLastTime b) + of_int (lmBurst l) / 2 ^ 52"
proof -
  define c where "c = fl (dur_Seconds (time_Sub now (bkLastTime b)) * lmRps l)"
  have rps: "0 \<le> lmRps l" and burst: "0 \<le> lmBurst l" using assms(1) by (simp_all add: rl_ok_def)
  have c: "0 \<le> c" "c \<le> rate l * of_int (now - bkLastTime b)" using credit_up [OF rps assms(4)] by (simp_all only: c_def)
  have T: "bkTokens (refill l now b) = min (of_int (lmBurst l)) (fl (bkTokens b + c))"
    using assms(1) by (simp add: refill_def c_def burst_float Let_def)
  have "min (of_int (lmBurst l)) (fl (bkTokens b + c)) \<le> bkTokens b + c + of_int (lmBurst l) / 2 ^ 52"
  proof (cases "bkTokens b + c \<le> 2 * of_int (lmBurst l)")
    case True
    have "fl (bkTokens b + c) \<le> (bkTokens b + c) * (1 + 1 / 2 ^ 53)" using assms(2) c(1) by (intro fl_up) simp
    also have "\<dots> \<le> bkTokens b + c + of_int (lmBurst l) / 2 ^ 52" using True by (simp add: field_simps)
    finally show ?thesis by simp
  next
    case False
    moreover have "0 \<le> (of_int (lmBurst l) :: rat)" using burst by simp
    ultimately show ?thesis by (simp add: min_def)
  qed
  with T c(2) show ?thesis by linarith
qed

section \<open>Requests and clean-ups\<close>

definition bucket_at :: "Limiter \<Rightarrow> string \<Rightarrow> instant \<Rightarrow> bucket" where
  "bucket_at l ip now = (case lmBuckets l ip of
     Some b \<Rightarrow> b | None \<Rightarrow> \<lparr>bkTokens = float64 (lmBurst l), bkLastTime = now\<rparr>)"

lemma rl_Allow_eq:
  "rl_Allow now l ip =
     (let b = refill l now (bucket_at l ip now); ok = \<not> bkTokens b < 1
      in (ok, l\<lparr>lmBuckets := (lmBuckets l)(ip \<mapsto> (if ok then b\<lparr>bkTokens := fl (bkTokens b - 1)\<rparr> else b))\<rparr>))"
  by (simp add: rl_Allow_def bucket_at_def Let_def)

lemma bucket_at_ok:
  assumes "rl_ok l t" "t \<le> now"
  shows "0 \<le> bkTokens (bucket_at l ip now)" "bkTokens (bucket_at l ip now) \<le> of_int (lmBurst l)"
    "bkLastTime (bucket_at l ip now) \<le> now"
  using assms burst_float [OF assms(1)]
  by (fastforce simp: bucket_at_def rl_ok_def split: option.splits)+

lemma rl_Allow_ok:
  assumes "rl_ok l t" "t \<le> now"
  shows "rl_ok (snd (rl_Allow now l ip)) now" and "lmRps (snd (rl_Allow now l ip)) = lmRps l"
    and "lmBurst (snd (rl_Allow now l ip)) = lmBurst l"
    and "ip' \<noteq> ip \<Longrightarrow> lmBuckets (snd (rl_Allow now l ip)) ip' = lmBuckets l ip'"
proof -
  let ?b = "refill l now (bucket_at l ip now)"
  note B = bucket_at_ok [OF assms, of ip]
  note R = refill_range [OF assms(1) B(1,3)]
  have "0 \<le> fl (bkTokens ?b - 1) \<and> fl (bkTokens ?b - 1) \<le> of_int (lmBurst l)" if "\<not> bkTokens ?b < 1"
  proof -
    have "fl (bkTokens ?b - 1) \<le> fl (of_int (lmBurst l))" using R(2) by (intro fl_mono) simp
    then show ?thesis using that assms(1) fl_nonneg [of "bkTokens ?b - 1"] by (simp add: fl_int rl_ok_def)
  qed
  with R rl_ok_later [OF assms] show "rl_ok (snd (rl_Allow now l ip)) now"
    by (auto simp: rl_ok_def rl_Allow_eq Let_def)
qed (auto simp: rl_Allow_eq Let_def)

lemma rl_cleanup_ok: "rl_ok l t \<Longrightarrow> rl_ok (rl_cleanup now l) t"
  by (auto simp: rl_ok_def rl_cleanup_def Let_def split: option.splits if_splits)

lemma rl_cleanup_cfg [simp]: "lmRps (rl_cleanup now l) = lmRps l" "lmBurst (rl_cleanup now l) = lmBurst l"
  by (simp_all add: rl_cleanup_def Let_def)

section \<open>The potential of a client\<close>

text \<open>The tokens a client has, plus what time has credited since.\<close>

definition potential :: "Limiter \<Rightarrow> string \<Rightarrow> instant \<Rightarrow> rat" where
  "potential l ip now = (case lmBuckets l ip of
     None \<Rightarrow> of_int (lmBurst l) | Some b \<Rightarrow> bkTokens b + rate l * of_int (now - bkLastTime b))"

lemma rate_nonneg: "rl_ok l t \<Longrightarrow> 0 \<le> rate l"
  by (simp add: rate_def rl_ok_def)

lemma potential_nonneg: "rl_ok l t \<Longrightarrow> 0 \<le> potential l ip t"
  using rate_nonneg [of l t] by (auto simp: potential_def rl_ok_def split: option.splits)

lemma potential_time:
  assumes "rl_ok l t" "t \<le> now"
  shows "potential l ip now \<le> potential l ip t + rate l * of_int (now - t)"
proof (cases "lmBuckets l ip")
  case None
  have "0 \<le> rate l * of_int (now - t)" using rate_nonneg [OF assms(1)] assms(2) by simp
  with None show ?thesis by (simp add: potential_def)
qed (simp add: potential_def algebra_simps)

lemma potential_request:
  assumes "rl_ok l t" "t \<le> now"
  shows "potential (snd (rl_Allow now l ip)) ip now
     \<le> potential l ip now - (if fst (rl_Allow now l ip) then 1 else 0) + of_int (lmBurst l) / 2 ^ 51"
proof -
  let ?b = "refill l now (bucket_at l ip now)" and ?B = "of_int (lmBurst l) :: rat"
  note B = bucket_at_ok [OF assms, of ip]
  have burst: "0 \<le> ?B" using assms(1) by (simp add: rl_ok_def)
  have P: "potential l ip now = bkTokens (bucket_at l ip now) + rate l * of_int (now - bkLastTime (bucket_at l ip now))"
    using burst_float [OF assms(1)] by (simp add: potential_def bucket_at_def split: option.splits)
  have up: "bkTokens ?b \<le> potential l ip now + ?B / 2 ^ 52"
    using refill_up [OF assms(1) B] by (simp add: P)
  show ?thesis
  proof (cases "bkTokens ?b < 1")
    case True
    then have "potential (snd (rl_Allow now l ip)) ip now = bkTokens ?b" by (simp add: potential_def rl_Allow_eq Let_def rate_def)
    with True up burst show ?thesis by (simp add: rl_Allow_eq Let_def)
  next
    case False
    then have "potential (snd (rl_Allow now l ip)) ip now = fl (bkTokens ?b - 1)" by (simp add: potential_def rl_Allow_eq Let_def rate_def)
    also have "\<dots> \<le> (bkTokens ?b - 1) * (1 + 1 / 2 ^ 53)" using False by (intro fl_up) simp
    also have "\<dots> \<le> bkTokens ?b - 1 + ?B / 2 ^ 53"
      using refill_range(2) [OF assms(1) B(1,3)] by (simp add: field_simps)
    also have "\<dots> \<le> potential l ip now - 1 + ?B / 2 ^ 51" using up burst by simp
    finally show ?thesis using False by (simp add: rl_Allow_eq Let_def)
  qed
qed

lemma rl_Allow_other:
  "ip' \<noteq> ip \<Longrightarrow> potential (snd (rl_Allow now l ip')) ip t = potential l ip t"
  by (simp add: potential_def rl_Allow_eq Let_def rate_def split: option.splits)

text \<open>A clean-up does not raise the potential when five minutes refill a whole bucket.\<close>

lemma potential_cleanup:
  assumes "rl_ok l t" "t \<le> now" "of_int (lmBurst l) \<le> 300 * lmRps l"
  shows "potential (rl_cleanup now l) ip now \<le> potential l ip now"
proof (cases "lmBuckets l ip")
  case None
  then show ?thesis by (simp add: potential_def rl_cleanup_def Let_def)
next
  case (Some b)
  show ?thesis
  proof (cases "bkLastTime b < now - 5 * 60 * second")
    case True
    have rps: "0 \<le> lmRps l" using assms(1) by (simp add: rl_ok_def)
    have d: "(300000000000 :: rat) \<le> of_int (now - bkLastTime b)"
      using True by (subst of_int_numeral [symmetric], unfold of_int_le_iff) (simp add: second_def)
    have "300 * lmRps l \<le> rate l * 300000000000" using rps by (simp add: rate_def field_simps)
    also have "\<dots> \<le> rate l * of_int (now - bkLastTime b)" using d rate_nonneg [OF assms(1)] by (rule mult_left_mono)
    finally have "of_int (lmBurst l) \<le> bkTokens b + rate l * of_int (now - bkLastTime b)"
      using assms(1,3) Some by (fastforce simp: rl_ok_def)
    then show ?thesis using Some True by (simp add: potential_def rl_cleanup_def Let_def)
  next
    case False
    then show ?thesis using Some by (simp add: potential_def rl_cleanup_def Let_def rate_def)
  qed
qed

lemma allowed_bound:
  assumes "rl_ok l t" "sorted (t # map rl_time es)" "of_int (lmBurst l) \<le> 300 * lmRps l"
  shows "of_nat (allowed ip l es) \<le> potential l ip t + rate l * of_int (last (t # map rl_time es) - t)
     + of_nat (requests_of ip es) * (of_int (lmBurst l) / 2 ^ 51)"
  using assms
proof (induction es arbitrary: l t)
  case Nil
  then show ?case using potential_nonneg [of l t ip] by simp
next
  case (Cons e es)
  define t' where "t' = rl_time e"
  define l' where "l' = snd (rl_step l e)"
  have t: "t \<le> t'" "sorted (t' # map rl_time es)" using Cons.prems(2) by (simp_all add: t'_def)
  have ok: "rl_ok l' t'" and cfg: "lmRps l' = lmRps l" "lmBurst l' = lmBurst l"
    using rl_Allow_ok [OF Cons.prems(1) t(1)] rl_cleanup_ok [OF rl_ok_later [OF Cons.prems(1) t(1)]]
    by (cases e; simp add: l'_def t'_def)+
  have R: "rate l' = rate l" by (simp add: rate_def cfg)
  let ?one = "(case e of RlRequest t ip' \<Rightarrow> if fst (rl_step l e) \<and> ip' = ip then 1 else 0 | RlCleanup t \<Rightarrow> 0) :: rat"
  let ?err = "of_nat (requests_of ip [e]) * (of_int (lmBurst l) / 2 ^ 51) :: rat"
  have step: "potential l' ip t' \<le> potential l ip t' - ?one + ?err"
    using potential_request [OF Cons.prems(1) t(1), of ip] potential_cleanup [OF Cons.prems(1) t(1) Cons.prems(3), of ip]
      rl_Allow_other [of _ ip] by (cases e) (auto simp: l'_def t'_def)
  have IH: "of_nat (allowed ip l' es) \<le> potential l' ip t' + rate l * of_int (last (t' # map rl_time es) - t')
     + of_nat (requests_of ip es) * (of_int (lmBurst l) / 2 ^ 51)"
    using Cons.IH [OF ok t(2)] Cons.prems(3) by (simp add: cfg R)
  have cnt: "(of_nat (allowed ip l (e # es)) :: rat) = ?one + of_nat (allowed ip l' es)"
    by (cases e) (auto simp: l'_def split: prod.splits)
  have "last (t # map rl_time (e # es)) = last (t' # map rl_time es)" by (simp add: t'_def)
  moreover have "requests_of ip (e # es) = requests_of ip [e] + requests_of ip es" by (cases e) auto
  ultimately show ?case using IH step cnt potential_time [OF Cons.prems(1) t(1), of ip]
    by (simp add: algebra_simps add_divide_distrib)
qed

text \<open>
  C9. The limit holds over every run. However requests of all clients and clean-ups follow each
  other in time, a limiter started with \<open>burst\<close> and \<open>rps\<close> allows a client at most \<open>burst\<close> requests plus
  \<open>rps\<close> per second elapsed, up to the rounding of \<open>float64\<close> (a factor of 1 + 2^-51 on the rate and
  2^-51 of a burst per request), provided an idle bucket is full again when the clean-up drops it
  (burst at most 300 rps).
\<close>

theorem ratelimit_bound:
  assumes "0 \<le> rps" "0 \<le> burst" "burst \<le> 2 ^ 53" "of_int burst \<le> 300 * rps" "sorted (t # map rl_time es)"
  shows "of_nat (allowed ip (rl_New rps burst) es)
     \<le> of_int burst + rps * (1 + 1 / 2 ^ 51) * (of_int (last (t # map rl_time es) - t) / 1000000000)
       + of_nat (requests_of ip es) * (of_int burst / 2 ^ 51)"
  using allowed_bound [OF rl_ok_New [OF assms(1-3)] assms(5)] assms(4)
  by (simp add: rl_New_def rate_def potential_def mult.commute mult.left_commute)

text \<open>The theorem on a run of one client: a burst of two and one request half a second later.\<close>

definition demo_rl :: "rlEvent list" where
  "demo_rl = [RlRequest 0 ''a'', RlRequest 0 ''a'', RlRequest 0 ''a'', RlRequest 500000000 ''a'']"

theorem ratelimit_bound_witness:
  "(of_nat (allowed ''a'' (rl_New 1 2) demo_rl) :: rat)
     \<le> 2 + 1 * (1 + 1 / 2 ^ 51) * (500000000 / 1000000000) + 4 * (2 / 2 ^ 51)"
  using ratelimit_bound [of 1 2 0 demo_rl "''a''"] by (simp add: demo_rl_def)

section \<open>The middleware\<close>

lemma fl_ge_1: "1 \<le> x \<Longrightarrow> 1 \<le> fl x"
  using fl_mono [of 1 x] fl_int [of 1] by simp

lemma Allow_admits:
  assumes "rl_ok l t" "t \<le> now" "1 \<le> lmBurst l"
    and "\<And>b. lmBuckets l ip = Some b \<Longrightarrow> 1 \<le> dur_Seconds (time_Sub now (bkLastTime b)) * lmRps l"
  shows "fst (rl_Allow now l ip)"
proof -
  let ?b = "bucket_at l ip now"
  note B = bucket_at_ok [OF assms(1,2), of ip]
  have rps: "0 \<le> lmRps l" using assms(1) by (simp add: rl_ok_def)
  have "1 \<le> bkTokens ?b + fl (dur_Seconds (time_Sub now (bkLastTime ?b)) * lmRps l)"
  proof (cases "lmBuckets l ip")
    case None
    then show ?thesis using assms(3) burst_float [OF assms(1)] credit_up(1) [OF rps B(3)]
      by (simp add: bucket_at_def)
  next
    case (Some b)
    then show ?thesis using fl_ge_1 [OF assms(4) [OF Some]] B(1) by (simp add: bucket_at_def)
  qed
  then have "1 \<le> fl (bkTokens ?b + fl (dur_Seconds (time_Sub now (bkLastTime ?b)) * lmRps l))" by (rule fl_ge_1)
  then have "1 \<le> bkTokens (refill l now ?b)" using assms(3) burst_float [OF assms(1)] by (simp add: refill_def Let_def)
  then show ?thesis by (simp add: rl_Allow_eq Let_def)
qed

text \<open>
  Whom the middleware lets through. A client seen for the first time, or whose last request is
  long enough ago for one token to have been refilled, reaches the next handler with its writer
  untouched; every request either does that or is answered 429 with Retry-After: 1; and no request
  changes what another client has left.
\<close>

theorem ratelimit_admits:
  assumes "rl_ok l t" "t \<le> now" "1 \<le> lmBurst l" "rl_Middleware now l nx r = (cs, l')"
  shows "((\<forall>b. lmBuckets l (extractIP r) = Some b \<longrightarrow> 1 \<le> dur_Seconds (time_Sub now (bkLastTime b)) * lmRps l) \<longrightarrow> cs = nx r) \<and>
    (cs = nx r \<or> rw_status (run_calls new_respw cs) = 429 \<and> rw_sent_header (run_calls new_respw cs) ''Retry-After'' = ''1'') \<and>
    (\<forall>ip. ip \<noteq> extractIP r \<longrightarrow> lmBuckets l' ip = lmBuckets l ip)"
proof (intro conjI)
  note M = assms(4) [unfolded rl_Middleware_def Let_def case_prod_unfold]
  show "(\<forall>b. lmBuckets l (extractIP r) = Some b \<longrightarrow> 1 \<le> dur_Seconds (time_Sub now (bkLastTime b)) * lmRps l) \<longrightarrow> cs = nx r"
    using Allow_admits [OF assms(1-3), of "extractIP r"] M by (auto split: if_splits)
  have "rw_status (run_calls new_respw (CSet ''Retry-After'' ''1'' # error_calls ''Too Many Requests'' 429)) = 429 \<and>
      rw_sent_header (run_calls new_respw (CSet ''Retry-After'' ''1'' # error_calls ''Too Many Requests'' 429)) ''Retry-After'' = ''1''"
    by code_simp
  with M show "cs = nx r \<or> rw_status (run_calls new_respw cs) = 429 \<and> rw_sent_header (run_calls new_respw cs) ''Retry-After'' = ''1''"
    by (auto split: if_splits)
  show "\<forall>ip. ip \<noteq> extractIP r \<longrightarrow> lmBuckets l' ip = lmBuckets l ip"
    using rl_Allow_ok(4) [OF assms(1,2)] M by (auto split: if_splits)
qed

definition demo_rl_req :: request where
  "demo_rl_req = \<lparr>reqMethod = ''GET'', reqHost = ''h'', reqPath = ''/'', reqRawQuery = [], reqURI = ''/'',
     reqHeader = [], reqRemoteAddr = ''10.0.0.1:99''\<rparr>"

theorem ratelimit_admits_witness:
  "fst (rl_Middleware 5 (rl_New 1 2) (\<lambda>_. [CWriteHeader 200]) demo_rl_req) = [CWriteHeader 200]"
proof -
  obtain cs l' where M: "rl_Middleware 5 (rl_New 1 2) (\<lambda>_. [CWriteHeader 200]) demo_rl_req = (cs, l')" by fastforce
  have "rl_ok (rl_New 1 2) 0" by (rule rl_ok_New) simp_all
  from ratelimit_admits [OF this _ _ M] M show ?thesis by (simp add: rl_New_def)
qed

text \<open>
  The client is whoever the request says it is: with a fresh X-Forwarded-For value a request is let
  through whatever its remote address has used up.
\<close>

lemma ratelimit_spoofable:
  assumes "rl_ok l t" "t \<le> now" "1 \<le> lmBurst l"
    and "header_Get (reqHeader r) ''X-Forwarded-For'' = v" "v \<noteq> []" "CHR '','' \<notin> set v" "lmBuckets l v = None"
  shows "fst (rl_Middleware now l nx r) = nx r"
proof -
  have "extractIP r = v" using assms(4-6) IndexByte_None [of v "CHR '',''"]
    by (simp add: extractIP_def Let_def del: IndexByte_None)
  then show ?thesis using Allow_admits [OF assms(1-3), of v] assms(7)
    by (simp add: rl_Middleware_def Let_def case_prod_unfold)
qed

text \<open>
  With a slow refill the clean-up hands out tokens: one request a second apart from the tick of the
  clean-up after six minutes is refused without the clean-up and allowed with it.
\<close>

lemma cleanup_refunds:
  "allowed ''a'' (rl_New (1 / 1024) 1) [RlRequest 0 ''a'', RlRequest 360000000000 ''a''] = 1"
  "allowed ''a'' (rl_New (1 / 1024) 1) [RlRequest 0 ''a'', RlCleanup 360000000000, RlRequest 360000000000 ''a''] = 2"
proof -
  have f: "fl (45 / 128) = 45 / 128" "fl 360 = 360" "fl 1 = 1" using fl_dyadic [of 45 "-7"] fl_int [of 360] fl_int [of 1] by simp_all
  have d: "dur_Seconds 0 = 0" "dur_Seconds 360000000000 = 360"
    using f by (simp_all add: dur_Seconds_eq maxDuration_def second_def)
  have t: "time_Sub 360000000000 0 = 360000000000" by (simp add: time_Sub_def maxDuration_def minDuration_def)
  note eval = rl_New_def rl_Allow_eq bucket_at_def refill_def float64_def f d t rl_cleanup_def second_def
  show "allowed ''a'' (rl_New (1 / 1024) 1) [RlRequest 0 ''a'', RlRequest 360000000000 ''a''] = 1"
    "allowed ''a'' (rl_New (1 / 1024) 1) [RlRequest 0 ''a'', RlCleanup 360000000000, RlRequest 360000000000 ''a''] = 2"
    by (simp_all add: eval Let_def)
qed

end
