(* ===== verification/Compress.thy ===== *)
theory Compress
  imports GoWriter
begin

text \<open>
  \<open>compress/compress.go\<close>: the choice of the encoding and the writer that compresses responses. The two
  compressors (gzip of the standard library, brotli of a third party) are a parameter: a state machine that is given bytes
  and hands bytes to the writer below, with the documented round trip as the hypothesis \<open>codec_ok\<close>.
  \<open>http.DetectContentType\<close> and Unicode lower-casing are parameters too. The pools of writers are not
  modelled: \<open>Reset\<close> puts a pooled compressor into its initial state.
\<close>

section \<open>Negotiation\<close>

datatype encoding = encodingNone | encodingBrotli | encodingGzip

definition coding_name :: "string \<Rightarrow> string" where
  "coding_name enc = strings_TrimSpace (fst (strings_Cut (strings_TrimSpace enc) (CHR '';'')))"

definition selectEncoding :: "request \<Rightarrow> encoding" where
  "selectEncoding r =
     (let ae = header_Get (reqHeader r) ''Accept-Encoding'';
          step = (\<lambda>(hasBrotli, hasGzip) enc.
            (let enc = coding_name enc
             in if enc = ''br'' then (True, hasGzip) else if enc = ''gzip'' then (hasBrotli, True) else (hasBrotli, hasGzip)));
          (hasBrotli, hasGzip) = foldl step (False, False) (strings_Split ae (CHR '',''))
      in if hasBrotli then encodingBrotli else if hasGzip then encodingGzip else encodingNone)"

definition compressible_prefixes :: "string list" where
  "compressible_prefixes =
     [''text/'', ''application/json'', ''application/javascript'', ''application/xml'', ''application/xhtml+xml'',
      ''image/svg+xml'', ''application/wasm'']"

definition isCompressible :: "(string \<Rightarrow> string) \<Rightarrow> string \<Rightarrow> bool" where
  "isCompressible uni ct = list_ex (strings_Contains (strings_ToLower uni ct)) compressible_prefixes"

section \<open>The compressing writer\<close>

record 's compressor =
  cpInit :: 's
  cpWrite :: "'s \<Rightarrow> bytes \<Rightarrow> bytes \<times> 's"
  cpClose :: "'s \<Rightarrow> bytes"

record compressEnv =
  coUni :: "string \<Rightarrow> string"
  coDetect :: "bytes \<Rightarrow> string"

text \<open>
  \<open>compressResponseWriter\<close>: \<open>crHeader\<close> is the header map reached through the embedded writer. An
  operation yields the calls it makes on that writer.
\<close>

record 's compressResponseWriter =
  crHeader :: header
  crWriter :: 's
  crEncoding :: string
  crHeaderWritten :: bool
  crShouldCompress :: bool
  crChecked :: bool

definition crw_edit :: "'s compressResponseWriter \<Rightarrow> call list \<Rightarrow> call list \<times> 's compressResponseWriter" where
  "crw_edit crw cs = (cs, crw\<lparr>crHeader := foldl edit_header (crHeader crw) cs\<rparr>)"

definition encode_edits :: "string \<Rightarrow> call list" where
  "encode_edits enc = [CDel ''Content-Length'', CSet ''Content-Encoding'' enc, CAdd ''Vary'' ''Accept-Encoding'']"

definition crw_check :: "compressEnv \<Rightarrow> 's compressResponseWriter \<Rightarrow> call list \<times> 's compressResponseWriter" where
  "crw_check ev crw =
     (if crChecked crw then ([], crw)
      else let ct = header_Get (crHeader crw) ''Content-Type'';
               crw = crw\<lparr>crChecked := True, crShouldCompress := isCompressible (coUni ev) ct\<rparr>
           in if crShouldCompress crw then crw_edit crw (encode_edits (crEncoding crw)) else ([], crw))"

text \<open>What the compressor hands down: no call when it only buffers.\<close>

definition pass_down :: "bytes \<Rightarrow> call list" where
  "pass_down b = (if b = [] then [] else [CWrite b])"

definition crw_WriteHeader :: "compressEnv \<Rightarrow> 's compressResponseWriter \<Rightarrow> int \<Rightarrow> call list \<times> 's compressResponseWriter" where
  "crw_WriteHeader ev crw code =
     (let (cs, crw) = crw_check ev crw in (cs @ [CWriteHeader code], crw\<lparr>crHeaderWritten := True\<rparr>))"

definition crw_begin :: "compressEnv \<Rightarrow> 's compressResponseWriter \<Rightarrow> bytes \<Rightarrow> call list \<times> 's compressResponseWriter" where
  "crw_begin ev crw b =
     (if crHeaderWritten crw then ([], crw)
      else let (cs, crw) = (if header_Get (crHeader crw) ''Content-Type'' = []
                            then crw_edit crw [CSet ''Content-Type'' (coDetect ev b)] else ([], crw));
               (ds, crw) = crw_check ev crw
           in (cs @ ds, crw\<lparr>crHeaderWritten := True\<rparr>))"

definition crw_Write ::
  "compressEnv \<Rightarrow> 's compressor \<Rightarrow> 's compressResponseWriter \<Rightarrow> bytes \<Rightarrow> call list \<times> 's compressResponseWriter" where
  "crw_Write ev cp crw b =
     (let (cs, crw) = crw_begin ev crw b
      in if crShouldCompress crw then
           (let (z, s) = cpWrite cp (crWriter crw) b in (cs @ pass_down z, crw\<lparr>crWriter := s\<rparr>))
         else (cs @ [CWrite b], crw))"

definition crw_Close :: "'s compressor \<Rightarrow> 's compressResponseWriter \<Rightarrow> call list" where
  "crw_Close cp crw = (if crShouldCompress crw then pass_down (cpClose cp (crWriter crw)) else [])"

fun crw_call ::
  "compressEnv \<Rightarrow> 's compressor \<Rightarrow> 's compressResponseWriter \<Rightarrow> call \<Rightarrow> call list \<times> 's compressResponseWriter" where
  "crw_call ev cp crw (CWriteHeader code) = crw_WriteHeader ev crw code"
| "crw_call ev cp crw (CWrite b) = crw_Write ev cp crw b"
| "crw_call ev cp crw c = crw_edit crw [c]"

fun crw_calls ::
  "compressEnv \<Rightarrow> 's compressor \<Rightarrow> 's compressResponseWriter \<Rightarrow> call list \<Rightarrow> call list \<times> 's compressResponseWriter" where
  "crw_calls ev cp crw [] = ([], crw)"
| "crw_calls ev cp crw (c # cs) =
     (let (as, crw) = crw_call ev cp crw c; (bs, crw) = crw_calls ev cp crw cs in (as @ bs, crw))"

definition new_crw :: "'s compressor \<Rightarrow> string \<Rightarrow> header \<Rightarrow> 's compressResponseWriter" where
  "new_crw cp enc h =
     \<lparr>crHeader = h, crWriter = cpInit cp, crEncoding = enc, crHeaderWritten = False, crShouldCompress = False, crChecked = False\<rparr>"

text \<open>The handler's calls through the compressing writer, and the deferred \<open>Close\<close>.\<close>

definition compressed :: "compressEnv \<Rightarrow> 's compressor \<Rightarrow> string \<Rightarrow> header \<Rightarrow> call list \<Rightarrow> call list" where
  "compressed ev cp enc h cs =
     (let (out, crw) = crw_calls ev cp (new_crw cp enc h) cs in out @ crw_Close cp crw)"

definition compress_Middleware ::
  "compressEnv \<Rightarrow> 's compressor \<Rightarrow> 't compressor \<Rightarrow> header \<Rightarrow> (request \<Rightarrow> call list) \<Rightarrow> request \<Rightarrow> call list" where
  "compress_Middleware ev brotli gzip h next' r =
     (case selectEncoding r of
        encodingNone \<Rightarrow> next' r
      | encodingBrotli \<Rightarrow> compressed ev brotli ''br'' h (next' r)
      | encodingGzip \<Rightarrow> compressed ev gzip ''gzip'' h (next' r))"

section \<open>The compressor's contract\<close>

fun cp_feed :: "'s compressor \<Rightarrow> 's \<Rightarrow> bytes list \<Rightarrow> bytes" where
  "cp_feed cp s [] = cpClose cp s"
| "cp_feed cp s (b # bs) = (let (z, s) = cpWrite cp s b in z @ cp_feed cp s bs)"

text \<open>Decompressing all that the compressor has handed down after \<open>Close\<close> gives what it was given.\<close>

definition codec_ok :: "'s compressor \<Rightarrow> (bytes \<Rightarrow> bytes option) \<Rightarrow> bool" where
  "codec_ok cp dec \<longleftrightarrow> (\<forall>bs. dec (cp_feed cp (cpInit cp) bs) = Some (concat bs))"

section \<open>What the client sees\<close>

definition sent_header :: "respw \<Rightarrow> header" where
  "sent_header w = (case rwSent w of None \<Rightarrow> rwHeader w | Some (_, h) \<Rightarrow> h)"

lemma run_writes_obs:
  assumes "list_all is_write cs"
  shows "rw_status (run_calls w cs) = rw_status w \<and> sent_header (run_calls w cs) = sent_header w \<and>
     rwBody (run_calls w cs) = (if bodyAllowedForStatus (rw_status w) then rwBody w @ written cs else rwBody w)"
  using assms
proof (induction cs arbitrary: w)
  case (Cons c cs)
  then obtain b where c: "c = CWrite b" by (cases c) auto
  have "rw_status (snd (net_Write w b)) = rw_status w" "sent_header (snd (net_Write w b)) = sent_header w"
    "rwBody (snd (net_Write w b)) = (if bodyAllowedForStatus (rw_status w) then rwBody w @ b else rwBody w)"
    by (auto simp: net_Write_def w_WriteHeader_def rw_status_def sent_header_def Let_def split: option.splits)
  with Cons c show ?case by simp
qed simp

lemma crw_edits:
  "list_all is_edit cs \<Longrightarrow> crw_calls ev cp crw cs = (cs, crw\<lparr>crHeader := foldl edit_header (crHeader crw) cs\<rparr>)"
proof (induction cs arbitrary: crw)
  case (Cons c cs)
  then show ?case by (cases c) (simp_all add: crw_edit_def)
qed simp

lemma crw_calls_append:
  "crw_calls ev cp crw (cs @ ds) =
     (let (as, crw) = crw_calls ev cp crw cs; (bs, crw) = crw_calls ev cp crw ds in (as @ bs, crw))"
  by (induction cs arbitrary: crw) (simp_all add: case_prod_unfold Let_def)

fun chunks :: "call list \<Rightarrow> bytes list" where
  "chunks [] = []"
| "chunks (CWrite b # cs) = b # chunks cs"
| "chunks (c # cs) = chunks cs"

lemma concat_chunks: "concat (chunks cs) = written cs"
  by (induction cs rule: chunks.induct) simp_all

lemma pass_down_writes [simp]: "list_all is_write (pass_down b)" "written (pass_down b) = b"
  by (simp_all add: pass_down_def)

text \<open>Once the header is written, writes and the final \<open>Close\<close> are the compressor's output.\<close>

lemma crw_writes_compressed:
  assumes "list_all is_write ws" "crHeaderWritten crw" "crShouldCompress crw" "crw_calls ev cp crw ws = (out, crw')"
  shows "list_all is_write (out @ crw_Close cp crw') \<and> written (out @ crw_Close cp crw') = cp_feed cp (crWriter crw) (chunks ws)"
  using assms
proof (induction ws arbitrary: crw out)
  case (Cons c ws)
  from Cons.prems(1) obtain b where c: "c = CWrite b" by (cases c) auto
  obtain z s where z: "cpWrite cp (crWriter crw) b = (z, s)" by fastforce
  obtain out' where o: "crw_calls ev cp (crw\<lparr>crWriter := s\<rparr>) ws = (out', crw')" "out = pass_down z @ out'"
    using Cons.prems by (auto simp: c crw_Write_def crw_begin_def z split: prod.splits)
  have "list_all is_write (out' @ crw_Close cp crw') \<and> written (out' @ crw_Close cp crw') = cp_feed cp s (chunks ws)"
    using Cons.IH [OF _ _ _ o(1)] Cons.prems by simp
  then show ?case using o(2) z by (simp add: c)
qed (auto simp: crw_Close_def)

lemma crw_writes_plain:
  assumes "list_all is_write ws" "crHeaderWritten crw" "\<not> crShouldCompress crw"
  shows "crw_calls ev cp crw ws = (ws, crw)"
  using assms
proof (induction ws)
  case (Cons c ws)
  then obtain b where "c = CWrite b" by (cases c) auto
  with Cons show ?case by (simp add: crw_Write_def crw_begin_def)
qed simp

text \<open>The header after the content type has been sniffed from a first write without a status.\<close>

definition sniffed :: "compressEnv \<Rightarrow> int option \<Rightarrow> call list \<Rightarrow> header \<Rightarrow> header" where
  "sniffed ev st ws h =
     (case (st, ws) of
        (None, CWrite b # _) \<Rightarrow>
          if header_Get h ''Content-Type'' = [] then header_Set h ''Content-Type'' (coDetect ev b) else h
      | _ \<Rightarrow> h)"

lemma check_opens:
  assumes "\<not> crChecked crw" "crw_check ev crw = (pre, crw')"
  shows "let sc = isCompressible (coUni ev) (header_Get (crHeader crw) ''Content-Type'')
    in pre = (if sc then encode_edits (crEncoding crw) else []) \<and> crShouldCompress crw' = sc \<and> crWriter crw' = crWriter crw"
  using assms by (auto simp: crw_check_def crw_edit_def Let_def split: if_splits)

text \<open>
  The first status or write emits only header edits; what follows is the compressor's output, or
  the handler's own writes when the content type is not compressible.
\<close>

definition opened :: "compressEnv \<Rightarrow> 's compressor \<Rightarrow> string \<Rightarrow> header \<Rightarrow> call list \<Rightarrow> call list \<Rightarrow> call list \<Rightarrow> bool" where
  "opened ev cp enc H pre ws out \<longleftrightarrow>
     (if isCompressible (coUni ev) (header_Get H ''Content-Type'')
      then pre = encode_edits enc \<and> list_all is_write out \<and> written out = cp_feed cp (cpInit cp) (chunks ws)
      else pre = [] \<and> out = ws)"

lemma crw_after_header:
  assumes "list_all is_write ws" "crHeaderWritten crw" "crWriter crw = cpInit cp"
    and "crShouldCompress crw = isCompressible (coUni ev) (header_Get H ''Content-Type'')"
  shows "\<exists>out crw'. crw_calls ev cp crw ws = (out, crw') \<and>
     opened ev cp enc H (if crShouldCompress crw then encode_edits enc else []) ws (out @ crw_Close cp crw')"
proof -
  obtain out crw' where c: "crw_calls ev cp crw ws = (out, crw')" by fastforce
  show ?thesis
  proof (cases "crShouldCompress crw")
    case True
    with crw_writes_compressed [OF assms(1,2) True c] assms(3,4) c show ?thesis by (auto simp: opened_def)
  next
    case False
    with crw_writes_plain [OF assms(1,2) False, of ev cp] assms(4) c show ?thesis by (auto simp: opened_def crw_Close_def)
  qed
qed

lemma compressed_form:
  assumes "disciplined cs es st ws" "st \<noteq> None \<or> ws \<noteq> []"
  shows "\<exists>sniff pre out. compressed ev cp enc h cs = es @ sniff @ pre @ (case st of None \<Rightarrow> [] | Some c \<Rightarrow> [CWriteHeader c]) @ out \<and>
    list_all is_edit sniff \<and> foldl edit_header (foldl edit_header h es) sniff = sniffed ev st ws (foldl edit_header h es) \<and>
    opened ev cp enc (sniffed ev st ws (foldl edit_header h es)) pre ws out"
proof -
  let ?H = "foldl edit_header h es" and ?S = "sniffed ev st ws (foldl edit_header h es)"
  let ?crw = "(new_crw cp enc h)\<lparr>crHeader := ?H\<rparr>"
  have cs: "cs = es @ (case st of None \<Rightarrow> [] | Some c \<Rightarrow> [CWriteHeader c]) @ ws" and es: "list_all is_edit es"
    and ws: "list_all is_write ws" using assms(1) by (auto simp: disciplined_def)
  have E: "crw_calls ev cp (new_crw cp enc h) es = (es, ?crw)" using crw_edits [OF es, of ev cp "new_crw cp enc h"] by (simp add: new_crw_def)
  show ?thesis
  proof (cases st)
    case (Some c)
    obtain pre crw1 where k: "crw_check ev ?crw = (pre, crw1)" by fastforce
    note K = check_opens [OF _ k, unfolded Let_def]
    let ?crw2 = "crw1\<lparr>crHeaderWritten := True\<rparr>"
    have S: "?S = ?H" using Some by (simp add: sniffed_def)
    obtain out crw' where o: "crw_calls ev cp ?crw2 ws = (out, crw')"
      "opened ev cp enc ?H (if crShouldCompress ?crw2 then encode_edits enc else []) ws (out @ crw_Close cp crw')"
      using crw_after_header [OF ws, of ?crw2 cp ev ?H enc] K by (auto simp: new_crw_def)
    have "compressed ev cp enc h cs = es @ pre @ [CWriteHeader c] @ out @ crw_Close cp crw'"
      using E k o(1) by (simp add: compressed_def cs Some crw_calls_append crw_WriteHeader_def)
    moreover have "pre = (if crShouldCompress ?crw2 then encode_edits enc else [])" using K by (simp add: new_crw_def)
    ultimately show ?thesis using o(2) S Some by (intro exI [of _ "[]"] exI [of _ pre] exI [of _ "out @ crw_Close cp crw'"]) simp
  next
    case None
    with assms(2) obtain c ws' where "ws = c # ws'" by (cases ws) auto
    with ws obtain b where W: "ws = CWrite b # ws'" by (cases c) auto
    obtain sniff crw0 where s: "(if header_Get (crHeader ?crw) ''Content-Type'' = []
        then crw_edit ?crw [CSet ''Content-Type'' (coDetect ev b)] else ([], ?crw)) = (sniff, crw0)" by fastforce
    obtain pre crw1 where k: "crw_check ev crw0 = (pre, crw1)" by fastforce
    have s': "list_all is_edit sniff" "foldl edit_header ?H sniff = ?S" "crHeader crw0 = ?S" "\<not> crChecked crw0"
      "crEncoding crw0 = enc" "crWriter crw0 = cpInit cp" "\<not> crHeaderWritten ?crw"
      using s None W by (auto simp: sniffed_def crw_edit_def new_crw_def split: if_splits)
    note K = check_opens [OF s'(4) k, unfolded Let_def s']
    let ?crw2 = "crw1\<lparr>crHeaderWritten := True\<rparr>"
    have B: "crw_begin ev ?crw b = (sniff @ pre, ?crw2)" unfolding crw_begin_def s Let_def using s'(7) k by simp
    obtain out crw' where o: "crw_calls ev cp ?crw2 ws = (out, crw')"
      "opened ev cp enc ?S (if crShouldCompress ?crw2 then encode_edits enc else []) ws (out @ crw_Close cp crw')"
      using crw_after_header [OF ws, of ?crw2 cp ev ?S enc] K by auto
    have "crw_calls ev cp ?crw ws = (sniff @ pre @ out, crw')"
      using o(1) B by (auto simp: W crw_Write_def crw_begin_def [of ev ?crw2] split: if_splits prod.splits)
    then have "compressed ev cp enc h cs = es @ sniff @ pre @ out @ crw_Close cp crw'"
      using E by (simp add: compressed_def cs None crw_calls_append)
    moreover have "pre = (if crShouldCompress ?crw2 then encode_edits enc else [])" using K by simp
    ultimately show ?thesis using o(2) s'(1,2) None
      by (intro exI [of _ sniff] exI [of _ pre] exI [of _ "out @ crw_Close cp crw'"]) simp
  qed
qed

lemma status_obs:
  "rwSent w = None \<Longrightarrow> rw_status (run_calls w (case st of None \<Rightarrow> [] | Some c \<Rightarrow> [CWriteHeader c])) = (case st of None \<Rightarrow> 200 | Some c \<Rightarrow> c) \<and>
   sent_header (run_calls w (case st of None \<Rightarrow> [] | Some c \<Rightarrow> [CWriteHeader c])) = rwHeader w \<and>
   rwBody (run_calls w (case st of None \<Rightarrow> [] | Some c \<Rightarrow> [CWriteHeader c])) = rwBody w"
  by (auto simp: rw_status_def sent_header_def split: option.splits)

text \<open>What edits, an optional status and writes leave, as the client sees it.\<close>

lemma run_form:
  assumes "list_all is_edit es" "list_all is_write ws" "rwSent w = None" "rwBody w = []"
  shows "let w' = run_calls w (es @ (case st of None \<Rightarrow> [] | Some c \<Rightarrow> [CWriteHeader c]) @ ws); code = (case st of None \<Rightarrow> 200 | Some c \<Rightarrow> c)
    in rw_status w' = code \<and> sent_header w' = foldl edit_header (rwHeader w) es \<and>
       rwBody w' = (if bodyAllowedForStatus code then written ws else [])"
proof -
  let ?w = "w\<lparr>rwHeader := foldl edit_header (rwHeader w) es\<rparr>"
  let ?v = "run_calls ?w (case st of None \<Rightarrow> [] | Some c \<Rightarrow> [CWriteHeader c])"
  have "rwSent ?w = None" using assms(3) by simp
  note O = status_obs [OF this, of st]
  have "run_calls w (es @ (case st of None \<Rightarrow> [] | Some c \<Rightarrow> [CWriteHeader c]) @ ws) = run_calls ?v ws"
    by (simp only: run_calls_simps run_edits [OF assms(1)])
  then show ?thesis using run_writes_obs [OF assms(2), of ?v] O assms(4)
    by (simp only: Let_def) simp
qed

lemma compressed_transparent:
  assumes "disciplined cs es st ws" "st \<noteq> None \<or> ws \<noteq> []" "rwSent w = None" "rwBody w = []" "codec_ok cp dec"
  shows "let plain = run_calls w cs; out = run_calls w (compressed ev cp enc (rwHeader w) cs); h = sniffed ev st ws (sent_header plain)
    in rw_status out = rw_status plain \<and>
       (if isCompressible (coUni ev) (header_Get h ''Content-Type'')
        then sent_header out = foldl edit_header h (encode_edits enc) \<and>
             (if bodyAllowedForStatus (rw_status plain) then dec (rwBody out) = Some (rwBody plain) else rwBody out = [])
        else sent_header out = h \<and> rwBody out = rwBody plain)"
proof -
  let ?H = "foldl edit_header (rwHeader w) es" and ?code = "case st of None \<Rightarrow> 200 | Some c \<Rightarrow> c"
  have cs: "cs = es @ (case st of None \<Rightarrow> [] | Some c \<Rightarrow> [CWriteHeader c]) @ ws" and es: "list_all is_edit es"
    and ws: "list_all is_write ws" using assms(1) by (auto simp: disciplined_def)
  note P = run_form [OF es ws assms(3,4), of st, folded cs, unfolded Let_def]
  obtain sniff pre out where F: "compressed ev cp enc (rwHeader w) cs = es @ sniff @ pre @ (case st of None \<Rightarrow> [] | Some c \<Rightarrow> [CWriteHeader c]) @ out"
    and sn: "list_all is_edit sniff" "foldl edit_header ?H sniff = sniffed ev st ws ?H"
    and op: "opened ev cp enc (sniffed ev st ws ?H) pre ws out"
    using compressed_form [OF assms(1,2), of ev cp enc "rwHeader w"] by blast
  have pre: "list_all is_edit pre" and out: "list_all is_write out"
    using op ws by (auto simp: opened_def encode_edits_def split: if_splits)
  have "list_all is_edit (es @ sniff @ pre)" using es sn(1) pre by simp
  note Q = run_form [OF this out assms(3,4), of st, unfolded append_assoc, folded F, unfolded Let_def]
  have h: "foldl edit_header (rwHeader w) (es @ sniff @ pre) = foldl edit_header (sniffed ev st ws ?H) pre" by (simp add: sn(2))
  have "dec (written out) = Some (written ws)" if "isCompressible (coUni ev) (header_Get (sniffed ev st ws ?H) ''Content-Type'')"
    using op that assms(5) by (simp add: opened_def codec_ok_def concat_chunks)
  then show ?thesis using P Q op unfolding h opened_def Let_def by (auto split: if_splits)
qed

text \<open>
  C10. Compression is transparent. For a handler that edits headers, then sets the status at most once, then writes,
  the client gets the status it would have got without the middleware; a response of a compressible
  type is sent with the negotiated Content-Encoding, without Content-Length and with
  Accept-Encoding added to Vary, and decompressing its body gives the handler's body; any other
  response is sent as it is, but for a sniffed content type. With no acceptable encoding the
  middleware does nothing at all.
\<close>

theorem compress_transparent:
  assumes "disciplined (nx r) es st ws" "st \<noteq> None \<or> ws \<noteq> []" "rwSent w = None" "rwBody w = []"
    and "codec_ok brotli (dec encodingBrotli)" "codec_ok gzip (dec encodingGzip)"
  shows "let plain = run_calls w (nx r); out = run_calls w (compress_Middleware ev brotli gzip (rwHeader w) nx r);
      h = sniffed ev st ws (sent_header plain); enc = selectEncoding r
    in if enc = encodingNone then out = plain
       else rw_status out = rw_status plain \<and>
         (if isCompressible (coUni ev) (header_Get h ''Content-Type'')
          then sent_header out = foldl edit_header h (encode_edits (if enc = encodingBrotli then ''br'' else ''gzip'')) \<and>
               (if bodyAllowedForStatus (rw_status plain) then dec enc (rwBody out) = Some (rwBody plain) else rwBody out = [])
          else sent_header out = h \<and> rwBody out = rwBody plain)"
proof (cases "selectEncoding r")
  case encodingNone
  then show ?thesis by (simp add: compress_Middleware_def)
next
  case encodingBrotli
  then show ?thesis using compressed_transparent [OF assms(1-5), of ev "''br''"]
    by (auto simp: compress_Middleware_def Let_def simp del: run_calls_simps split: if_splits)
next
  case encodingGzip
  then show ?thesis using compressed_transparent [OF assms(1-4,6), of ev "''gzip''"]
    by (auto simp: compress_Middleware_def Let_def simp del: run_calls_simps split: if_splits)
qed

text \<open>The theorem on a small text response, with a compressor that buffers everything until \<open>Close\<close>.\<close>

definition demo_cp :: "bytes compressor" where
  "demo_cp = \<lparr>cpInit = [], cpWrite = (\<lambda>s b. ([], s @ b)), cpClose = (\<lambda>s. CHR ''z'' # s)\<rparr>"

definition demo_dec :: "bytes \<Rightarrow> bytes option" where
  "demo_dec b = (case b of [] \<Rightarrow> None | _ # bs \<Rightarrow> Some bs)"

definition demo_gz_req :: request where
  "demo_gz_req = \<lparr>reqMethod = ''GET'', reqHost = ''h'', reqPath = ''/'', reqRawQuery = [], reqURI = ''/'',
     reqHeader = [(''Accept-Encoding'', [''gzip;q=0.5, identity''])], reqRemoteAddr = ''10.0.0.1:99''\<rparr>"

definition demo_gz_calls :: "call list" where
  "demo_gz_calls = [CSet ''Content-Type'' ''text/html'', CSet ''Content-Length'' ''4'', CWriteHeader 200, CWrite ''ab'', CWrite ''cd'']"

definition demo_co :: compressEnv where
  "demo_co = \<lparr>coUni = (\<lambda>s. s), coDetect = (\<lambda>_. ''text/plain'')\<rparr>"

lemma demo_codec: "codec_ok demo_cp demo_dec"
proof -
  have "cp_feed demo_cp s bs = CHR ''z'' # s @ concat bs" for s bs
    by (induction bs arbitrary: s) (simp_all add: demo_cp_def)
  then show ?thesis by (simp add: codec_ok_def demo_dec_def demo_cp_def)
qed

theorem compress_transparent_witness:
  "let out = run_calls new_respw (compress_Middleware demo_co demo_cp demo_cp [] (\<lambda>_. demo_gz_calls) demo_gz_req)
   in rw_status out = 200 \<and> rw_sent_header out ''Content-Encoding'' = ''gzip'' \<and> demo_dec (rwBody out) = Some ''abcd''"
proof -
  let ?nx = "\<lambda>_::request. demo_gz_calls"
  have d: "disciplined (?nx demo_gz_req) (take 2 demo_gz_calls) (Some 200) (drop 3 demo_gz_calls)"
    by (simp add: disciplined_def demo_gz_calls_def)
  have e: "selectEncoding demo_gz_req = encodingGzip" by code_simp
  have c: "isCompressible (coUni demo_co) (header_Get (sent_header (run_calls new_respw demo_gz_calls)) ''Content-Type'')" by code_simp
  have p: "rw_status (run_calls new_respw demo_gz_calls) = 200" "rwBody (run_calls new_respw demo_gz_calls) = ''abcd''" by code_simp+
  have b: "bodyAllowedForStatus 200" by code_simp
  have h: "header_Get (foldl edit_header (sent_header (run_calls new_respw demo_gz_calls)) (encode_edits ''gzip'')) ''Content-Encoding'' = ''gzip''"
    by code_simp
  have s: "rw_sent_header w k = header_Get (sent_header w) k" for w k
    by (auto simp: rw_sent_header_def sent_header_def split: option.splits)
  show ?thesis
    using compress_transparent [OF d _ _ _ demo_codec demo_codec, of new_respw demo_co] e c p b h
    by (simp add: Let_def sniffed_def s del: run_calls_simps)
qed

text \<open>
  The quality value is cut off before the coding is compared: a client that refuses brotli with
  \<open>br;q=0\<close> is sent brotli.
\<close>

lemma refused_brotli_selected:
  "selectEncoding (demo_gz_req\<lparr>reqHeader := [(''Accept-Encoding'', [''br;q=0, gzip''])]\<rparr>) = encodingBrotli"
  by code_simp

text \<open>
  A response that is already encoded is encoded again and its Content-Encoding overwritten, so that
  the client decodes only one layer.
\<close>

lemma encoded_twice:
  "rw_sent_header (run_calls new_respw (compress_Middleware demo_co demo_cp demo_cp []
     (\<lambda>_. CSet ''Content-Encoding'' ''gzip'' # demo_gz_calls) (demo_gz_req\<lparr>reqHeader := [(''Accept-Encoding'', [''br''])]\<rparr>)))
     ''Content-Encoding'' = ''br''"
  by code_simp

end
