(* ===== verification/CorsRedirect.thy ===== *)
theory CorsRedirect
  imports Compress
begin

text \<open>
  \<open>middleware/cors.go\<close> and \<open>middleware/httpsredirect.go\<close>: cross-origin headers with preflight
  answers, and the handler of port 80 that redirects to HTTPS. A middleware turns the calls of the
  next handler into the calls made on its own writer.
\<close>

section \<open>CORS\<close>

fun parseOrigins_loop :: "string list \<Rightarrow> string list" where
  "parseOrigins_loop [] = []"
| "parseOrigins_loop (s # ss) =
     (let t = strings_TrimSpace s in if t \<noteq> [] then t # parseOrigins_loop ss else parseOrigins_loop ss)"

definition parseOrigins :: "string \<Rightarrow> string list" where
  "parseOrigins s = parseOrigins_loop (strings_Split s (CHR '',''))"

fun originAllowed :: "string \<Rightarrow> string list \<Rightarrow> bool" where
  "originAllowed origin [] = False"
| "originAllowed origin (a # as) = (if a = origin then True else originAllowed origin as)"

definition CORS :: "string \<Rightarrow> int \<Rightarrow> (request \<Rightarrow> call list) \<Rightarrow> request \<Rightarrow> call list" where
  "CORS allowedOrigins maxAge next' r =
     (if allowedOrigins = [] then next' r
      else let origins = parseOrigins allowedOrigins;
               allowAll = (length origins = 1 \<and> hd origins = ''*'');
               origin = header_Get (reqHeader r) ''Origin'';
               grant = (if origin \<noteq> [] then
                          if allowAll then [CSet ''Access-Control-Allow-Origin'' ''*'']
                          else if originAllowed origin origins
                               then [CSet ''Access-Control-Allow-Origin'' origin, CAdd ''Vary'' ''Origin'']
                               else []
                        else []);
               reqHeaders = header_Get (reqHeader r) ''Access-Control-Request-Headers''
           in if reqMethod r = ''OPTIONS'' \<and> header_Get (reqHeader r) ''Access-Control-Request-Method'' \<noteq> [] then
                grant @ [CSet ''Access-Control-Allow-Methods'' ''GET, HEAD, OPTIONS''] @
                (if reqHeaders \<noteq> [] then [CSet ''Access-Control-Allow-Headers'' reqHeaders] else []) @
                [CSet ''Access-Control-Max-Age'' (strconv_Itoa maxAge), CWriteHeader 204]
              else grant @ next' r)"

section \<open>Redirect to HTTPS\<close>

text \<open>\<open>hexEscapeNonASCII\<close> and \<open>htmlEscape\<close> of \<open>net/http\<close>.\<close>

definition hexEscapeNonASCII :: "string \<Rightarrow> string" where
  "hexEscapeNonASCII s = concat (map (\<lambda>c. if is_ascii c then [c] else CHR ''%'' # hex_EncodeToString [c]) s)"

definition html_escape_char :: "char \<Rightarrow> string" where
  "html_escape_char c =
     (if c = CHR ''&'' then ''&amp;'' else if c = CHR ''<'' then ''&lt;'' else if c = CHR ''>'' then ''&gt;''
      else if c = CHR 0x22 then ''&#34;'' else if c = CHR 0x27 then ''&#39;'' else [c])"

definition htmlEscape :: "string \<Rightarrow> string" where
  "htmlEscape s = concat (map html_escape_char s)"

text \<open>\<open>http.Redirect\<close> to an absolute URL on a writer whose content type is not set.\<close>

definition redirect_calls :: "request \<Rightarrow> string \<Rightarrow> int \<Rightarrow> string \<Rightarrow> call list" where
  "redirect_calls r url code text =
     [CSet ''Location'' (hexEscapeNonASCII url)] @
     (if reqMethod r = ''GET'' \<or> reqMethod r = ''HEAD'' then [CSet ''Content-Type'' ''text/html; charset=utf-8''] else []) @
     [CWriteHeader code] @
     (if reqMethod r = ''GET''
      then [CWrite (''<a href='' @ [CHR 0x22] @ htmlEscape url @ [CHR 0x22] @ ''>'' @ text @ ''</a>.'' @ [CHR 0x0A] @ [CHR 0x0A])] else [])"

definition redirect_host :: "string \<Rightarrow> request \<Rightarrow> string" where
  "redirect_host tlsHost r =
     (if tlsHost = [] then
        (case strings_LastIndexByte (reqHost r) (CHR '':'') of
           Some i \<Rightarrow> if i > 0 then take i (reqHost r) else reqHost r
         | None \<Rightarrow> reqHost r)
      else tlsHost)"

definition HTTPSRedirect :: "string \<Rightarrow> request \<Rightarrow> call list" where
  "HTTPSRedirect tlsHost r =
     redirect_calls r (''https://'' @ redirect_host tlsHost r @ reqURI r) 301 ''Moved Permanently''"

section \<open>Headers a handler leaves alone\<close>

fun touches :: "string \<Rightarrow> call \<Rightarrow> bool" where
  "touches k (CSet k' v) = (CanonicalHeaderKey k' = k)"
| "touches k (CAdd k' v) = (CanonicalHeaderKey k' = k)"
| "touches k (CDel k') = (CanonicalHeaderKey k' = k)"
| "touches k _ = False"

lemma edit_untouched: "\<not> touches k c \<Longrightarrow> header_values (edit_header h c) k = header_values h k"
  by (cases c) auto

lemma run_untouched:
  assumes "list_all (\<lambda>c. \<not> touches k c) cs" "rwSent w = None"
  shows "header_values (sent_header (run_calls w cs)) k = header_values (rwHeader w) k"
proof -
  have "header_values (rwHeader (run_calls w cs)) k = header_values (rwHeader w) k \<and>
    (\<forall>c h. rwSent (run_calls w cs) = Some (c, h) \<longrightarrow> header_values h k = header_values (rwHeader w) k)"
    if "\<forall>c h. rwSent w = Some (c, h) \<longrightarrow> header_values h k = header_values (rwHeader w) k" for w
    using assms(1) that
  proof (induction cs arbitrary: w)
    case (Cons c cs)
    have same: "header_values (rwHeader (do_call w c)) k = header_values (rwHeader w) k"
      using Cons.prems(1) run_calls_header [of w "[c]"] edit_untouched [of k c] by simp
    have sends: "\<forall>a h. rwSent (do_call w c) = Some (a, h) \<longrightarrow> header_values h k = header_values (rwHeader (do_call w c)) k"
    proof (intro allI impI)
      fix a h assume sent: "rwSent (do_call w c) = Some (a, h)"
      from do_call_sends [of w c] have "rwSent w = Some (a, h) \<or> h = rwHeader w" unfolding sent by auto
      then show "header_values h k = header_values (rwHeader (do_call w c)) k" unfolding same using Cons.prems(2) by blast
    qed
    have "list_all (\<lambda>c. \<not> touches k c) cs" using Cons.prems(1) by simp
    from Cons.IH [OF this sends] show ?case unfolding run_calls_simps same .
  qed simp
  from this [of w] assms(2) show ?thesis
    by (cases "rwSent (run_calls w cs)") (simp_all add: sent_header_def split: prod.splits)
qed

section \<open>What the middlewares promise\<close>

lemma parseOrigins_set: "set (parseOrigins s) = {strings_TrimSpace t | t. t \<in> set (strings_Split s (CHR '','')) \<and> strings_TrimSpace t \<noteq> []}"
proof -
  have "set (parseOrigins_loop ss) = {strings_TrimSpace t | t. t \<in> set ss \<and> strings_TrimSpace t \<noteq> []}" for ss
    by (induction ss) (auto simp: Let_def)
  then show ?thesis by (simp add: parseOrigins_def)
qed

lemma originAllowed_iff: "originAllowed origin as \<longleftrightarrow> origin \<in> set as"
  by (induction as) auto

lemma canon_cors [simp]:
  "CanonicalHeaderKey ''Access-Control-Allow-Origin'' = ''Access-Control-Allow-Origin''"
  "CanonicalHeaderKey ''Access-Control-Allow-Methods'' = ''Access-Control-Allow-Methods''"
  "CanonicalHeaderKey ''Access-Control-Allow-Headers'' = ''Access-Control-Allow-Headers''"
  "CanonicalHeaderKey ''Access-Control-Max-Age'' = ''Access-Control-Max-Age''"
  "CanonicalHeaderKey ''Vary'' = ''Vary''"
  by code_simp+


definition demo_cors_req :: request where
  "demo_cors_req = \<lparr>reqMethod = ''GET'', reqHost = ''h'', reqPath = ''/'', reqRawQuery = [], reqURI = ''/'',
     reqHeader = [(''Origin'', [''https://a''])], reqRemoteAddr = ''10.0.0.1:99''\<rparr>"


text \<open>The documented wildcard is honoured only when it is the whole list.\<close>

lemma cors_wildcard_in_list:
  "header_values (sent_header (run_calls new_respw (CORS ''https://b,*'' 60 (\<lambda>_. [CWriteHeader 200]) demo_cors_req)))
     ''Access-Control-Allow-Origin'' = []"
  by code_simp

text \<open>
  Every request to port 80 is answered 301 with the HTTPS address of the same path and query on the
  configured host, or on the request's host up to its last colon.
\<close>

theorem redirect_target:
  assumes "rwSent w = None" "list_all is_ascii (redirect_host tlsHost r @ reqURI r)"
  shows "let out = run_calls w (HTTPSRedirect tlsHost r)
    in rw_status out = 301 \<and> rw_sent_header out ''Location'' = ''https://'' @ redirect_host tlsHost r @ reqURI r"
proof -
  have canon: "CanonicalHeaderKey ''Location'' = ''Location''" "CanonicalHeaderKey ''Content-Type'' = ''Content-Type''" by code_simp+
  have "hexEscapeNonASCII s = s" if "list_all is_ascii s" for s using that by (induction s) (simp_all add: hexEscapeNonASCII_def)
  then have h: "hexEscapeNonASCII (''https://'' @ redirect_host tlsHost r @ reqURI r) = ''https://'' @ redirect_host tlsHost r @ reqURI r"
    using assms(2) by (simp add: is_ascii_def)
  show ?thesis using assms(1) unfolding HTTPSRedirect_def redirect_calls_def h
    by (simp add: Let_def net_Write_sent rw_status_def rw_sent_header_def bodyAllowedForStatus_def w_Set_def header_Get_Set canon)
qed

text \<open>An IPv6 host without a port loses its last group: the redirect of \<open>[::1]\<close> goes to \<open>[:\<close>.\<close>

lemma redirect_ipv6:
  "redirect_host [] (demo_cors_req\<lparr>reqHost := ''[::1]''\<rparr>) = ''[:''"
  by code_simp

end
