(* ===== verification/EdgeConfig.thy ===== *)
theory EdgeConfig
  imports GoFloat GoStrings
begin

text \<open>
  \<open>config/config.go\<close>: the configuration record with its defaults, the command-line flags as the package
  \<open>flag\<close> parses them, the overlay of environment variables, and validation. The parsers of floating-point
  numbers, durations, integers in any base and URLs are in \<open>cfgEnv\<close>, with the environment. A setting of a table
  is the update function of one field.
\<close>

section \<open>The record and its settings\<close>

datatype goFloat = Finite rat | PosInf | NegInf | NaN

record Config =
  cfListenAddr :: string
  cfOriginURL :: string
  cfOriginHostOverride :: string
  cfDefaultTTL :: duration
  cfMaxCacheItems :: int
  cfDiskCacheDir :: string
  cfDiskCacheMaxMB :: int
  cfOriginTimeout :: duration
  cfTLSEnabled :: bool
  cfTLSCertFile :: string
  cfTLSKeyFile :: string
  cfTLSAuto :: bool
  cfTLSAutoDomain :: string
  cfHTTPSRedirect :: bool
  cfCompressionEnabled :: bool
  cfAdminAddr :: string
  cfAdminAPIKey :: string
  cfRateLimitRPS :: goFloat
  cfRateLimitBurst :: int
  cfMaxCacheEntryBytes :: int
  cfCoalesceTimeout :: duration
  cfCORSOrigins :: string
  cfCORSMaxAge :: int
  cfLogLevel :: string
  cfMaxIdleConnsPerHost :: int
  cfDrainDelay :: duration
  cfMaxCacheKeyLen :: int
  cfCompressHeaders :: bool
  cfControlPlaneURL :: string
  cfConfigPollInterval :: duration
  cfTracingEnabled :: bool
  cfTracingEndpoint :: string
  cfTracingSampleRate :: goFloat
  cfTracingInsecure :: bool
  cfPredictorEnabled :: bool
  cfPredictorCapacity :: int
  cfPredictorDecay :: duration

definition default_config :: Config where
  "default_config =
     \<lparr>cfListenAddr = '':8080'',
      cfOriginURL = [],
      cfOriginHostOverride = [],
      cfDefaultTTL = 5 * 60 * second,
      cfMaxCacheItems = 10000,
      cfDiskCacheDir = [],
      cfDiskCacheMaxMB = 1024,
      cfOriginTimeout = 30 * second,
      cfTLSEnabled = False,
      cfTLSCertFile = [],
      cfTLSKeyFile = [],
      cfTLSAuto = False,
      cfTLSAutoDomain = [],
      cfHTTPSRedirect = True,
      cfCompressionEnabled = True,
      cfAdminAddr = [],
      cfAdminAPIKey = [],
      cfRateLimitRPS = Finite 0,
      cfRateLimitBurst = 50,
      cfMaxCacheEntryBytes = 10 * 2 ^ 20,
      cfCoalesceTimeout = 30 * second,
      cfCORSOrigins = [],
      cfCORSMaxAge = 86400,
      cfLogLevel = ''info'',
      cfMaxIdleConnsPerHost = 100,
      cfDrainDelay = 5 * second,
      cfMaxCacheKeyLen = 8192,
      cfCompressHeaders = False,
      cfControlPlaneURL = [],
      cfConfigPollInterval = 30 * second,
      cfTracingEnabled = False,
      cfTracingEndpoint = ''localhost:4317'',
      cfTracingSampleRate = Finite 1,
      cfTracingInsecure = True,
      cfPredictorEnabled = True,
      cfPredictorCapacity = 10000,
      cfPredictorDecay = 5 * 60 * second\<rparr>"

datatype setting =
    SStr "(string \<Rightarrow> string) \<Rightarrow> Config \<Rightarrow> Config"
  | SBool "(bool \<Rightarrow> bool) \<Rightarrow> Config \<Rightarrow> Config"
  | SInt "(int \<Rightarrow> int) \<Rightarrow> Config \<Rightarrow> Config"
  | SFloat "(goFloat \<Rightarrow> goFloat) \<Rightarrow> Config \<Rightarrow> Config"
  | SDur "(duration \<Rightarrow> duration) \<Rightarrow> Config \<Rightarrow> Config"

definition flag_table :: "(string \<times> setting) list" where
  "flag_table =
     [(''listen'', SStr cfListenAddr_update),
      (''origin'', SStr cfOriginURL_update),
      (''origin-host'', SStr cfOriginHostOverride_update),
      (''default-ttl'', SDur cfDefaultTTL_update),
      (''max-cache-items'', SInt cfMaxCacheItems_update),
      (''disk-cache-dir'', SStr cfDiskCacheDir_update),
      (''disk-cache-max-mb'', SInt cfDiskCacheMaxMB_update),
      (''origin-timeout'', SDur cfOriginTimeout_update),
      (''tls'', SBool cfTLSEnabled_update),
      (''tls-cert'', SStr cfTLSCertFile_update),
      (''tls-key'', SStr cfTLSKeyFile_update),
      (''tls-auto'', SBool cfTLSAuto_update),
      (''tls-auto-domain'', SStr cfTLSAutoDomain_update),
      (''https-redirect'', SBool cfHTTPSRedirect_update),
      (''compress'', SBool cfCompressionEnabled_update),
      (''admin-listen'', SStr cfAdminAddr_update),
      (''admin-api-key'', SStr cfAdminAPIKey_update),
      (''rate-limit-rps'', SFloat cfRateLimitRPS_update),
      (''rate-limit-burst'', SInt cfRateLimitBurst_update),
      (''max-cache-entry-bytes'', SInt cfMaxCacheEntryBytes_update),
      (''coalesce-timeout'', SDur cfCoalesceTimeout_update),
      (''cors-origins'', SStr cfCORSOrigins_update),
      (''cors-max-age'', SInt cfCORSMaxAge_update),
      (''log-level'', SStr cfLogLevel_update),
      (''max-idle-conns-per-host'', SInt cfMaxIdleConnsPerHost_update),
      (''drain-delay'', SDur cfDrainDelay_update),
      (''max-cache-key-len'', SInt cfMaxCacheKeyLen_update),
      (''compress-headers'', SBool cfCompressHeaders_update),
      (''control-plane'', SStr cfControlPlaneURL_update),
      (''config-poll-interval'', SDur cfConfigPollInterval_update),
      (''tracing'', SBool cfTracingEnabled_update),
      (''tracing-endpoint'', SStr cfTracingEndpoint_update),
      (''tracing-sample-rate'', SFloat cfTracingSampleRate_update),
      (''tracing-insecure'', SBool cfTracingInsecure_update),
      (''predictor'', SBool cfPredictorEnabled_update),
      (''predictor-capacity'', SInt cfPredictorCapacity_update),
      (''predictor-decay'', SDur cfPredictorDecay_update)]"

definition env_table :: "(string \<times> setting) list" where
  "env_table =
     [(''CDN_LISTEN'', SStr cfListenAddr_update),
      (''CDN_ORIGIN'', SStr cfOriginURL_update),
      (''CDN_ORIGIN_HOST'', SStr cfOriginHostOverride_update),
      (''CDN_DEFAULT_TTL'', SDur cfDefaultTTL_update),
      (''CDN_MAX_CACHE_ITEMS'', SInt cfMaxCacheItems_update),
      (''CDN_DISK_CACHE_DIR'', SStr cfDiskCacheDir_update),
      (''CDN_DISK_CACHE_MAX_MB'', SInt cfDiskCacheMaxMB_update),
      (''CDN_ORIGIN_TIMEOUT'', SDur cfOriginTimeout_update),
      (''CDN_TLS'', SBool cfTLSEnabled_update),
      (''CDN_TLS_CERT'', SStr cfTLSCertFile_update),
      (''CDN_TLS_KEY'', SStr cfTLSKeyFile_update),
      (''CDN_TLS_AUTO'', SBool cfTLSAuto_update),
      (''CDN_TLS_AUTO_DOMAIN'', SStr cfTLSAutoDomain_update),
      (''CDN_HTTPS_REDIRECT'', SBool cfHTTPSRedirect_update),
      (''CDN_COMPRESS'', SBool cfCompressionEnabled_update),
      (''CDN_ADMIN_LISTEN'', SStr cfAdminAddr_update),
      (''CDN_ADMIN_API_KEY'', SStr cfAdminAPIKey_update),
      (''CDN_RATE_LIMIT_RPS'', SFloat cfRateLimitRPS_update),
      (''CDN_RATE_LIMIT_BURST'', SInt cfRateLimitBurst_update),
      (''CDN_MAX_CACHE_ENTRY_BYTES'', SInt cfMaxCacheEntryBytes_update),
      (''CDN_COALESCE_TIMEOUT'', SDur cfCoalesceTimeout_update),
      (''CDN_CORS_ORIGINS'', SStr cfCORSOrigins_update),
      (''CDN_CORS_MAX_AGE'', SInt cfCORSMaxAge_update),
      (''CDN_LOG_LEVEL'', SStr cfLogLevel_update),
      (''CDN_MAX_IDLE_CONNS_PER_HOST'', SInt cfMaxIdleConnsPerHost_update),
      (''CDN_DRAIN_DELAY'', SDur cfDrainDelay_update),
      (''CDN_MAX_CACHE_KEY_LEN'', SInt cfMaxCacheKeyLen_update),
      (''CDN_COMPRESS_HEADERS'', SBool cfCompressHeaders_update),
      (''CDN_CONTROL_PLANE'', SStr cfControlPlaneURL_update),
      (''CDN_CONFIG_POLL_INTERVAL'', SDur cfConfigPollInterval_update),
      (''CDN_TRACING'', SBool cfTracingEnabled_update),
      (''CDN_TRACING_ENDPOINT'', SStr cfTracingEndpoint_update),
      (''CDN_TRACING_SAMPLE_RATE'', SFloat cfTracingSampleRate_update),
      (''CDN_TRACING_INSECURE'', SBool cfTracingInsecure_update),
      (''CDN_PREDICTOR'', SBool cfPredictorEnabled_update),
      (''CDN_PREDICTOR_CAPACITY'', SInt cfPredictorCapacity_update),
      (''CDN_PREDICTOR_DECAY'', SDur cfPredictorDecay_update)]"

section \<open>Command-line flags\<close>

datatype cfgErr =
    ErrFlag string
  | ErrOriginRequired
  | ErrOriginInvalid
  | ErrOriginScheme string
  | ErrOriginHost
  | ErrAutoDomain
  | ErrCertKey
  | ErrMaxItems
  | ErrOriginTimeout
  | ErrCoalesceTimeout
  | ErrRPS
  | ErrBurst
  | ErrLogLevel string

record cfgEnv =
  ceGetenv :: "string \<Rightarrow> string"
  ceParseFloat :: "string \<Rightarrow> goFloat option"
  ceParseDuration :: "string \<Rightarrow> duration option"
  ceParseInt0 :: "string \<Rightarrow> int option"
  ceURL :: "string \<Rightarrow> (string \<times> string) option"

definition strconv_ParseBool :: "string \<Rightarrow> bool option" where
  "strconv_ParseBool s =
     (if s \<in> set [''1'', ''t'', ''T'', ''true'', ''TRUE'', ''True''] then Some True
      else if s \<in> set [''0'', ''f'', ''F'', ''false'', ''FALSE'', ''False''] then Some False
      else None)"

fun flag_Set :: "cfgEnv \<Rightarrow> setting \<Rightarrow> string \<Rightarrow> Config \<Rightarrow> Config option" where
  "flag_Set ev (SStr upd) v c = Some (upd (\<lambda>_. v) c)"
| "flag_Set ev (SBool upd) v c = map_option (\<lambda>b. upd (\<lambda>_. b) c) (strconv_ParseBool v)"
| "flag_Set ev (SInt upd) v c = map_option (\<lambda>n. upd (\<lambda>_. n) c) (ceParseInt0 ev v)"
| "flag_Set ev (SFloat upd) v c = map_option (\<lambda>f. upd (\<lambda>_. f) c) (ceParseFloat ev v)"
| "flag_Set ev (SDur upd) v c = map_option (\<lambda>d. upd (\<lambda>_. d) c) (ceParseDuration ev v)"

fun is_bool_flag :: "setting \<Rightarrow> bool" where
  "is_bool_flag (SBool upd) = True"
| "is_bool_flag _ = False"

text \<open>\<open>FlagSet.parseOne\<close>: the name and, after \<open>=\<close>, the value of one argument.\<close>

definition flag_name :: "string \<Rightarrow> (string \<times> string option) option" where
  "flag_name s =
     (let name = (if strings_HasPrefix s ''--'' then drop 2 s else drop 1 s)
      in if name = [] \<or> hd name = CHR ''-'' \<or> hd name = CHR ''='' then None
         else case strings_IndexByte (tl name) (CHR ''='') of
                None \<Rightarrow> Some (name, None)
              | Some i \<Rightarrow> Some (take (Suc i) name, Some (drop (i + 2) name)))"

fun flag_Parse :: "cfgEnv \<Rightarrow> string list \<Rightarrow> Config \<Rightarrow> cfgErr + Config" where
  "flag_Parse ev [] c = Inr c"
| "flag_Parse ev (s # args) c =
     (if length s < 2 \<or> hd s \<noteq> CHR ''-'' \<or> s = ''--'' then Inr c
      else case flag_name s of
             None \<Rightarrow> Inl (ErrFlag s)
           | Some (name, value) \<Rightarrow>
               (case map_of flag_table name of
                  None \<Rightarrow> Inl (ErrFlag name)
                | Some st \<Rightarrow>
                    if is_bool_flag st then
                      (case flag_Set ev st (case value of None \<Rightarrow> ''true'' | Some v \<Rightarrow> v) c of
                         None \<Rightarrow> Inl (ErrFlag name) | Some c \<Rightarrow> flag_Parse ev args c)
                    else
                      (case value of
                         Some v \<Rightarrow>
                           (case flag_Set ev st v c of None \<Rightarrow> Inl (ErrFlag name) | Some c \<Rightarrow> flag_Parse ev args c)
                       | None \<Rightarrow>
                           (case args of
                              [] \<Rightarrow> Inl (ErrFlag name)
                            | v # args' \<Rightarrow>
                                (case flag_Set ev st v c of None \<Rightarrow> Inl (ErrFlag name) | Some c \<Rightarrow> flag_Parse ev args' c)))))"

section \<open>Environment variables\<close>

definition envStr :: "cfgEnv \<Rightarrow> string \<Rightarrow> string \<Rightarrow> string" where
  "envStr ev key dst = (let v = ceGetenv ev key in if v \<noteq> [] then v else dst)"

definition env_parsed :: "(string \<Rightarrow> 'a option) \<Rightarrow> string \<Rightarrow> 'a \<Rightarrow> 'a" where
  "env_parsed parse v dst = (if v \<noteq> [] then (case parse v of Some x \<Rightarrow> x | None \<Rightarrow> dst) else dst)"

definition envBool :: "cfgEnv \<Rightarrow> string \<Rightarrow> bool \<Rightarrow> bool" where
  "envBool ev key dst = env_parsed strconv_ParseBool (ceGetenv ev key) dst"

definition envInt :: "cfgEnv \<Rightarrow> string \<Rightarrow> int \<Rightarrow> int" where
  "envInt ev key dst = env_parsed strconv_Atoi (ceGetenv ev key) dst"

definition envFloat :: "cfgEnv \<Rightarrow> string \<Rightarrow> goFloat \<Rightarrow> goFloat" where
  "envFloat ev key dst = env_parsed (ceParseFloat ev) (ceGetenv ev key) dst"

definition envDur :: "cfgEnv \<Rightarrow> string \<Rightarrow> duration \<Rightarrow> duration" where
  "envDur ev key dst = env_parsed (ceParseDuration ev) (ceGetenv ev key) dst"

fun env_set :: "cfgEnv \<Rightarrow> Config \<Rightarrow> string \<times> setting \<Rightarrow> Config" where
  "env_set ev c (key, SStr upd) = upd (envStr ev key) c"
| "env_set ev c (key, SBool upd) = upd (envBool ev key) c"
| "env_set ev c (key, SInt upd) = upd (envInt ev key) c"
| "env_set ev c (key, SFloat upd) = upd (envFloat ev key) c"
| "env_set ev c (key, SDur upd) = upd (envDur ev key) c"

definition applyEnv :: "cfgEnv \<Rightarrow> Config \<Rightarrow> Config" where
  "applyEnv ev c = foldl (env_set ev) c env_table"

section \<open>Validation\<close>

definition float_neg :: "goFloat \<Rightarrow> bool" where
  "float_neg f = (case f of Finite r \<Rightarrow> r < 0 | NegInf \<Rightarrow> True | _ \<Rightarrow> False)"

definition float_pos :: "goFloat \<Rightarrow> bool" where
  "float_pos f = (case f of Finite r \<Rightarrow> r > 0 | PosInf \<Rightarrow> True | _ \<Rightarrow> False)"

definition check_origin :: "cfgEnv \<Rightarrow> Config \<Rightarrow> cfgErr + Config" where
  "check_origin ev c =
     (let c = (if cfControlPlaneURL c \<noteq> [] \<and> cfOriginURL c = [] then c\<lparr>cfOriginURL := ''http://localhost''\<rparr> else c)
      in if cfOriginURL c = [] then Inl ErrOriginRequired
         else case ceURL ev (cfOriginURL c) of
                None \<Rightarrow> Inl ErrOriginInvalid
              | Some (scheme, host) \<Rightarrow>
                  if scheme \<noteq> ''http'' \<and> scheme \<noteq> ''https'' then Inl (ErrOriginScheme scheme)
                  else if host = [] then Inl ErrOriginHost
                  else Inr (c\<lparr>cfOriginURL := strings_TrimRight (cfOriginURL c) (CHR ''/'')\<rparr>))"

definition check_limits :: "Config \<Rightarrow> cfgErr option" where
  "check_limits c =
     (if cfTLSEnabled c \<and> cfTLSAuto c \<and> cfTLSAutoDomain c = [] then Some ErrAutoDomain
      else if cfTLSEnabled c \<and> \<not> cfTLSAuto c \<and> (cfTLSCertFile c = [] \<or> cfTLSKeyFile c = []) then Some ErrCertKey
      else if cfMaxCacheItems c \<le> 0 then Some ErrMaxItems
      else if cfOriginTimeout c \<le> 0 then Some ErrOriginTimeout
      else if cfCoalesceTimeout c \<le> 0 then Some ErrCoalesceTimeout
      else if float_neg (cfRateLimitRPS c) then Some ErrRPS
      else if cfRateLimitBurst c \<le> 0 \<and> float_pos (cfRateLimitRPS c) then Some ErrBurst
      else if cfLogLevel c \<notin> set [''debug'', ''info'', ''error''] then Some (ErrLogLevel (cfLogLevel c))
      else None)"

definition validate :: "cfgEnv \<Rightarrow> Config \<Rightarrow> cfgErr + Config" where
  "validate ev c =
     (case check_origin ev c of
        Inl e \<Rightarrow> Inl e
      | Inr c \<Rightarrow> (case check_limits c of Some e \<Rightarrow> Inl e | None \<Rightarrow> Inr c))"

definition config_Load :: "cfgEnv \<Rightarrow> string list \<Rightarrow> cfgErr + Config" where
  "config_Load ev args =
     (case flag_Parse ev args default_config of
        Inl e \<Rightarrow> Inl e
      | Inr c \<Rightarrow> validate ev (applyEnv ev c))"

section \<open>What is loaded\<close>

text \<open>The overlay as one record: every field is the variable's value where that is set and well formed.\<close>

definition env_config :: "cfgEnv \<Rightarrow> Config \<Rightarrow> Config" where
  "env_config ev c =
     \<lparr>cfListenAddr = envStr ev ''CDN_LISTEN'' (cfListenAddr c),
      cfOriginURL = envStr ev ''CDN_ORIGIN'' (cfOriginURL c),
      cfOriginHostOverride = envStr ev ''CDN_ORIGIN_HOST'' (cfOriginHostOverride c),
      cfDefaultTTL = envDur ev ''CDN_DEFAULT_TTL'' (cfDefaultTTL c),
      cfMaxCacheItems = envInt ev ''CDN_MAX_CACHE_ITEMS'' (cfMaxCacheItems c),
      cfDiskCacheDir = envStr ev ''CDN_DISK_CACHE_DIR'' (cfDiskCacheDir c),
      cfDiskCacheMaxMB = envInt ev ''CDN_DISK_CACHE_MAX_MB'' (cfDiskCacheMaxMB c),
      cfOriginTimeout = envDur ev ''CDN_ORIGIN_TIMEOUT'' (cfOriginTimeout c),
      cfTLSEnabled = envBool ev ''CDN_TLS'' (cfTLSEnabled c),
      cfTLSCertFile = envStr ev ''CDN_TLS_CERT'' (cfTLSCertFile c),
      cfTLSKeyFile = envStr ev ''CDN_TLS_KEY'' (cfTLSKeyFile c),
      cfTLSAuto = envBool ev ''CDN_TLS_AUTO'' (cfTLSAuto c),
      cfTLSAutoDomain = envStr ev ''CDN_TLS_AUTO_DOMAIN'' (cfTLSAutoDomain c),
      cfHTTPSRedirect = envBool ev ''CDN_HTTPS_REDIRECT'' (cfHTTPSRedirect c),
      cfCompressionEnabled = envBool ev ''CDN_COMPRESS'' (cfCompressionEnabled c),
      cfAdminAddr = envStr ev ''CDN_ADMIN_LISTEN'' (cfAdminAddr c),
      cfAdminAPIKey = envStr ev ''CDN_ADMIN_API_KEY'' (cfAdminAPIKey c),
      cfRateLimitRPS = envFloat ev ''CDN_RATE_LIMIT_RPS'' (cfRateLimitRPS c),
      cfRateLimitBurst = envInt ev ''CDN_RATE_LIMIT_BURST'' (cfRateLimitBurst c),
      cfMaxCacheEntryBytes = envInt ev ''CDN_MAX_CACHE_ENTRY_BYTES'' (cfMaxCacheEntryBytes c),
      cfCoalesceTimeout = envDur ev ''CDN_COALESCE_TIMEOUT'' (cfCoalesceTimeout c),
      cfCORSOrigins = envStr ev ''CDN_CORS_ORIGINS'' (cfCORSOrigins c),
      cfCORSMaxAge = envInt ev ''CDN_CORS_MAX_AGE'' (cfCORSMaxAge c),
      cfLogLevel = envStr ev ''CDN_LOG_LEVEL'' (cfLogLevel c),
      cfMaxIdleConnsPerHost = envInt ev ''CDN_MAX_IDLE_CONNS_PER_HOST'' (cfMaxIdleConnsPerHost c),
      cfDrainDelay = envDur ev ''CDN_DRAIN_DELAY'' (cfDrainDelay c),
      cfMaxCacheKeyLen = envInt ev ''CDN_MAX_CACHE_KEY_LEN'' (cfMaxCacheKeyLen c),
      cfCompressHeaders = envBool ev ''CDN_COMPRESS_HEADERS'' (cfCompressHeaders c),
      cfControlPlaneURL = envStr ev ''CDN_CONTROL_PLANE'' (cfControlPlaneURL c),
      cfConfigPollInterval = envDur ev ''CDN_CONFIG_POLL_INTERVAL'' (cfConfigPollInterval c),
      cfTracingEnabled = envBool ev ''CDN_TRACING'' (cfTracingEnabled c),
      cfTracingEndpoint = envStr ev ''CDN_TRACING_ENDPOINT'' (cfTracingEndpoint c),
      cfTracingSampleRate = envFloat ev ''CDN_TRACING_SAMPLE_RATE'' (cfTracingSampleRate c),
      cfTracingInsecure = envBool ev ''CDN_TRACING_INSECURE'' (cfTracingInsecure c),
      cfPredictorEnabled = envBool ev ''CDN_PREDICTOR'' (cfPredictorEnabled c),
      cfPredictorCapacity = envInt ev ''CDN_PREDICTOR_CAPACITY'' (cfPredictorCapacity c),
      cfPredictorDecay = envDur ev ''CDN_PREDICTOR_DECAY'' (cfPredictorDecay c)\<rparr>"

lemma applyEnv_eq: "applyEnv ev c = env_config ev c"
  by (cases c) (simp add: applyEnv_def env_table_def env_config_def)

definition effective_origin :: "Config \<Rightarrow> string" where
  "effective_origin c =
     (if cfControlPlaneURL c \<noteq> [] \<and> cfOriginURL c = [] then ''http://localhost'' else cfOriginURL c)"

text \<open>A configuration the server may run with; \<open>u\<close> is the origin before its trailing slashes are cut.\<close>

definition config_ok :: "cfgEnv \<Rightarrow> string \<Rightarrow> Config \<Rightarrow> bool" where
  "config_ok ev u c \<longleftrightarrow>
     (\<exists>scheme host. ceURL ev u = Some (scheme, host) \<and> scheme \<in> {''http'', ''https''} \<and> host \<noteq> []) \<and> u \<noteq> [] \<and>
     (cfTLSEnabled c \<longrightarrow> (if cfTLSAuto c then cfTLSAutoDomain c \<noteq> [] else cfTLSCertFile c \<noteq> [] \<and> cfTLSKeyFile c \<noteq> [])) \<and>
     0 < cfMaxCacheItems c \<and> 0 < cfOriginTimeout c \<and> 0 < cfCoalesceTimeout c \<and>
     \<not> float_neg (cfRateLimitRPS c) \<and> (float_pos (cfRateLimitRPS c) \<longrightarrow> 0 < cfRateLimitBurst c) \<and>
     cfLogLevel c \<in> {''debug'', ''info'', ''error''}"

lemma check_limits_None:
  "check_limits c = None \<longleftrightarrow>
     (cfTLSEnabled c \<longrightarrow> (if cfTLSAuto c then cfTLSAutoDomain c \<noteq> [] else cfTLSCertFile c \<noteq> [] \<and> cfTLSKeyFile c \<noteq> [])) \<and>
     0 < cfMaxCacheItems c \<and> 0 < cfOriginTimeout c \<and> 0 < cfCoalesceTimeout c \<and>
     \<not> float_neg (cfRateLimitRPS c) \<and> (float_pos (cfRateLimitRPS c) \<longrightarrow> 0 < cfRateLimitBurst c) \<and>
     cfLogLevel c \<in> {''debug'', ''info'', ''error''}"
  by (auto simp: check_limits_def)

lemma check_origin_Inr:
  "check_origin ev c = Inr c' \<longleftrightarrow>
     (\<exists>scheme host. ceURL ev (effective_origin c) = Some (scheme, host) \<and> scheme \<in> {''http'', ''https''} \<and> host \<noteq> []) \<and>
     effective_origin c \<noteq> [] \<and> c' = c\<lparr>cfOriginURL := strings_TrimRight (effective_origin c) (CHR ''/'')\<rparr>"
  by (auto simp: check_origin_def effective_origin_def Let_def split: option.splits)

lemma validate_Inr:
  "validate ev c = Inr c' \<longleftrightarrow>
     c' = c\<lparr>cfOriginURL := strings_TrimRight (effective_origin c) (CHR ''/'')\<rparr> \<and> config_ok ev (effective_origin c) c'"
proof -
  have "validate ev c = Inr c' \<longleftrightarrow> check_origin ev c = Inr c' \<and> check_limits c' = None"
    by (auto simp: validate_def split: sum.splits option.splits)
  then show ?thesis unfolding check_origin_Inr check_limits_None config_ok_def by blast
qed

text \<open>
  C30. What Load accepts, and with which values. It returns a configuration exactly when the
  flags parse and the result is well formed (an HTTP origin with a host, certificates or a domain
  for TLS, positive sizes and timeouts, a burst for a rate, a known log level); then every field is the
  environment variable's value where that is set and well formed, else the flag's, else the
  default, and the origin has lost its trailing slashes.
\<close>

theorem config_load_iff:
  "config_Load ev args = Inr c \<longleftrightarrow>
     (\<exists>f. flag_Parse ev args default_config = Inr f \<and>
        (let e = env_config ev f
         in c = e\<lparr>cfOriginURL := strings_TrimRight (effective_origin e) (CHR ''/'')\<rparr> \<and> config_ok ev (effective_origin e) c))"
  by (auto simp: config_Load_def applyEnv_eq validate_Inr Let_def split: sum.splits)

section \<open>What validation lets through\<close>

text \<open>
  The interval of the configuration poller is not checked: zero is accepted, and the ticker made of it
  panics. A rate limit that is not a number is accepted too.
\<close>

definition demo_cfgEnv :: cfgEnv where
  "demo_cfgEnv = \<lparr>ceGetenv = (\<lambda>_. []), ceParseFloat = (\<lambda>s. if s = ''NaN'' then Some NaN else None),
     ceParseDuration = (\<lambda>s. if s = ''0s'' then Some 0 else None), ceParseInt0 = strconv_Atoi,
     ceURL = (\<lambda>s. Some (''http'', ''o''))\<rparr>"

lemma config_accepts_zero_interval:
  "map_sum id (\<lambda>c. (cfOriginURL c, cfConfigPollInterval c, cfRateLimitRPS c))
     (config_Load demo_cfgEnv [''-control-plane=http://c'', ''--config-poll-interval'', ''0s'', ''-rate-limit-rps'', ''NaN'']) =
   Inr (''http://localhost'', 0, NaN)"
  by code_simp

end
