(* ===== verification/Tracing.thy ===== *)
theory Tracing
  imports GoWriter EdgeConfig
begin

text \<open>
  \<open>tracing/tracing.go\<close>: one span per request. Spans, the exporter and the propagation of trace contexts are OpenTelemetry's;
  modelled is what the code puts into a span, and its wrapper of the response writer. Whether building the exporter and the resource
  succeeds is an argument.
\<close>

section \<open>Configuration\<close>

record tracingConfig =
  tgEnabled :: bool
  tgEndpoint :: string
  tgSampleRate :: goFloat
  tgInsecure :: bool

text \<open>Comparisons of the source on a float64; NaN compares false.\<close>

definition rate_le_zero :: "goFloat \<Rightarrow> bool" where
  "rate_le_zero x = (case x of Finite q \<Rightarrow> q \<le> 0 | NegInf \<Rightarrow> True | _ \<Rightarrow> False)"

definition rate_above_one :: "goFloat \<Rightarrow> bool" where
  "rate_above_one x = (case x of Finite q \<Rightarrow> q > 1 | PosInf \<Rightarrow> True | _ \<Rightarrow> False)"

definition tracing_defaults :: "tracingConfig \<Rightarrow> tracingConfig" where
  "tracing_defaults c =
     (let c = (if tgEndpoint c = [] then c\<lparr>tgEndpoint := ''localhost:4317''\<rparr> else c);
          c = (if rate_le_zero (tgSampleRate c) then c\<lparr>tgSampleRate := Finite 1\<rparr> else c)
      in if rate_above_one (tgSampleRate c) then c\<lparr>tgSampleRate := Finite 1\<rparr> else c)"

datatype tracingErr = ErrExporter string | ErrResource string

text \<open>The provider that is installed: the noop one, or one with an endpoint, a sampling ratio and the choice of TLS.\<close>

datatype provider = NoopProvider | OtlpProvider string goFloat bool

definition tracing_Init :: "string option \<Rightarrow> string option \<Rightarrow> tracingConfig \<Rightarrow> tracingErr + provider" where
  "tracing_Init exporterErr resourceErr cfg =
     (if \<not> tgEnabled cfg then Inr NoopProvider
      else let cfg = tracing_defaults cfg
           in case exporterErr of
                Some e \<Rightarrow> Inl (ErrExporter e)
              | None \<Rightarrow> (case resourceErr of
                           Some e \<Rightarrow> Inl (ErrResource e)
                         | None \<Rightarrow> Inr (OtlpProvider (tgEndpoint cfg) (tgSampleRate cfg) (tgInsecure cfg))))"

section \<open>The middleware\<close>

record traceSpan =
  spName :: string
  spMethod :: string
  spTarget :: string
  spHost :: string
  spURL :: string
  spStatusCode :: int
  spCacheStatus :: "string option"
  spError :: "string option"
  spEvents :: "string list"

record traceRW =
  twResponseWriter :: respw
  twStatusCode :: int
  twWroteHeader :: bool

fun trw_call :: "traceRW \<Rightarrow> call \<Rightarrow> traceRW" where
  "trw_call rw (CWriteHeader code) =
     (let rw = (if twWroteHeader rw then rw else rw\<lparr>twStatusCode := code, twWroteHeader := True\<rparr>)
      in rw\<lparr>twResponseWriter := w_WriteHeader (twResponseWriter rw) code\<rparr>)"
| "trw_call rw (CWrite b) =
     (let rw = (if twWroteHeader rw then rw else rw\<lparr>twWroteHeader := True\<rparr>)
      in rw\<lparr>twResponseWriter := snd (net_Write (twResponseWriter rw) b)\<rparr>)"
| "trw_call rw c = rw\<lparr>twResponseWriter := do_call (twResponseWriter rw) c\<rparr>"

text \<open>
  The span of a request, given the calls of the next handler and the cache events it adds. \<open>url\<close> is \<open>r.URL.String()\<close>.
\<close>

definition AddCacheEvent :: "traceSpan \<Rightarrow> string \<Rightarrow> traceSpan" where
  "AddCacheEvent sp cacheStatus = sp\<lparr>spEvents := spEvents sp @ [cacheStatus]\<rparr>"

definition tracing_Middleware :: "string \<Rightarrow> call list \<Rightarrow> string list \<Rightarrow> respw \<Rightarrow> request \<Rightarrow> respw \<times> traceSpan" where
  "tracing_Middleware url next_calls events w r =
     (let sp = \<lparr>spName = reqMethod r @ '' '' @ reqPath r, spMethod = reqMethod r, spTarget = reqURI r, spHost = reqHost r, spURL = url,
                spStatusCode = 0, spCacheStatus = None, spError = None, spEvents = []\<rparr>;
          rw = foldl trw_call \<lparr>twResponseWriter = w, twStatusCode = 200, twWroteHeader = False\<rparr> next_calls;
          sp = foldl AddCacheEvent sp events;
          sp = sp\<lparr>spStatusCode := twStatusCode rw\<rparr>;
          cacheStatus = header_Get (rwHeader (twResponseWriter rw)) ''X-Cache'';
          sp = (if cacheStatus \<noteq> [] then sp\<lparr>spCacheStatus := Some cacheStatus\<rparr> else sp);
          sp = (if twStatusCode rw \<ge> 500 then sp\<lparr>spError := Some (''HTTP '' @ strconv_Itoa (twStatusCode rw))\<rparr> else sp)
      in (twResponseWriter rw, sp))"

definition trw_tracks :: "traceRW \<Rightarrow> bool" where
  "trw_tracks rw \<longleftrightarrow> (twWroteHeader rw \<longleftrightarrow> rwSent (twResponseWriter rw) \<noteq> None) \<and> twStatusCode rw = rw_status (twResponseWriter rw)"

lemma trw_call_inner: "twResponseWriter (trw_call rw c) = do_call (twResponseWriter rw) c"
  by (cases c) (simp_all add: Let_def)

lemma trw_tracks_call: "trw_tracks rw \<Longrightarrow> trw_tracks (trw_call rw c)"
  by (cases c) (auto simp: trw_tracks_def Let_def rw_status_def w_Del_def net_Write_def w_WriteHeader_def split: option.splits)

interpretation trw: status_recorder twResponseWriter trw_call twStatusCode trw_tracks
  by unfold_locales (auto simp: trw_call_inner trw_tracks_call, simp add: trw_tracks_def)

text \<open>The span carries the status that was sent, an error exactly for the 5xx statuses, and the response passes unchanged.\<close>

lemma span_events: "foldl AddCacheEvent sp es = sp\<lparr>spEvents := spEvents sp @ es\<rparr>"
  by (induction es arbitrary: sp) (simp_all add: AddCacheEvent_def)

lemma span_exact:
  assumes "rwSent w = None"
  shows "fst (tracing_Middleware url cs events w r) = run_calls w cs"
    and "spStatusCode (snd (tracing_Middleware url cs events w r)) = rw_status (run_calls w cs)"
    and "spError (snd (tracing_Middleware url cs events w r)) \<noteq> None \<longleftrightarrow> rw_status (run_calls w cs) \<ge> 500"
    and "spEvents (snd (tracing_Middleware url cs events w r)) = events"
proof -
  let ?s = "\<lparr>twResponseWriter = w, twStatusCode = 200, twWroteHeader = False\<rparr>"
  have "trw_tracks ?s" using assms by (simp add: trw_tracks_def rw_status_def)
  from trw.run_status [OF this] have st: "twStatusCode (foldl trw_call ?s cs) = rw_status (run_calls w cs)" by simp
  have inner: "twResponseWriter (foldl trw_call ?s cs) = run_calls w cs" using trw.run_inner [of ?s cs] by simp
  show "fst (tracing_Middleware url cs events w r) = run_calls w cs"
    and "spStatusCode (snd (tracing_Middleware url cs events w r)) = rw_status (run_calls w cs)"
    and "spError (snd (tracing_Middleware url cs events w r)) \<noteq> None \<longleftrightarrow> rw_status (run_calls w cs) \<ge> 500"
    and "spEvents (snd (tracing_Middleware url cs events w r)) = events"
    by (simp_all add: tracing_Middleware_def Let_def st inner span_events)
qed

text \<open>A sampling rate of 0, the lower end of the documented range, samples everything; a rate that is not a number passes.\<close>

lemma zero_rate_samples_all:
  "tgSampleRate (tracing_defaults (c\<lparr>tgSampleRate := Finite 0\<rparr>)) = Finite 1"
  "tgSampleRate (tracing_defaults (c\<lparr>tgSampleRate := NaN\<rparr>)) = NaN"
  by (simp_all add: tracing_defaults_def rate_le_zero_def rate_above_one_def Let_def)

end
