(* ===== verification/Handshake.thy ===== *)
theory Handshake
  imports GoBase "HOL-Library.Multiset"
begin

text \<open>
  \<open>handshake/offload.go\<close>: the listener that accepts connections and performs TLS handshakes on a pool of
  goroutines. The goroutines (the accept loop, the workers, the one that drains after \<open>Close\<close>) and the callers of
  \<open>Accept\<close> and \<open>Close\<close> interleave freely: \<open>hs_step\<close> is one step of one of them, down to the single select, channel
  operation or atomic addition. A connection is a number; what \<open>tls.Server\<close> returns for it is identified with it. The
  network decides which connections arrive, which handshakes fail and when \<open>Accept\<close> of the inner listener fails.
\<close>

type_synonym conn = nat

record hsConfig =
  hcWorkers :: int
  hcQueueSize :: int
  hcHandshakeTimeout :: duration

datatype acceptResult = AConn conn | AErr

text \<open>Where the accept loop stands.\<close>

datatype loopPc = LTop | LAccept | LErr bool | LForward | LHave conn | LQueued | LExit | LDone

text \<open>Where a worker stands.\<close>

datatype workPc = WIdle | WGot conn | WShake conn | WSend conn | WExit

text \<open>The goroutine that \<open>Close\<close> starts.\<close>

datatype drainPc = DNone | DWait | DDrain | DDone

record OffloadListener =
  hsTls :: bool
  hsCfg :: hsConfig
  hsInbox :: "conn list"
  hsInboxClosed :: bool
  hsOutbox :: "acceptResult list"
  hsOutboxClosed :: bool
  hsClosed :: bool
  hsQueued :: int
  hsCompleted :: int
  hsFailed :: int
  hsLoop :: loopPc
  hsWorkers :: "workPc list"
  hsDrain :: drainPc
  hsPanic :: bool
  hsSeen :: "conn list"
  hsDelivered :: "conn list"
  hsShut :: "conn list"

section \<open>Construction and statistics\<close>

definition hs_defaults :: "int \<Rightarrow> hsConfig \<Rightarrow> hsConfig" where
  "hs_defaults numCPU cfg =
     \<lparr>hcWorkers = (if hcWorkers cfg \<le> 0 then (if numCPU * 2 < 2 then 2 else numCPU * 2) else hcWorkers cfg),
      hcQueueSize = (if hcQueueSize cfg \<le> 0 then 1024 else hcQueueSize cfg),
      hcHandshakeTimeout = (if hcHandshakeTimeout cfg \<le> 0 then 10 * second else hcHandshakeTimeout cfg)\<rparr>"

definition NewOffloadListener :: "int \<Rightarrow> bool \<Rightarrow> hsConfig \<Rightarrow> OffloadListener" where
  "NewOffloadListener numCPU tlsOn cfg =
     (let cfg = hs_defaults numCPU cfg
      in \<lparr>hsTls = tlsOn, hsCfg = cfg, hsInbox = [], hsInboxClosed = False, hsOutbox = [], hsOutboxClosed = False, hsClosed = False,
          hsQueued = 0, hsCompleted = 0, hsFailed = 0, hsLoop = LTop, hsWorkers = replicate (nat (hcWorkers cfg)) WIdle, hsDrain = DNone,
          hsPanic = False, hsSeen = [], hsDelivered = [], hsShut = []\<rparr>)"

definition hs_Stats :: "OffloadListener \<Rightarrow> int \<times> int \<times> int" where
  "hs_Stats l = (hsQueued l, hsCompleted l, hsFailed l)"

section \<open>The steps\<close>

text \<open>Whether a send on a channel of the configured capacity can proceed. A send on a closed channel panics.\<close>

definition inbox_room :: "OffloadListener \<Rightarrow> bool" where
  "inbox_room l = (int (length (hsInbox l)) < hcQueueSize (hsCfg l))"

definition outbox_room :: "OffloadListener \<Rightarrow> bool" where
  "outbox_room l = (int (length (hsOutbox l)) < hcQueueSize (hsCfg l))"

definition send_inbox :: "OffloadListener \<Rightarrow> conn \<Rightarrow> OffloadListener" where
  "send_inbox l c = (if hsInboxClosed l then l\<lparr>hsPanic := True\<rparr> else l\<lparr>hsInbox := hsInbox l @ [c]\<rparr>)"

definition send_outbox :: "OffloadListener \<Rightarrow> acceptResult \<Rightarrow> OffloadListener" where
  "send_outbox l r = (if hsOutboxClosed l then l\<lparr>hsPanic := True\<rparr> else l\<lparr>hsOutbox := hsOutbox l @ [r]\<rparr>)"

definition close_inbox :: "OffloadListener \<Rightarrow> OffloadListener" where
  "close_inbox l = (if hsInboxClosed l then l\<lparr>hsPanic := True\<rparr> else l\<lparr>hsInboxClosed := True\<rparr>)"

definition close_outbox :: "OffloadListener \<Rightarrow> OffloadListener" where
  "close_outbox l = (if hsOutboxClosed l then l\<lparr>hsPanic := True\<rparr> else l\<lparr>hsOutboxClosed := True\<rparr>)"

definition shut :: "OffloadListener \<Rightarrow> conn \<Rightarrow> OffloadListener" where
  "shut l c = l\<lparr>hsShut := hsShut l @ [c]\<rparr>"

definition set_worker :: "OffloadListener \<Rightarrow> nat \<Rightarrow> workPc \<Rightarrow> OffloadListener" where
  "set_worker l i pc = l\<lparr>hsWorkers := (hsWorkers l)[i := pc]\<rparr>"

text \<open>
  \<open>handshake\<close>: the two deadlines and the handshake itself may fail, with \<open>deadline\<close>, \<open>shake\<close> and \<open>clear\<close> saying whether
  they do. Without a TLS configuration the connection passes.
\<close>

definition handshake :: "bool \<Rightarrow> bool \<Rightarrow> bool \<Rightarrow> bool \<Rightarrow> conn \<Rightarrow> conn option" where
  "handshake tlsOn deadline shake clear raw =
     (if \<not> tlsOn then Some raw else if deadline then None else if shake then None else if clear then None else Some raw)"

definition hs_fail :: "OffloadListener \<Rightarrow> OffloadListener" where
  "hs_fail l = l\<lparr>hsFailed := wrap64 (hsFailed l + 1)\<rparr>"

definition hs_queued :: "OffloadListener \<Rightarrow> int \<Rightarrow> OffloadListener" where
  "hs_queued l d = l\<lparr>hsQueued := wrap64 (hsQueued l + d)\<rparr>"

definition goto :: "OffloadListener \<Rightarrow> loopPc \<Rightarrow> OffloadListener" where
  "goto l pc = l\<lparr>hsLoop := pc\<rparr>"

inductive loop_step :: "OffloadListener \<Rightarrow> OffloadListener \<Rightarrow> bool" where
  top_closed: "hsLoop l = LTop \<Longrightarrow> hsClosed l \<Longrightarrow> loop_step l (goto l LExit)"
| top_open: "hsLoop l = LTop \<Longrightarrow> \<not> hsClosed l \<Longrightarrow> loop_step l (goto l LAccept)"
| accepted: "hsLoop l = LAccept \<Longrightarrow> c \<notin> set (hsSeen l) \<Longrightarrow> loop_step l (goto (l\<lparr>hsSeen := hsSeen l @ [c]\<rparr>) (LHave c))"
| accept_err: "hsLoop l = LAccept \<Longrightarrow> loop_step l (goto l (LErr timeout))"
| err_closed: "hsLoop l = LErr timeout \<Longrightarrow> hsClosed l \<Longrightarrow> loop_step l (goto l LExit)"
| err_retry: "hsLoop l = LErr True \<Longrightarrow> \<not> hsClosed l \<Longrightarrow> loop_step l (goto l LTop)"
| err_fatal: "hsLoop l = LErr False \<Longrightarrow> \<not> hsClosed l \<Longrightarrow> loop_step l (goto l LForward)"
| forward: "hsLoop l = LForward \<Longrightarrow> outbox_room l \<Longrightarrow> loop_step l (goto (send_outbox l AErr) LExit)"
| forward_closed: "hsLoop l = LForward \<Longrightarrow> hsClosed l \<Longrightarrow> loop_step l (goto l LExit)"
| enqueue: "hsLoop l = LHave c \<Longrightarrow> inbox_room l \<Longrightarrow> loop_step l (goto (send_inbox l c) LQueued)"
| queued: "hsLoop l = LQueued \<Longrightarrow> loop_step l (goto (hs_queued l 1) LTop)"
| have_closed: "hsLoop l = LHave c \<Longrightarrow> hsClosed l \<Longrightarrow> loop_step l (goto (shut l c) LExit)"
| dropped: "hsLoop l = LHave c \<Longrightarrow> \<not> inbox_room l \<Longrightarrow> \<not> hsClosed l \<Longrightarrow> loop_step l (goto (shut (hs_fail l) c) LTop)"
| loop_exit: "hsLoop l = LExit \<Longrightarrow> loop_step l (goto (close_inbox l) LDone)"

inductive worker_step :: "OffloadListener \<Rightarrow> nat \<Rightarrow> OffloadListener \<Rightarrow> bool" where
  receive: "hsWorkers l ! i = WIdle \<Longrightarrow> hsInbox l = c # rest \<Longrightarrow> worker_step l i (set_worker (l\<lparr>hsInbox := rest\<rparr>) i (WGot c))"
| range_end: "hsWorkers l ! i = WIdle \<Longrightarrow> hsInbox l = [] \<Longrightarrow> hsInboxClosed l \<Longrightarrow> worker_step l i (set_worker l i WExit)"
| unqueued: "hsWorkers l ! i = WGot c \<Longrightarrow> worker_step l i (set_worker (hs_queued l (- 1)) i (WShake c))"
| shake_failed: "hsWorkers l ! i = WShake c \<Longrightarrow> handshake (hsTls l) deadline shake clear c = None
    \<Longrightarrow> worker_step l i (set_worker (shut (hs_fail l) c) i WIdle)"
| shake_done: "hsWorkers l ! i = WShake c \<Longrightarrow> handshake (hsTls l) deadline shake clear c = Some c'
    \<Longrightarrow> worker_step l i (set_worker (l\<lparr>hsCompleted := wrap64 (hsCompleted l + 1)\<rparr>) i (WSend c'))"
| send: "hsWorkers l ! i = WSend c \<Longrightarrow> outbox_room l \<Longrightarrow> worker_step l i (set_worker (send_outbox l (AConn c)) i WIdle)"
| send_closed: "hsWorkers l ! i = WSend c \<Longrightarrow> hsClosed l \<Longrightarrow> worker_step l i (set_worker (shut l c) i WExit)"

text \<open>\<open>Close\<close>: the first call only.\<close>

definition hs_Close :: "OffloadListener \<Rightarrow> OffloadListener" where
  "hs_Close l = (if hsClosed l then l else l\<lparr>hsClosed := True, hsDrain := DWait\<rparr>)"

definition finished :: "OffloadListener \<Rightarrow> bool" where
  "finished l = (hsLoop l = LDone \<and> list_all (\<lambda>pc. pc = WExit) (hsWorkers l))"

inductive drain_step :: "OffloadListener \<Rightarrow> OffloadListener \<Rightarrow> bool" where
  waited: "hsDrain l = DWait \<Longrightarrow> finished l \<Longrightarrow> drain_step l ((close_outbox l)\<lparr>hsDrain := DDrain\<rparr>)"
| drain_conn: "hsDrain l = DDrain \<Longrightarrow> hsOutbox l = AConn c # rest \<Longrightarrow> drain_step l (shut (l\<lparr>hsOutbox := rest\<rparr>) c)"
| drain_err: "hsDrain l = DDrain \<Longrightarrow> hsOutbox l = AErr # rest \<Longrightarrow> drain_step l (l\<lparr>hsOutbox := rest\<rparr>)"
| drained: "hsDrain l = DDrain \<Longrightarrow> hsOutbox l = [] \<Longrightarrow> drain_step l (l\<lparr>hsDrain := DDone\<rparr>)"

text \<open>
  \<open>Accept\<close>: a result of the outbox; the call that only reports that the listener is closed changes nothing and is
  no step.
\<close>

inductive hs_Accept :: "OffloadListener \<Rightarrow> OffloadListener \<Rightarrow> bool" where
  accept_conn: "hsOutbox l = AConn c # rest \<Longrightarrow> hs_Accept l (l\<lparr>hsOutbox := rest, hsDelivered := hsDelivered l @ [c]\<rparr>)"
| accept_error: "hsOutbox l = AErr # rest \<Longrightarrow> hs_Accept l (l\<lparr>hsOutbox := rest\<rparr>)"

inductive hs_step :: "OffloadListener \<Rightarrow> OffloadListener \<Rightarrow> bool" where
  by_loop: "loop_step l l' \<Longrightarrow> hs_step l l'"
| by_worker: "i < length (hsWorkers l) \<Longrightarrow> worker_step l i l' \<Longrightarrow> hs_step l l'"
| by_drain: "drain_step l l' \<Longrightarrow> hs_step l l'"
| by_accept: "hs_Accept l l' \<Longrightarrow> hs_step l l'"
| by_close: "\<not> hsClosed l \<Longrightarrow> hs_step l (hs_Close l)"

inductive_cases loop_stepE: "loop_step l l'"
inductive_cases worker_stepE: "worker_step l i l'"
inductive_cases drain_stepE: "drain_step l l'"
inductive_cases acceptE: "hs_Accept l l'"
inductive_cases hs_stepE: "hs_step l l'"

section \<open>Where the connections are\<close>

fun loop_conns :: "loopPc \<Rightarrow> conn multiset" where
  "loop_conns (LHave c) = {#c#}"
| "loop_conns _ = {#}"

fun work_conns :: "workPc \<Rightarrow> conn multiset" where
  "work_conns (WGot c) = {#c#}"
| "work_conns (WShake c) = {#c#}"
| "work_conns (WSend c) = {#c#}"
| "work_conns _ = {#}"

fun result_conns :: "acceptResult \<Rightarrow> conn multiset" where
  "result_conns (AConn c) = {#c#}"
| "result_conns AErr = {#}"

definition inside :: "OffloadListener \<Rightarrow> conn multiset" where
  "inside l = loop_conns (hsLoop l) + mset (hsInbox l) + sum_list (map work_conns (hsWorkers l)) + sum_list (map result_conns (hsOutbox l))"

definition placed :: "OffloadListener \<Rightarrow> bool" where
  "placed l = (distinct (hsSeen l) \<and> mset (hsSeen l) = inside l + mset (hsDelivered l) + mset (hsShut l))"

definition waiting :: "workPc \<Rightarrow> int" where
  "waiting pc = (case pc of WGot c \<Rightarrow> 1 | _ \<Rightarrow> 0)"

text \<open>The queue counter is corrected after the channel operation: by the loop once it has sent, by a worker once it has received.\<close>

definition depth :: "OffloadListener \<Rightarrow> int" where
  "depth l = int (length (hsInbox l)) + sum_list (map waiting (hsWorkers l)) - (if hsLoop l = LQueued then 1 else 0)"

definition bounded_queues :: "OffloadListener \<Rightarrow> bool" where
  "bounded_queues l = (0 < hcQueueSize (hsCfg l) \<and> int (length (hsInbox l)) \<le> hcQueueSize (hsCfg l) \<and> int (length (hsOutbox l)) \<le> hcQueueSize (hsCfg l))"

definition channels_ok :: "OffloadListener \<Rightarrow> bool" where
  "channels_ok l = (\<not> hsPanic l \<and> (hsInboxClosed l \<longleftrightarrow> hsLoop l = LDone) \<and> (hsOutboxClosed l \<longleftrightarrow> hsDrain l \<in> {DDrain, DDone})
     \<and> (hsOutboxClosed l \<longrightarrow> finished l) \<and> (hsClosed l \<longleftrightarrow> hsDrain l \<noteq> DNone))"

lemma sum_list_update:
  fixes f :: "'a \<Rightarrow> 'b :: ab_group_add"
  assumes "i < length xs"
  shows "sum_list (map f (xs[i := x])) = sum_list (map f xs) - f (xs ! i) + f x"
  using assms by (induction xs arbitrary: i) (auto simp: nth_Cons' gr0_conv_Suc algebra_simps split: nat.splits)

lemma sum_list_mset_update:
  fixes f :: "'a \<Rightarrow> 'b multiset"
  assumes "i < length xs"
  shows "sum_list (map f (xs[i := x])) + f (xs ! i) = sum_list (map f xs) + f x"
  using assms
proof (induction xs arbitrary: i)
  case (Cons y ys)
  show ?case
  proof (cases i)
    case (Suc j)
    then have "sum_list (map f (ys[j := x])) + f (ys ! j) = sum_list (map f ys) + f x" using Cons by simp
    then show ?thesis using Suc by (simp add: add.assoc)
  qed (simp add: ac_simps)
qed simp

lemmas hs_updates = goto_def set_worker_def shut_def hs_fail_def hs_queued_def send_inbox_def send_outbox_def
  close_inbox_def close_outbox_def

lemma handshake_same: "handshake t d s c raw = Some raw' \<Longrightarrow> raw' = raw"
  by (auto simp: handshake_def split: if_splits)

lemma worker_live:
  assumes "i < length (hsWorkers l)" "worker_step l i l'" "channels_ok l"
  shows "\<not> hsOutboxClosed l"
proof -
  from assms(2) have "hsWorkers l ! i \<noteq> WExit" by (cases rule: worker_step.cases) simp_all
  with assms(1) have "\<not> finished l" by (auto simp: finished_def list_all_length)
  with assms(3) show ?thesis unfolding channels_ok_def by blast
qed

lemma channels_step: "hs_step l l' \<Longrightarrow> channels_ok l \<Longrightarrow> channels_ok l'"
proof (induction rule: hs_step.induct)
  case (by_loop l l')
  then show ?case by (cases rule: loop_step.cases) (auto simp: channels_ok_def finished_def hs_updates)
next
  case (by_worker i l l')
  then have "\<not> hsOutboxClosed l" by (rule worker_live)
  with by_worker(2,3) show ?case
    by (cases rule: worker_step.cases) (simp_all add: channels_ok_def hs_updates)
next
  case (by_drain l l')
  then show ?case by (cases rule: drain_step.cases) (auto simp: channels_ok_def finished_def hs_updates)
next
  case (by_accept l l')
  then show ?case by (cases rule: hs_Accept.cases) (auto simp: channels_ok_def finished_def)
next
  case (by_close l)
  then show ?case by (auto simp: channels_ok_def finished_def hs_Close_def)
qed

lemma bounded_step: "hs_step l l' \<Longrightarrow> bounded_queues l \<Longrightarrow> bounded_queues l'"
proof (induction rule: hs_step.induct)
  case (by_loop l l')
  then show ?case by (cases rule: loop_step.cases) (auto simp: bounded_queues_def hs_updates inbox_room_def outbox_room_def)
next
  case (by_worker i l l')
  from by_worker(2,3) show ?case by (cases rule: worker_step.cases) (auto simp: bounded_queues_def hs_updates outbox_room_def)
next
  case (by_drain l l')
  then show ?case by (cases rule: drain_step.cases) (auto simp: bounded_queues_def hs_updates)
next
  case (by_accept l l')
  then show ?case by (cases rule: hs_Accept.cases) (auto simp: bounded_queues_def)
next
  case (by_close l)
  then show ?case by (auto simp: bounded_queues_def hs_Close_def)
qed

lemma placed_worker:
  assumes "i < length (hsWorkers l)" "worker_step l i l'" "placed l" "\<not> hsOutboxClosed l"
  shows "placed l'"
proof -
  note upd = sum_list_mset_update [OF assms(1), where f = work_conns]
  from assms(2,3,4) show ?thesis
  proof (cases rule: worker_step.cases)
    case (receive c rest)
    then show ?thesis using assms(3) upd [of "WGot c"] by (simp add: placed_def inside_def hs_updates)
  next
    case range_end
    then show ?thesis using assms(3) upd [of WExit] by (simp add: placed_def inside_def hs_updates)
  next
    case (unqueued c)
    then show ?thesis using assms(3) upd [of "WShake c"] by (simp add: placed_def inside_def hs_updates)
  next
    case (shake_failed c)
    then show ?thesis using assms(3) upd [of WIdle] by (simp add: placed_def inside_def hs_updates flip: upd)
  next
    case (shake_done c d e f c')
    then show ?thesis using assms(3) upd [of "WSend c'"] handshake_same [OF shake_done(3)] by (simp add: placed_def inside_def hs_updates)
  next
    case (send c)
    then show ?thesis using assms(3,4) upd [of WIdle] by (simp add: placed_def inside_def hs_updates)
  next
    case (send_closed c)
    then show ?thesis using assms(3) upd [of WExit] by (simp add: placed_def inside_def hs_updates)
  qed
qed

lemma placed_step: "hs_step l l' \<Longrightarrow> channels_ok l \<Longrightarrow> placed l \<Longrightarrow> placed l'"
proof (induction rule: hs_step.induct)
  case (by_loop l l')
  from by_loop(1) have "hsLoop l \<noteq> LDone" by (cases rule: loop_step.cases) simp_all
  with by_loop(2) have chans: "\<not> hsInboxClosed l" "\<not> hsOutboxClosed l" by (auto simp: channels_ok_def finished_def)
  from by_loop(1,3) chans show ?case by (cases rule: loop_step.cases) (simp_all add: placed_def inside_def hs_updates)
next
  case (by_worker i l l')
  show ?case by (rule placed_worker [OF by_worker(1,2,4) worker_live [OF by_worker(1,2,3)]])
next
  case (by_drain l l')
  then show ?case by (cases rule: drain_step.cases) (auto simp: placed_def inside_def hs_updates)
next
  case (by_accept l l')
  then show ?case by (cases rule: hs_Accept.cases) (auto simp: placed_def inside_def)
next
  case (by_close l)
  then show ?case by (auto simp: placed_def inside_def hs_Close_def)
qed

lemma depth_worker:
  assumes "i < length (hsWorkers l)" "worker_step l i l'" "hsQueued l = wrap64 (depth l)"
  shows "hsQueued l' = wrap64 (depth l')"
proof -
  have upd: "sum_list (map waiting ((hsWorkers l)[i := pc])) = sum_list (map waiting (hsWorkers l)) - waiting (hsWorkers l ! i) + waiting pc" for pc
    using assms(1) by (rule sum_list_update)
  from assms(2) show ?thesis
  proof (cases rule: worker_step.cases)
    case (unqueued c)
    then have "depth l' = depth l - 1" using upd by (simp add: depth_def hs_updates waiting_def)
    then show ?thesis using unqueued assms(3) wrap64_add(1) [of "depth l" "- 1"] by (simp add: hs_updates)
  qed (use assms(3) upd in \<open>simp_all add: depth_def hs_updates waiting_def ac_simps\<close>)
qed

lemma depth_step: "hs_step l l' \<Longrightarrow> channels_ok l \<Longrightarrow> hsQueued l = wrap64 (depth l) \<Longrightarrow> hsQueued l' = wrap64 (depth l')"
proof (induction rule: hs_step.induct)
  case (by_loop l l')
  from by_loop(1) have "hsLoop l \<noteq> LDone" by (cases rule: loop_step.cases) simp_all
  with by_loop(2) have chans: "\<not> hsInboxClosed l" "\<not> hsOutboxClosed l" by (auto simp: channels_ok_def finished_def)
  from by_loop(1) show ?case
  proof (cases rule: loop_step.cases)
    case queued
    then have "depth l' = depth l + 1" by (simp add: depth_def hs_updates)
    then show ?thesis using queued by_loop(3) wrap64_add(1) [of "depth l" 1] by (simp add: hs_updates)
  qed (use by_loop(3) chans in \<open>simp_all add: depth_def hs_updates\<close>)
next
  case (by_worker i l l')
  show ?case by (rule depth_worker [OF by_worker(1,2,4)])
next
  case (by_drain l l')
  from by_drain(1,3) show ?case by (cases rule: drain_step.cases) (simp_all add: depth_def hs_updates)
next
  case (by_accept l l')
  from by_accept(1,3) show ?case by (cases rule: hs_Accept.cases) (simp_all add: depth_def)
next
  case (by_close l)
  then show ?case by (simp add: depth_def hs_Close_def)
qed

text \<open>The listener as a state machine: its states are those that the construction and the interleaved steps reach.\<close>

definition hs_init :: "int \<Rightarrow> bool \<Rightarrow> hsConfig \<Rightarrow> OffloadListener \<Rightarrow> bool" where
  "hs_init numCPU tlsOn cfg l = (l = NewOffloadListener numCPU tlsOn cfg)"

abbreviation hs_reachable :: "int \<Rightarrow> bool \<Rightarrow> hsConfig \<Rightarrow> OffloadListener \<Rightarrow> bool" where
  "hs_reachable numCPU tlsOn cfg \<equiv> reachable (hs_init numCPU tlsOn cfg) hs_step"

definition hs_inv :: "OffloadListener \<Rightarrow> bool" where
  "hs_inv l = (channels_ok l \<and> placed l \<and> bounded_queues l \<and> hsQueued l = wrap64 (depth l))"

lemma hs_inv_new: "hs_inv (NewOffloadListener numCPU tlsOn cfg)"
proof -
  have ws: "sum_list (map work_conns (replicate k WIdle)) = {#}" "sum_list (map waiting (replicate k WIdle)) = 0" for k
    by (induction k) (simp_all add: waiting_def)
  show ?thesis
    by (auto simp: hs_inv_def NewOffloadListener_def Let_def channels_ok_def placed_def inside_def bounded_queues_def depth_def ws hs_defaults_def
        wrap64_def simp del: map_replicate sum_list_replicate)
qed

interpretation offload: invariant_system "hs_init numCPU tlsOn cfg" hs_step hs_inv for numCPU tlsOn cfg
  by unfold_locales
    (auto simp: hs_init_def hs_inv_new, auto simp: hs_inv_def intro: channels_step placed_step bounded_step depth_step)

lemma reachable_run: "reachable init step s \<Longrightarrow> step\<^sup>*\<^sup>* s t \<Longrightarrow> reachable init step t"
  by (rotate_tac, induction rule: rtranclp_induct) (auto intro: reachable.step)

section \<open>After Close\<close>

text \<open>How many steps the goroutines can still make once the listener is closed.\<close>

fun loop_rank :: "loopPc \<Rightarrow> int" where
  "loop_rank LAccept = 10"
| "loop_rank (LHave c) = 9"
| "loop_rank (LErr t) = 5"
| "loop_rank LForward = 4"
| "loop_rank LQueued = 3"
| "loop_rank LTop = 2"
| "loop_rank LExit = 1"
| "loop_rank LDone = 0"

fun work_rank :: "workPc \<Rightarrow> int" where
  "work_rank (WGot c) = 5"
| "work_rank (WShake c) = 4"
| "work_rank (WSend c) = 3"
| "work_rank WIdle = 1"
| "work_rank WExit = 0"

fun drain_rank :: "drainPc \<Rightarrow> int" where
  "drain_rank DNone = 3"
| "drain_rank DWait = 2"
| "drain_rank DDrain = 1"
| "drain_rank DDone = 0"

definition hs_rank :: "OffloadListener \<Rightarrow> int" where
  "hs_rank l = loop_rank (hsLoop l) + 5 * int (length (hsInbox l)) + sum_list (map work_rank (hsWorkers l)) + int (length (hsOutbox l)) + drain_rank (hsDrain l)"

lemma rank_worker:
  assumes "i < length (hsWorkers l)" "worker_step l i l'"
  shows "hs_rank l' < hs_rank l"
proof -
  have upd: "sum_list (map work_rank ((hsWorkers l)[i := pc])) = sum_list (map work_rank (hsWorkers l)) - work_rank (hsWorkers l ! i) + work_rank pc" for pc
    using assms(1) by (rule sum_list_update)
  from assms(2) show ?thesis by (cases rule: worker_step.cases) (simp_all add: hs_rank_def hs_updates upd)
qed

lemma rank_step: "hs_step l l' \<Longrightarrow> hsClosed l \<Longrightarrow> hs_rank l' < hs_rank l \<and> hsClosed l'"
proof (induction rule: hs_step.induct)
  case (by_loop l l')
  then show ?case by (cases rule: loop_step.cases) (simp_all add: hs_rank_def hs_updates)
next
  case (by_worker i l l')
  then have "hs_rank l' < hs_rank l" by (blast intro: rank_worker)
  moreover from by_worker(2,3) have "hsClosed l'" by (cases rule: worker_step.cases) (simp_all add: hs_updates)
  ultimately show ?case ..
next
  case (by_drain l l')
  then show ?case by (cases rule: drain_step.cases) (simp_all add: hs_rank_def hs_updates)
next
  case (by_accept l l')
  then show ?case by (cases rule: hs_Accept.cases) (simp_all add: hs_rank_def)
qed simp

lemma sum_list_bound: "\<forall>x \<in> set xs. f x \<le> (k::int) \<Longrightarrow> sum_list (map f xs) \<le> k * int (length xs)"
  by (induction xs) (auto simp: algebra_simps)

lemma rank_bounds:
  "0 \<le> hs_rank l" "bounded_queues l \<Longrightarrow> hs_rank l \<le> 13 + 6 * hcQueueSize (hsCfg l) + 5 * int (length (hsWorkers l))"
proof -
  have "0 \<le> loop_rank (hsLoop l)" "loop_rank (hsLoop l) \<le> 10" by (cases "hsLoop l"; simp)+
  moreover have "0 \<le> drain_rank (hsDrain l)" "drain_rank (hsDrain l) \<le> 3" by (cases "hsDrain l"; simp)+
  moreover have "0 \<le> work_rank pc" "work_rank pc \<le> 5" for pc by (cases pc; simp)+
  then have "0 \<le> sum_list (map work_rank (hsWorkers l))" "sum_list (map work_rank (hsWorkers l)) \<le> 5 * int (length (hsWorkers l))"
    by (auto intro: sum_list_bound) (rule sum_list_nonneg, auto)
  ultimately show "0 \<le> hs_rank l" "bounded_queues l \<Longrightarrow> hs_rank l \<le> 13 + 6 * hcQueueSize (hsCfg l) + 5 * int (length (hsWorkers l))"
    by (simp_all add: hs_rank_def bounded_queues_def)
qed

lemma rank_run: "(hs_step ^^ n) l l' \<Longrightarrow> hsClosed l \<Longrightarrow> int n + hs_rank l' \<le> hs_rank l"
proof (induction n arbitrary: l')
  case (Suc n)
  then obtain k where k: "(hs_step ^^ n) l k" "hs_step k l'" by auto
  have "hsClosed k" using k(1) Suc.prems(2) by (induction n arbitrary: k) (auto dest: rank_step)
  then show ?case using Suc.IH [OF k(1) Suc.prems(2)] rank_step [OF k(2)] by simp
qed simp

lemma worker_can_step:
  assumes "channels_ok l" "hsLoop l = LDone" "hsClosed l" "hsWorkers l ! i \<noteq> WExit"
  shows "\<exists>l'. worker_step l i l'"
proof (cases "hsWorkers l ! i")
  case WIdle
  then show ?thesis using assms(1,2) by (cases "hsInbox l") (auto simp: channels_ok_def intro: worker_step.intros)
next
  case (WShake c)
  have "handshake (hsTls l) False False False c = Some c" by (simp add: handshake_def)
  with WShake show ?thesis by (blast intro: worker_step.intros)
qed (use assms in \<open>auto intro: worker_step.intros\<close>)

lemma closed_can_step:
  assumes "channels_ok l" "hsClosed l" "\<nexists>l'. hs_step l l'"
  shows "finished l \<and> hsDrain l = DDone \<and> hsOutbox l = []"
proof -
  have "hsLoop l = LDone"
    using assms(2,3) by (cases "hsLoop l") (blast intro: hs_step.intros loop_step.intros)+
  moreover from this have "hsWorkers l ! i = WExit" if "i < length (hsWorkers l)" for i
    using worker_can_step assms that by (blast intro: hs_step.intros)
  ultimately have fin: "finished l" by (simp add: finished_def list_all_length)
  have out: "hsOutbox l = []"
  proof (cases "hsOutbox l")
    case (Cons r rest)
    then show ?thesis using assms(3) by (cases r) (blast intro: hs_step.intros hs_Accept.intros)+
  qed
  have "hsDrain l \<noteq> DNone" using assms(1,2) by (simp add: channels_ok_def)
  then have "hsDrain l = DDone"
    using fin out assms(3) by (cases "hsDrain l") (blast intro: hs_step.intros drain_step.intros)+
  with fin out show ?thesis by simp
qed

section \<open>What the listener promises\<close>


text \<open>
  C29. After \<open>Close\<close> everything ends: whatever the interleaving, no more steps can follow than a bound that depends
  only on the size of the queues and of the pool, and when none is possible any more the accept loop, every worker and the draining
  goroutine have returned and the outbox is empty. Every connection has then been delivered or closed, but for those
  still in the inbox.
\<close>

theorem offload_close_ends:
  assumes "hs_reachable numCPU tlsOn cfg l" and "hsClosed l"
  shows "(\<forall>n l'. (hs_step ^^ n) l l' \<longrightarrow> int n \<le> 13 + 6 * hcQueueSize (hsCfg l) + 5 * int (length (hsWorkers l)))
    \<and> (\<forall>l'. hs_step\<^sup>*\<^sup>* l l' \<and> (\<nexists>l''. hs_step l' l'') \<longrightarrow>
          finished l' \<and> hsDrain l' = DDone \<and> hsOutbox l' = []
          \<and> mset (hsSeen l') = mset (hsInbox l') + mset (hsDelivered l') + mset (hsShut l'))"
proof (intro conjI allI impI)
  fix n l' assume "(hs_step ^^ n) l l'"
  from rank_run [OF this assms(2)] rank_bounds(1) [of l'] rank_bounds(2) [of l] offload.reachable_inv [OF assms(1)]
  show "int n \<le> 13 + 6 * hcQueueSize (hsCfg l) + 5 * int (length (hsWorkers l))" by (simp add: hs_inv_def)
next
  fix l' assume run: "hs_step\<^sup>*\<^sup>* l l' \<and> (\<nexists>l''. hs_step l' l'')"
  then have inv: "channels_ok l'" "placed l'"
    using offload.run_inv [OF offload.reachable_inv [OF assms(1)]] by (auto simp: hs_inv_def)
  from run have "hsClosed l'" using assms(2) by (auto elim: rtranclp_induct dest: rank_step)
  from closed_can_step [OF inv(1) this] run have fin: "finished l'" "hsDrain l' = DDone" "hsOutbox l' = []" by auto
  have "sum_list (map work_conns ws) = {#}" if "list_all (\<lambda>pc. pc = WExit) ws" for ws using that by (induction ws) auto
  then show "finished l'" "hsDrain l' = DDone" "hsOutbox l' = []"
    "mset (hsSeen l') = mset (hsInbox l') + mset (hsDelivered l') + mset (hsShut l')"
    using fin inv(2) by (simp_all add: placed_def inside_def finished_def)
qed

text \<open>A run: two connections arrive, the listener is closed while the only worker holds the first.\<close>

definition leak_state :: "loopPc \<Rightarrow> workPc \<Rightarrow> conn list \<Rightarrow> int \<Rightarrow> int \<Rightarrow> drainPc \<Rightarrow> conn list \<Rightarrow> conn list \<Rightarrow> OffloadListener" where
  "leak_state pc w inbox q n dr seen gone =
     \<lparr>hsTls = False, hsCfg = \<lparr>hcWorkers = 1, hcQueueSize = 1, hcHandshakeTimeout = 10 * second\<rparr>, hsInbox = inbox, hsInboxClosed = (pc = LDone),
      hsOutbox = [], hsOutboxClosed = (dr \<in> {DDrain, DDone}), hsClosed = (dr \<noteq> DNone), hsQueued = q, hsCompleted = n, hsFailed = 0, hsLoop = pc,
      hsWorkers = [w], hsDrain = dr, hsPanic = False, hsSeen = seen, hsDelivered = [], hsShut = gone\<rparr>"

lemmas leak_simps = leak_state_def hs_updates inbox_room_def wrap64_def finished_def hs_Close_def

lemma leak_new:
  "NewOffloadListener 1 False \<lparr>hcWorkers = 1, hcQueueSize = 1, hcHandshakeTimeout = 0\<rparr> = leak_state LTop WIdle [] 0 0 DNone [] []"
  by (simp add: NewOffloadListener_def hs_defaults_def Let_def leak_state_def)

lemma leak_arrivals:
  "hs_step\<^sup>*\<^sup>* (leak_state LTop WIdle [] 0 0 DNone [] []) (leak_state LTop (WSend 1) [2] 1 1 DNone [1, 2] [])"
proof -
  have "hs_step\<^sup>*\<^sup>* (leak_state LTop WIdle [] 0 0 DNone [] []) (leak_state LAccept WIdle [] 0 0 DNone [] [])"
    by (rule r_into_rtranclp, rule by_loop) (use top_open [of "leak_state LTop WIdle [] 0 0 DNone [] []"] in \<open>simp add: leak_simps\<close>)
  also have "hs_step\<^sup>*\<^sup>* \<dots> (leak_state (LHave 1) WIdle [] 0 0 DNone [1] [])"
    by (rule r_into_rtranclp, rule by_loop) (use accepted [of "leak_state LAccept WIdle [] 0 0 DNone [] []" 1] in \<open>simp add: leak_simps\<close>)
  also have "hs_step\<^sup>*\<^sup>* \<dots> (leak_state LQueued WIdle [1] 0 0 DNone [1] [])"
    by (rule r_into_rtranclp, rule by_loop) (use enqueue [of "leak_state (LHave 1) WIdle [] 0 0 DNone [1] []" 1] in \<open>simp add: leak_simps\<close>)
  also have "hs_step\<^sup>*\<^sup>* \<dots> (leak_state LTop WIdle [1] 1 0 DNone [1] [])"
    by (rule r_into_rtranclp, rule by_loop) (use queued [of "leak_state LQueued WIdle [1] 0 0 DNone [1] []"] in \<open>simp add: leak_simps\<close>)
  also have "hs_step\<^sup>*\<^sup>* \<dots> (leak_state LTop (WGot 1) [] 1 0 DNone [1] [])"
    by (rule r_into_rtranclp, rule by_worker [of 0]) (use receive [of "leak_state LTop WIdle [1] 1 0 DNone [1] []" 0] in \<open>simp_all add: leak_simps\<close>)
  also have "hs_step\<^sup>*\<^sup>* \<dots> (leak_state LTop (WShake 1) [] 0 0 DNone [1] [])"
    by (rule r_into_rtranclp, rule by_worker [of 0]) (use unqueued [of "leak_state LTop (WGot 1) [] 1 0 DNone [1] []" 0] in \<open>simp_all add: leak_simps\<close>)
  also have "hs_step\<^sup>*\<^sup>* \<dots> (leak_state LTop (WSend 1) [] 0 1 DNone [1] [])"
    by (rule r_into_rtranclp, rule by_worker [of 0])
      (use shake_done [of "leak_state LTop (WShake 1) [] 0 0 DNone [1] []" 0 1] in \<open>simp_all add: leak_simps handshake_def\<close>)
  also have "hs_step\<^sup>*\<^sup>* \<dots> (leak_state LAccept (WSend 1) [] 0 1 DNone [1] [])"
    by (rule r_into_rtranclp, rule by_loop) (use top_open [of "leak_state LTop (WSend 1) [] 0 1 DNone [1] []"] in \<open>simp add: leak_simps\<close>)
  also have "hs_step\<^sup>*\<^sup>* \<dots> (leak_state (LHave 2) (WSend 1) [] 0 1 DNone [1, 2] [])"
    by (rule r_into_rtranclp, rule by_loop) (use accepted [of "leak_state LAccept (WSend 1) [] 0 1 DNone [1] []" 2] in \<open>simp add: leak_simps\<close>)
  also have "hs_step\<^sup>*\<^sup>* \<dots> (leak_state LQueued (WSend 1) [2] 0 1 DNone [1, 2] [])"
    by (rule r_into_rtranclp, rule by_loop) (use enqueue [of "leak_state (LHave 2) (WSend 1) [] 0 1 DNone [1, 2] []" 2] in \<open>simp add: leak_simps\<close>)
  also have "hs_step\<^sup>*\<^sup>* \<dots> (leak_state LTop (WSend 1) [2] 1 1 DNone [1, 2] [])"
    by (rule r_into_rtranclp, rule by_loop) (use queued [of "leak_state LQueued (WSend 1) [2] 0 1 DNone [1, 2] []"] in \<open>simp add: leak_simps\<close>)
  finally show ?thesis by simp
qed

lemma leak_close:
  "hs_step\<^sup>*\<^sup>* (leak_state LTop (WSend 1) [2] 1 1 DNone [1, 2] []) (leak_state LDone WExit [2] 1 1 DDone [1, 2] [1])"
proof -
  have "hs_step\<^sup>*\<^sup>* (leak_state LTop (WSend 1) [2] 1 1 DNone [1, 2] []) (leak_state LTop (WSend 1) [2] 1 1 DWait [1, 2] [])"
    by (rule r_into_rtranclp) (use by_close [of "leak_state LTop (WSend 1) [2] 1 1 DNone [1, 2] []"] in \<open>simp add: leak_simps\<close>)
  also have "hs_step\<^sup>*\<^sup>* \<dots> (leak_state LTop WExit [2] 1 1 DWait [1, 2] [1])"
    by (rule r_into_rtranclp, rule by_worker [of 0]) (use send_closed [of "leak_state LTop (WSend 1) [2] 1 1 DWait [1, 2] []" 0] in \<open>simp_all add: leak_simps\<close>)
  also have "hs_step\<^sup>*\<^sup>* \<dots> (leak_state LExit WExit [2] 1 1 DWait [1, 2] [1])"
    by (rule r_into_rtranclp, rule by_loop) (use top_closed [of "leak_state LTop WExit [2] 1 1 DWait [1, 2] [1]"] in \<open>simp add: leak_simps\<close>)
  also have "hs_step\<^sup>*\<^sup>* \<dots> (leak_state LDone WExit [2] 1 1 DWait [1, 2] [1])"
    by (rule r_into_rtranclp, rule by_loop) (use loop_exit [of "leak_state LExit WExit [2] 1 1 DWait [1, 2] [1]"] in \<open>simp add: leak_simps\<close>)
  also have "hs_step\<^sup>*\<^sup>* \<dots> (leak_state LDone WExit [2] 1 1 DDrain [1, 2] [1])"
    by (rule r_into_rtranclp, rule by_drain) (use waited [of "leak_state LDone WExit [2] 1 1 DWait [1, 2] [1]"] in \<open>simp add: leak_simps\<close>)
  also have "hs_step\<^sup>*\<^sup>* \<dots> (leak_state LDone WExit [2] 1 1 DDone [1, 2] [1])"
    by (rule r_into_rtranclp, rule by_drain) (use drained [of "leak_state LDone WExit [2] 1 1 DDrain [1, 2] [1]"] in \<open>simp add: leak_simps\<close>)
  finally show ?thesis by simp
qed

text \<open>The second connection stays in the inbox of the closed listener: nothing has closed it, and nothing is left that could.\<close>

lemma leak_reachable:
  "hs_reachable 1 False \<lparr>hcWorkers = 1, hcQueueSize = 1, hcHandshakeTimeout = 0\<rparr> (leak_state LTop (WSend 1) [2] 1 1 DNone [1, 2] [])"
  "hs_reachable 1 False \<lparr>hcWorkers = 1, hcQueueSize = 1, hcHandshakeTimeout = 0\<rparr> (leak_state LDone WExit [2] 1 1 DDone [1, 2] [1])"
  using reachable_run [OF reachable.start leak_arrivals] reachable_run [OF reachable.start rtranclp_trans [OF leak_arrivals leak_close]]
  by (simp_all add: hs_init_def leak_new)

lemma leak_stuck: "\<nexists>l'. hs_step (leak_state LDone WExit [2] 1 1 DDone [1, 2] [1]) l'"
  by (auto elim!: hs_stepE loop_stepE worker_stepE drain_stepE acceptE simp: leak_state_def)

lemma offload_leaks:
  "\<exists>l. hs_reachable 1 False \<lparr>hcWorkers = 1, hcQueueSize = 1, hcHandshakeTimeout = 0\<rparr> l \<and> hsClosed l \<and> (\<nexists>l'. hs_step l l')
     \<and> hsSeen l = [1, 2] \<and> hsShut l = [1] \<and> hsDelivered l = [] \<and> hsInbox l = [2]"
  by (rule exI [of _ "leak_state LDone WExit [2] 1 1 DDone [1, 2] [1]"])
    (intro conjI leak_reachable leak_stuck, simp_all add: leak_state_def)


theorem offload_close_ends_witness:
  "finished (leak_state LDone WExit [2] 1 1 DDone [1, 2] [1])
   \<and> mset [1, 2] = mset (hsInbox (leak_state LDone WExit [2] 1 1 DDone [1, 2] [1])) + mset (hsShut (leak_state LDone WExit [2] 1 1 DDone [1, 2] [1]))"
proof -
  let ?l = "leak_state LDone WExit [2] 1 1 DDone [1, 2] [1]"
  have "hsClosed ?l" by (simp add: leak_state_def)
  from offload_close_ends [OF leak_reachable(2) this] have "finished ?l"
    "mset (hsSeen ?l) = mset (hsInbox ?l) + mset (hsDelivered ?l) + mset (hsShut ?l)"
    using leak_stuck by blast+
  then show ?thesis by (simp add: leak_state_def)
qed

end
