(* ===== verification/EdgeProcess.thy ===== *)
theory EdgeProcess
  imports Admin RateLimit CorsRedirect Compress Tracing Handshake CpApi
begin

text \<open>
  \<open>main.go\<close> of the edge: how the middlewares are stacked, which path goes where, what SIGHUP reloads and in which order the
  process shuts down. The application handler (single- or multi-tenant) is an argument, as the calls it makes on its writer;
  sockets and signals are not modelled.
\<close>

section \<open>The stack of middlewares\<close>

record edgeState =
  esLog :: Logger
  esMet :: RequestMetrics
  esLimiter :: "Limiter option"
  esSpans :: "traceSpan list"

record edgeEnv =
  eeLog :: logEnv
  eeElapsed :: duration
  eeNow :: instant
  eeCompress :: compressEnv
  eeURL :: string
  eeEvents :: "string list"

text \<open>Compression, then CORS around it. \<open>h\<close> is the header map when the outer layer is entered.\<close>

definition app_calls ::
  "Config \<Rightarrow> edgeEnv \<Rightarrow> 's compressor \<Rightarrow> 't compressor \<Rightarrow> (request \<Rightarrow> call list) \<Rightarrow> header \<Rightarrow> request \<Rightarrow> call list" where
  "app_calls cfg ev brotli gzip app h r =
     (let cors = (\<lambda>next'. if cfCORSOrigins cfg \<noteq> [] then CORS (cfCORSOrigins cfg) (cfCORSMaxAge cfg) next' else next');
          h' = foldl edit_header h (cors (\<lambda>_. []) r);
          inner = (if cfCompressionEnabled cfg then compress_Middleware (eeCompress ev) brotli gzip h' app else app)
      in cors inner r)"

text \<open>The rate limiter is there when the configured rate is positive (a finite one here).\<close>

definition limited_calls :: "edgeEnv \<Rightarrow> Limiter option \<Rightarrow> (request \<Rightarrow> call list) \<Rightarrow> request \<Rightarrow> call list \<times> Limiter option" where
  "limited_calls ev limiter next' r =
     (case limiter of
        None \<Rightarrow> (next' r, None)
      | Some l \<Rightarrow> (let (cs, l) = rl_Middleware (eeNow ev) l next' r in (cs, Some l)))"

definition edge_limiter :: "rat \<Rightarrow> int \<Rightarrow> Limiter option" where
  "edge_limiter rps burst = (if rps > 0 then Some (rl_New rps burst) else None)"

definition request_id :: "logEnv \<Rightarrow> request \<Rightarrow> string" where
  "request_id ev r =
     (let reqID = header_Get (reqHeader r) ''X-Request-ID'' in if reqID = [] then GenerateRequestID (lvRand ev) else reqID)"

text \<open>One request on the data plane: logging outermost, then metrics, tracing, rate limiting, CORS, compression.\<close>

definition edge_serve ::
  "Config \<Rightarrow> edgeEnv \<Rightarrow> 's compressor \<Rightarrow> 't compressor \<Rightarrow> (string \<Rightarrow> request \<Rightarrow> call list) \<Rightarrow> edgeState \<Rightarrow> respw \<Rightarrow> request \<Rightarrow>
   (respw \<times> edgeState) option" where
  "edge_serve cfg ev brotli gzip app s w r =
     (let w1 = w_Set w ''X-Request-ID'' (request_id (eeLog ev) r);
          (calls, lim) = limited_calls ev (esLimiter s)
             (app_calls cfg ev brotli gzip (app (request_id (eeLog ev) r)) (rwHeader w1)) r;
          spans = (if cfTracingEnabled cfg then esSpans s @ [snd (tracing_Middleware (eeURL ev) calls (eeEvents ev) w1 r)] else esSpans s);
          (w', log') = log_Middleware (eeLog ev) (esLog s) (\<lambda>_. calls) w r
      in case metrics_ServeHTTP (esMet s) w1 (eeElapsed ev) calls of
           None \<Rightarrow> None
         | Some (_, met') \<Rightarrow> Some (w', \<lparr>esLog = log', esMet = met', esLimiter = lim, esSpans = spans\<rparr>))"

section \<open>Paths\<close>

text \<open>Where the mux of the main listener sends a path; unclean paths are redirected before any handler sees them.\<close>

datatype edgeRoute = RouteRedirect string | RouteAdmin string | RouteConfigPush | RouteHandshakeStats | RouteData | RouteNotFound

definition admin_paths :: "string list" where
  "admin_paths = [''/livez'', ''/readyz'', ''/health'', ''/metrics'', ''/metrics.json'', ''/purge'', ''/warm'', ''/loglevel'']"

definition admin_separate :: "Config \<Rightarrow> bool" where
  "admin_separate cfg = (cfAdminAddr cfg \<noteq> [] \<and> cfAdminAddr cfg \<noteq> cfListenAddr cfg)"

definition edge_offloads :: "Config \<Rightarrow> bool" where
  "edge_offloads cfg = (cfTLSEnabled cfg \<and> \<not> cfTLSAuto cfg)"

definition main_route :: "Config \<Rightarrow> string \<Rightarrow> edgeRoute" where
  "main_route cfg path =
     (if mux_clean path \<noteq> path then RouteRedirect (mux_clean path)
      else if (cfAdminAddr cfg = [] \<or> cfAdminAddr cfg = cfListenAddr cfg) \<and> path \<in> set admin_paths then RouteAdmin path
      else if cfControlPlaneURL cfg \<noteq> [] \<and> path = ''/edge/config'' then RouteConfigPush
      else if edge_offloads cfg \<and> path = ''/handshake-stats'' then RouteHandshakeStats
      else RouteData)"

text \<open>The mux of the separate admin server, which has no handler for other paths.\<close>

definition admin_route :: "Config \<Rightarrow> string \<Rightarrow> edgeRoute option" where
  "admin_route cfg path =
     (if \<not> admin_separate cfg then None
      else Some (if mux_clean path \<noteq> path then RouteRedirect (mux_clean path)
                 else if path \<in> set admin_paths then RouteAdmin path
                 else RouteNotFound))"

definition handshake_stats :: "OffloadListener \<Rightarrow> respw \<Rightarrow> respw" where
  "handshake_stats l w =
     (let (q, c, f) = hs_Stats l
      in w_Write (w_Set w ''Content-Type'' ''application/json'')
           (''{\"queued\":'' @ strconv_Itoa q @ '',\"completed\":'' @ strconv_Itoa c @ '',\"failed\":'' @ strconv_Itoa f @ ''}''))"

text \<open>
  The configuration of TLS: the versions and cipher suites are the library's business, what matters here is which
  certificates it holds. \<open>None\<close> means that the listener speaks plain HTTP.
\<close>

record tlsConfig =
  tlCertificates :: "string list"
  tlGetCertificate :: bool

definition edge_tls :: "Config \<Rightarrow> tlsConfig option" where
  "edge_tls cfg = (if edge_offloads cfg then Some \<lparr>tlCertificates = [], tlGetCertificate = False\<rparr> else None)"

definition redirects_http :: "Config \<Rightarrow> bool" where
  "redirects_http cfg = (cfTLSEnabled cfg \<and> cfHTTPSRedirect cfg)"

section \<open>Reload and shutdown\<close>

text \<open>One SIGHUP: the level and the peers, from the environment.\<close>

definition sighup_reload :: "string \<Rightarrow> (string \<Rightarrow> string) \<Rightarrow> 'a adminState \<Rightarrow> 'a adminState" where
  "sighup_reload now getenv s =
     (let info = (\<lambda>msg s. s\<lparr>asLog := log_Info now (asLog s) msg []\<rparr>);
          s = info ''received SIGHUP, reloading configuration'' s;
          lvl = getenv ''CDN_LOG_LEVEL'';
          s = (if lvl \<noteq> [] then info (''log level changed to '' @ lvl) (s\<lparr>asLog := SetLevel (asLog s) lvl\<rparr>) else s);
          peers = getenv ''CDN_PURGE_PEERS''
      in if peers \<noteq> [] then info ''purge peers updated'' (SetPeers s (strings_Split peers (CHR '',''))) else s)"

datatype procAction =
    ActLog string | ActCancelUpgrade | ActCancelPoller | ActNotReady | ActSleep duration
  | ActShutRedirect | ActShutAdmin | ActShutMain | ActFatal string | ActFlushTraces | ActLogError string

definition shutdown_actions :: "Config \<Rightarrow> string option \<Rightarrow> string option \<Rightarrow> procAction list" where
  "shutdown_actions cfg mainErr traceErr =
     [ActLog ''shutting down...'', ActCancelUpgrade]
     @ (if cfControlPlaneURL cfg \<noteq> [] then [ActCancelPoller] else [])
     @ [ActNotReady]
     @ (if cfDrainDelay cfg > 0 then [ActLog ''drain delay: waiting for load balancers to stop routing'', ActSleep (cfDrainDelay cfg)] else [])
     @ (if redirects_http cfg then [ActShutRedirect] else [])
     @ (if admin_separate cfg then [ActShutAdmin] else [])
     @ [ActShutMain]
     @ (case mainErr of
          Some e \<Rightarrow> [ActFatal (''shutdown error: '' @ e)]
        | None \<Rightarrow>
            (if cfTracingEnabled cfg then ActFlushTraces # (case traceErr of Some e \<Rightarrow> [ActLogError e] | None \<Rightarrow> []) else [])
            @ [ActLog ''server stopped''])"

section \<open>What a request leaves behind\<close>

definition data_calls ::
  "Config \<Rightarrow> edgeEnv \<Rightarrow> 's compressor \<Rightarrow> 't compressor \<Rightarrow> (string \<Rightarrow> request \<Rightarrow> call list) \<Rightarrow> edgeState \<Rightarrow> respw \<Rightarrow> request \<Rightarrow> call list" where
  "data_calls cfg ev brotli gzip app s w r =
     fst (limited_calls ev (esLimiter s)
       (app_calls cfg ev brotli gzip (app (request_id (eeLog ev) r)) (rwHeader (w_Set w ''X-Request-ID'' (request_id (eeLog ev) r)))) r)"

text \<open>
  C8. A request through the whole stack. It is always served. The client gets what the stacked handlers write, with the
  request id as a header; the histogram counts the request once, under the status that was sent; unless the level is error, one access
  line is added with that id and the number of bytes sent, and with the status sent when the handlers set it at most once and in order;
  with tracing on, one span is added with that status. A client over its rate is answered 429 with Retry-After and the
  application is not consulted.
\<close>

theorem edge_pipeline:
  assumes "rwSent w = None" "rwBody w = []" "level_ok (esLog s)" "esMet s = hist_of es"
  shows "\<exists>w' s'. edge_serve cfg ev brotli gzip app s w r = Some (w', s')
    \<and> w' = run_calls (w_Set w ''X-Request-ID'' (request_id (eeLog ev) r)) (data_calls cfg ev brotli gzip app s w r)
    \<and> esMet s' = hist_of (es @ [(eeElapsed ev, rw_status w')])
    \<and> (\<exists>e. lgOut (esLog s') = lgOut (esLog s) @ (if log_Level (esLog s) = ''error'' then [] else [LAccess e])
         \<and> aeRequestID e = request_id (eeLog ev) r \<and> aeBytesSent e = int (length (rwBody w'))
         \<and> (\<forall>ed st ws. disciplined (data_calls cfg ev brotli gzip app s w r) ed st ws \<longrightarrow> aeStatus e = rw_status w'))
    \<and> (\<exists>sp. esSpans s' = esSpans s @ (if cfTracingEnabled cfg then [sp] else []) \<and> spStatusCode sp = rw_status w')
    \<and> (\<forall>l. esLimiter s = Some l \<and> \<not> fst (rl_Allow (eeNow ev) l (extractIP r)) \<longrightarrow>
          w' = http_Error (w_Set (w_Set w ''X-Request-ID'' (request_id (eeLog ev) r)) ''Retry-After'' ''1'') ''Too Many Requests'' 429)"
proof -
  let ?id = "request_id (eeLog ev) r"
  define w1 where "w1 = w_Set w ''X-Request-ID'' ?id"
  define cs where "cs = data_calls cfg ev brotli gzip app s w r"
  define lim where "lim = snd (limited_calls ev (esLimiter s) (app_calls cfg ev brotli gzip (app ?id) (rwHeader w1)) r)"
  let ?sp = "snd (tracing_Middleware (eeURL ev) cs (eeEvents ev) w1 r)"
  have sent: "rwSent w1 = None" using assms(1) by (simp add: w1_def)
  have L: "limited_calls ev (esLimiter s) (app_calls cfg ev brotli gzip (app ?id) (rwHeader w1)) r = (cs, lim)"
    by (simp add: cs_def data_calls_def lim_def w1_def)
  obtain w2 l2 where log: "log_Middleware (eeLog ev) (esLog s) (\<lambda>_. cs) w r = (w2, l2)" by fastforce
  obtain e where e: "w2 = run_calls w1 cs"
    "l2 = (if log_Level (esLog s) = ''error'' then esLog s else (esLog s)\<lparr>lgOut := lgOut (esLog s) @ [LAccess e]\<rparr>)"
    "aeRequestID e = ?id" "aeBytesSent e = int (length (rwBody (run_calls w1 cs)))"
    and status: "\<forall>ed st ws. disciplined cs ed st ws \<longrightarrow> aeStatus e = rw_status (run_calls w1 cs)"
    using access_log_exact [OF assms(1,2) log assms(3)] unfolding w1_def request_id_def Let_def GenerateRequestID_def by auto
  have span: "spStatusCode ?sp = rw_status (run_calls w1 cs)" by (rule span_exact(2) [OF sent])
  have refuse: "run_calls w1 cs = http_Error (w_Set w1 ''Retry-After'' ''1'') ''Too Many Requests'' 429"
    if "esLimiter s = Some l" "\<not> fst (rl_Allow (eeNow ev) l (extractIP r))" for l
  proof -
    have "cs = CSet ''Retry-After'' ''1'' # error_calls ''Too Many Requests'' 429"
      using that by (simp add: cs_def data_calls_def limited_calls_def rl_Middleware_def Let_def case_prod_unfold)
    moreover have "bodyAllowedForStatus 429" by (simp add: bodyAllowedForStatus_def)
    moreover have "rwSent (w_Set w1 ''Retry-After'' ''1'') = None" using sent by simp
    ultimately show ?thesis using run_error_calls by simp
  qed
  define s' where "s' = \<lparr>esLog = l2,
    esMet = hist_of (es @ [(eeElapsed ev, rw_status (run_calls w1 cs))]), esLimiter = lim,
    esSpans = (if cfTracingEnabled cfg then esSpans s @ [?sp] else esSpans s)\<rparr>"
  have "edge_serve cfg ev brotli gzip app s w r = Some (run_calls w1 cs, s')"
    unfolding edge_serve_def Let_def w1_def [symmetric] L s'_def
    by (simp add: log e(1) assms(4) metrics_records_sent_status [OF sent])
  moreover have "\<exists>e. lgOut (esLog s') = lgOut (esLog s) @ (if log_Level (esLog s) = ''error'' then [] else [LAccess e])
      \<and> aeRequestID e = ?id \<and> aeBytesSent e = int (length (rwBody (run_calls w1 cs)))
      \<and> (\<forall>ed st ws. disciplined cs ed st ws \<longrightarrow> aeStatus e = rw_status (run_calls w1 cs))"
    using e(2,3,4) status by (intro exI [of _ e] conjI) (simp_all add: s'_def)
  moreover have "\<exists>sp. esSpans s' = esSpans s @ (if cfTracingEnabled cfg then [sp] else []) \<and> spStatusCode sp = rw_status (run_calls w1 cs)"
    using span by (intro exI [of _ ?sp]) (simp add: s'_def)
  ultimately show ?thesis using refuse
    unfolding w1_def [symmetric] cs_def [symmetric] by (intro exI [of _ "run_calls w1 cs"] exI [of _ s'] conjI) (simp_all add: s'_def)
qed

definition sample_edgeEnv :: edgeEnv where
  "sample_edgeEnv = \<lparr>eeLog = \<lparr>lvRand = ''ab'', lvElapsed = 0, lvNow = []\<rparr>, eeElapsed = 7, eeNow = 0, eeCompress = demo_co, eeURL = ''/'', eeEvents = []\<rparr>"

definition sample_edgeState :: edgeState where
  "sample_edgeState = \<lparr>esLog = log_New, esMet = hist_of [], esLimiter = None, esSpans = []\<rparr>"

theorem edge_pipeline_witness:
  "\<exists>w' s'. edge_serve default_config sample_edgeEnv demo_cp demo_cp (\<lambda>id r. demo_gz_calls) sample_edgeState new_respw demo_gz_req = Some (w', s')
     \<and> esMet s' = hist_of [(7, rw_status w')]"
proof -
  have "rwSent new_respw = None" "rwBody new_respw = []" "level_ok (esLog sample_edgeState)" "esMet sample_edgeState = hist_of []"
    by (simp_all add: new_respw_def sample_edgeState_def level_ok_New)
  from edge_pipeline [OF this, of default_config sample_edgeEnv demo_cp demo_cp "\<lambda>id r. demo_gz_calls" demo_gz_req]
  show ?thesis by (auto simp: sample_edgeEnv_def)
qed

section \<open>Routing, shutdown, reload\<close>

text \<open>
  With an address of its own for administration, the main listener reaches no administrative endpoint, and the
  administrative server reaches all of them and nothing else.
\<close>

lemma admin_paths_clean: "path \<in> set admin_paths \<Longrightarrow> mux_clean path = path"
proof -
  have "list_all (\<lambda>p. mux_clean p = p) admin_paths" by code_simp
  then show "path \<in> set admin_paths \<Longrightarrow> mux_clean path = path" by (simp add: list_all_iff)
qed

lemma admin_paths_mounted: "mountAdmin ev key url path = None \<longleftrightarrow> path \<notin> set admin_paths"
  by (auto simp: mountAdmin_def admin_paths_def)

theorem admin_isolated:
  assumes "cfAdminAddr cfg \<noteq> []" "cfAdminAddr cfg \<noteq> cfListenAddr cfg"
  shows "(\<forall>path p. main_route cfg path \<noteq> RouteAdmin p)
       \<and> (\<forall>path. admin_route cfg path = Some (RouteAdmin path) \<longleftrightarrow> mountAdmin ev key url path \<noteq> None)
       \<and> (\<forall>path. admin_route cfg path \<noteq> Some RouteData)"
  using assms admin_paths_clean by (auto simp: main_route_def admin_route_def admin_separate_def admin_paths_mounted simp del: not_None_eq)

text \<open>
  Without one, the administrative paths shadow those of the site, in either mode.
\<close>

lemma admin_shadows_site:
  "cfAdminAddr cfg = [] \<Longrightarrow> path \<in> set admin_paths \<Longrightarrow> main_route cfg path = RouteAdmin path"
  by (simp add: main_route_def admin_paths_clean)

text \<open>
  On shutdown the process is marked not ready before it waits, and waits before any server stops accepting; the main
  server is stopped once, after the others.
\<close>

definition closes :: "procAction \<Rightarrow> bool" where
  "closes a = (a \<in> {ActShutRedirect, ActShutAdmin, ActShutMain})"

theorem shutdown_order:
  "\<exists>before after. shutdown_actions cfg mainErr traceErr = before @ ActNotReady # after
     \<and> list_all (\<lambda>a. \<not> closes a \<and> (\<forall>d. a \<noteq> ActSleep d)) before
     \<and> (0 < cfDrainDelay cfg \<longrightarrow> list_all (\<lambda>a. \<not> closes a) (takeWhile (\<lambda>a. a \<noteq> ActSleep (cfDrainDelay cfg)) after))
     \<and> filter closes after = (if redirects_http cfg then [ActShutRedirect] else []) @ (if admin_separate cfg then [ActShutAdmin] else []) @ [ActShutMain]"
proof -
  let ?before = "[ActLog ''shutting down...'', ActCancelUpgrade] @ (if cfControlPlaneURL cfg \<noteq> [] then [ActCancelPoller] else [])"
  show ?thesis
    by (rule exI [of _ ?before]) (simp add: shutdown_actions_def closes_def split: option.split)
qed

text \<open>A level that does not exist changes nothing, yet the change is logged.\<close>

lemma sighup_unknown_level:
  assumes "getenv ''CDN_LOG_LEVEL'' = lvl" "lvl \<notin> {[], ''debug'', ''info'', ''error''}" "getenv ''CDN_PURGE_PEERS'' = []" "lgLevel (asLog s) \<le> LevelInfo"
  shows "lgLevel (asLog (sighup_reload now getenv s)) = lgLevel (asLog s)"
    and "\<exists>e. last (lgOut (asLog (sighup_reload now getenv s))) = LEntry e \<and> leMsg e = ''log level changed to '' @ lvl"
  using assms by (simp_all add: sighup_reload_def Let_def log_Info_def log_write_def SetLevel_def)

text \<open>
  The files named by the configuration never reach the TLS configuration: the listener that offloads handshakes has no
  certificate to offer, and automatic TLS is served in the clear.
\<close>

lemma tls_has_no_certificate:
  "edge_tls cfg = Some t \<Longrightarrow> tlCertificates t = [] \<and> \<not> tlGetCertificate t"
  "cfTLSEnabled cfg \<Longrightarrow> cfTLSAuto cfg \<Longrightarrow> edge_tls cfg = None"
  by (auto simp: edge_tls_def edge_offloads_def split: if_splits)

end
