(* ===== verification/EdgeStart.thy ===== *)
theory EdgeStart
  imports CdnServe MultiTenant EdgeProcess
begin

text \<open>
  \<open>main.go\<close> of the edge, from \<open>config.Load\<close> to the data-plane handler: what is built, from which setting, in
  which order, and how each step can fail. The outcome is a fatal error, a handler, or none when the
  construction of the predictor never returns.
\<close>

section \<open>What the settings become\<close>

text \<open>\<open>DiskCacheMaxMB << 20\<close> is a 64-bit shift.\<close>

definition cache_options :: "Config \<Rightarrow> Options" where
  "cache_options cfg =
     \<lparr>opMaxItems = cfMaxCacheItems cfg, opMaxEntryBytes = cfMaxCacheEntryBytes cfg, opMaxKeyLen = cfMaxCacheKeyLen cfg,
      opDiskDir = cfDiskCacheDir cfg, opDiskMaxBytes = wrap64 (cfDiskCacheMaxMB cfg * 2 ^ 20), opNumShards = 0,
      opCompressHeaders = cfCompressHeaders cfg\<rparr>"

definition proxy_options :: "Config \<Rightarrow> originOptions" where
  "proxy_options cfg =
     \<lparr>ooTimeout = cfOriginTimeout cfg, ooCoalesceTimeout = cfCoalesceTimeout cfg, ooMaxBodyBytes = cfMaxCacheEntryBytes cfg,
      ooHostOverride = cfOriginHostOverride cfg, ooMaxIdleConnsPerHost = cfMaxIdleConnsPerHost cfg\<rparr>"

definition tracing_settings :: "Config \<Rightarrow> tracingConfig" where
  "tracing_settings cfg =
     \<lparr>tgEnabled = True, tgEndpoint = cfTracingEndpoint cfg, tgSampleRate = cfTracingSampleRate cfg, tgInsecure = cfTracingInsecure cfg\<rparr>"

definition purge_peers :: "(string \<Rightarrow> string) \<Rightarrow> string list" where
  "purge_peers getenv = (let peers = getenv ''CDN_PURGE_PEERS'' in if peers \<noteq> [] then strings_Split peers (CHR '','') else [])"

section \<open>The handler\<close>

datatype edgeApp = SingleTenant CDN | Tenants MultiTenantCDN

definition app_handler :: "Config \<Rightarrow> Cache \<Rightarrow> Origin \<Rightarrow> edgeApp option" where
  "app_handler cfg c origin =
     (if cfControlPlaneURL cfg \<noteq> [] then
        (let h = NewMultiTenant c origin (cfDefaultTTL cfg)
         in if cfPredictorEnabled cfg
            then do { p \<leftarrow> NewPredictor (cfPredictorCapacity cfg) (cfPredictorDecay cfg); Some (Tenants (EnablePredictor h (Some p))) }
            else Some (Tenants h))
      else map_option SingleTenant
             (cdn_New c origin (cfOriginURL cfg) (cfDefaultTTL cfg)
                (if cfPredictorEnabled cfg then Some (cfPredictorCapacity cfg, cfPredictorDecay cfg) else None)))"

section \<open>The start\<close>

text \<open>
  What the surroundings decide: variables and flags, the errors of the trace exporter and of its resource, whether the
  directory of the cache can be made, what it holds, and the times of the messages.
\<close>

record startEnv =
  seConfig :: cfgEnv
  seArgs :: "string list"
  seExporterErr :: "string option"
  seResourceErr :: "string option"
  seMkdirFails :: bool
  seDisk :: disk
  seNow :: "nat \<Rightarrow> string"

datatype startFailure = FailConfig cfgErr | FailTracing tracingErr | FailCache

record edgeProc =
  epConfig :: Config
  epLog :: Logger
  epProvider :: "provider option"
  epPeers :: "string list"
  epApp :: edgeApp

definition start_tracing :: "startEnv \<Rightarrow> Config \<Rightarrow> Logger \<Rightarrow> startFailure + provider option \<times> Logger" where
  "start_tracing se cfg l =
     (if \<not> cfTracingEnabled cfg then Inr (None, l)
      else case tracing_Init (seExporterErr se) (seResourceErr se) (tracing_settings cfg) of
             Inl e \<Rightarrow> Inl (FailTracing e)
           | Inr p \<Rightarrow> Inr (Some p, log_Info (seNow se 0) l (''OpenTelemetry tracing enabled, endpoint: '' @ cfTracingEndpoint cfg) []))"

definition start_messages :: "startEnv \<Rightarrow> Config \<Rightarrow> Logger \<Rightarrow> Logger" where
  "start_messages se cfg l =
     (let l = (if cfControlPlaneURL cfg \<noteq> [] then log_Info (seNow se 1) l (''multi-tenant mode enabled, control plane: '' @ cfControlPlaneURL cfg) [] else l)
      in if cfPredictorEnabled cfg then log_Info (seNow se 2) l ''uncacheable-URL predictor enabled'' [] else l)"

definition edge_start :: "diskEnv \<Rightarrow> startEnv \<Rightarrow> startFailure + edgeProc option" where
  "edge_start dk se =
     (case config_Load (seConfig se) (seArgs se) of
        Inl e \<Rightarrow> Inl (FailConfig e)
      | Inr cfg \<Rightarrow>
          (case start_tracing se cfg (SetLevel log_New (cfLogLevel cfg)) of
             Inl e \<Rightarrow> Inl e
           | Inr (p, l) \<Rightarrow>
               (case NewWithOptions dk (seMkdirFails se) (seDisk se) (cache_options cfg) of
                  None \<Rightarrow> Inl FailCache
                | Some c \<Rightarrow>
                    Inr (map_option
                      (\<lambda>app. \<lparr>epConfig = cfg, epLog = start_messages se cfg l, epProvider = p,
                              epPeers = purge_peers (ceGetenv (seConfig se)), epApp = app\<rparr>)
                      (app_handler cfg c (origin_New (proxy_options cfg)))))))"

section \<open>When it starts\<close>

definition predictor_fits :: "Config \<Rightarrow> bool" where
  "predictor_fits cfg \<longleftrightarrow>
     (cfPredictorEnabled cfg \<longrightarrow>
        unat (word_of_int (if cfPredictorCapacity cfg \<le> 0 then 1024 else cfPredictorCapacity cfg) * 8 :: u32) \<le> 2 ^ 31)"

text \<open>The surroundings allow a start: tracing can be set up if wanted, and so can the directory of the disk tier.\<close>

definition can_start :: "startEnv \<Rightarrow> Config \<Rightarrow> bool" where
  "can_start se cfg \<longleftrightarrow>
     (cfTracingEnabled cfg \<longrightarrow> seExporterErr se = None \<and> seResourceErr se = None) \<and> (cfDiskCacheDir cfg \<noteq> [] \<longrightarrow> \<not> seMkdirFails se)"

lemma predictor_fits_iff:
  "predictor_fits cfg \<longleftrightarrow> (cfPredictorEnabled cfg \<longrightarrow> NewPredictor (cfPredictorCapacity cfg) (cfPredictorDecay cfg) \<noteq> None)"
  using new_predictor_returns_iff [of "cfPredictorCapacity cfg" "cfPredictorDecay cfg"]
  unfolding predictor_fits_def by (cases "cfPredictorEnabled cfg") (auto simp: not_le)

lemma app_handler_returns: "app_handler cfg c og \<noteq> None \<longleftrightarrow> predictor_fits cfg"
  by (auto simp: app_handler_def cdn_New_def predictor_fits_iff Let_def split: option.splits bind_splits)

text \<open>Started: the handler of a started edge, with where it came from.\<close>

lemma edge_start_Some:
  "edge_start dk se = Inr (Some proc) \<longleftrightarrow>
     (\<exists>cfg c l. config_Load (seConfig se) (seArgs se) = Inr cfg \<and> start_tracing se cfg (SetLevel log_New (cfLogLevel cfg)) = Inr (epProvider proc, l) \<and>
        NewWithOptions dk (seMkdirFails se) (seDisk se) (cache_options cfg) = Some c \<and>
        app_handler cfg c (origin_New (proxy_options cfg)) = Some (epApp proc) \<and> epConfig proc = cfg \<and>
        epLog proc = start_messages se cfg l \<and> epPeers proc = purge_peers (ceGetenv (seConfig se)))"
  by (cases proc) (auto simp: edge_start_def split: sum.splits option.splits)

lemma app_handler_init:
  assumes "app_handler cfg c (origin_New opts) = Some app" "cache_init dk c"
  shows "case app of SingleTenant h \<Rightarrow> cdn_init dk h \<and> cdCache h = c | Tenants h \<Rightarrow> mt_init dk h \<and> cdCache h = c"
proof (cases "cfControlPlaneURL cfg = []")
  case True
  then obtain h where "app = SingleTenant h" and h: "cdn_New c (origin_New opts) (cfOriginURL cfg) (cfDefaultTTL cfg)
      (if cfPredictorEnabled cfg then Some (cfPredictorCapacity cfg, cfPredictorDecay cfg) else None) = Some h"
    using assms(1) by (auto simp: app_handler_def)
  moreover have "cdn_init dk h" using h assms(2) unfolding cdn_init_def by blast
  moreover have "cdCache h = c" using h by (auto simp: cdn_New_def Let_def split: if_splits bind_splits)
  ultimately show ?thesis by simp
next
  case False
  then obtain p where app: "app = Tenants (EnablePredictor (NewMultiTenant c (origin_New opts) (cfDefaultTTL cfg)) p)"
    and p: "\<forall>q. p = Some q \<longrightarrow> NewPredictor (cfPredictorCapacity cfg) (cfPredictorDecay cfg) = Some q"
    using assms(1) by (auto simp: app_handler_def Let_def EnablePredictor_def NewMultiTenant_def split: if_splits bind_splits)
  then have "mt_init dk (EnablePredictor (NewMultiTenant c (origin_New opts) (cfDefaultTTL cfg)) p)"
    using assms(2) unfolding mt_init_def by blast
  then show ?thesis using app by (simp add: EnablePredictor_def NewMultiTenant_def)
qed

section \<open>What a loaded configuration guarantees the rest\<close>

lemma config_loaded_ok: "config_Load ev args = Inr c \<Longrightarrow> \<exists>u. config_ok ev u c"
  by (auto simp: config_Load_def validate_Inr split: sum.splits)

lemma log_Info_level [simp]: "log_Level (log_Info ts l msg rid) = log_Level l"
  by (simp add: log_Info_def log_write_def log_Level_def)

lemma start_messages_level [simp]: "log_Level (start_messages se cfg l) = log_Level l"
  by (simp add: start_messages_def Let_def)

lemma start_tracing_level: "start_tracing se cfg l = Inr (p, l') \<Longrightarrow> log_Level l' = log_Level l"
  by (auto simp: start_tracing_def split: if_splits sum.splits)

lemma can_start_iff:
  "can_start se cfg \<longleftrightarrow>
     (\<exists>x c. start_tracing se cfg l = Inr x \<and> NewWithOptions dk (seMkdirFails se) (seDisk se) (cache_options cfg) = Some c)"
  by (auto simp: can_start_def start_tracing_def tracing_Init_def tracing_settings_def NewWithOptions_def cache_options_def Let_def
      split: option.splits)

text \<open>
  The edge starts exactly when the configuration loads, the surroundings allow it and the predictor is not too large.
  The last is not validated: with a larger one the process neither serves nor reports an error.
\<close>

lemma edge_start_iff:
  "(\<exists>proc. edge_start dk se = Inr (Some proc)) \<longleftrightarrow>
     (\<exists>cfg. config_Load (seConfig se) (seArgs se) = Inr cfg \<and> can_start se cfg \<and> predictor_fits cfg)"
proof -
  have "(\<exists>proc. edge_start dk se = Inr (Some proc)) \<longleftrightarrow> can_start se cfg \<and> predictor_fits cfg"
    if "config_Load (seConfig se) (seArgs se) = Inr cfg" for cfg
    using app_handler_returns [of cfg] that
    by (auto simp: can_start_iff [where l = "SetLevel log_New (cfLogLevel cfg)" and dk = dk] edge_start_def
        split: sum.splits option.splits)
  then show ?thesis by (auto simp: edge_start_def split: sum.splits)
qed

lemma edge_start_hangs:
  "config_Load (seConfig se) (seArgs se) = Inr cfg \<Longrightarrow> can_start se cfg \<Longrightarrow> \<not> predictor_fits cfg \<Longrightarrow> edge_start dk se = Inr None"
  using app_handler_returns [of cfg]
  by (auto simp: can_start_iff [where l = "SetLevel log_New (cfLogLevel cfg)" and dk = dk] edge_start_def split: option.splits)

definition large_env :: cfgEnv where
  "large_env = demo_cfgEnv\<lparr>ceParseInt0 := (\<lambda>s. Some 300000000)\<rparr>"

definition large_args :: "string list" where
  "large_args = [''-control-plane=http://c'', ''-predictor'', ''-predictor-capacity=300000000'']"

lemma config_accepts_large_predictor: "\<exists>cfg. config_Load large_env large_args = Inr cfg \<and> \<not> predictor_fits cfg"
proof -
  have "map_sum id (\<lambda>c. (cfPredictorEnabled c, cfPredictorCapacity c)) (config_Load large_env large_args) = Inr (True, 300000000)"
    by code_simp
  then obtain cfg where "config_Load large_env large_args = Inr cfg" "cfPredictorEnabled cfg" "cfPredictorCapacity cfg = 300000000"
    by (cases "config_Load large_env large_args") auto
  then show ?thesis by (auto simp: predictor_fits_def)
qed

section \<open>A started edge answers\<close>

definition answers_single :: "diskEnv \<Rightarrow> CDN \<Rightarrow> bool" where
  "answers_single dk h \<longleftrightarrow>
     (\<forall>ev h' r. heDisk ev = dk \<longrightarrow> (cdn_step (heXX ev) dk)\<^sup>*\<^sup>* h h' \<longrightarrow>
        (\<exists>w' h''. ServeHTTP ev h' new_respw r = Some (w', h'') \<and> rwSent w' \<noteq> None))"

definition answers_tenants :: "diskEnv \<Rightarrow> MultiTenantCDN \<Rightarrow> bool" where
  "answers_tenants dk h \<longleftrightarrow>
     (\<forall>ev h' r. heDisk ev = dk \<longrightarrow> (mt_step (heXX ev) dk)\<^sup>*\<^sup>* h h' \<longrightarrow>
        (\<exists>w' h''. mt_ServeHTTP ev h' new_respw r = Some (w', h'') \<and> rwSent w' \<noteq> None))"

lemma init_answers_single:
  assumes "cdn_init dk h"
  shows "answers_single dk h"
  unfolding answers_single_def
proof (intro allI impI)
  fix ev :: hEnv and h' r assume dk: "heDisk ev = dk" and run: "(cdn_step (heXX ev) dk)\<^sup>*\<^sup>* h h'"
  have "cdn_inv (heXX ev) (heDisk ev) h'" unfolding dk using cdn.run_inv [OF cdn.inv_init [OF assms] run] .
  from ServeHTTP_returns [OF this, of new_respw r] show "\<exists>w' h''. ServeHTTP ev h' new_respw r = Some (w', h'') \<and> rwSent w' \<noteq> None"
    by (auto simp: served_def elim!: returnsE)
qed

lemma init_answers_tenants:
  assumes "mt_init dk h"
  shows "answers_tenants dk h"
  unfolding answers_tenants_def
proof (intro allI impI)
  fix ev :: hEnv and h' r assume dk: "heDisk ev = dk" and run: "(mt_step (heXX ev) dk)\<^sup>*\<^sup>* h h'"
  have core: "cdn_core (heXX ev) (heDisk ev) h'" unfolding dk using mt.run_inv [OF mt.inv_init [OF assms] run] .
  show "\<exists>w' h''. mt_ServeHTTP ev h' new_respw r = Some (w', h'') \<and> rwSent w' \<noteq> None"
  proof (cases "mt_target h' r")
    case None
    from mt_ServeHTTP_refused [OF None, of new_respw ev] show ?thesis by auto
  next
    case (Some d)
    from mt_ServeHTTP_returns [OF core Some, of UNIV] show ?thesis by (auto simp: mt_served_def elim!: returnsE)
  qed
qed

end
