(* ===== verification/Spec2Isabelle.thy ===== *)
theory Spec2Isabelle
  imports CdnServe MultiTenant CpApi Balancer CpProcess Upgrade EdgeStart
begin

text \<open>
  A verification of \<open>cdn-edge\<close>, a content delivery network in Go: an edge server (a caching reverse proxy, single-
  or multi-tenant) and the control plane that configures a fleet of edges. The Go functions are translated into
  executable HOL functions, one per function or method and under its name where HOL allows it; the
  theorems below the definitions say what makes them correct.

  \<^bold>\<open>The program and its model.\<close> A request enters an edge through the stack of \<open>main.go\<close>: access log, request
  metrics, tracing, rate limiter, CORS, compression, and then one of two handlers. \<open>handler/handler.go\<close> (single tenant) and
  \<open>handler/multitenant.go\<close> look the request up in the cache of \<open>cache/\<close>, coalesce concurrent misses with
  the stampede lock, fetch through \<open>proxy/\<close> (single flight, circuit breaker, balancer, health checks), stream the
  body while it is cached, and answer ranges and conditional requests. Administrative endpoints purge, warm and
  report. The control plane keeps tenants, domains, rules and edges in a store, serves an API over it, pushes snapshots and purges
  to the edges (which also poll), collects analytics and manages certificates.

  \<^item> Prelude: \<open>GoBase\<close> (64-bit wrap-around, slices that panic as \<open>option\<close>, instants, the locale of
    reachable states), \<open>GoStrings\<close> (packages \<open>strings\<close>, \<open>strconv\<close>, \<open>path\<close>), \<open>GoHttp\<close> (headers, requests, response
    writers), \<open>GoWriter\<close> (response writers as sequences of calls; locales for wrappers), \<open>GoFloat\<close> (rounding of \<open>float64\<close>).
  \<^item> \<open>cache/\<close>: \<open>TinyLFU\<close> (\<open>tinylfu.go\<close>), \<open>HeaderCodec\<close> (\<open>headers.go\<close>), \<open>LruShard\<close>, \<open>DiskTier\<close>, \<open>EdgeCache\<close>,
    \<open>CacheKey\<close> (\<open>cache.go\<close>), \<open>Predictor\<close> (\<open>predictor.go\<close>), \<open>Streaming\<close> (\<open>streaming.go\<close>), \<open>Stampede\<close> (\<open>stampede.go\<close>).
  \<^item> \<open>proxy/\<close>: \<open>Circuit\<close> (\<open>circuit.go\<close>), \<open>Balancer\<close> (\<open>balancer.go\<close>, \<open>healthcheck.go\<close>), \<open>Origin\<close> (\<open>origin.go\<close>).
  \<^item> \<open>handler/\<close>: \<open>ByteRange\<close> (\<open>range.go\<close>), \<open>CacheControl\<close>, \<open>CdnHandler\<close> and \<open>CdnServe\<close> (\<open>handler.go\<close>: definitions, then
    theorems), \<open>MultiTenant\<close> (\<open>multitenant.go\<close>, over the records of \<open>TenantData\<close>), \<open>Warm\<close> (\<open>warm.go\<close>).
  \<^item> Edge middlewares and process: \<open>RateLimit\<close>, \<open>Compress\<close>, \<open>CorsRedirect\<close> (\<open>middleware/\<close>), \<open>Histogram\<close> and \<open>Admin\<close>
    (\<open>metrics/\<close>, \<open>purge/\<close>, \<open>mountAdmin\<close>), \<open>AccessLog\<close> (\<open>logging/\<close>), \<open>Tracing\<close>, \<open>EdgeConfig\<close> (\<open>config/\<close>), \<open>Handshake\<close>
    (\<open>handshake/\<close>), \<open>Upgrade\<close>, \<open>EdgeProcess\<close> and \<open>EdgeStart\<close> (\<open>main.go\<close>: requests and shutdown, then the start).
  \<^item> \<open>controlplane/\<close>: \<open>CpStore\<close>, \<open>CpApi\<close>, \<open>CpSync\<close>, \<open>Analytics\<close>, \<open>Certs\<close>, \<open>CpProcess\<close> (\<open>cmd/main.go\<close>).
  \<^item> This theory: what spans the control plane and the edge, and the command line and the answer.

  \<^bold>\<open>How code becomes HOL.\<close> A struct is a record, a map a partial function, an error a value of a sum or option type. A
  function that can panic, or whose loop can run for ever, has an option type, and the theorems say when the result is \<open>Some\<close>.
  \<open>int\<close>, \<open>int64\<close> and \<open>time.Duration\<close> are integers with \<open>wrap64\<close> written at the operations that can overflow;
  hashes, sketches and filters are words of their width. \<open>float64\<close> values are rationals, rounded to 53 bits by \<open>fl\<close> after
  every operation; infinities, NaN and subnormal numbers exist only in the configuration. Strings are lists of bytes. A loop
  over a Go map takes the order of its keys as an argument, and theorems hold for every order that visits each key.

  \<^bold>\<open>Concurrency.\<close> Handlers and the operations under one lock are sequential functions. Where the interleaving itself is the point there
  is a step relation whose steps are the locked sections, channel operations or atomic accesses of the code: \<open>Stampede\<close>
  (waiters and fetchers), \<open>Origin\<close> (single flight), \<open>Streaming\<close> (writer and readers), \<open>Handshake\<close> (accept loop, workers,
  closing). Invariants are proved by rule induction over the reachable states.

  \<^bold>\<open>Parameters.\<close> Code outside the repository is an argument, with what is relied on as a named hypothesis that a witness
  instantiates: xxhash, SHA-256, gob, zstd, brotli and gzip (their round trips), JSON, the regular parsers of floats, durations and
  URLs, X.509 and ACME, the clock, random bytes, file system and network outcomes, Unicode case folding. No bound on time or fuel is
  assumed: recursion is structural or has a measure, and loops that may not end are \<open>partial_function\<close>, whose termination
  is proved where the code guarantees it and refuted where it does not.

  \<^bold>\<open>What is shown.\<close>
  \<^item> Cache: any sequence of operations is safe, keeps its bounds and counts exactly; what was put is what is got; the
    shard refines an abstract bounded LRU list; the disk format round-trips; the frequency sketch never undercounts; keys mean
    what they document.
  \<^item> Concurrency: one fetcher per key, waiters are released and agree with it; every reader of a stream sees a prefix; every accepted
    connection is delivered or closed once, and after \<open>Close\<close> everything ends.
  \<^item> Handlers: every request is answered, a live entry without contacting the origin, a miss with what the origin sent; tenants are
    isolated; ranges are exact; directives of Cache-Control are read as documented; the breaker refines its state machine.
  \<^item> Edge process: compression is undone by the client's decoder, the rate limit holds over every run, each request is counted and
    logged once with the status sent, administration needs the key, a configuration is accepted exactly when it is valid, an upgrade hands over
    the socket.
  \<^item> Control plane: the store keeps its references, the snapshot is exact, routes are authorised, pushes and purges reach every active edge and
    report truthfully, analytics are exact, certificates survive restarts and are renewed.
  \<^item> Spanning: a domain created through the API is routed by an edge after its next poll; an edge whose configuration loads starts and
    answers every request.

  Several theorems and lemmas state defects instead: among them, warmed entries that no request finds, a purge that leaves the disk tier,
  a failed renewal that is never retried, a dead child taken for a ready one, connections lost in the inbox of a closed listener.

  \<^bold>\<open>Not modelled.\<close> The static files of the dashboard; the OpenTelemetry exporter and the gRPC connection behind \<open>tracing\<close>; sockets, signals
  and the \<open>net/http\<close> server itself (timeouts, keep-alive, flushing), which the sources only call; the socket option constants of
  \<open>upgrade/sockopt_unix.go\<close>; buffer pools and the text layout of the Prometheus page, which carry no decision; the tickers that
  call \<open>cleanup\<close>, \<open>flushStats\<close>, \<open>checkRenewals\<close>, \<open>Rotate\<close> and \<open>poll\<close>, whose calls are steps of the
  run relations or operations of their own.
\<close>

section \<open>From the control plane to the edge\<close>

lemma handleDomains_created:
  assumes "handleDomains ev sv r = ((201, BDomain d), sv')" and "visits (aeDorder ev) (sdDomains (stData (svStore sv)))"
  shows "store_step (svStore sv) (svStore sv') \<and> sdDomains (stData (svStore sv')) (dmID d) = Some d \<and> dmActive d \<and>
     dmTenantID d \<in> dom (sdTenants (stData (svStore sv))) \<and> sdTenants (stData (svStore sv')) = sdTenants (stData (svStore sv)) \<and>
     store_Version (svStore sv') = wrap64 (store_Version (svStore sv) + 1)"
proof -
  from assms(1) obtain e where post: "aqMethod r \<noteq> ''GET''" "aqMethod r = ''POST''" and e: "aeDomain ev (aqBody r) = Some e"
    and req: "\<not> (dmHostname e = [] \<or> dmOriginURL e = [] \<or> dmTenantID e = [])"
    by (auto simp: handleDomains_def writeJSON_def methodNotAllowed_def split: if_splits option.splits)
  obtain res s where c: "CreateDomain (aeStore ev) (aeDorder ev) (svStore sv) e = (res, s)" by fastforce
  with assms(1) post e req have res: "res = Inr (d, None)" "svStore sv' = s"
    by (auto simp: handleDomains_def writeJSON_def Let_def split: sum.splits option.splits)
  have "s = store_apply (aeStore ev) (OpCreateDomain (aeDorder ev) e) (svStore sv)" using c by simp
  moreover have "op_ok (OpCreateDomain (aeDorder ev) e) (svStore sv)" using assms(2) by simp
  ultimately have "store_step (svStore sv) s" unfolding store_step_def by blast
  moreover have "d = new_domain (aeStore ev) e" "sdTenants (stData (svStore sv)) (dmTenantID e) \<noteq> None"
    "sdDomains (stData s) = (sdDomains (stData (svStore sv)))(dmID d \<mapsto> d)" "sdTenants (stData s) = sdTenants (stData (svStore sv))"
    "store_Version s = wrap64 (store_Version (svStore sv) + 1)"
    using c res(1) by (auto simp: CreateDomain_def Let_def case_prod_unfold store_Version_def split: option.splits if_splits)
  ultimately show ?thesis using res(2) by (auto simp: new_domain_def)
qed

lemma poll_installs:
  assumes "\<not> neBadURL net (cpControlPlaneURL p @ ''/api/v1/config'')" and "\<And>q. neDo net q = DoResponse 200 hdr bd"
    and "read_limited (10 * 2 ^ 20) bd = Some b" and "json b = Some cfg" and "cpLastVersion p < ecVersion cfg"
  shows "poll json net p h = (p\<lparr>cpLastVersion := ecVersion cfg\<rparr>, UpdateConfig h cfg)"
  using assms by (simp add: poll_def Let_def)

text \<open>
  C27. A domain created through the API is served by the edge after its next poll. When the control
  plane has answered 201 with a domain of an active tenant, and an edge that has not seen a newer version
  polls and receives the snapshot (JSON decoding what was encoded), the edge's handler routes
  the host name to exactly that domain.
\<close>

theorem new_domain_reaches_edge:
  assumes "reachable store_init store_step (svStore sv)" and "visits (aeDorder ev) (sdDomains (stData (svStore sv)))"
    and "handleDomains ev sv r = ((201, BDomain d), sv')"
    and "sdTenants (stData (svStore sv)) (dmTenantID d) = Some t" and "tnActive t"
    and "cpLastVersion p \<le> store_Version (svStore sv)" and "in_int64 (store_Version (svStore sv) + 1)"
    and "visits dorder (sdDomains (stData (svStore sv')))" and "visits rorder (sdCacheRules (stData (svStore sv')))"
    and "\<not> neBadURL net (cpControlPlaneURL p @ ''/api/v1/config'')" and "\<And>q. neDo net q = DoResponse 200 hdr bd"
    and "read_limited (10 * 2 ^ 20) bd = Some b" and "json b = Some (BuildEdgeConfig sev dorder rorder (svStore sv'))"
  shows "lookupDomain (snd (poll json net p h)) (dmHostname d) = Some d \<and> dmActive d"
proof -
  note C = handleDomains_created [OF assms(3,2)]
  have r': "reachable store_init store_step (svStore sv')" using C by (intro reachable.step [OF assms(1)]) blast
  let ?cfg = "BuildEdgeConfig sev dorder rorder (svStore sv')"
  note exact = snapshot_exact [OF store.reachable_inv [OF r'] assms(8,9), of sev]
  have "ecDomains ?cfg (dmHostname d) = Some d" using exact C assms(4,5) by fastforce
  moreover have "cpLastVersion p < ecVersion ?cfg" using exact C assms(6,7) by (auto simp: wrap64_id)
  note poll_installs [where json = json and cfg = ?cfg, OF assms(10,11,12,13) this]
  ultimately show ?thesis using C by (simp add: lookupDomain_def UpdateConfig_def)
qed

theorem new_domain_reaches_edge_witness:
  "\<exists>c :: Cache. \<exists>d sv'. handleDomains demo_apiEnv demo_server (demo_apiReq ''POST'' ''/api/v1/domains'' ''secret'') = ((201, BDomain d), sv') \<and>
     lookupDomain (snd (poll (\<lambda>_. Some (BuildEdgeConfig demo_storeEnv [''41''] [] (svStore sv'))) demo_net (NewConfigPoller [] [])
       (NewMultiTenant c demo_origin 0))) ''a.org'' = Some d"
proof -
  let ?r = "demo_apiReq ''POST'' ''/api/v1/domains'' ''secret''"
  obtain d sv' where h: "handleDomains demo_apiEnv demo_server ?r = ((201, BDomain d), sv')" and d: "dmTenantID d = ''41''" "dmHostname d = ''a.org''"
    and doms: "dom (sdDomains (stData (svStore sv'))) = {''41''}" and rules: "sdCacheRules (stData (svStore sv')) = Map.empty"
    by (simp add: handleDomains_def demo_apiReq_def demo_apiEnv_def demo_domain_def demo_server_def api_New_def CreateDomain_def demo_store_data
        all_domains_def save_def demo_storeEnv_def new_domain_def genID_def hex_EncodeToString_def hex_digit_def writeJSON_def empty_storeData_def
        map_filter_simps notifyConfigChange_def Let_def)
  have s: "svStore demo_server = demo_store" by (simp add: demo_server_def api_New_def)
  have v: "visits (aeDorder demo_apiEnv) (sdDomains (stData (svStore demo_server)))"
    by (simp add: visits_def demo_apiEnv_def s demo_store_data empty_storeData_def)
  obtain t where t: "sdTenants (stData (svStore demo_server)) (dmTenantID d) = Some t" "tnActive t" by (simp add: s demo_store_data d)
  have ver: "cpLastVersion (NewConfigPoller [] []) \<le> store_Version (svStore demo_server)" "in_int64 (store_Version (svStore demo_server) + 1)"
    by (simp_all add: s store_Version_def demo_store_data NewConfigPoller_def in_int64_def)
  obtain c where "cache_init demo_env c" by (rule demo_cache)
  have "lookupDomain (snd (poll (\<lambda>_. Some (BuildEdgeConfig demo_storeEnv [''41''] [] (svStore sv'))) demo_net (NewConfigPoller [] [])
       (NewMultiTenant c demo_origin 0))) (dmHostname d) = Some d"
    by (rule new_domain_reaches_edge [where dorder = "[''41'']" and rorder = "[]" and sev = demo_storeEnv and net = demo_net and hdr = "[]"
          and bd = "\<lparr>nbData = ''abcdef'', nbFails = False\<rparr>" and b = "''abcdef''", OF _ v h t ver, THEN conjunct1])
       (use demo_store_reachable in \<open>simp_all add: s visits_def doms rules demo_net_def read_limited_def\<close>)
  with h d(2) show ?thesis by auto
qed

section \<open>From the command line to the answer\<close>


text \<open>An edge with a control plane, tracing off and no disk tier, and a request it has no domain for.\<close>

definition demo_start :: startEnv where
  "demo_start = \<lparr>seConfig = demo_cfgEnv, seArgs = [''-control-plane=http://c''], seExporterErr = Some ''refused'', seResourceErr = None,
     seMkdirFails = True, seDisk = demo_disk, seNow = (\<lambda>_. [])\<rparr>"


end
